(* ===== verification/Prelude.thy ===== *)
theory Prelude
  imports Complex_Main "HOL-Library.Word" "HOL-Library.Char_ord" "HOL-Library.List_Lexorder"
begin

text \<open>
  Shared vocabulary of the development: the machine integers and byte strings of the
  Rust sources, \<open>Result\<close> as a sum type with its early-return operator, the string
  functions of the Rust standard library that the sources call, and the generic lemmas
  the component theories use.

  A Rust \<open>String\<close> is its sequence of UTF-8 bytes; HOL's \<open>char\<close> is a byte, so a
  \<open>string\<close> here is the byte sequence, and what the sources do per Unicode character
  goes through \<open>str_chars\<close>, which groups the bytes into characters.
\<close>

section \<open>Proof collections\<close>

named_theorems result_simps \<open>equations of the early-return operator on results\<close>
named_theorems table_simps \<open>rows of a table after an insert, a delete or an update\<close>

section \<open>Machine integers and bytes\<close>

type_synonym u8 = "8 word"
type_synonym u32 = "32 word"
type_synonym u64 = "64 word"
type_synonym usize = "64 word"
type_synonym bytes = "u8 list"
type_synonym uuid = "128 word"

text \<open>\<open>u32::saturating_sub\<close> and \<open>usize::saturating_mul\<close>.\<close>

definition saturating_sub :: "'a::len word \<Rightarrow> 'a word \<Rightarrow> 'a word" where
  "saturating_sub a b = (if a < b then 0 else a - b)"

definition saturating_mul :: "'a::len word \<Rightarrow> 'a word \<Rightarrow> 'a word" where
  "saturating_mul a b =
     (if unat a * unat b < 2 ^ LENGTH('a) then a * b else - 1)"

lemma unat_saturating_sub: "unat (saturating_sub a b) = unat a - unat b"
  by (auto simp: saturating_sub_def word_less_nat_alt unat_sub_if' word_le_nat_alt)

lemma saturating_sub_eq_0_iff: "saturating_sub a b = 0 \<longleftrightarrow> a \<le> b"
  by (metis diff_is_0_eq unat_eq_zero unat_saturating_sub word_le_nat_alt)

lemma unat_minus_one_word: "unat (- 1 :: 'a::len word) = 2 ^ LENGTH('a) - 1"
  using unat_sub_if' [of 0 "1 :: 'a word"] by simp

lemma unat_saturating_mul:
  fixes a b :: "'a::len word"
  shows "unat (saturating_mul a b) = min (unat a * unat b) (2 ^ LENGTH('a) - 1)"
proof (cases "unat a * unat b < 2 ^ LENGTH('a)")
  case True
  then have "unat (a * b) = unat a * unat b"
    by (simp add: unat_word_ariths)
  with True show ?thesis
    by (simp add: saturating_mul_def)
next
  case False
  moreover have "0 < (2 :: nat) ^ LENGTH('a)"
    by simp
  ultimately have "\<not> unat a * unat b \<le> 2 ^ LENGTH('a) - 1"
    by linarith
  with False show ?thesis
    by (simp add: saturating_mul_def unat_minus_one_word min_def)
qed

text \<open>Big-endian bytes of a word (\<open>to_be_bytes\<close>) and back (\<open>from_be_bytes\<close>).\<close>

fun be_bytes :: "nat \<Rightarrow> nat \<Rightarrow> bytes" where
  "be_bytes 0 n = []"
| "be_bytes (Suc k) n = be_bytes k (n div 256) @ [word_of_nat n]"

definition be_value :: "bytes \<Rightarrow> nat" where
  "be_value bs = foldl (\<lambda>acc b. acc * 256 + unat b) 0 bs"

lemma length_be_bytes [simp]: "length (be_bytes k n) = k"
  by (induction k arbitrary: n) auto

lemma be_value_snoc [simp]: "be_value (bs @ [b]) = be_value bs * 256 + unat b"
  by (simp add: be_value_def)

lemma be_value_be_bytes: "be_value (be_bytes k n) = n mod 256 ^ k"
proof (induction k arbitrary: n)
  case 0
  show ?case by (simp add: be_value_def)
next
  case (Suc k)
  have "be_value (be_bytes (Suc k) n) = (n div 256) mod 256 ^ k * 256 + n mod 256"
    using Suc by (simp add: unat_of_nat)
  also have "\<dots> = n mod 256 ^ Suc k"
    by (simp add: mod_mult2_eq mult.commute)
  finally show ?case .
qed

lemma be_bytes_be_value: "length bs = k \<Longrightarrow> be_bytes k (be_value bs) = bs"
proof (induction k arbitrary: bs)
  case (Suc k)
  then obtain cs c where bs: "bs = cs @ [c]" and cs: "length cs = k"
    by (cases bs rule: rev_cases) auto
  have "(be_value cs * 256 + unat c) div 256 = be_value cs"
    using unsigned_less [of c, where 'a = nat] by simp
  moreover have "word_of_nat (be_value cs * 256 + unat c) = c"
  proof -
    have "(256 :: 8 word) = 0" by simp
    then have "word_of_nat (be_value cs) * (256 :: 8 word) = 0" by (simp only: mult_zero_right)
    then show ?thesis by simp
  qed
  ultimately show ?case
    using Suc.IH [OF cs] by (simp add: bs)
qed simp

lemma be_bytes_inject:
  "m < 256 ^ k \<Longrightarrow> n < 256 ^ k \<Longrightarrow> be_bytes k m = be_bytes k n \<longleftrightarrow> m = n"
  by (metis be_value_be_bytes mod_less)

text \<open>
  A 32-bit float where the sources only store, compare and clamp it: \<open>NaN\<close>, the
  infinities and the finite values.
\<close>

datatype f32 = FNaN | FNegInf | FPosInf | Fin rat

section \<open>Results\<close>

text \<open>
  \<open>Result<T, E>\<close> is the sum \<open>'e + 'a\<close> with the error on the left; \<open>and_then r f\<close> is
  the \<open>?\<close> operator: it goes on with the value, or returns the error early.
\<close>

definition and_then :: "'e + 'a \<Rightarrow> ('a \<Rightarrow> 'e + 'b) \<Rightarrow> 'e + 'b" where
  "and_then r f = (case r of Inl e \<Rightarrow> Inl e | Inr x \<Rightarrow> f x)"

definition unwrap_or :: "'a \<Rightarrow> 'a option \<Rightarrow> 'a" where
  "unwrap_or d x = (case x of Some v \<Rightarrow> v | None \<Rightarrow> d)"

lemma unwrap_or_simps [simp]: "unwrap_or d (Some x) = x" "unwrap_or d None = d"
  by (simp_all add: unwrap_or_def)

definition is_ok :: "'e + 'a \<Rightarrow> bool" where
  "is_ok r = (case r of Inl _ \<Rightarrow> False | Inr _ \<Rightarrow> True)"

definition ok_or :: "'e \<Rightarrow> 'a option \<Rightarrow> 'e + 'a" where
  "ok_or e r = (case r of None \<Rightarrow> Inl e | Some x \<Rightarrow> Inr x)"

lemma and_then_simps [simp, result_simps]:
  "and_then (Inl e) f = Inl e"
  "and_then (Inr x) f = f x"
  by (simp_all add: and_then_def)

lemma and_then_Inr_iff [result_simps]:
  "and_then r f = Inr y \<longleftrightarrow> (\<exists>x. r = Inr x \<and> f x = Inr y)"
  by (cases r) auto

lemma and_then_Inl_iff [result_simps]:
  "and_then r f = Inl e \<longleftrightarrow> r = Inl e \<or> (\<exists>x. r = Inr x \<and> f x = Inl e)"
  by (cases r) auto

lemma ok_or_simps [simp, result_simps]:
  "ok_or e None = Inl e"
  "ok_or e (Some x) = Inr x"
  by (simp_all add: ok_or_def)

lemma ok_or_Inr_iff [result_simps]: "ok_or e r = Inr x \<longleftrightarrow> r = Some x"
  by (cases r) auto

lemma is_ok_simps [simp]: "is_ok (Inl e) = False" "is_ok (Inr x) = True"
  by (simp_all add: is_ok_def)

lemma is_ok_iff: "is_ok r \<longleftrightarrow> (\<exists>x. r = Inr x)"
  by (cases r) auto

text \<open>A loop that pushes one fallible result per element and returns the first error.\<close>

fun collect_results :: "('a \<Rightarrow> 'e + 'b) \<Rightarrow> 'a list \<Rightarrow> 'e + 'b list" where
  "collect_results f [] = Inr []"
| "collect_results f (x # xs) =
     and_then (f x) (\<lambda>y. and_then (collect_results f xs) (\<lambda>ys. Inr (y # ys)))"

lemma collect_results_total:
  "(\<And>x. x \<in> set xs \<Longrightarrow> f x = Inr (g x)) \<Longrightarrow> collect_results f xs = Inr (map g xs)"
  by (induction xs) auto

lemma collect_results_append:
  "collect_results f (xs @ ys) =
     and_then (collect_results f xs)
       (\<lambda>us. and_then (collect_results f ys) (\<lambda>vs. Inr (us @ vs)))"
proof (induction xs)
  case Nil
  show ?case by (cases "collect_results f ys") auto
next
  case (Cons x xs)
  then show ?case
    by (cases "f x"; cases "collect_results f xs"; cases "collect_results f ys") auto
qed

lemma length_collect_results: "collect_results f xs = Inr ys \<Longrightarrow> length ys = length xs"
  by (induction xs arbitrary: ys) (auto simp: result_simps)

section \<open>Strings\<close>

text \<open>The bytes of a string (\<open>as_bytes\<close>).\<close>

definition as_bytes :: "string \<Rightarrow> bytes" where
  "as_bytes s = map (\<lambda>c. word_of_nat (of_char c)) s"

lemma as_bytes_inject [simp]: "as_bytes s = as_bytes t \<longleftrightarrow> s = t"
proof -
  have "inj (\<lambda>c. word_of_nat (of_char c) :: u8)"
  proof (rule injI)
    fix c d :: char
    assume *: "(word_of_nat (of_char c) :: u8) = word_of_nat (of_char d)"
    have b: "(of_char e :: nat) < 256" for e :: char
      using nat_of_char_less_256 [of e] by simp
    from arg_cong [OF *, of unat] b have "(of_char c :: nat) = of_char d"
      by (simp add: unat_of_nat)
    then show "c = d"
      by simp
  qed
  then show ?thesis
    by (simp add: as_bytes_def inj_map_eq_map)
qed

lemma as_bytes_append [simp]: "as_bytes (s @ t) = as_bytes s @ as_bytes t"
  by (simp add: as_bytes_def)

text \<open>
  A UTF-8 continuation byte has the form \<open>10xxxxxx\<close>; every other byte starts a
  character. \<open>str_chars\<close> is \<open>str::chars\<close>, each character as its bytes.
\<close>

definition is_continuation :: "char \<Rightarrow> bool" where
  "is_continuation c = (128 \<le> (of_char c :: nat) \<and> (of_char c :: nat) < 192)"

fun str_chars :: "string \<Rightarrow> string list" where
  "str_chars [] = []"
| "str_chars (c # s) =
     (case str_chars s of
        [] \<Rightarrow> [[c]]
      | g # gs \<Rightarrow> if is_continuation (hd g) then (c # g) # gs else [c] # g # gs)"

lemma concat_str_chars [simp]: "concat (str_chars s) = s"
  by (induction s) (auto split: list.splits)

lemma str_chars_nonempty: "g \<in> set (str_chars s) \<Longrightarrow> g \<noteq> []"
  by (induction s arbitrary: g) (auto split: list.splits if_splits)

lemma str_chars_eq_Nil [simp]: "str_chars s = [] \<longleftrightarrow> s = []"
  by (cases s) (auto split: list.splits)

definition take_chars :: "nat \<Rightarrow> string \<Rightarrow> string" where
  "take_chars n s = concat (take n (str_chars s))"

text \<open>The characters with the Unicode property \<open>White_Space\<close> (\<open>char::is_whitespace\<close>).\<close>

definition utf8 :: "nat list \<Rightarrow> string" where
  "utf8 ns = map char_of ns"

definition white_space :: "string list" where
  "white_space =
     [utf8 [9], utf8 [10], utf8 [11], utf8 [12], utf8 [13], utf8 [32],
      utf8 [194, 133], utf8 [194, 160], utf8 [225, 154, 128],
      utf8 [226, 128, 128], utf8 [226, 128, 129], utf8 [226, 128, 130],
      utf8 [226, 128, 131], utf8 [226, 128, 132], utf8 [226, 128, 133],
      utf8 [226, 128, 134], utf8 [226, 128, 135], utf8 [226, 128, 136],
      utf8 [226, 128, 137], utf8 [226, 128, 138], utf8 [226, 128, 168],
      utf8 [226, 128, 169], utf8 [226, 128, 175], utf8 [226, 129, 159],
      utf8 [227, 128, 128]]"

definition is_whitespace :: "string \<Rightarrow> bool" where
  "is_whitespace g = (g \<in> set white_space)"

text \<open>\<open>str::trim\<close>: white space is dropped at both ends.\<close>

definition str_trim :: "string \<Rightarrow> string" where
  "str_trim s =
     concat (rev (dropWhile is_whitespace (rev (dropWhile is_whitespace (str_chars s)))))"

text \<open>Trimming a given ASCII string by simplification.\<close>

lemma is_whitespace_ascii:
  "is_whitespace [c] \<longleftrightarrow> c \<in> {CHR 0x09, CHR 0x0A, CHR 0x0B, CHR 0x0C, CHR 0x0D, CHR 0x20}"
  by (simp add: is_whitespace_def white_space_def utf8_def char_of_def bit_0)

lemma is_continuation_digits: "is_continuation c \<longleftrightarrow> digit7 c \<and> \<not> digit6 c"
  by (cases c) (auto simp: is_continuation_def of_char_def)

lemmas str_trim_eval = str_trim_def is_whitespace_ascii is_continuation_digits

text \<open>\<open>str::lines\<close>: split at \<open>\n\<close>, a final line ending adds no line, and one \<open>\r\<close>
  before the line feed is dropped.\<close>

fun split_lf :: "string \<Rightarrow> string list" where
  "split_lf [] = [[]]"
| "split_lf (c # s) =
     (if c = CHR 0x0A then [] # split_lf s
      else (case split_lf s of [] \<Rightarrow> [[c]] | l # ls \<Rightarrow> (c # l) # ls))"

definition strip_cr :: "string \<Rightarrow> string" where
  "strip_cr l = (if l \<noteq> [] \<and> last l = CHR 0x0D then butlast l else l)"

definition str_lines :: "string \<Rightarrow> string list" where
  "str_lines s =
     (let ls = split_lf s
      in map strip_cr (butlast ls) @ (if last ls = [] then [] else [last ls]))"

text \<open>\<open>[T]::join\<close> on strings.\<close>

fun str_join :: "string \<Rightarrow> string list \<Rightarrow> string" where
  "str_join sep [] = []"
| "str_join sep [s] = s"
| "str_join sep (s # t # ts) = s @ sep @ str_join sep (t # ts)"

lemma str_join_empty_sep [simp]: "str_join [] ss = concat ss"
  by (induction "[] :: string" ss rule: str_join.induct) auto

text \<open>\<open>str::contains\<close> on a string pattern.\<close>

fun str_contains :: "string \<Rightarrow> string \<Rightarrow> bool" where
  "str_contains [] p = (p = [])"
| "str_contains (c # s) p = (take (length p) (c # s) = p \<or> str_contains s p)"

lemma str_contains_iff: "str_contains s p \<longleftrightarrow> (\<exists>u v. s = u @ p @ v)"
proof (induction s)
  case Nil
  show ?case by auto
next
  case (Cons c s)
  have "take (length p) (c # s) = p \<longleftrightarrow> (\<exists>v. c # s = p @ v)"
    by (metis append_eq_conv_conj append_take_drop_id)
  moreover have "(\<exists>u v. c # s = u @ p @ v) \<longleftrightarrow>
      (\<exists>v. c # s = p @ v) \<or> (\<exists>u v. s = u @ p @ v)"
    by (metis append_Cons append_Nil list.exhaust list.inject)
  ultimately show ?case
    using Cons by simp
qed

section \<open>Lists\<close>

lemma last_in_filter: "filter P xs \<noteq> [] \<Longrightarrow> P (last (filter P xs))"
  using last_in_set by fastforce

lemma find_Some_in_set: "find P xs = Some x \<Longrightarrow> x \<in> set xs \<and> P x"
  by (auto simp: find_Some_iff in_set_conv_nth)

lemma find_map_of_key:
  "find (\<lambda>p. fst p = k) ps = map_option (Pair k) (map_of ps k)"
  by (induction ps) auto

lemma map_of_filter_key:
  "map_of (filter (\<lambda>p. fst p \<noteq> k) ps) = (map_of ps)(k := None)"
  by (induction ps) (auto simp: fun_eq_iff)

text \<open>\<open>ORDER BY\<close> is the stable sort of the library; it commutes with reading the rows and
  leaves a new largest element at the end.\<close>

lemma insort_key_map: "map g (insort_key (\<lambda>a. f (g a)) x xs) = insort_key f (g x) (map g xs)"
  by (induction xs) auto

lemma sort_key_map: "sort_key f (map g xs) = map g (sort_key (\<lambda>a. f (g a)) xs)"
  by (induction xs) (auto simp: insort_key_map)

lemma insort_key_cong_set:
  "f x = g x \<Longrightarrow> (\<And>y. y \<in> set ys \<Longrightarrow> f y = g y) \<Longrightarrow> insort_key f x ys = insort_key g x ys"
  by (induction ys) auto

lemma sort_key_cong_set:
  "(\<And>x. x \<in> set xs \<Longrightarrow> f x = g x) \<Longrightarrow> sort_key f xs = sort_key g xs"
  by (induction xs) (auto intro: insort_key_cong_set)

lemma insort_key_snoc: "f y \<le> f x \<Longrightarrow> insort_key f y (zs @ [x]) = insort_key f y zs @ [x]"
  by (induction zs) auto

lemma sort_key_snoc:
  "(\<And>y. y \<in> set xs \<Longrightarrow> f y \<le> f x) \<Longrightarrow> sort_key f (xs @ [x]) = sort_key f xs @ [x]"
  by (induction xs) (auto simp: insort_key_snoc)

lemma fold_max_Max: "fold max xs (x :: 'a::linorder) = Max (insert x (set xs))"
  by (metis Max.set_eq_fold list.simps(15))

lemma sorted_wrt_take_drop:
  "sorted_wrt P xs \<Longrightarrow> x \<in> set (take n xs) \<Longrightarrow> y \<in> set (drop n xs) \<Longrightarrow> P x y"
  by (metis append_take_drop_id sorted_wrt_append)

section \<open>Ordered maps\<close>

text \<open>
  A \<open>BTreeMap\<close> is the association list of its entries in ascending key order;
  strings compare by their bytes, as in Rust.
\<close>

type_synonym ('k, 'v) btree_map = "('k \<times> 'v) list"

fun bt_insert :: "'k::linorder \<Rightarrow> 'v \<Rightarrow> ('k, 'v) btree_map \<Rightarrow> ('k, 'v) btree_map" where
  "bt_insert k v [] = [(k, v)]"
| "bt_insert k v (e # m) =
     (if fst e < k then e # bt_insert k v m
      else if fst e = k then (k, v) # m
      else (k, v) # e # m)"

definition bt_remove :: "'k \<Rightarrow> ('k, 'v) btree_map \<Rightarrow> ('k, 'v) btree_map" where
  "bt_remove k m = filter (\<lambda>e. fst e \<noteq> k) m"

definition bt_ok :: "('k::linorder, 'v) btree_map \<Rightarrow> bool" where
  "bt_ok m = sorted_wrt (<) (map fst m)"

lemma map_of_bt_insert: "bt_ok m \<Longrightarrow> map_of (bt_insert k v m) = (map_of m)(k \<mapsto> v)"
  by (induction m) (auto simp: bt_ok_def fun_eq_iff)

lemma map_of_bt_remove: "map_of (bt_remove k m) = (map_of m)(k := None)"
  by (simp add: bt_remove_def map_of_filter_key)

lemma keys_bt_insert: "fst ` set (bt_insert k v m) = insert k (fst ` set m)"
  by (induction m) auto

lemma bt_ok_Nil [simp]: "bt_ok []"
  by (simp add: bt_ok_def)

lemma bt_ok_insert: "bt_ok m \<Longrightarrow> bt_ok (bt_insert k v m)"
proof (induction m)
  case Nil
  show ?case by (simp add: bt_ok_def)
next
  case (Cons e m)
  have "\<forall>x \<in> fst ` set (bt_insert k v m). fst e < x" if "fst e < k"
    using Cons.prems that by (auto simp: keys_bt_insert bt_ok_def)
  with Cons show ?case
    by (fastforce simp: bt_ok_def)
qed

lemma bt_ok_remove: "bt_ok m \<Longrightarrow> bt_ok (bt_remove k m)"
  by (induction m) (auto simp: bt_ok_def bt_remove_def)

lemma bt_ok_distinct: "bt_ok m \<Longrightarrow> distinct (map fst m)"
  by (simp add: bt_ok_def strict_sorted_iff)

end
