(* ===== verification/Contracts.thy ===== *)
theory Contracts
  imports Prelude
begin

text \<open>
  The seam types of \<open>crates/mahi-contracts\<close>: compute modes and capability sets
  (\<open>types.rs\<close>), the error taxonomy (\<open>error.rs\<close>), the records the store persists
  (\<open>data.rs\<close>), the inference and tooling messages (\<open>compute.rs\<close>, \<open>tooling.rs\<close>),
  the agent events (\<open>agent.rs\<close>) and the bus envelope (\<open>connectivity.rs\<close>), with the
  functions those files define on them.

  A \<open>Uuid\<close> is its 128 bits; a \<open>DateTime<Utc>\<close> is its distance from the epoch in
  nanoseconds. What the sources draw from the clock or from the random generator is an
  argument of the functions that use it. A \<open>serde_json::Value\<close> is the \<open>json\<close>
  datatype, with objects as ordered maps.
\<close>

section \<open>JSON values\<close>

datatype json =
    JNull
  | JBool bool
  | JInt int
  | JFloat f32
  | JStr string
  | JArr "json list"
  | JObj "(string \<times> json) list"

fun json_get :: "json \<Rightarrow> string \<Rightarrow> json option" where
  "json_get (JObj m) k = map_of m k"
| "json_get _ k = None"

fun json_as_str :: "json \<Rightarrow> string option" where
  "json_as_str (JStr s) = Some s"
| "json_as_str _ = None"

text \<open>\<open>value["key"]\<close> and \<open>value[i]\<close>: \<open>Null\<close> where there is no such member.\<close>

definition json_at :: "json \<Rightarrow> string \<Rightarrow> json" where
  "json_at j k = (case json_get j k of Some v \<Rightarrow> v | None \<Rightarrow> JNull)"

fun json_nth :: "json \<Rightarrow> nat \<Rightarrow> json" where
  "json_nth (JArr vs) i = (if i < length vs then vs ! i else JNull)"
| "json_nth _ i = JNull"

fun json_as_u64 :: "json \<Rightarrow> u64 option" where
  "json_as_u64 (JInt n) = (if 0 \<le> n \<and> n < 2 ^ 64 then Some (word_of_int n) else None)"
| "json_as_u64 _ = None"

fun json_as_array :: "json \<Rightarrow> json list option" where
  "json_as_array (JArr vs) = Some vs"
| "json_as_array _ = None"

fun json_as_bool :: "json \<Rightarrow> bool option" where
  "json_as_bool (JBool b) = Some b"
| "json_as_bool _ = None"

definition member_str :: "json \<Rightarrow> string \<Rightarrow> string option" where
  "member_str j k = Option.bind (json_get j k) json_as_str"

definition member_array :: "json \<Rightarrow> string \<Rightarrow> json list option" where
  "member_array j k = Option.bind (json_get j k) json_as_array"

fun json_is_object :: "json \<Rightarrow> bool" where
  "json_is_object (JObj m) = True"
| "json_is_object _ = False"

definition json_obj :: "(string \<times> json) list \<Rightarrow> json" where
  "json_obj es = JObj (foldl (\<lambda>m e. bt_insert (fst e) (snd e) m) [] es)"

fun json_remove :: "string \<Rightarrow> json \<Rightarrow> json" where
  "json_remove k (JObj m) = JObj (bt_remove k m)"
| "json_remove k j = j"

fun json_insert :: "string \<Rightarrow> json \<Rightarrow> json \<Rightarrow> json" where
  "json_insert k v (JObj m) = JObj (bt_insert k v m)"
| "json_insert k v j = j"

section \<open>types.rs\<close>

type_synonym datetime = int

definition timestamp_millis :: "datetime \<Rightarrow> int" where
  "timestamp_millis t = t div 1000000"

datatype compute_mode = OnDevice | MacLan | MacRemote | Hosted

definition requires_network :: "compute_mode \<Rightarrow> bool" where
  "requires_network m = (\<not> (case m of OnDevice \<Rightarrow> True | _ \<Rightarrow> False))"

record capability_set =
  cap_vision :: bool
  cap_tool_calling :: bool
  cap_min_context_window :: u32
  cap_code_gen :: bool
  cap_thinking :: bool

definition caps_none :: capability_set where
  "caps_none = \<lparr>cap_vision = False, cap_tool_calling = False, cap_min_context_window = 0,
     cap_code_gen = False, cap_thinking = False\<rparr>"

definition missing_from :: "capability_set \<Rightarrow> capability_set \<Rightarrow> capability_set" where
  "missing_from self other =
     \<lparr>cap_vision = cap_vision self \<and> \<not> cap_vision other,
      cap_tool_calling = cap_tool_calling self \<and> \<not> cap_tool_calling other,
      cap_min_context_window =
        saturating_sub (cap_min_context_window self) (cap_min_context_window other),
      cap_code_gen = cap_code_gen self \<and> \<not> cap_code_gen other,
      cap_thinking = cap_thinking self \<and> \<not> cap_thinking other\<rparr>"

definition satisfied_by :: "capability_set \<Rightarrow> capability_set \<Rightarrow> bool" where
  "satisfied_by self other =
     ((\<not> cap_vision self \<or> cap_vision other)
      \<and> (\<not> cap_tool_calling self \<or> cap_tool_calling other)
      \<and> (\<not> cap_code_gen self \<or> cap_code_gen other)
      \<and> (\<not> cap_thinking self \<or> cap_thinking other)
      \<and> cap_min_context_window self \<le> cap_min_context_window other)"

datatype model_source = SrcOnDevice | SrcMacLocal | SrcMacRemote | SrcHosted string

record perf_profile =
  ttft_ms :: u32
  tok_per_sec :: f32

definition perf_default :: perf_profile where
  "perf_default = \<lparr>ttft_ms = 0, tok_per_sec = Fin 0\<rparr>"

datatype limitation_label =
    NoLocalRepo
  | MaxImages u8
  | MaxContextWindow u32
  | NoComplexCodeGen
  | CustomLimit string

record model_descriptor =
  md_id :: string
  md_display_name :: string
  md_context_window :: u32
  md_capabilities :: capability_set
  md_limitations :: "limitation_label list"
  md_size_bytes :: "u64 option"
  md_quantization :: "string option"
  md_source :: model_source
  md_perf_profile :: perf_profile

record mode_capability =
  mc_available :: bool
  mc_models :: "model_descriptor list"
  mc_tool_ids :: "string list"

record device_capability_snapshot =
  dcs_device_id :: uuid
  dcs_timestamp :: datetime
  dcs_modes :: "compute_mode \<rightharpoonup> mode_capability"

section \<open>connectivity.rs\<close>

datatype channel_id =
  Control | Inference | Sync | Approval | StreamVideo | Input | FileXfr | Audio

fun channel_code :: "channel_id \<Rightarrow> u8" where
  "channel_code Control = 1"
| "channel_code Inference = 2"
| "channel_code Sync = 3"
| "channel_code Approval = 4"
| "channel_code StreamVideo = 5"
| "channel_code Input = 6"
| "channel_code FileXfr = 7"
| "channel_code Audio = 8"

lemma channel_code_inject: "channel_code a = channel_code b \<longleftrightarrow> a = b"
  by (cases a; cases b) simp_all

text \<open>Channels are ordered by their wire code, the priority order of the bus.\<close>

instantiation channel_id :: linorder
begin

definition less_eq_channel_id :: "channel_id \<Rightarrow> channel_id \<Rightarrow> bool" where
  "less_eq_channel_id a b = (channel_code a \<le> channel_code b)"

definition less_channel_id :: "channel_id \<Rightarrow> channel_id \<Rightarrow> bool" where
  "less_channel_id a b = (channel_code a < channel_code b)"

instance
  by standard
    (auto simp: less_eq_channel_id_def less_channel_id_def channel_code_inject less_le)

end

record multiplexed_envelope =
  env_channel :: channel_id
  env_seq_no :: u64
  env_session_id :: uuid
  env_payload_type :: string
  env_payload_bytes :: bytes

section \<open>error.rs\<close>

datatype inference_error =
    NoCapableProvider
  | PinViolation compute_mode
  | ProviderError string bool
  | ThermalThrottle

datatype tool_error =
    ToolNotFound string
  | UnavailableInMode string compute_mode
  | SchemaValidation string
  | SandboxViolation
  | ToolExecution string

datatype store_error =
    StoreNotFound uuid
  | StoreBackend string
  | StoreEncryption string
  | StoreSerialization string

datatype connectivity_error =
    PeerUnreachable uuid
  | ChannelClosed channel_id
  | TransportError string

datatype permission_error =
    PermissionDenied string "string list"
  | HardRuleBlocked string
  | PermissionBackend string

datatype contract_error =
    InferenceErr inference_error
  | ToolErr tool_error
  | StoreErr store_error
  | ConnectivityErr connectivity_error
  | PermissionErr permission_error
  | CancelledErr
  | OtherErr string

section \<open>tooling.rs\<close>

datatype tool_category = BuiltIn | Connector | CodingAgent | ComputerUse

datatype destructive_level = Low | High | Critical

record tool_descriptor =
  td_id :: string
  td_display_name :: string
  td_category :: tool_category
  td_available_in_modes :: "compute_mode list"
  td_required_permissions :: "string list"
  td_input_schema :: json
  td_output_schema :: json
  td_requires_approval :: bool
  td_destructive_level :: destructive_level

record tool_invocation =
  ti_invocation_id :: uuid
  ti_tool_id :: string
  ti_args :: json
  ti_session_id :: uuid
  ti_conversation_id :: uuid
  ti_message_id :: uuid
  ti_compute_mode :: compute_mode
  ti_trace_id :: uuid
  ti_stream :: bool

datatype tool_event =
    ToolChunk string
  | ToolCitation string "string option" "string option"
  | ToolApprovalRequired uuid string destructive_level
  | ToolResult json bool
  | ToolEventError string bool
  | ToolCancelled

section \<open>data.rs\<close>

record conversation =
  conv_id :: uuid
  conv_space_id :: "uuid option"
  conv_title :: "string option"
  conv_created_at :: datetime
  conv_updated_at :: datetime
  conv_mode_at_creation :: compute_mode
  conv_system_prompt :: "string option"
  conv_persona_id :: "uuid option"
  conv_active_checkpoint_id :: "uuid option"

definition conversation_new :: "datetime \<Rightarrow> uuid \<Rightarrow> compute_mode \<Rightarrow> conversation" where
  "conversation_new now fresh mode =
     \<lparr>conv_id = fresh, conv_space_id = None, conv_title = None,
      conv_created_at = now, conv_updated_at = now, conv_mode_at_creation = mode,
      conv_system_prompt = None, conv_persona_id = None,
      conv_active_checkpoint_id = None\<rparr>"

datatype message_role = User | Assistant | Tool | System

datatype content_block =
    TextBlock string
  | ToolCallBlock string string json
  | ToolResultBlock string json
  | ArtifactRefBlock uuid
  | ImageBlock string string
  | ThinkingBlock string string

record message =
  msg_id :: uuid
  msg_conversation_id :: uuid
  msg_role :: message_role
  msg_content :: "content_block list"
  msg_model_id :: "string option"
  msg_mode :: compute_mode
  msg_created_at :: datetime
  msg_sequence_num :: int
  msg_approval_refs :: "uuid list"

definition message_text ::
  "datetime \<Rightarrow> uuid \<Rightarrow> uuid \<Rightarrow> message_role \<Rightarrow> string \<Rightarrow> compute_mode \<Rightarrow> int \<Rightarrow> message" where
  "message_text now fresh conversation role text mode sequence =
     \<lparr>msg_id = fresh, msg_conversation_id = conversation, msg_role = role,
      msg_content = [TextBlock text], msg_model_id = None, msg_mode = mode,
      msg_created_at = now, msg_sequence_num = sequence, msg_approval_refs = []\<rparr>"

fun block_text :: "content_block \<Rightarrow> string option" where
  "block_text (TextBlock t) = Some t"
| "block_text _ = None"

definition text_content :: "message \<Rightarrow> string" where
  "text_content m = str_join [] (List.map_filter block_text (msg_content m))"

datatype memory_kind = MemFact | MemPreference | MemProjectNote | MemSystem

record memory_record =
  mem_id :: uuid
  mem_space_id :: "uuid option"
  mem_kind :: memory_kind
  mem_content :: string
  mem_embedding_ref :: "uuid option"
  mem_source_message_id :: "uuid option"
  mem_created_at :: datetime
  mem_updated_at :: datetime
  mem_user_visible :: bool
  mem_user_confirmed :: bool

datatype skill_scope = ScopeGlobal | ScopeSpace uuid | ScopeUser uuid

record skill =
  skill_id :: uuid
  skill_slug :: string
  skill_scope :: skill_scope
  skill_source_markdown :: string
  skill_installed_by :: uuid
  skill_version :: string
  skill_created_at :: datetime
  skill_updated_at :: datetime

datatype task_status =
  TaskPending | TaskRunning | TaskAwaitingApproval | TaskCompleted | TaskCancelled | TaskFailed

record task_item =
  task_id :: uuid
  task_origin_device :: uuid
  task_assigned_device :: "uuid option"
  task_status :: task_status
  task_summary :: string
  task_capabilities_required :: "string list"
  task_created_at :: datetime
  task_updated_at :: datetime
  task_expires_at :: "datetime option"

record artifact =
  art_id :: uuid
  art_conversation_id :: "uuid option"
  art_kind :: string
  art_content_type :: string
  art_bytes :: bytes
  art_created_at :: datetime

record setting =
  set_key :: string
  set_value :: json
  set_updated_at :: datetime

record checkpoint =
  cp_id :: uuid
  cp_conversation_id :: uuid
  cp_captured_at :: datetime
  cp_mode_at_capture :: compute_mode
  cp_state :: json

datatype audit_event_type =
    AuToolCall | AuFileAccess | AuUiAction | AuSyncOp | AuPermissionChange
  | AuHardRuleBlock | AuApprovalWall

datatype audit_actor = ActUser | ActAgent | ActSystem

datatype audit_outcome = Allowed | Denied | OutcomePending

record audit_event =
  au_event_id :: uuid
  au_device_id :: uuid
  au_session_id :: "uuid option"
  au_event_type :: audit_event_type
  au_actor :: audit_actor
  au_resource_ref :: "string option"
  au_outcome :: audit_outcome
  au_metadata :: json
  au_timestamp :: datetime
  au_prev_hash :: string

datatype permission_subject = SubjTool string | SubjFeature string

datatype permission_tier = AllowOnce | AllowAlways | DenyTier

datatype access_level = ReadOnly | Click | Full

record permission_grant =
  pg_grant_id :: uuid
  pg_subject :: permission_subject
  pg_scope :: "string list"
  pg_tier :: permission_tier
  pg_access_level :: access_level
  pg_device_id :: uuid
  pg_prompt_text :: string
  pg_granted_at :: datetime
  pg_expires_at :: "datetime option"
  pg_revoked_at :: "datetime option"

section \<open>compute.rs\<close>

record thinking_config =
  budget_tokens :: u32

definition thinking_enabled :: thinking_config where
  "thinking_enabled = \<lparr>budget_tokens = 4096\<rparr>"

definition thinking_with_budget :: "u32 \<Rightarrow> thinking_config" where
  "thinking_with_budget b = \<lparr>budget_tokens = max b 1024\<rparr>"

definition reasoning_effort :: "thinking_config \<Rightarrow> string" where
  "reasoning_effort c =
     (if budget_tokens c \<le> 2048 then ''low''
      else if budget_tokens c \<le> 8192 then ''medium''
      else ''high'')"

record tool_spec =
  ts_id :: string
  ts_description :: string
  ts_input_schema :: json

record inference_request =
  req_request_id :: uuid
  req_messages :: "message list"
  req_tools :: "tool_spec list option"
  req_max_tokens :: "u32 option"
  req_temperature :: "f32 option"
  req_streaming_hint :: bool
  req_required_caps :: capability_set
  req_thinking :: "thinking_config option"

definition request_from_messages :: "uuid \<Rightarrow> message list \<Rightarrow> inference_request" where
  "request_from_messages fresh messages =
     \<lparr>req_request_id = fresh, req_messages = messages, req_tools = None,
      req_max_tokens = None, req_temperature = None, req_streaming_hint = True,
      req_required_caps = caps_none, req_thinking = None\<rparr>"

record tool_call_delta =
  tcd_call_id :: string
  tcd_tool_id :: string
  tcd_args_delta :: string

record thinking_delta =
  thd_text :: string
  thd_signature :: "string option"

datatype finish_reason = FrStop | FrToolCall | FrMaxTokens | FrCancelled | FrError

record inference_chunk =
  ch_delta :: "string option"
  ch_tool_call_delta :: "tool_call_delta option"
  ch_thinking_delta :: "thinking_delta option"
  ch_finish_reason :: "finish_reason option"
  ch_active_mode :: compute_mode
  ch_latency_hint_ms :: "u32 option"

definition chunk_text :: "string \<Rightarrow> compute_mode \<Rightarrow> inference_chunk" where
  "chunk_text delta mode =
     \<lparr>ch_delta = Some delta, ch_tool_call_delta = None, ch_thinking_delta = None,
      ch_finish_reason = None, ch_active_mode = mode, ch_latency_hint_ms = None\<rparr>"

definition chunk_finish :: "finish_reason \<Rightarrow> compute_mode \<Rightarrow> inference_chunk" where
  "chunk_finish reason mode =
     \<lparr>ch_delta = None, ch_tool_call_delta = None, ch_thinking_delta = None,
      ch_finish_reason = Some reason, ch_active_mode = mode, ch_latency_hint_ms = None\<rparr>"

definition chunk_thinking :: "thinking_delta \<Rightarrow> compute_mode \<Rightarrow> inference_chunk" where
  "chunk_thinking delta mode =
     \<lparr>ch_delta = None, ch_tool_call_delta = None, ch_thinking_delta = Some delta,
      ch_finish_reason = None, ch_active_mode = mode, ch_latency_hint_ms = None\<rparr>"

record can_handle_result =
  chr_capable :: bool
  chr_missing_caps :: capability_set
  chr_escalation_hint :: "compute_mode option"

definition chr_yes :: can_handle_result where
  "chr_yes = \<lparr>chr_capable = True, chr_missing_caps = caps_none, chr_escalation_hint = None\<rparr>"

text \<open>
  The stream type of a provider: what its items are, in order, until the stream ends.
\<close>

type_synonym inference_stream = "(contract_error + inference_chunk) list"
type_synonym tool_event_stream = "(contract_error + tool_event) list"

section \<open>agent.rs\<close>

datatype agent_event =
    TurnStarted uuid uuid compute_mode
  | TextDelta string
  | ToolEv tool_event
  | ModeHandoff compute_mode compute_mode
  | ApprovalRequired uuid string
  | TurnFinished finish_reason
  | ErrorEv string

section \<open>Laws of the seam types\<close>

lemma text_content_message_text [simp]:
  "text_content (message_text now u c r t m q) = t"
  by (simp add: text_content_def message_text_def List.map_filter_def)

lemma message_text_simps [simp]:
  "msg_id (message_text now u c r t m q) = u"
  "msg_conversation_id (message_text now u c r t m q) = c"
  "msg_role (message_text now u c r t m q) = r"
  "msg_sequence_num (message_text now u c r t m q) = q"
  "msg_content (message_text now u c r t m q) = [TextBlock t]"
  by (simp_all add: message_text_def)

lemma satisfied_by_iff: "satisfied_by r offered \<longleftrightarrow> missing_from r offered = caps_none"
  by (auto simp: satisfied_by_def missing_from_def caps_none_def saturating_sub_eq_0_iff)

lemma satisfied_by_none [simp]: "satisfied_by caps_none offered"
  by (simp add: satisfied_by_def caps_none_def)

lemma satisfied_by_refl: "satisfied_by r r"
  by (auto simp: satisfied_by_def)

lemma satisfied_by_trans: "satisfied_by a b \<Longrightarrow> satisfied_by b c \<Longrightarrow> satisfied_by a c"
  by (auto simp: satisfied_by_def)

lemma json_get_remove: "json_get (json_remove k j) k' = (if k' = k then None else json_get j k')"
  by (cases j) (auto simp: map_of_bt_remove)

end
