(* ===== verification/Sealing.thy ===== *)
theory Sealing
  imports Contracts
begin

text \<open>
  Payload sealing of \<open>crates/mahi-data\<close>: the key derivation and AEAD wrappers of
  \<open>crypto.rs\<close>, the file keystore of \<open>keystore.rs\<close>, and \<open>seal\<close>/\<open>unseal\<close> of
  \<open>store.rs\<close>, with the tables of sealed rows they feed.

  HKDF-SHA256, AES-256-GCM, SHA-256, the text form of a \<open>Uuid\<close>, Unicode lower-casing
  and \<open>serde_json\<close> are library code: they are the fields of \<open>crypto_env\<close> and of a
  \<open>codec\<close>. What the store relies on is \<open>crypto_ok\<close> (AES-GCM decrypts what it
  encrypted under the same key, nonce and associated data; distinct identifiers print
  differently) and \<open>codec_ok\<close> (deserialising a serialised record gives it back). The
  random nonce of an encryption is an argument; being an array of 12 bytes, it is a
  96-bit word.
\<close>

section \<open>Library code the store calls\<close>

record crypto_env =
  hkdf_sha256 :: "bytes \<Rightarrow> bytes \<Rightarrow> bytes"
  aes_gcm_encrypt :: "bytes \<Rightarrow> bytes \<Rightarrow> bytes \<Rightarrow> bytes \<Rightarrow> bytes option"
  aes_gcm_decrypt :: "bytes \<Rightarrow> bytes \<Rightarrow> bytes \<Rightarrow> bytes \<Rightarrow> bytes option"
  sha256_digest :: "bytes \<Rightarrow> bytes"
  uuid_to_string :: "uuid \<Rightarrow> string"
  to_lowercase :: "string \<Rightarrow> string"

record 'v codec =
  to_vec :: "'v \<Rightarrow> string + bytes"
  from_slice :: "bytes \<Rightarrow> string + 'v"

type_synonym nonce = "96 word"

definition nonce_bytes :: "nonce \<Rightarrow> bytes" where
  "nonce_bytes n = be_bytes 12 (unat n)"

definition crypto_ok :: "crypto_env \<Rightarrow> bool" where
  "crypto_ok E =
     ((\<forall>k n aad m c. aes_gcm_encrypt E k n aad m = Some c \<longrightarrow>
         aes_gcm_decrypt E k n aad c = Some m)
      \<and> inj (uuid_to_string E))"

definition codec_ok :: "'v codec \<Rightarrow> bool" where
  "codec_ok C = (\<forall>v b. to_vec C v = Inr b \<longrightarrow> from_slice C b = Inr v)"

section \<open>crypto.rs\<close>

definition derive_key :: "crypto_env \<Rightarrow> bytes \<Rightarrow> bytes \<Rightarrow> bytes" where
  "derive_key E rk info = hkdf_sha256 E rk info"

definition record_key_info :: "string \<Rightarrow> bytes \<Rightarrow> bytes" where
  "record_key_info collection i = as_bytes collection @ [0] @ i"

definition record_key :: "crypto_env \<Rightarrow> bytes \<Rightarrow> string \<Rightarrow> bytes \<Rightarrow> bytes" where
  "record_key E rk collection i = derive_key E rk (record_key_info collection i)"

definition encrypt :: "crypto_env \<Rightarrow> nonce \<Rightarrow> bytes \<Rightarrow> bytes \<Rightarrow> bytes \<Rightarrow> (bytes \<times> bytes) option" where
  "encrypt E n key plaintext aad =
     (case aes_gcm_encrypt E key (nonce_bytes n) aad plaintext of
        None \<Rightarrow> None
      | Some ct \<Rightarrow> Some (ct, nonce_bytes n))"

definition decrypt :: "crypto_env \<Rightarrow> bytes \<Rightarrow> bytes \<Rightarrow> bytes \<Rightarrow> bytes \<Rightarrow> bytes option" where
  "decrypt E key ciphertext n aad =
     (if length n \<noteq> 12 then None else aes_gcm_decrypt E key n aad ciphertext)"

definition hex_digit :: "nat \<Rightarrow> char" where
  "hex_digit d = (if d < 10 then char_of (48 + d) else char_of (87 + d))"

definition hex_byte :: "u8 \<Rightarrow> string" where
  "hex_byte b = [hex_digit (unat b div 16), hex_digit (unat b mod 16)]"

definition sha256_hex :: "crypto_env \<Rightarrow> bytes \<Rightarrow> string" where
  "sha256_hex E d = concat (map hex_byte (sha256_digest E d))"

section \<open>keystore.rs\<close>

text \<open>
  \<open>FileKeystore::load_or_create\<close> on the content of the key file (\<open>None\<close> when it
  cannot be read): the key and the new content, or the I/O error of opening or writing it.
  Opening truncates the file before the write.
\<close>

datatype io_error = OpenFailed | WriteFailed

definition load_or_create ::
  "bytes option \<Rightarrow> bytes \<Rightarrow> bool \<Rightarrow> bool \<Rightarrow> (io_error + bytes) \<times> bytes option" where
  "load_or_create content fresh open_ok write_ok =
     (case content of
        Some bs \<Rightarrow>
          if length bs = 32 then (Inr bs, content)
          else if \<not> open_ok then (Inl OpenFailed, content)
          else if \<not> write_ok then (Inl WriteFailed, Some [])
          else (Inr fresh, Some fresh)
      | None \<Rightarrow>
          if \<not> open_ok then (Inl OpenFailed, content)
          else if \<not> write_ok then (Inl WriteFailed, Some [])
          else (Inr fresh, Some fresh))"

section \<open>seal and unseal\<close>

definition ser_err :: "string + 'a \<Rightarrow> contract_error + 'a" where
  "ser_err r = (case r of Inl m \<Rightarrow> Inl (StoreErr (StoreSerialization m)) | Inr x \<Rightarrow> Inr x)"

definition enc_err :: contract_error where
  "enc_err = StoreErr (StoreEncryption ''AEAD failure'')"

record sealer =
  sl_env :: crypto_env
  sl_root :: bytes

definition seal ::
  "sealer \<Rightarrow> 'v codec \<Rightarrow> nonce \<Rightarrow> string \<Rightarrow> string \<Rightarrow> 'v \<Rightarrow> contract_error + (bytes \<times> bytes)" where
  "seal S C n collection i rec =
     and_then (ser_err (to_vec C rec)) (\<lambda>js.
       ok_or enc_err
         (encrypt (sl_env S) n (record_key (sl_env S) (sl_root S) collection (as_bytes i)) js
           (as_bytes i)))"

definition unseal ::
  "sealer \<Rightarrow> 'v codec \<Rightarrow> string \<Rightarrow> string \<Rightarrow> bytes \<Rightarrow> bytes \<Rightarrow> contract_error + 'v" where
  "unseal S C collection i ct n =
     and_then
       (ok_or enc_err
         (decrypt (sl_env S) (record_key (sl_env S) (sl_root S) collection (as_bytes i)) ct n
           (as_bytes i)))
       (\<lambda>pt. ser_err (from_slice C pt))"

section \<open>Tables of sealed rows\<close>

text \<open>
  A table is the list of its rows in rowid order: the text key, the plaintext index
  columns, ciphertext and nonce. \<open>INSERT OR REPLACE\<close> deletes the row with the same
  key and appends the new one, whose rowid is the largest.
\<close>

record 'ix row =
  row_id :: string
  row_ix :: 'ix
  row_enc :: bytes
  row_nonce :: bytes

definition mk_row :: "string \<Rightarrow> 'ix \<Rightarrow> bytes \<times> bytes \<Rightarrow> 'ix row" where
  "mk_row i ix sealed = \<lparr>row_id = i, row_ix = ix, row_enc = fst sealed, row_nonce = snd sealed\<rparr>"

definition insert_or_replace :: "'ix row \<Rightarrow> 'ix row list \<Rightarrow> 'ix row list" where
  "insert_or_replace r t = filter (\<lambda>r'. row_id r' \<noteq> row_id r) t @ [r]"

definition delete_by_id :: "string \<Rightarrow> 'ix row list \<Rightarrow> 'ix row list" where
  "delete_by_id i t = filter (\<lambda>r. row_id r \<noteq> i) t"

definition select_by_id :: "string \<Rightarrow> 'ix row list \<Rightarrow> 'ix row option" where
  "select_by_id i t = find (\<lambda>r. row_id r = i) t"

text \<open>\<open>LIMIT limit as i64\<close>: SQLite reads a negative limit as no limit.\<close>

definition sql_limit :: "usize \<Rightarrow> 'a list \<Rightarrow> 'a list" where
  "sql_limit limit rows = (if sint limit < 0 then rows else take (nat (sint limit)) rows)"

definition unseal_row :: "sealer \<Rightarrow> 'v codec \<Rightarrow> string \<Rightarrow> 'ix row \<Rightarrow> contract_error + 'v" where
  "unseal_row S C collection r = unseal S C collection (row_id r) (row_enc r) (row_nonce r)"

definition fetch_one ::
  "sealer \<Rightarrow> 'v codec \<Rightarrow> string \<Rightarrow> 'ix row option \<Rightarrow> contract_error + 'v option" where
  "fetch_one S C collection row =
     (case row of
        Some r \<Rightarrow> and_then (unseal_row S C collection r) (\<lambda>v. Inr (Some v))
      | None \<Rightarrow> Inr None)"

definition fetch_all ::
  "sealer \<Rightarrow> 'v codec \<Rightarrow> string \<Rightarrow> 'ix row list \<Rightarrow> contract_error + 'v list" where
  "fetch_all S C collection rows = collect_results (unseal_row S C collection) rows"

section \<open>Laws\<close>

lemma ser_err_simps [simp, result_simps]:
  "ser_err (Inl m) = Inl (StoreErr (StoreSerialization m))"
  "ser_err (Inr x) = Inr x"
  by (simp_all add: ser_err_def)

lemma ser_err_Inr_iff [simp]: "ser_err r = Inr x \<longleftrightarrow> r = Inr x"
  by (cases r) simp_all

lemma length_nonce_bytes [simp]: "length (nonce_bytes n) = 12"
  by (simp add: nonce_bytes_def)

lemma decrypt_encrypt:
  assumes "crypto_ok E" and "encrypt E n key m aad = Some (ct, nb)"
  shows "decrypt E key ct nb aad = Some m"
  using assms by (auto simp: encrypt_def decrypt_def crypto_ok_def split: option.splits)

lemma crypto_ok_uuid_inject:
  "crypto_ok E \<Longrightarrow> uuid_to_string E a = uuid_to_string E b \<longleftrightarrow> a = b"
  by (auto simp: crypto_ok_def dest: injD)

lemma unseal_seal:
  assumes "crypto_ok (sl_env S)" and "codec_ok C" and "seal S C n coll i v = Inr (ct, nb)"
  shows "unseal S C coll i ct nb = Inr v"
  using assms
  by (auto simp: seal_def unseal_def result_simps ok_or_def codec_ok_def
      dest!: decrypt_encrypt split: option.splits)

text \<open>Keys of different records come from different HKDF inputs: the collection name has
  no zero byte, so the separator is unambiguous.\<close>

lemma record_key_info_inject:
  assumes "0 \<notin> set (as_bytes c)" and "0 \<notin> set (as_bytes d)"
    and "record_key_info c i = record_key_info d j"
  shows "c = d \<and> i = j"
proof -
  let ?nz = "\<lambda>b :: u8. b \<noteq> 0"
  have tw: "takeWhile ?nz (record_key_info e k) = as_bytes e \<and>
      dropWhile ?nz (record_key_info e k) = 0 # k" if "0 \<notin> set (as_bytes e)" for e k
  proof -
    from that have "\<forall>b \<in> set (as_bytes e). ?nz b"
      by metis
    then show ?thesis
      by (simp add: record_key_info_def takeWhile_append2 dropWhile_append2)
  qed
  from tw [OF assms(1), of i] tw [OF assms(2), of j] assms(3) show ?thesis
    by (metis as_bytes_inject list.inject)
qed

lemma load_or_create_stable:
  assumes "load_or_create content fresh a b = (Inr key, content')" and "length fresh = 32"
  shows "length key = 32 \<and> load_or_create content' fresh' a' b' = (Inr key, content')"
  using assms by (auto simp: load_or_create_def split: option.splits if_splits)

section \<open>Well-formed tables and what they hold\<close>

text \<open>
  A table is well formed when its keys are distinct and every row decrypts to a record with
  the row's key and with index columns that fit it (\<open>ixr\<close>); \<open>records_of\<close> is the list of
  those records.
\<close>

definition table_ok ::
  "sealer \<Rightarrow> 'v codec \<Rightarrow> string \<Rightarrow> ('v \<Rightarrow> string) \<Rightarrow> ('v \<Rightarrow> 'ix \<Rightarrow> bool) \<Rightarrow> 'ix row list \<Rightarrow> bool" where
  "table_ok S C coll keyf ixr t =
     (distinct (map row_id t) \<and>
      (\<forall>r \<in> set t. \<exists>v. unseal_row S C coll r = Inr v \<and> row_id r = keyf v \<and> ixr v (row_ix r)))"

definition record_of :: "sealer \<Rightarrow> 'v codec \<Rightarrow> string \<Rightarrow> 'ix row \<Rightarrow> 'v" where
  "record_of S C coll r = projr (unseal_row S C coll r)"

definition records_of :: "sealer \<Rightarrow> 'v codec \<Rightarrow> string \<Rightarrow> 'ix row list \<Rightarrow> 'v list" where
  "records_of S C coll t = map (record_of S C coll) t"

lemma row_mk_row [simp]: "row_id (mk_row i ix e) = i" "row_ix (mk_row i ix e) = ix"
  by (simp_all add: mk_row_def)

lemma table_ok_Nil [simp]: "table_ok S C coll keyf ixr []"
  by (simp add: table_ok_def)

lemma table_okD:
  assumes "table_ok S C coll keyf ixr t" and "r \<in> set t"
  shows "unseal_row S C coll r = Inr (record_of S C coll r)"
    and "row_id r = keyf (record_of S C coll r)"
    and "ixr (record_of S C coll r) (row_ix r)"
  using assms by (force simp: table_ok_def record_of_def)+

lemma unseal_row_mk_row:
  assumes "crypto_ok (sl_env S)" and "codec_ok C" and "seal S C n coll i v = Inr e"
  shows "unseal_row S C coll (mk_row i ix e) = Inr v"
  using unseal_seal [OF assms(1,2), of n coll i v "fst e" "snd e"] assms(3)
  by (simp add: unseal_row_def mk_row_def)

lemma table_ok_insert [table_simps]:
  assumes "crypto_ok (sl_env S)" and "codec_ok C" and "seal S C n coll (keyf v) v = Inr e"
    and "table_ok S C coll keyf ixr t" and "ixr v ix"
  shows "table_ok S C coll keyf ixr (insert_or_replace (mk_row (keyf v) ix e) t)"
  using assms(4,5) unseal_row_mk_row [OF assms(1-3), of ix]
  by (auto simp: table_ok_def insert_or_replace_def distinct_map_filter)

lemma table_ok_delete [table_simps]:
  "table_ok S C coll keyf ixr t \<Longrightarrow> table_ok S C coll keyf ixr (delete_by_id i t)"
  by (auto simp: table_ok_def delete_by_id_def distinct_map_filter)

lemma records_insert:
  assumes "crypto_ok (sl_env S)" and "codec_ok C" and "seal S C n coll (keyf v) v = Inr e"
    and "table_ok S C coll keyf ixr t"
  shows "records_of S C coll (insert_or_replace (mk_row (keyf v) ix e) t) =
    filter (\<lambda>w. keyf w \<noteq> keyf v) (records_of S C coll t) @ [v]"
proof -
  have "map (record_of S C coll) (filter (\<lambda>r. row_id r \<noteq> keyf v) t) =
      filter (\<lambda>w. keyf w \<noteq> keyf v) (map (record_of S C coll) t)"
    using table_okD(2) [OF assms(4)] by (simp add: filter_map comp_def cong: filter_cong)
  moreover have "record_of S C coll (mk_row (keyf v) ix e) = v"
    using unseal_row_mk_row [OF assms(1-3), of ix] by (simp add: record_of_def)
  ultimately show ?thesis
    by (simp add: records_of_def insert_or_replace_def)
qed

lemma records_delete:
  assumes "table_ok S C coll keyf ixr t"
  shows "records_of S C coll (delete_by_id i t) =
    filter (\<lambda>w. keyf w \<noteq> i) (records_of S C coll t)"
  using table_okD(2) [OF assms]
  by (simp add: records_of_def delete_by_id_def filter_map comp_def cong: filter_cong)

section \<open>Queries on a well-formed table\<close>

lemma fetch_one_ok:
  assumes "table_ok S C coll keyf ixr t" and "\<And>r. row = Some r \<Longrightarrow> r \<in> set t"
  shows "fetch_one S C coll row = Inr (map_option (record_of S C coll) row)"
  using assms table_okD(1) [OF assms(1)] by (cases row) (auto simp: fetch_one_def)

lemma find_map: "find P (map f xs) = map_option f (find (P \<circ> f) xs)"
  by (induction xs) auto

lemma find_cong_set: "(\<And>x. x \<in> set xs \<Longrightarrow> P x = Q x) \<Longrightarrow> find P xs = find Q xs"
  by (induction xs) auto

lemma fetch_select_by_id:
  assumes "table_ok S C coll keyf ixr t"
  shows "fetch_one S C coll (select_by_id i t) =
    Inr (find (\<lambda>w. keyf w = i) (records_of S C coll t))"
proof -
  have "find (\<lambda>r. row_id r = i) t = find (\<lambda>r. keyf (record_of S C coll r) = i) t"
    using table_okD(2) [OF assms] by (intro find_cong_set) simp
  then show ?thesis
    using assms
    by (subst fetch_one_ok [OF assms])
      (auto simp: select_by_id_def records_of_def find_map comp_def dest: find_Some_in_set)
qed

lemma fetch_all_ok:
  assumes "table_ok S C coll keyf ixr t" and "set rows \<subseteq> set t"
  shows "fetch_all S C coll rows = Inr (records_of S C coll rows)"
  unfolding fetch_all_def records_of_def
  using assms table_okD(1) [OF assms(1)] by (intro collect_results_total) auto

lemma find_key_filter:
  "find (\<lambda>w. keyf w = k) (filter (\<lambda>w. keyf w \<noteq> k') vs @ us) =
    (if k = k' then find (\<lambda>w. keyf w = k) us
     else case find (\<lambda>w. keyf w = k) vs of None \<Rightarrow> find (\<lambda>w. keyf w = k) us | Some v \<Rightarrow> Some v)"
  by (induction vs) (auto split: option.splits)

lemma fetch_after_insert:
  assumes "crypto_ok (sl_env S)" and "codec_ok C" and "seal S C n coll (keyf v) v = Inr e"
    and "table_ok S C coll keyf ixr t" and "ixr v ix"
  shows "fetch_one S C coll (select_by_id i (insert_or_replace (mk_row (keyf v) ix e) t)) =
    (if i = keyf v then Inr (Some v) else fetch_one S C coll (select_by_id i t))"
  by (auto simp: fetch_select_by_id [OF table_ok_insert [OF assms]] fetch_select_by_id [OF assms(4)]
      records_insert [OF assms(1-4)] find_key_filter split: option.splits)

lemma fetch_after_put:
  assumes "table_ok S C coll keyf ixr t" and "crypto_ok (sl_env S)" and "codec_ok C"
    and "seal S C n coll k v = Inr e" and "k = keyf v" and "ixr v ix"
  shows "fetch_one S C coll (select_by_id i (insert_or_replace (mk_row k ix e) t)) =
    (if i = k then Inr (Some v) else fetch_one S C coll (select_by_id i t))"
  using fetch_after_insert [of S C n coll keyf v e ixr t ix i] assms by simp

lemma fetch_after_delete:
  assumes "table_ok S C coll keyf ixr t"
  shows "fetch_one S C coll (select_by_id i (delete_by_id j t)) =
    (if i = j then Inr None else fetch_one S C coll (select_by_id i t))"
  using find_key_filter [of keyf i j "records_of S C coll t" "[]"]
  by (auto simp: fetch_select_by_id [OF table_ok_delete [OF assms]] fetch_select_by_id [OF assms]
      records_delete [OF assms] split: option.splits)

lemma set_sql_limit: "set (sql_limit limit rows) \<subseteq> set rows"
  by (auto simp: sql_limit_def dest: in_set_takeD)

lemma sql_limit_unlimited [simp]: "sql_limit (- 1) rows = rows"
  by (simp add: sql_limit_def)

lemma sql_limit_map: "sql_limit limit (map f rows) = map f (sql_limit limit rows)"
  by (simp add: sql_limit_def take_map)

lemma sql_limit_of_nat: "n < 2 ^ 63 \<Longrightarrow> sql_limit (word_of_nat n) rows = take n rows"
proof -
  assume "n < 2 ^ 63"
  then have "int n < 2 ^ 63"
    by simp
  then have "sint (word_of_nat n :: usize) = int n"
    by (simp add: signed_of_nat signed_take_bit_int_eq_self)
  then show ?thesis
    by (simp add: sql_limit_def)
qed

end
