(* ===== verification/Store_Spec.thy ===== *)
theory Store_Spec
  imports Contracts
begin

text \<open>
  The contracts behind the store traits of \<open>crates/mahi-contracts/src/data.rs\<close>, as
  locales: a keyed store with a last-write-wins law (\<open>ConversationStore\<close>,
  \<open>MemoryStore\<close>, \<open>SkillStore\<close>, \<open>TaskStore\<close>, \<open>ArtifactStore\<close>,
  \<open>SettingsStore\<close>), its extension with deletion, and the message log
  (\<open>MessageStore\<close>). What follows from the laws alone is proved here once; the store
  theories interpret the locales on the operations of the SQLite backend.
\<close>

section \<open>Keyed stores\<close>

text \<open>Writing a sequence of records, stopping at the first error.\<close>

fun put_all :: "('s \<Rightarrow> 'n \<Rightarrow> 'v \<Rightarrow> 'e + 's) \<Rightarrow> 's \<Rightarrow> ('n \<times> 'v) list \<Rightarrow> 'e + 's" where
  "put_all put s [] = Inr s"
| "put_all put s (p # ps) = and_then (put s (fst p) (snd p)) (\<lambda>s'. put_all put s' ps)"

locale keyed_store =
  fixes get :: "'s \<Rightarrow> 'k \<Rightarrow> 'e + 'v option"
    and put :: "'s \<Rightarrow> 'n \<Rightarrow> 'v \<Rightarrow> 'e + 's"
    and key :: "'v \<Rightarrow> 'k"
    and invar :: "'s \<Rightarrow> bool"
  assumes get_ok: "invar s \<Longrightarrow> \<exists>r. get s k = Inr r"
    and put_invar: "invar s \<Longrightarrow> put s n v = Inr s' \<Longrightarrow> invar s'"
    and get_put: "invar s \<Longrightarrow> put s n v = Inr s' \<Longrightarrow>
      get s' k = (if k = key v then Inr (Some v) else get s k)"
begin

lemma put_all_invar: "invar s \<Longrightarrow> put_all put s ps = Inr s' \<Longrightarrow> invar s'"
  by (induction ps arbitrary: s) (auto simp: and_then_Inr_iff dest: put_invar)

text \<open>A read returns the last record written under its key, or what was there before.\<close>

lemma get_put_all:
  assumes "invar s" and "put_all put s ps = Inr s'"
  shows "get s' k =
    (case find (\<lambda>p. key (snd p) = k) (rev ps) of
       Some p \<Rightarrow> Inr (Some (snd p))
     | None \<Rightarrow> get s k)"
  using assms
proof (induction ps arbitrary: s)
  case Nil
  then show ?case by simp
next
  case (Cons p ps)
  from Cons.prems obtain t where t: "put s (fst p) (snd p) = Inr t" "put_all put t ps = Inr s'"
    by (auto simp: and_then_Inr_iff)
  have find_snoc: "find P (xs @ [x]) =
      (case find P xs of Some y \<Rightarrow> Some y | None \<Rightarrow> if P x then Some x else None)"
    for P and xs :: "('n \<times> 'v) list" and x
    by (induction xs) auto
  from Cons.IH [OF put_invar [OF Cons.prems(1) t(1)] t(2)] get_put [OF Cons.prems(1) t(1)]
  show ?case
    by (auto simp: find_snoc split: option.splits)
qed

end

section \<open>Keyed stores with deletion\<close>

datatype ('k, 'n, 'v) store_cmd = CmdPut 'n 'v | CmdDelete 'k

fun run_cmds ::
  "('s \<Rightarrow> 'n \<Rightarrow> 'v \<Rightarrow> 'e + 's) \<Rightarrow> ('s \<Rightarrow> 'k \<Rightarrow> 'e + 's) \<Rightarrow> 's \<Rightarrow> ('k, 'n, 'v) store_cmd list \<Rightarrow> 'e + 's" where
  "run_cmds put del s [] = Inr s"
| "run_cmds put del s (CmdPut n v # cs) = and_then (put s n v) (\<lambda>s'. run_cmds put del s' cs)"
| "run_cmds put del s (CmdDelete k # cs) = and_then (del s k) (\<lambda>s'. run_cmds put del s' cs)"

fun map_cmd :: "('v \<Rightarrow> 'k) \<Rightarrow> ('k, 'n, 'v) store_cmd \<Rightarrow> ('k \<rightharpoonup> 'v) \<Rightarrow> ('k \<rightharpoonup> 'v)" where
  "map_cmd key (CmdPut n v) m = m(key v \<mapsto> v)"
| "map_cmd key (CmdDelete k) m = m(k := None)"

locale keyed_store_del = keyed_store get put key invar
  for get :: "'s \<Rightarrow> 'k \<Rightarrow> 'e + 'v option"
    and put :: "'s \<Rightarrow> 'n \<Rightarrow> 'v \<Rightarrow> 'e + 's"
    and key :: "'v \<Rightarrow> 'k"
    and invar :: "'s \<Rightarrow> bool" +
  fixes del :: "'s \<Rightarrow> 'k \<Rightarrow> 'e + 's"
  assumes del_invar: "invar s \<Longrightarrow> del s k = Inr s' \<Longrightarrow> invar s'"
    and get_del: "invar s \<Longrightarrow> del s k = Inr s' \<Longrightarrow>
      get s' k' = (if k' = k then Inr None else get s k')"
begin

text \<open>The store refines a finite map: after any commands that succeed, every read is the
  lookup in the map those commands build.\<close>

lemma run_refines_map:
  assumes "invar s" and "\<And>k. get s k = Inr (m k)" and "run_cmds put del s cs = Inr s'"
  shows "invar s' \<and> get s' k = Inr (fold (map_cmd key) cs m k)"
  using assms
proof (induction cs arbitrary: s m)
  case Nil
  then show ?case by simp
next
  case (Cons c cs)
  show ?case
  proof (cases c)
    case (CmdPut n v)
    with Cons.prems obtain t where t: "put s n v = Inr t" "run_cmds put del t cs = Inr s'"
      by (auto simp: and_then_Inr_iff)
    have "get t j = Inr ((m(key v \<mapsto> v)) j)" for j
      using get_put [OF Cons.prems(1) t(1), of j] Cons.prems(2) by simp
    from Cons.IH [of t "m(key v \<mapsto> v)", OF put_invar [OF Cons.prems(1) t(1)] this t(2)] show ?thesis
      by (simp add: CmdPut fun_upd_def)
  next
    case (CmdDelete j)
    with Cons.prems obtain t where t: "del s j = Inr t" "run_cmds put del t cs = Inr s'"
      by (auto simp: and_then_Inr_iff)
    have "get t i = Inr ((m(j := None)) i)" for i
      using get_del [OF Cons.prems(1) t(1), of i] Cons.prems(2) by simp
    from Cons.IH [of t "m(j := None)", OF del_invar [OF Cons.prems(1) t(1)] this t(2)] show ?thesis
      by (simp add: CmdDelete fun_upd_def)
  qed
qed

end

section \<open>The message log\<close>

text \<open>
  \<open>history s c\<close> stands for \<open>range\<close> without a limit. A message appended under the next
  sequence number, with an identifier not yet in the log, goes to the end of its
  conversation and leaves the others alone.
\<close>

locale message_log =
  fixes history :: "'s \<Rightarrow> uuid \<Rightarrow> message list"
    and append_msg :: "'s \<Rightarrow> 'n \<Rightarrow> message \<Rightarrow> 'e + 's"
    and next_seq :: "'s \<Rightarrow> uuid \<Rightarrow> int"
    and has_id :: "'s \<Rightarrow> uuid \<Rightarrow> bool"
    and invar :: "'s \<Rightarrow> bool"
  assumes append_invar: "invar s \<Longrightarrow> append_msg s n m = Inr s' \<Longrightarrow> invar s'"
    and append_history: "invar s \<Longrightarrow> append_msg s n m = Inr s' \<Longrightarrow> \<not> has_id s (msg_id m) \<Longrightarrow>
      0 \<le> msg_sequence_num m \<Longrightarrow> msg_sequence_num m = next_seq s (msg_conversation_id m) \<Longrightarrow>
      history s' c = (if c = msg_conversation_id m then history s c @ [m] else history s c)"
    and append_has_id: "invar s \<Longrightarrow> append_msg s n m = Inr s' \<Longrightarrow>
      has_id s' i \<longleftrightarrow> has_id s i \<or> i = msg_id m"
    and next_seq_above: "invar s \<Longrightarrow> 0 \<le> next_seq s c \<Longrightarrow> m \<in> set (history s c) \<Longrightarrow>
      msg_sequence_num m < next_seq s c"
begin

text \<open>A run of appends at the next sequence number, each with a new identifier.\<close>

inductive appends :: "'s \<Rightarrow> message list \<Rightarrow> 's \<Rightarrow> bool" where
  appends_Nil: "appends s [] s"
| appends_snoc: "appends s ms t \<Longrightarrow> append_msg t n m = Inr u \<Longrightarrow> \<not> has_id t (msg_id m) \<Longrightarrow>
    0 \<le> msg_sequence_num m \<Longrightarrow> msg_sequence_num m = next_seq t (msg_conversation_id m) \<Longrightarrow>
    appends s (ms @ [m]) u"

lemma appends_invar: "appends s ms t \<Longrightarrow> invar s \<Longrightarrow> invar t"
  by (induction rule: appends.induct) (auto dest: append_invar)

lemma appends_history:
  "appends s ms t \<Longrightarrow> invar s \<Longrightarrow>
     history t c = history s c @ filter (\<lambda>m. msg_conversation_id m = c) ms"
proof (induction rule: appends.induct)
  case (appends_Nil s)
  then show ?case by simp
next
  case (appends_snoc s ms t n m u)
  with append_history [OF appends_invar [OF appends_snoc.hyps(1)]] show ?case
    by auto
qed

end

end
