(* ===== verification/Store.thy ===== *)
theory Store
  imports Sealing Store_Spec
begin

text \<open>
  \<open>SqliteBackend\<close> of \<open>crates/mahi-data/src/store.rs\<close>: the tables of the schema and the
  implementation of every store trait but the audit log (theory \<open>Audit_Log\<close>). Each
  operation is one definition, from the identifier's text form over sealing to the SQL
  statement; statements succeed on an open database, so the errors are those of
  serialisation and encryption.

  Where a query has no \<open>ORDER BY\<close>, rows come in rowid order; ties of an \<open>ORDER BY\<close> are
  broken by rowid, which SQL leaves open: the theorems that compare orders ask for keys without ties.
\<close>

section \<open>State\<close>

record codecs =
  cd_conversation :: "conversation codec"
  cd_message :: "message codec"
  cd_memory :: "memory_record codec"
  cd_skill :: "skill codec"
  cd_task :: "task_item codec"
  cd_artifact :: "artifact codec"
  cd_setting :: "setting codec"
  cd_checkpoint :: "checkpoint codec"
  cd_audit :: "audit_event codec"
  cd_grant :: "permission_grant codec"

definition codecs_ok :: "codecs \<Rightarrow> bool" where
  "codecs_ok K =
     (codec_ok (cd_conversation K) \<and> codec_ok (cd_message K) \<and> codec_ok (cd_memory K)
      \<and> codec_ok (cd_skill K) \<and> codec_ok (cd_task K) \<and> codec_ok (cd_artifact K)
      \<and> codec_ok (cd_setting K) \<and> codec_ok (cd_checkpoint K) \<and> codec_ok (cd_audit K)
      \<and> codec_ok (cd_grant K))"

record audit_row =
  ar_event_id :: string
  ar_session_id :: "string option"
  ar_prev_hash :: string
  ar_hash :: string
  ar_enc :: bytes
  ar_nonce :: bytes

record backend =
  be_sealer :: sealer
  be_codecs :: codecs
  t_conversations :: "int row list"
  t_messages :: "(string \<times> int) row list"
  t_memory :: "string option row list"
  t_skills :: "string row list"
  t_settings :: "unit row list"
  t_tasks :: "unit row list"
  t_artifacts :: "unit row list"
  t_checkpoints :: "(string \<times> int) row list"
  t_audit :: "audit_row list"
  t_grants :: "(string \<times> bool) row list"

definition backend_new :: "sealer \<Rightarrow> codecs \<Rightarrow> backend" where
  "backend_new S K =
     \<lparr>be_sealer = S, be_codecs = K, t_conversations = [], t_messages = [], t_memory = [],
      t_skills = [], t_settings = [], t_tasks = [], t_artifacts = [], t_checkpoints = [],
      t_audit = [], t_grants = []\<rparr>"

abbreviation ustr :: "backend \<Rightarrow> uuid \<Rightarrow> string" where
  "ustr b \<equiv> uuid_to_string (sl_env (be_sealer b))"

definition scope_key :: "crypto_env \<Rightarrow> skill_scope \<Rightarrow> string" where
  "scope_key E s =
     (case s of
        ScopeGlobal \<Rightarrow> ''global''
      | ScopeSpace i \<Rightarrow> ''space:'' @ uuid_to_string E i
      | ScopeUser i \<Rightarrow> ''user:'' @ uuid_to_string E i)"

definition subject_key :: "permission_subject \<Rightarrow> string" where
  "subject_key s = (case s of SubjTool t \<Rightarrow> ''tool:'' @ t | SubjFeature f \<Rightarrow> ''feature:'' @ f)"

section \<open>Conversations\<close>

definition conversations_get :: "backend \<Rightarrow> uuid \<Rightarrow> contract_error + conversation option" where
  "conversations_get b i =
     fetch_one (be_sealer b) (cd_conversation (be_codecs b)) ''conversations''
       (select_by_id (ustr b i) (t_conversations b))"

definition conversations_upsert :: "backend \<Rightarrow> nonce \<Rightarrow> conversation \<Rightarrow> contract_error + backend" where
  "conversations_upsert b n conv =
     (let i = ustr b (conv_id conv);
          updated = timestamp_millis (conv_updated_at conv)
      in and_then (seal (be_sealer b) (cd_conversation (be_codecs b)) n ''conversations'' i conv)
           (\<lambda>e. Inr (b\<lparr>t_conversations :=
              insert_or_replace (mk_row i updated e) (t_conversations b)\<rparr>)))"

definition conversations_delete :: "backend \<Rightarrow> uuid \<Rightarrow> contract_error + backend" where
  "conversations_delete b i =
     Inr (b\<lparr>t_conversations := delete_by_id (ustr b i) (t_conversations b)\<rparr>)"

definition conversations_list :: "backend \<Rightarrow> usize \<Rightarrow> contract_error + conversation list" where
  "conversations_list b limit =
     fetch_all (be_sealer b) (cd_conversation (be_codecs b)) ''conversations''
       (sql_limit limit (sort_key (\<lambda>r. - row_ix r) (t_conversations b)))"

section \<open>Messages\<close>

definition messages_append :: "backend \<Rightarrow> nonce \<Rightarrow> message \<Rightarrow> contract_error + backend" where
  "messages_append b n msg =
     (let i = ustr b (msg_id msg);
          conv = ustr b (msg_conversation_id msg);
          sq = msg_sequence_num msg
      in and_then (seal (be_sealer b) (cd_message (be_codecs b)) n ''messages'' i msg)
           (\<lambda>e. Inr (b\<lparr>t_messages := insert_or_replace (mk_row i (conv, sq) e) (t_messages b)\<rparr>)))"

definition messages_range :: "backend \<Rightarrow> uuid \<Rightarrow> usize \<Rightarrow> contract_error + message list" where
  "messages_range b c limit =
     fetch_all (be_sealer b) (cd_message (be_codecs b)) ''messages''
       (sql_limit limit
         (sort_key (\<lambda>r. snd (row_ix r))
           (filter (\<lambda>r. fst (row_ix r) = ustr b c) (t_messages b))))"

text \<open>\<open>m + 1\<close> on \<open>i64\<close>, which wraps in a release build.\<close>

definition i64_succ :: "int \<Rightarrow> int" where
  "i64_succ m = (if m = 2 ^ 63 - 1 then - (2 ^ 63) else m + 1)"

definition messages_next_sequence :: "backend \<Rightarrow> uuid \<Rightarrow> contract_error + int" where
  "messages_next_sequence b c =
     (let seqs = map (\<lambda>r. snd (row_ix r)) (filter (\<lambda>r. fst (row_ix r) = ustr b c) (t_messages b))
      in Inr (if seqs = [] then 0 else i64_succ (fold max (tl seqs) (hd seqs))))"

section \<open>Memory\<close>

definition memory_get :: "backend \<Rightarrow> uuid \<Rightarrow> contract_error + memory_record option" where
  "memory_get b i =
     fetch_one (be_sealer b) (cd_memory (be_codecs b)) ''memory''
       (select_by_id (ustr b i) (t_memory b))"

definition memory_upsert :: "backend \<Rightarrow> nonce \<Rightarrow> memory_record \<Rightarrow> contract_error + backend" where
  "memory_upsert b n rec =
     (let i = ustr b (mem_id rec);
          space = map_option (ustr b) (mem_space_id rec)
      in and_then (seal (be_sealer b) (cd_memory (be_codecs b)) n ''memory'' i rec)
           (\<lambda>e. Inr (b\<lparr>t_memory := insert_or_replace (mk_row i space e) (t_memory b)\<rparr>)))"

definition memory_delete :: "backend \<Rightarrow> uuid \<Rightarrow> contract_error + backend" where
  "memory_delete b i = Inr (b\<lparr>t_memory := delete_by_id (ustr b i) (t_memory b)\<rparr>)"

text \<open>The matching loop: rows are decrypted until \<open>limit\<close> records have been pushed. A
  comparison with \<open>NULL\<close> is not true in SQL, so a query for a space skips global rows.\<close>

fun search_loop ::
  "backend \<Rightarrow> string \<Rightarrow> usize \<Rightarrow> memory_record list \<Rightarrow> string option row list \<Rightarrow>
    contract_error + memory_record list" where
  "search_loop b needle limit out [] = Inr out"
| "search_loop b needle limit out (r # rows) =
     and_then (unseal_row (be_sealer b) (cd_memory (be_codecs b)) ''memory'' r) (\<lambda>rec.
       if needle = [] \<or>
          str_contains (to_lowercase (sl_env (be_sealer b)) (mem_content rec)) needle
       then (if unat limit \<le> length (out @ [rec]) then Inr (out @ [rec])
             else search_loop b needle limit (out @ [rec]) rows)
       else search_loop b needle limit out rows)"

definition memory_semantic_search ::
  "backend \<Rightarrow> string \<Rightarrow> uuid option \<Rightarrow> usize \<Rightarrow> contract_error + memory_record list" where
  "memory_semantic_search b query space limit =
     (let rows = (case space of
            Some s \<Rightarrow> filter (\<lambda>r. row_ix r = Some (ustr b s)) (t_memory b)
          | None \<Rightarrow> t_memory b);
          needle = to_lowercase (sl_env (be_sealer b)) query
      in search_loop b needle limit [] rows)"

section \<open>Skills\<close>

definition skills_get :: "backend \<Rightarrow> uuid \<Rightarrow> contract_error + skill option" where
  "skills_get b i =
     fetch_one (be_sealer b) (cd_skill (be_codecs b)) ''skills''
       (select_by_id (ustr b i) (t_skills b))"

definition skills_list_by_scope :: "backend \<Rightarrow> skill_scope \<Rightarrow> contract_error + skill list" where
  "skills_list_by_scope b s =
     fetch_all (be_sealer b) (cd_skill (be_codecs b)) ''skills''
       (filter (\<lambda>r. row_ix r = scope_key (sl_env (be_sealer b)) s) (t_skills b))"

definition skills_upsert :: "backend \<Rightarrow> nonce \<Rightarrow> skill \<Rightarrow> contract_error + backend" where
  "skills_upsert b n sk =
     (let i = ustr b (skill_id sk);
          scope = scope_key (sl_env (be_sealer b)) (skill_scope sk)
      in and_then (seal (be_sealer b) (cd_skill (be_codecs b)) n ''skills'' i sk)
           (\<lambda>e. Inr (b\<lparr>t_skills := insert_or_replace (mk_row i scope e) (t_skills b)\<rparr>)))"

definition skills_delete :: "backend \<Rightarrow> uuid \<Rightarrow> contract_error + backend" where
  "skills_delete b i = Inr (b\<lparr>t_skills := delete_by_id (ustr b i) (t_skills b)\<rparr>)"

section \<open>Tasks\<close>

definition tasks_get :: "backend \<Rightarrow> uuid \<Rightarrow> contract_error + task_item option" where
  "tasks_get b i =
     fetch_one (be_sealer b) (cd_task (be_codecs b)) ''tasks''
       (select_by_id (ustr b i) (t_tasks b))"

definition tasks_upsert :: "backend \<Rightarrow> nonce \<Rightarrow> task_item \<Rightarrow> contract_error + backend" where
  "tasks_upsert b n tk =
     (let i = ustr b (task_id tk)
      in and_then (seal (be_sealer b) (cd_task (be_codecs b)) n ''tasks'' i tk)
           (\<lambda>e. Inr (b\<lparr>t_tasks := insert_or_replace (mk_row i () e) (t_tasks b)\<rparr>)))"

definition tasks_delete :: "backend \<Rightarrow> uuid \<Rightarrow> contract_error + backend" where
  "tasks_delete b i = Inr (b\<lparr>t_tasks := delete_by_id (ustr b i) (t_tasks b)\<rparr>)"

definition tasks_list :: "backend \<Rightarrow> usize \<Rightarrow> contract_error + task_item list" where
  "tasks_list b limit =
     fetch_all (be_sealer b) (cd_task (be_codecs b)) ''tasks'' (sql_limit limit (t_tasks b))"

section \<open>Artifacts, settings, checkpoints\<close>

definition artifacts_write :: "backend \<Rightarrow> nonce \<Rightarrow> artifact \<Rightarrow> contract_error + backend" where
  "artifacts_write b n a =
     (let i = ustr b (art_id a)
      in and_then (seal (be_sealer b) (cd_artifact (be_codecs b)) n ''artifacts'' i a)
           (\<lambda>e. Inr (b\<lparr>t_artifacts := insert_or_replace (mk_row i () e) (t_artifacts b)\<rparr>)))"

definition artifacts_read :: "backend \<Rightarrow> uuid \<Rightarrow> contract_error + artifact option" where
  "artifacts_read b i =
     fetch_one (be_sealer b) (cd_artifact (be_codecs b)) ''artifacts''
       (select_by_id (ustr b i) (t_artifacts b))"

definition settings_get :: "backend \<Rightarrow> string \<Rightarrow> contract_error + setting option" where
  "settings_get b k =
     fetch_one (be_sealer b) (cd_setting (be_codecs b)) ''settings''
       (select_by_id k (t_settings b))"

definition settings_set :: "backend \<Rightarrow> nonce \<Rightarrow> setting \<Rightarrow> contract_error + backend" where
  "settings_set b n st =
     (let k = set_key st
      in and_then (seal (be_sealer b) (cd_setting (be_codecs b)) n ''settings'' k st)
           (\<lambda>e. Inr (b\<lparr>t_settings := insert_or_replace (mk_row k () e) (t_settings b)\<rparr>)))"

definition checkpoints_write :: "backend \<Rightarrow> nonce \<Rightarrow> checkpoint \<Rightarrow> contract_error + backend" where
  "checkpoints_write b n c =
     (let i = ustr b (cp_id c);
          conv = ustr b (cp_conversation_id c);
          captured = timestamp_millis (cp_captured_at c)
      in and_then (seal (be_sealer b) (cd_checkpoint (be_codecs b)) n ''checkpoints'' i c)
           (\<lambda>e. Inr (b\<lparr>t_checkpoints :=
              insert_or_replace (mk_row i (conv, captured) e) (t_checkpoints b)\<rparr>)))"

definition checkpoints_latest :: "backend \<Rightarrow> uuid \<Rightarrow> contract_error + checkpoint option" where
  "checkpoints_latest b c =
     fetch_one (be_sealer b) (cd_checkpoint (be_codecs b)) ''checkpoints''
       (case sort_key (\<lambda>r. - snd (row_ix r))
               (filter (\<lambda>r. fst (row_ix r) = ustr b c) (t_checkpoints b)) of
          [] \<Rightarrow> None
        | r # _ \<Rightarrow> Some r)"

section \<open>Permissions\<close>

definition permissions_check ::
  "backend \<Rightarrow> permission_subject \<Rightarrow> string list \<Rightarrow> contract_error + permission_grant option" where
  "permissions_check b subject scope =
     (let rows = filter (\<lambda>r. fst (row_ix r) = subject_key subject \<and> \<not> snd (row_ix r)) (t_grants b)
      in fetch_one (be_sealer b) (cd_grant (be_codecs b)) ''grants''
           (if rows = [] then None else Some (last rows)))"

definition permissions_grant :: "backend \<Rightarrow> nonce \<Rightarrow> permission_grant \<Rightarrow> contract_error + backend" where
  "permissions_grant b n g =
     (let i = ustr b (pg_grant_id g);
          subj = subject_key (pg_subject g);
          revoked = (pg_revoked_at g \<noteq> None)
      in and_then (seal (be_sealer b) (cd_grant (be_codecs b)) n ''grants'' i g)
           (\<lambda>e. Inr (b\<lparr>t_grants := insert_or_replace (mk_row i (subj, revoked) e) (t_grants b)\<rparr>)))"

definition permissions_revoke :: "backend \<Rightarrow> uuid \<Rightarrow> contract_error + backend" where
  "permissions_revoke b i =
     Inr (b\<lparr>t_grants := map (\<lambda>r. if row_id r = ustr b i then r\<lparr>row_ix := (fst (row_ix r), True)\<rparr>
                                  else r) (t_grants b)\<rparr>)"

definition permissions_list :: "backend \<Rightarrow> contract_error + permission_grant list" where
  "permissions_list b =
     fetch_all (be_sealer b) (cd_grant (be_codecs b)) ''grants'' (t_grants b)"

section \<open>The invariant of the backend\<close>

text \<open>
  \<open>backend_ok\<close>: the library code obeys its laws, every table is well formed, the index
  columns are those of the sealed record, and a grant whose record is revoked is marked
  revoked (the column may be set while the sealed record is not: \<open>revoke\<close> only
  updates the column).
\<close>

definition backend_ok :: "backend \<Rightarrow> bool" where
  "backend_ok b =
     (crypto_ok (sl_env (be_sealer b)) \<and> codecs_ok (be_codecs b)
      \<and> table_ok (be_sealer b) (cd_conversation (be_codecs b)) ''conversations''
          (\<lambda>v. ustr b (conv_id v)) (\<lambda>v ix. ix = timestamp_millis (conv_updated_at v))
          (t_conversations b)
      \<and> table_ok (be_sealer b) (cd_message (be_codecs b)) ''messages''
          (\<lambda>v. ustr b (msg_id v))
          (\<lambda>v ix. ix = (ustr b (msg_conversation_id v), msg_sequence_num v)) (t_messages b)
      \<and> table_ok (be_sealer b) (cd_memory (be_codecs b)) ''memory''
          (\<lambda>v. ustr b (mem_id v)) (\<lambda>v ix. ix = map_option (ustr b) (mem_space_id v)) (t_memory b)
      \<and> table_ok (be_sealer b) (cd_skill (be_codecs b)) ''skills''
          (\<lambda>v. ustr b (skill_id v)) (\<lambda>v ix. ix = scope_key (sl_env (be_sealer b)) (skill_scope v))
          (t_skills b)
      \<and> table_ok (be_sealer b) (cd_setting (be_codecs b)) ''settings''
          set_key (\<lambda>v ix. True) (t_settings b)
      \<and> table_ok (be_sealer b) (cd_task (be_codecs b)) ''tasks''
          (\<lambda>v. ustr b (task_id v)) (\<lambda>v ix. True) (t_tasks b)
      \<and> table_ok (be_sealer b) (cd_artifact (be_codecs b)) ''artifacts''
          (\<lambda>v. ustr b (art_id v)) (\<lambda>v ix. True) (t_artifacts b)
      \<and> table_ok (be_sealer b) (cd_checkpoint (be_codecs b)) ''checkpoints''
          (\<lambda>v. ustr b (cp_id v))
          (\<lambda>v ix. ix = (ustr b (cp_conversation_id v), timestamp_millis (cp_captured_at v)))
          (t_checkpoints b)
      \<and> table_ok (be_sealer b) (cd_grant (be_codecs b)) ''grants''
          (\<lambda>v. ustr b (pg_grant_id v))
          (\<lambda>v ix. fst ix = subject_key (pg_subject v) \<and> (pg_revoked_at v \<noteq> None \<longrightarrow> snd ix))
          (t_grants b))"

lemma backend_okD:
  assumes "backend_ok b"
  shows "crypto_ok (sl_env (be_sealer b))"
    and "codec_ok (cd_conversation (be_codecs b))" and "codec_ok (cd_message (be_codecs b))"
    and "codec_ok (cd_memory (be_codecs b))" and "codec_ok (cd_skill (be_codecs b))"
    and "codec_ok (cd_task (be_codecs b))" and "codec_ok (cd_artifact (be_codecs b))"
    and "codec_ok (cd_setting (be_codecs b))" and "codec_ok (cd_checkpoint (be_codecs b))"
    and "codec_ok (cd_audit (be_codecs b))" and "codec_ok (cd_grant (be_codecs b))"
  using assms by (auto simp: backend_ok_def codecs_ok_def)

lemmas backend_tables = backend_ok_def [THEN iffD1, THEN conjunct2, THEN conjunct2]

lemmas conversations_table = backend_tables [THEN conjunct1]
lemmas messages_table = backend_tables [THEN conjunct2, THEN conjunct1]
lemmas memory_table = backend_tables [THEN conjunct2, THEN conjunct2, THEN conjunct1]
lemmas skills_table =
  backend_tables [THEN conjunct2, THEN conjunct2, THEN conjunct2, THEN conjunct1]
lemmas later_tables =
  backend_tables [THEN conjunct2, THEN conjunct2, THEN conjunct2, THEN conjunct2]
lemmas settings_table = later_tables [THEN conjunct1]
lemmas tasks_table = later_tables [THEN conjunct2, THEN conjunct1]
lemmas artifacts_table = later_tables [THEN conjunct2, THEN conjunct2, THEN conjunct1]
lemmas checkpoints_table =
  later_tables [THEN conjunct2, THEN conjunct2, THEN conjunct2, THEN conjunct1]
lemmas grants_table =
  later_tables [THEN conjunct2, THEN conjunct2, THEN conjunct2, THEN conjunct2]

lemma ustr_inject: "backend_ok b \<Longrightarrow> ustr b i = ustr b j \<longleftrightarrow> i = j"
  by (rule crypto_ok_uuid_inject) (rule backend_okD)

lemma backend_new_ok:
  "crypto_ok (sl_env S) \<Longrightarrow> codecs_ok K \<Longrightarrow> backend_ok (backend_new S K)"
  by (simp add: backend_ok_def backend_new_def)

section \<open>Every operation keeps the invariant\<close>

lemmas seal_frames = and_then_Inr_iff Let_def

lemma conversations_upsert_ok:
  "backend_ok b \<Longrightarrow> conversations_upsert b n v = Inr b' \<Longrightarrow> backend_ok b'"
  by (frule backend_okD(1), frule backend_okD(2))
    (auto simp: conversations_upsert_def seal_frames backend_ok_def intro!: table_ok_insert)

lemma messages_append_ok:
  "backend_ok b \<Longrightarrow> messages_append b n v = Inr b' \<Longrightarrow> backend_ok b'"
  by (frule backend_okD(1), frule backend_okD(3))
    (auto simp: messages_append_def seal_frames backend_ok_def intro!: table_ok_insert)

lemma memory_upsert_ok: "backend_ok b \<Longrightarrow> memory_upsert b n v = Inr b' \<Longrightarrow> backend_ok b'"
  by (frule backend_okD(1), frule backend_okD(4))
    (auto simp: memory_upsert_def seal_frames backend_ok_def intro!: table_ok_insert)

lemma skills_upsert_ok: "backend_ok b \<Longrightarrow> skills_upsert b n v = Inr b' \<Longrightarrow> backend_ok b'"
  by (frule backend_okD(1), frule backend_okD(5))
    (auto simp: skills_upsert_def seal_frames backend_ok_def intro!: table_ok_insert)

lemma tasks_upsert_ok: "backend_ok b \<Longrightarrow> tasks_upsert b n v = Inr b' \<Longrightarrow> backend_ok b'"
  by (frule backend_okD(1), frule backend_okD(6))
    (auto simp: tasks_upsert_def seal_frames backend_ok_def intro!: table_ok_insert)

lemma artifacts_write_ok: "backend_ok b \<Longrightarrow> artifacts_write b n v = Inr b' \<Longrightarrow> backend_ok b'"
  by (frule backend_okD(1), frule backend_okD(7))
    (auto simp: artifacts_write_def seal_frames backend_ok_def intro!: table_ok_insert)

lemma settings_set_ok: "backend_ok b \<Longrightarrow> settings_set b n v = Inr b' \<Longrightarrow> backend_ok b'"
  by (frule backend_okD(1), frule backend_okD(8))
    (auto simp: settings_set_def seal_frames backend_ok_def intro!: table_ok_insert)

lemma checkpoints_write_ok: "backend_ok b \<Longrightarrow> checkpoints_write b n v = Inr b' \<Longrightarrow> backend_ok b'"
  by (frule backend_okD(1), frule backend_okD(9))
    (auto simp: checkpoints_write_def seal_frames backend_ok_def intro!: table_ok_insert)

lemma permissions_grant_ok: "backend_ok b \<Longrightarrow> permissions_grant b n v = Inr b' \<Longrightarrow> backend_ok b'"
  by (frule backend_okD(1), frule backend_okD(11))
    (auto simp: permissions_grant_def seal_frames backend_ok_def intro!: table_ok_insert)

lemma deletes_ok:
  assumes "backend_ok b"
  shows "conversations_delete b i = Inr b' \<Longrightarrow> backend_ok b'"
    and "memory_delete b i = Inr b' \<Longrightarrow> backend_ok b'"
    and "skills_delete b i = Inr b' \<Longrightarrow> backend_ok b'"
    and "tasks_delete b i = Inr b' \<Longrightarrow> backend_ok b'"
  using assms
  by (auto simp: conversations_delete_def memory_delete_def skills_delete_def tasks_delete_def
      backend_ok_def intro!: table_ok_delete)

end
