(* ===== verification/Instances.thy ===== *)
theory Instances
  imports Store
begin

text \<open>
  A concrete instance of the library code the store is parameterised by: it satisfies the
  laws \<open>crypto_ok\<close> and \<open>codecs_ok\<close>, so the hypotheses of the theorems about the store can
  hold together, and it computes, so those theorems can be applied at concrete inputs.
\<close>

section \<open>Library code\<close>

definition ascii_lower :: "string \<Rightarrow> string" where
  "ascii_lower s = map (\<lambda>c. if 65 \<le> (of_char c :: nat) \<and> (of_char c :: nat) \<le> 90
                            then char_of ((of_char c :: nat) + 32) else c) s"

definition demo_env :: crypto_env where
  "demo_env =
     \<lparr>hkdf_sha256 = (\<lambda>rk info. rk @ info),
      aes_gcm_encrypt = (\<lambda>k n aad m. Some (k @ aad @ m)),
      aes_gcm_decrypt = (\<lambda>k n aad c.
        if take (length (k @ aad)) c = k @ aad then Some (drop (length (k @ aad)) c) else None),
      sha256_digest = (\<lambda>d. d),
      uuid_to_string = (\<lambda>i. map (\<lambda>b. char_of (unat b)) (be_bytes 16 (unat i))),
      to_lowercase = ascii_lower\<rparr>"

definition demo_sealer :: sealer where
  "demo_sealer = \<lparr>sl_env = demo_env, sl_root = [7]\<rparr>"

text \<open>A codec for the records of a list: a record is written as its position.\<close>

fun index_of :: "'v \<Rightarrow> 'v list \<Rightarrow> nat option" where
  "index_of v [] = None"
| "index_of v (x # xs) = (if x = v then Some 0 else map_option Suc (index_of v xs))"

definition list_codec :: "'v list \<Rightarrow> 'v codec" where
  "list_codec vs =
     \<lparr>to_vec = (\<lambda>v. case index_of v vs of
                      None \<Rightarrow> Inl ''unknown record''
                    | Some i \<Rightarrow> Inr (replicate i 1)),
      from_slice = (\<lambda>bs. if length bs < length vs then Inr (vs ! length bs)
                         else Inl ''bad payload'')\<rparr>"

definition demo_codecs ::
  "conversation list \<Rightarrow> message list \<Rightarrow> memory_record list \<Rightarrow> checkpoint list \<Rightarrow>
    audit_event list \<Rightarrow> permission_grant list \<Rightarrow> codecs" where
  "demo_codecs cs ms mems cps aus gs =
     \<lparr>cd_conversation = list_codec cs, cd_message = list_codec ms, cd_memory = list_codec mems,
      cd_skill = list_codec [], cd_task = list_codec [], cd_artifact = list_codec [],
      cd_setting = list_codec [], cd_checkpoint = list_codec cps, cd_audit = list_codec aus,
      cd_grant = list_codec gs\<rparr>"

section \<open>The laws hold\<close>

lemma index_of_Some: "index_of v vs = Some i \<Longrightarrow> i < length vs \<and> vs ! i = v"
  by (induction vs arbitrary: i) (auto split: if_splits)

lemma list_codec_ok: "codec_ok (list_codec vs)"
  by (auto simp: codec_ok_def list_codec_def split: option.splits dest: index_of_Some)

lemma demo_codecs_ok: "codecs_ok (demo_codecs cs ms mems cps aus gs)"
  by (simp add: codecs_ok_def demo_codecs_def list_codec_ok)

lemma demo_env_ok: "crypto_ok demo_env"
proof -
  have inj_char: "inj (\<lambda>b :: u8. char_of (unat b) :: char)"
  proof (rule injI)
    fix a b :: u8
    assume "(char_of (unat a) :: char) = char_of (unat b)"
    moreover have "unat a < 256" "unat b < 256"
      using unsigned_less [of a, where 'a = nat] unsigned_less [of b, where 'a = nat] by simp_all
    ultimately show "a = b"
      by (metis mod_less of_char_of word_unat_eq_iff)
  qed
  have "i = j" if "be_bytes 16 (unat i) = be_bytes 16 (unat j)" for i j :: uuid
    using that be_bytes_inject [of "unat i" 16 "unat j"] unsigned_less [of i, where 'a = nat]
      unsigned_less [of j, where 'a = nat]
    by (simp add: word_unat_eq_iff)
  then have "inj (uuid_to_string demo_env)"
    by (auto intro!: injI simp: demo_env_def inj_map_eq_map [OF inj_char])
  then show ?thesis
    by (simp add: crypto_ok_def demo_env_def)
qed

lemma demo_backend_ok: "backend_ok (backend_new demo_sealer (demo_codecs cs ms mems cps aus gs))"
  by (rule backend_new_ok) (simp_all add: demo_sealer_def demo_env_ok demo_codecs_ok)

section \<open>Sample records\<close>

definition demo_conversation :: "uuid \<Rightarrow> datetime \<Rightarrow> conversation" where
  "demo_conversation i now = conversation_new now i MacLan"

definition demo_message :: "uuid \<Rightarrow> uuid \<Rightarrow> int \<Rightarrow> string \<Rightarrow> message" where
  "demo_message i c sq t = message_text 0 i c User t MacLan sq"

definition demo_memory :: "uuid \<Rightarrow> string \<Rightarrow> memory_record" where
  "demo_memory i t =
     \<lparr>mem_id = i, mem_space_id = None, mem_kind = MemFact, mem_content = t,
      mem_embedding_ref = None, mem_source_message_id = None, mem_created_at = 0,
      mem_updated_at = 0, mem_user_visible = True, mem_user_confirmed = True\<rparr>"

definition demo_checkpoint :: "uuid \<Rightarrow> uuid \<Rightarrow> datetime \<Rightarrow> checkpoint" where
  "demo_checkpoint i c when =
     \<lparr>cp_id = i, cp_conversation_id = c, cp_captured_at = when, cp_mode_at_capture = MacLan,
      cp_state = JNull\<rparr>"

definition demo_event :: "uuid \<Rightarrow> string \<Rightarrow> audit_event" where
  "demo_event i prev =
     \<lparr>au_event_id = i, au_device_id = 0, au_session_id = None, au_event_type = AuToolCall,
      au_actor = ActAgent, au_resource_ref = None, au_outcome = Allowed, au_metadata = JNull,
      au_timestamp = 0, au_prev_hash = prev\<rparr>"

definition demo_grant :: "uuid \<Rightarrow> permission_grant" where
  "demo_grant i =
     \<lparr>pg_grant_id = i, pg_subject = SubjTool ''shell_exec'', pg_scope = [], pg_tier = AllowAlways,
      pg_access_level = Full, pg_device_id = 0, pg_prompt_text = [], pg_granted_at = 0,
      pg_expires_at = None, pg_revoked_at = None\<rparr>"

definition demo_backend :: backend where
  "demo_backend = backend_new demo_sealer
     (demo_codecs [demo_conversation 1 5000000, demo_conversation 2 9000000]
        [demo_message 1 7 0 ''hi'', demo_message 2 7 1 ''there'']
        [demo_memory 1 ''Likes Tea'']
        [demo_checkpoint 1 7 1000000, demo_checkpoint 2 7 2000000]
        [demo_event 1 [], demo_event 2 [], demo_event 2 ''01'']
        [demo_grant 1, demo_grant 2])"

lemma demo_backend_is_ok: "backend_ok demo_backend"
  by (simp add: demo_backend_def demo_backend_ok)

section \<open>Writing sample records\<close>

lemma demo_frames [simp]:
  "be_sealer demo_backend = demo_sealer"
  "cd_conversation (be_codecs demo_backend) =
     list_codec [demo_conversation 1 5000000, demo_conversation 2 9000000]"
  "cd_message (be_codecs demo_backend) =
     list_codec [demo_message 1 7 0 ''hi'', demo_message 2 7 1 ''there'']"
  "cd_memory (be_codecs demo_backend) = list_codec [demo_memory 1 ''Likes Tea'']"
  "cd_checkpoint (be_codecs demo_backend) =
     list_codec [demo_checkpoint 1 7 1000000, demo_checkpoint 2 7 2000000]"
  "cd_audit (be_codecs demo_backend) =
     list_codec [demo_event 1 [], demo_event 2 [], demo_event 2 ''01'']"
  "cd_grant (be_codecs demo_backend) = list_codec [demo_grant 1, demo_grant 2]"
  "t_conversations demo_backend = []" "t_messages demo_backend = []" "t_memory demo_backend = []"
  "t_checkpoints demo_backend = []" "t_audit demo_backend = []" "t_grants demo_backend = []"
  by (simp_all add: demo_backend_def backend_new_def demo_codecs_def)

lemma index_of_in_set: "v \<in> set vs \<Longrightarrow> \<exists>i. index_of v vs = Some i"
  by (induction vs) auto

lemma demo_seal: "v \<in> set vs \<Longrightarrow> \<exists>e. seal demo_sealer (list_codec vs) n coll i v = Inr e"
  by (auto simp: seal_def list_codec_def demo_sealer_def demo_env_def encrypt_def
      dest!: index_of_in_set)

end
