(* ===== verification/Store_Laws.thy ===== *)
theory Store_Laws
  imports Store Instances
begin

text \<open>
  What the SQLite backend promises: each keyed table is an interpretation of the contracts
  of \<open>Store_Spec\<close> (last write wins, other keys untouched, deletion), the message table is
  the message log, and the queries return what their SQL says: the most recently updated
  conversations first, the latest checkpoint, the newest grant that is not revoked.
\<close>

section \<open>Keyed tables\<close>

lemmas get_defs =
  conversations_get_def memory_get_def skills_get_def tasks_get_def artifacts_read_def
  settings_get_def

lemmas delete_defs =
  conversations_delete_def memory_delete_def skills_delete_def tasks_delete_def

lemma conversations_get_upsert:
  "backend_ok b \<Longrightarrow> conversations_upsert b n v = Inr b' \<Longrightarrow>
    conversations_get b' k = (if k = conv_id v then Inr (Some v) else conversations_get b k)"
  by (auto simp: conversations_upsert_def conversations_get_def seal_frames ustr_inject
      fetch_after_put [where n = n, OF conversations_table backend_okD(1,2)])

lemma memory_get_upsert:
  "backend_ok b \<Longrightarrow> memory_upsert b n v = Inr b' \<Longrightarrow>
    memory_get b' k = (if k = mem_id v then Inr (Some v) else memory_get b k)"
  by (auto simp: memory_upsert_def memory_get_def seal_frames ustr_inject
      fetch_after_put [where n = n, OF memory_table backend_okD(1,4)])

lemma skills_get_upsert:
  "backend_ok b \<Longrightarrow> skills_upsert b n v = Inr b' \<Longrightarrow>
    skills_get b' k = (if k = skill_id v then Inr (Some v) else skills_get b k)"
  by (auto simp: skills_upsert_def skills_get_def seal_frames ustr_inject
      fetch_after_put [where n = n, OF skills_table backend_okD(1,5)])

lemma tasks_get_upsert:
  "backend_ok b \<Longrightarrow> tasks_upsert b n v = Inr b' \<Longrightarrow>
    tasks_get b' k = (if k = task_id v then Inr (Some v) else tasks_get b k)"
  by (auto simp: tasks_upsert_def tasks_get_def seal_frames ustr_inject
      fetch_after_put [where n = n, OF tasks_table backend_okD(1,6)])

lemma artifacts_read_write:
  "backend_ok b \<Longrightarrow> artifacts_write b n v = Inr b' \<Longrightarrow>
    artifacts_read b' k = (if k = art_id v then Inr (Some v) else artifacts_read b k)"
  by (auto simp: artifacts_write_def artifacts_read_def seal_frames ustr_inject
      fetch_after_put [where n = n, OF artifacts_table backend_okD(1,7)])

lemma settings_get_set:
  "backend_ok b \<Longrightarrow> settings_set b n v = Inr b' \<Longrightarrow>
    settings_get b' k = (if k = set_key v then Inr (Some v) else settings_get b k)"
  by (auto simp: settings_set_def settings_get_def seal_frames ustr_inject
      fetch_after_put [where n = n, OF settings_table backend_okD(1,8)])

lemma gets_total:
  assumes "backend_ok b"
  shows "\<exists>r. conversations_get b k = Inr r" and "\<exists>r. memory_get b k = Inr r"
    and "\<exists>r. skills_get b k = Inr r" and "\<exists>r. tasks_get b k = Inr r"
    and "\<exists>r. artifacts_read b k = Inr r" and "\<exists>r. settings_get b s = Inr r"
  using backend_tables [OF assms] by (auto simp: get_defs fetch_select_by_id)

lemma gets_after_delete:
  assumes "backend_ok b"
  shows "conversations_delete b i = Inr b' \<Longrightarrow>
      conversations_get b' k = (if k = i then Inr None else conversations_get b k)"
    and "memory_delete b i = Inr b' \<Longrightarrow>
      memory_get b' k = (if k = i then Inr None else memory_get b k)"
    and "skills_delete b i = Inr b' \<Longrightarrow>
      skills_get b' k = (if k = i then Inr None else skills_get b k)"
    and "tasks_delete b i = Inr b' \<Longrightarrow>
      tasks_get b' k = (if k = i then Inr None else tasks_get b k)"
  using backend_tables [OF assms]
  by (auto simp: get_defs delete_defs fetch_after_delete ustr_inject [OF assms])

interpretation conversations:
  keyed_store_del conversations_get conversations_upsert conv_id backend_ok conversations_delete
  by unfold_locales
    (auto intro: conversations_upsert_ok deletes_ok gets_total
      simp: conversations_get_upsert gets_after_delete)

interpretation memory: keyed_store_del memory_get memory_upsert mem_id backend_ok memory_delete
  by unfold_locales
    (auto intro: memory_upsert_ok deletes_ok gets_total simp: memory_get_upsert gets_after_delete)

interpretation skills: keyed_store_del skills_get skills_upsert skill_id backend_ok skills_delete
  by unfold_locales
    (auto intro: skills_upsert_ok deletes_ok gets_total simp: skills_get_upsert gets_after_delete)

interpretation tasks: keyed_store_del tasks_get tasks_upsert task_id backend_ok tasks_delete
  by unfold_locales
    (auto intro: tasks_upsert_ok deletes_ok gets_total simp: tasks_get_upsert gets_after_delete)

interpretation artifacts: keyed_store artifacts_read artifacts_write art_id backend_ok
  by unfold_locales (auto intro: artifacts_write_ok gets_total simp: artifacts_read_write)

interpretation settings: keyed_store settings_get settings_set set_key backend_ok
  by unfold_locales (auto intro: settings_set_ok gets_total simp: settings_get_set)

section \<open>The message log\<close>

text \<open>The messages the table holds, in the order they were last written.\<close>

definition stored_messages :: "backend \<Rightarrow> message list" where
  "stored_messages b =
     records_of (be_sealer b) (cd_message (be_codecs b)) ''messages'' (t_messages b)"

definition history_of :: "backend \<Rightarrow> uuid \<Rightarrow> message list" where
  "history_of b c =
     sort_key msg_sequence_num (filter (\<lambda>m. msg_conversation_id m = c) (stored_messages b))"

lemma message_rows:
  assumes "backend_ok b" and "r \<in> set (t_messages b)"
    and "m = record_of (be_sealer b) (cd_message (be_codecs b)) ''messages'' r"
  shows "row_ix r = (ustr b (msg_conversation_id m), msg_sequence_num m)"
  using table_okD(3) [OF messages_table [OF assms(1)] assms(2)] assms(3) by simp

lemma messages_range_eq:
  assumes "backend_ok b"
  shows "messages_range b c limit = Inr (sql_limit limit (history_of b c))"
proof -
  let ?rec = "record_of (be_sealer b) (cd_message (be_codecs b)) ''messages''"
  let ?sel = "filter (\<lambda>r. fst (row_ix r) = ustr b c) (t_messages b)"
  have sel: "?sel = filter (\<lambda>r. msg_conversation_id (?rec r) = c) (t_messages b)"
    by (auto intro!: filter_cong simp: message_rows [OF assms _ refl] ustr_inject [OF assms])
  have "history_of b c = sort_key msg_sequence_num (map ?rec ?sel)"
    by (simp add: history_of_def stored_messages_def records_of_def sel filter_map comp_def)
  also have "\<dots> = map ?rec (sort_key (\<lambda>r. snd (row_ix r)) ?sel)"
    by (auto simp: sort_key_map message_rows [OF assms _ refl]
        intro!: arg_cong [of _ _ "map ?rec"] sort_key_cong_set)
  finally have "history_of b c = map ?rec (sort_key (\<lambda>r. snd (row_ix r)) ?sel)" .
  moreover have "set (sql_limit limit (sort_key (\<lambda>r. snd (row_ix r)) ?sel)) \<subseteq> set (t_messages b)"
    using set_sql_limit [of limit "sort_key (\<lambda>r. snd (row_ix r)) ?sel"] by auto
  ultimately show ?thesis
    by (simp add: messages_range_def fetch_all_ok [OF messages_table [OF assms]]
        records_of_def sql_limit_map)
qed

lemma next_sequence_eq:
  assumes "backend_ok b"
  shows "messages_next_sequence b c =
    Inr (if history_of b c = [] then 0
         else i64_succ (Max (msg_sequence_num ` set (history_of b c))))"
proof -
  let ?rec = "record_of (be_sealer b) (cd_message (be_codecs b)) ''messages''"
  let ?sel = "filter (\<lambda>r. fst (row_ix r) = ustr b c) (t_messages b)"
  let ?seqs = "map (\<lambda>r. snd (row_ix r)) ?sel"
  have sel: "?sel = filter (\<lambda>r. msg_conversation_id (?rec r) = c) (t_messages b)"
    by (auto intro!: filter_cong simp: message_rows [OF assms _ refl] ustr_inject [OF assms])
  have "set ?seqs = (\<lambda>r. msg_sequence_num (?rec r)) ` set ?sel"
    by (auto simp: message_rows [OF assms _ refl] image_iff intro!: bexI)
  also have "\<dots> = msg_sequence_num ` set (history_of b c)"
    by (auto simp: history_of_def stored_messages_def records_of_def sel)
  finally have seqs: "set ?seqs = msg_sequence_num ` set (history_of b c)" .
  show ?thesis
  proof (cases ?seqs)
    case Nil
    with seqs show ?thesis
      by (simp add: messages_next_sequence_def)
  next
    case (Cons q qs)
    from seqs have im: "msg_sequence_num ` set (history_of b c) = insert q (set qs)"
      by (simp only: Cons list.simps)
    then have "history_of b c \<noteq> []"
      by auto
    with Cons im show ?thesis
      by (simp add: messages_next_sequence_def fold_max_Max)
  qed
qed

lemma next_sequence_above:
  assumes "backend_ok b" and "messages_next_sequence b c = Inr q" and "0 \<le> q"
    and "m \<in> set (history_of b c)"
  shows "msg_sequence_num m < q"
proof -
  have "msg_sequence_num m \<le> Max (msg_sequence_num ` set (history_of b c))"
    using assms(4) by simp
  with assms(2-4) show ?thesis
    by (auto simp: next_sequence_eq [OF assms(1)] i64_succ_def split: if_splits)
qed

lemma stored_messages_append:
  assumes "backend_ok b" and "messages_append b n m = Inr b'"
  shows "stored_messages b' = filter (\<lambda>w. msg_id w \<noteq> msg_id m) (stored_messages b) @ [m]"
proof -
  from assms(2) obtain e where
      e: "seal (be_sealer b) (cd_message (be_codecs b)) n ''messages'' (ustr b (msg_id m)) m = Inr e"
    and b': "b' = b\<lparr>t_messages := insert_or_replace (mk_row (ustr b (msg_id m))
          (ustr b (msg_conversation_id m), msg_sequence_num m) e) (t_messages b)\<rparr>"
    by (auto simp: messages_append_def seal_frames)
  show ?thesis
    using records_insert [where keyf = "\<lambda>v. ustr b (msg_id v)" and v = m and n = n,
        OF backend_okD(1,3) [OF assms(1)] _ messages_table [OF assms(1)]] e
    by (simp add: b' stored_messages_def ustr_inject [OF assms(1)])
qed

text \<open>The view of the message table as a log.\<close>

definition next_sequence_of :: "backend \<Rightarrow> uuid \<Rightarrow> int" where
  "next_sequence_of b c = projr (messages_next_sequence b c)"

definition has_message :: "backend \<Rightarrow> uuid \<Rightarrow> bool" where
  "has_message b i = (i \<in> msg_id ` set (stored_messages b))"

lemma next_sequence_of_eq:
  "backend_ok b \<Longrightarrow> messages_next_sequence b c = Inr (next_sequence_of b c)"
  by (simp add: next_sequence_of_def next_sequence_eq)

interpretation messages:
  message_log history_of messages_append next_sequence_of has_message backend_ok
proof unfold_locales
  fix s n m s' c
  assume ok: "backend_ok s" and app: "messages_append s n m = Inr s'"
    and new: "\<not> has_message s (msg_id m)" and pos: "0 \<le> msg_sequence_num m"
    and sq: "msg_sequence_num m = next_sequence_of s (msg_conversation_id m)"
  have "filter (\<lambda>w. msg_id w \<noteq> msg_id m) (stored_messages s) = stored_messages s"
    using new by (intro filter_True) (auto simp: has_message_def image_iff)
  then have st: "stored_messages s' = stored_messages s @ [m]"
    using stored_messages_append [OF ok app] by simp
  have "msg_sequence_num w \<le> msg_sequence_num m"
    if "w \<in> set (stored_messages s)" "msg_conversation_id w = msg_conversation_id m" for w
    using next_sequence_above [OF ok next_sequence_of_eq [OF ok], of "msg_conversation_id m" w]
      pos sq that by (auto simp: history_of_def)
  then show "history_of s' c =
      (if c = msg_conversation_id m then history_of s c @ [m] else history_of s c)"
    by (auto simp: history_of_def st intro!: sort_key_snoc)
qed (auto intro: messages_append_ok
      dest: next_sequence_above [OF _ next_sequence_of_eq]
      simp: has_message_def stored_messages_append)

section \<open>Ordered queries\<close>

definition stored_conversations :: "backend \<Rightarrow> conversation list" where
  "stored_conversations b =
     records_of (be_sealer b) (cd_conversation (be_codecs b)) ''conversations'' (t_conversations b)"

abbreviation updated_millis :: "conversation \<Rightarrow> int" where
  "updated_millis c \<equiv> timestamp_millis (conv_updated_at c)"

lemma conversations_list_eq:
  assumes "backend_ok b"
  shows "conversations_list b limit =
    Inr (sql_limit limit (sort_key (\<lambda>c. - updated_millis c) (stored_conversations b)))"
proof -
  let ?rec = "record_of (be_sealer b) (cd_conversation (be_codecs b)) ''conversations''"
  have ix: "row_ix r = updated_millis (?rec r)" if "r \<in> set (t_conversations b)" for r
    using table_okD(3) [OF conversations_table [OF assms] that] .
  have "sort_key (\<lambda>c. - updated_millis c) (stored_conversations b) =
      map ?rec (sort_key (\<lambda>r. - row_ix r) (t_conversations b))"
    by (auto simp: stored_conversations_def records_of_def sort_key_map ix
        intro!: arg_cong [of _ _ "map ?rec"] sort_key_cong_set)
  moreover have "set (sql_limit limit (sort_key (\<lambda>r. - row_ix r) (t_conversations b)))
      \<subseteq> set (t_conversations b)"
    using set_sql_limit [of limit "sort_key (\<lambda>r. - row_ix r) (t_conversations b)"] by auto
  ultimately show ?thesis
    by (simp add: conversations_list_def fetch_all_ok [OF conversations_table [OF assms]]
        records_of_def sql_limit_map)
qed

lemma conversations_get_stored:
  "backend_ok b \<Longrightarrow>
    conversations_get b i = Inr (find (\<lambda>c. conv_id c = i) (stored_conversations b))"
  by (simp add: conversations_get_def fetch_select_by_id [OF conversations_table]
      stored_conversations_def ustr_inject)

lemma stored_conversations_upsert:
  assumes "backend_ok b" and "conversations_upsert b n v = Inr b'"
  shows "stored_conversations b' =
    filter (\<lambda>w. conv_id w \<noteq> conv_id v) (stored_conversations b) @ [v]"
proof -
  from assms(2) obtain e where
      e: "seal (be_sealer b) (cd_conversation (be_codecs b)) n ''conversations'' (ustr b (conv_id v)) v
            = Inr e"
    and b': "b' = b\<lparr>t_conversations := insert_or_replace
          (mk_row (ustr b (conv_id v)) (updated_millis v) e) (t_conversations b)\<rparr>"
    by (auto simp: conversations_upsert_def seal_frames)
  show ?thesis
    using records_insert [where keyf = "\<lambda>v. ustr b (conv_id v)" and v = v and n = n,
        OF backend_okD(1,2) [OF assms(1)] _ conversations_table [OF assms(1)]] e
    by (simp add: b' stored_conversations_def ustr_inject [OF assms(1)])
qed

lemma fetch_one_row:
  assumes "table_ok S C coll keyf ixr t" and "r \<in> set t"
  shows "fetch_one S C coll (Some r) = Inr (Some (record_of S C coll r))"
  using table_okD(1) [OF assms] by (simp add: fetch_one_def)

definition stored_checkpoints :: "backend \<Rightarrow> checkpoint list" where
  "stored_checkpoints b =
     records_of (be_sealer b) (cd_checkpoint (be_codecs b)) ''checkpoints'' (t_checkpoints b)"

lemma stored_checkpoints_write:
  assumes "backend_ok b" and "checkpoints_write b n v = Inr b'"
  shows "stored_checkpoints b' = filter (\<lambda>w. cp_id w \<noteq> cp_id v) (stored_checkpoints b) @ [v]"
proof -
  from assms(2) obtain e where
      e: "seal (be_sealer b) (cd_checkpoint (be_codecs b)) n ''checkpoints'' (ustr b (cp_id v)) v
            = Inr e"
    and b': "b' = b\<lparr>t_checkpoints := insert_or_replace (mk_row (ustr b (cp_id v))
          (ustr b (cp_conversation_id v), timestamp_millis (cp_captured_at v)) e)
          (t_checkpoints b)\<rparr>"
    by (auto simp: checkpoints_write_def seal_frames)
  show ?thesis
    using records_insert [where keyf = "\<lambda>v. ustr b (cp_id v)" and v = v and n = n,
        OF backend_okD(1,9) [OF assms(1)] _ checkpoints_table [OF assms(1)]] e
    by (simp add: b' stored_checkpoints_def ustr_inject [OF assms(1)])
qed

lemma hd_sort_key_Min:
  fixes f :: "'a \<Rightarrow> int"
  assumes "sort_key f xs = x # ys"
  shows "x \<in> set xs \<and> (\<forall>y \<in> set xs. f x \<le> f y)"
proof -
  have "sorted (map f (x # ys))" and "set (x # ys) = set xs"
    using sorted_sort_key [of f xs] set_sort [of f xs] assms by metis+
  then show ?thesis
    by (auto simp: set_eq_iff)
qed

lemma checkpoints_latest_spec:
  assumes ok: "backend_ok b" and "checkpoints_latest b c = Inr r"
  shows "case r of
      None \<Rightarrow> \<forall>k \<in> set (stored_checkpoints b). cp_conversation_id k \<noteq> c
    | Some l \<Rightarrow> l \<in> set (stored_checkpoints b) \<and> cp_conversation_id l = c \<and>
        (\<forall>k \<in> set (stored_checkpoints b). cp_conversation_id k = c \<longrightarrow>
          timestamp_millis (cp_captured_at k) \<le> timestamp_millis (cp_captured_at l))"
proof -
  let ?rec = "record_of (be_sealer b) (cd_checkpoint (be_codecs b)) ''checkpoints''"
  let ?sel = "filter (\<lambda>r. fst (row_ix r) = ustr b c) (t_checkpoints b)"
  have ix: "row_ix r = (ustr b (cp_conversation_id (?rec r)), timestamp_millis (cp_captured_at (?rec r)))"
    if "r \<in> set (t_checkpoints b)" for r
    using table_okD(3) [OF checkpoints_table [OF ok] that] .
  show ?thesis
  proof (cases "sort_key (\<lambda>r. - snd (row_ix r)) ?sel")
    case Nil
    then have "?sel = []"
      by (metis set_empty set_sort)
    with Nil assms(2) show ?thesis
      by (auto simp: checkpoints_latest_def fetch_one_def stored_checkpoints_def records_of_def
          filter_empty_conv ix ustr_inject [OF ok])
  next
    case (Cons x xs)
    from hd_sort_key_Min [OF Cons] have x: "x \<in> set (t_checkpoints b)" "fst (row_ix x) = ustr b c"
      and mx: "\<And>y. y \<in> set (t_checkpoints b) \<Longrightarrow> fst (row_ix y) = ustr b c \<Longrightarrow>
        snd (row_ix y) \<le> snd (row_ix x)"
      by auto
    have "r = Some (?rec x)"
      using assms(2) Cons x(1)
      by (auto simp: checkpoints_latest_def fetch_one_row [OF checkpoints_table [OF ok]])
    with x mx show ?thesis
      by (auto simp: stored_checkpoints_def records_of_def ix ustr_inject [OF ok])
  qed
qed

section \<open>Permissions\<close>

lemma table_ok_map:
  assumes t: "table_ok S C coll keyf ixr t"
    and f: "\<And>r. row_id (f r) = row_id r \<and> row_enc (f r) = row_enc r \<and> row_nonce (f r) = row_nonce r"
    and ix: "\<And>r v. ixr v (row_ix r) \<Longrightarrow> ixr v (row_ix (f r))"
  shows "table_ok S C coll keyf ixr (map f t)"
proof -
  have "row_id \<circ> f = row_id"
    using f by auto
  then have "distinct (map row_id (map f t)) = distinct (map row_id t)"
    by (simp only: map_map)
  moreover have "\<exists>v. unseal_row S C coll (f r) = Inr v \<and> row_id (f r) = keyf v \<and> ixr v (row_ix (f r))"
    if "r \<in> set t" for r
    using table_okD [OF t that] ix by (auto simp: unseal_row_def f)
  ultimately show ?thesis
    using t unfolding table_ok_def by (simp only: set_map ball_simps) blast
qed

lemma permissions_revoke_ok:
  "backend_ok b \<Longrightarrow> permissions_revoke b i = Inr b' \<Longrightarrow> backend_ok b'"
  by (auto simp: permissions_revoke_def backend_ok_def intro!: table_ok_map)

definition stored_grants :: "backend \<Rightarrow> permission_grant list" where
  "stored_grants b = records_of (be_sealer b) (cd_grant (be_codecs b)) ''grants'' (t_grants b)"

lemma permissions_list_eq: "backend_ok b \<Longrightarrow> permissions_list b = Inr (stored_grants b)"
  by (simp add: permissions_list_def stored_grants_def fetch_all_ok [OF grants_table])

lemma permissions_check_Some:
  assumes ok: "backend_ok b" and "permissions_check b subject scope = Inr (Some g)"
  obtains r where "r \<in> set (t_grants b)" and "row_id r = ustr b (pg_grant_id g)"
    and "fst (row_ix r) = subject_key subject" and "\<not> snd (row_ix r)"
    and "g = record_of (be_sealer b) (cd_grant (be_codecs b)) ''grants'' r"
    and "g \<in> set (stored_grants b)"
proof -
  let ?rows = "filter (\<lambda>r. fst (row_ix r) = subject_key subject \<and> \<not> snd (row_ix r)) (t_grants b)"
  have ne: "?rows \<noteq> []"
    using assms(2) by (auto simp: permissions_check_def fetch_one_def Let_def split: if_splits)
  then have l: "last ?rows \<in> set ?rows"
    by (rule last_in_set)
  then have g: "g = record_of (be_sealer b) (cd_grant (be_codecs b)) ''grants'' (last ?rows)"
    using assms(2) ne
    by (auto simp: permissions_check_def Let_def fetch_one_row [OF grants_table [OF ok]])
  show thesis
    using that [of "last ?rows"] l g table_okD(2) [OF grants_table [OF ok], of "last ?rows"]
    by (auto simp: stored_grants_def records_of_def)
qed

section \<open>Memory search\<close>

definition stored_memory :: "backend \<Rightarrow> memory_record list" where
  "stored_memory b = records_of (be_sealer b) (cd_memory (be_codecs b)) ''memory'' (t_memory b)"

definition memory_matches :: "backend \<Rightarrow> string \<Rightarrow> memory_record \<Rightarrow> bool" where
  "memory_matches b query rec =
     (let low = to_lowercase (sl_env (be_sealer b))
      in low query = [] \<or> str_contains (low (mem_content rec)) (low query))"

lemma search_loop_eq:
  assumes "\<And>r. r \<in> set rows \<Longrightarrow>
      unseal_row (be_sealer b) (cd_memory (be_codecs b)) ''memory'' r = Inr (rec r)"
    and "length out < max 1 (unat limit)"
  shows "search_loop b needle limit out rows =
    Inr (out @ take (max 1 (unat limit) - length out)
      (filter (\<lambda>v. needle = [] \<or>
         str_contains (to_lowercase (sl_env (be_sealer b)) (mem_content v)) needle) (map rec rows)))"
  using assms
proof (induction rows arbitrary: out)
  case Nil
  then show ?case by simp
next
  case (Cons r rows)
  show ?case
  proof (cases "unat limit \<le> Suc (length out)")
    case True
    with Cons.prems(2) have "max 1 (unat limit) - length out = 1"
      by linarith
    with True Cons show ?thesis
      by simp
  next
    case False
    then have "max 1 (unat limit) - length out = Suc (max 1 (unat limit) - length (out @ [rec r]))"
      and "length (out @ [rec r]) < max 1 (unat limit)"
      by auto
    with False Cons show ?thesis
      by simp
  qed
qed

section \<open>Properties\<close>

text \<open>C7: the conversation table refines a finite map. From a well-formed backend whose reads
  agree with a map, any sequence of upserts and deletes that succeeds leaves a well-formed
  backend whose reads agree with the map those commands build: the last write under an
  identifier is read back unchanged through encryption and serialisation, a deleted one is
  gone, and no other identifier is touched.\<close>

theorem conversation_store_refines_map:
  assumes "backend_ok b" and "\<And>i. conversations_get b i = Inr (m i)"
    and "run_cmds conversations_upsert conversations_delete b cs = Inr b'"
  shows "backend_ok b' \<and> conversations_get b' k = Inr (fold (map_cmd conv_id) cs m k)"
  using assms by (rule conversations.run_refines_map)

theorem conversation_store_refines_map_witness:
  "\<exists>b'. run_cmds conversations_upsert conversations_delete demo_backend
       [CmdPut 0 (demo_conversation 1 5000000), CmdPut 0 (demo_conversation 2 9000000),
        CmdDelete 1] = Inr b'
     \<and> conversations_get b' 2 = Inr (Some (demo_conversation 2 9000000))
     \<and> conversations_get b' 1 = Inr None"
proof -
  let ?cmds = "[CmdPut 0 (demo_conversation 1 5000000), CmdPut 0 (demo_conversation 2 9000000),
        CmdDelete 1] :: (uuid, nonce, conversation) store_cmd list"
  let ?vs = "[demo_conversation 1 5000000, demo_conversation 2 9000000]"
  obtain e1 e2 where
      "seal demo_sealer (list_codec ?vs) 0 ''conversations'' (ustr demo_backend 1) (?vs ! 0) = Inr e1"
      "seal demo_sealer (list_codec ?vs) 0 ''conversations'' (ustr demo_backend 2) (?vs ! 1) = Inr e2"
    using demo_seal [of "?vs ! 0" ?vs] demo_seal [of "?vs ! 1" ?vs] by fastforce
  then obtain b' where
      run: "run_cmds conversations_upsert conversations_delete demo_backend ?cmds = Inr b'"
    by (simp add: conversations_upsert_def conversations_delete_def demo_conversation_def
        conversation_new_def)
  have "conversations_get demo_backend i = Inr (Map.empty i)" for i
    by (simp add: conversations_get_def select_by_id_def fetch_one_def)
  from conversation_store_refines_map [OF demo_backend_is_ok this run, of 1]
    conversation_store_refines_map [OF demo_backend_is_ok this run, of 2] run
  show ?thesis
    by (auto simp: demo_conversation_def conversation_new_def)
qed

text \<open>Appending a message under the next sequence number puts it at the end. On a
  well-formed backend, with a new message identifier and no wrap-around of the counter, the
  unlimited \<open>range\<close> of the message's conversation is the old one followed by the message,
  every other conversation reads as before, and the conversation's counter moves on by one.\<close>

theorem append_extends_history:
  assumes "backend_ok b" and "messages_append b n m = Inr b'"
    and "\<not> has_message b (msg_id m)"
    and "messages_next_sequence b (msg_conversation_id m) = Inr (msg_sequence_num m)"
    and "0 \<le> msg_sequence_num m"
  shows "messages_range b c (- 1) = Inr (history_of b c) \<and>
    messages_range b' c (- 1) =
      Inr (if c = msg_conversation_id m then history_of b c @ [m] else history_of b c) \<and>
    messages_next_sequence b' (msg_conversation_id m) = Inr (i64_succ (msg_sequence_num m))"
proof -
  let ?c = "msg_conversation_id m"
  note ok' = messages_append_ok [OF assms(1,2)]
  have sq: "msg_sequence_num m = next_sequence_of b ?c"
    using assms(4) by (simp add: next_sequence_of_def)
  note hist = messages.append_history [OF assms(1,2,3,5) sq]
  have "Max (msg_sequence_num ` set (history_of b' ?c)) = msg_sequence_num m"
    using next_sequence_above [OF assms(1,4,5)]
    by (intro Max_eqI) (auto simp: hist intro: less_imp_le)
  then show ?thesis
    using assms(1) ok' by (simp add: messages_range_eq next_sequence_eq [OF ok'] hist)
qed

theorem append_extends_history_witness:
  "\<exists>b'. messages_append demo_backend 0 (demo_message 1 7 0 ''hi'') = Inr b'
     \<and> messages_range b' 7 (- 1) = Inr [demo_message 1 7 0 ''hi'']
     \<and> messages_next_sequence b' 7 = Inr 1"
proof -
  let ?m = "demo_message 1 7 0 ''hi''"
  have st: "stored_messages demo_backend = []"
    by (simp add: stored_messages_def records_of_def)
  then have h: "history_of demo_backend c = []" for c
    by (simp add: history_of_def)
  have m: "msg_conversation_id ?m = 7" "msg_sequence_num ?m = 0" "msg_id ?m = 1"
    by (simp_all add: demo_message_def)
  from demo_seal [of ?m "[?m, demo_message 2 7 1 ''there'']"] obtain b' where
      b': "messages_append demo_backend 0 ?m = Inr b'"
    by (fastforce simp: messages_append_def Let_def and_then_Inr_iff)
  have "messages_next_sequence demo_backend 7 = Inr 0"
    by (simp add: messages_next_sequence_def)
  with append_extends_history [OF demo_backend_is_ok b', of 7] st
  show ?thesis
    using b' by (simp add: m h has_message_def i64_succ_def)
qed

text \<open>\<open>list\<close> returns the most recently updated conversations, newest first. Its result is
  ordered by descending update time (in milliseconds), has the requested number of entries or
  all of them, and every conversation left out is at most as recent as every one returned.\<close>

theorem conversations_list_most_recent:
  assumes "backend_ok b" and "n < 2 ^ 63" and "conversations_list b (word_of_nat n) = Inr cs"
  shows "sorted_wrt (\<lambda>x y. updated_millis y \<le> updated_millis x) cs \<and>
    length cs = min n (length (stored_conversations b)) \<and>
    set cs \<subseteq> set (stored_conversations b) \<and>
    (\<forall>x \<in> set (stored_conversations b). x \<notin> set cs \<longrightarrow>
       (\<forall>y \<in> set cs. updated_millis x \<le> updated_millis y))"
proof -
  let ?s = "sort_key (\<lambda>c. - updated_millis c) (stored_conversations b)"
  have cs: "cs = take n ?s"
    using assms by (simp add: conversations_list_eq sql_limit_of_nat)
  have srt: "sorted_wrt (\<lambda>x y. updated_millis y \<le> updated_millis x) ?s"
    using sorted_sort_key [of "\<lambda>c. - updated_millis c" "stored_conversations b"]
    by (simp add: sorted_map)
  have "updated_millis x \<le> updated_millis y"
    if "x \<in> set (stored_conversations b)" "x \<notin> set cs" "y \<in> set cs" for x y
  proof -
    have "x \<in> set (take n ?s @ drop n ?s)"
      using that(1) by simp
    then have "x \<in> set (drop n ?s)"
      using that(2) cs by (simp only: set_append) simp
    with sorted_wrt_take_drop [OF srt, of y n x] that(3) cs show ?thesis
      by simp
  qed
  then show ?thesis
    using srt by (auto simp: cs sorted_wrt_take dest: in_set_takeD)
qed

theorem conversations_list_most_recent_witness:
  "\<exists>b. put_all conversations_upsert demo_backend
       [(0, demo_conversation 1 5000000), (0, demo_conversation 2 9000000)] = Inr b
     \<and> conversations_list b (word_of_nat 1) = Inr [demo_conversation 2 9000000]"
proof -
  let ?c1 = "demo_conversation 1 5000000" and ?c2 = "demo_conversation 2 9000000"
  from demo_seal [of ?c1 "[?c1, ?c2]"] obtain b1 where
      b1: "conversations_upsert demo_backend 0 ?c1 = Inr b1"
    by (fastforce simp: conversations_upsert_def Let_def and_then_Inr_iff)
  then have fr: "be_sealer b1 = demo_sealer" "cd_conversation (be_codecs b1) = list_codec [?c1, ?c2]"
    by (auto simp: conversations_upsert_def seal_frames)
  from demo_seal [of ?c2 "[?c1, ?c2]"] obtain b2 where b2: "conversations_upsert b1 0 ?c2 = Inr b2"
    by (fastforce simp: conversations_upsert_def Let_def and_then_Inr_iff fr)
  note ok1 = conversations_upsert_ok [OF demo_backend_is_ok b1]
  note ok2 = conversations_upsert_ok [OF ok1 b2]
  have ids: "conv_id ?c1 = 1" "conv_id ?c2 = 2" "updated_millis ?c1 = 5" "updated_millis ?c2 = 9"
    by (simp_all add: demo_conversation_def conversation_new_def timestamp_millis_def)
  have st: "stored_conversations b2 = [?c1, ?c2]"
    using stored_conversations_upsert [OF demo_backend_is_ok b1]
      stored_conversations_upsert [OF ok1 b2]
    by (simp add: ids stored_conversations_def [of demo_backend] records_of_def)
  then have l: "conversations_list b2 (word_of_nat 1) = Inr [?c2]"
    by (subst conversations_list_eq [OF ok2], subst sql_limit_of_nat) (simp_all add: ids)
  from conversations_list_most_recent [OF ok2 _ l] b1 b2 l show ?thesis
    by auto
qed

text \<open>\<open>latest\<close> returns a checkpoint of the conversation captured no earlier (in
  milliseconds) than any other of that conversation, and nothing only when there is none.\<close>

theorem checkpoints_latest_is_latest:
  assumes "backend_ok b"
  shows "\<exists>r. checkpoints_latest b c = Inr r \<and>
    (case r of
       None \<Rightarrow> \<forall>k \<in> set (stored_checkpoints b). cp_conversation_id k \<noteq> c
     | Some l \<Rightarrow> l \<in> set (stored_checkpoints b) \<and> cp_conversation_id l = c \<and>
         (\<forall>k \<in> set (stored_checkpoints b). cp_conversation_id k = c \<longrightarrow>
           timestamp_millis (cp_captured_at k) \<le> timestamp_millis (cp_captured_at l)))"
proof -
  let ?sorted = "sort_key (\<lambda>r. - snd (row_ix r))
    (filter (\<lambda>r. fst (row_ix r) = ustr b c) (t_checkpoints b))"
  have "\<exists>r. checkpoints_latest b c = Inr r"
  proof (cases ?sorted)
    case Nil
    then show ?thesis
      by (simp add: checkpoints_latest_def fetch_one_def)
  next
    case (Cons x xs)
    with hd_sort_key_Min [OF Cons] fetch_one_row [OF checkpoints_table [OF assms], of x]
    show ?thesis
      by (simp add: checkpoints_latest_def)
  qed
  then show ?thesis
    using checkpoints_latest_spec [OF assms] by blast
qed

theorem checkpoints_latest_is_latest_witness:
  "\<exists>b. checkpoints_write demo_backend 0 (demo_checkpoint 1 7 1000000) = Inr b
     \<and> checkpoints_latest b 7 = Inr (Some (demo_checkpoint 1 7 1000000))"
proof -
  let ?k = "demo_checkpoint 1 7 1000000"
  from demo_seal [of ?k "[?k, demo_checkpoint 2 7 2000000]"] obtain b where
      b: "checkpoints_write demo_backend 0 ?k = Inr b"
    by (fastforce simp: checkpoints_write_def Let_def and_then_Inr_iff)
  note ok = checkpoints_write_ok [OF demo_backend_is_ok b]
  have st: "stored_checkpoints b = [?k]"
    using stored_checkpoints_write [OF demo_backend_is_ok b]
    by (simp add: stored_checkpoints_def [of demo_backend] records_of_def)
  have "cp_conversation_id ?k = 7"
    by (simp add: demo_checkpoint_def)
  with checkpoints_latest_is_latest [OF ok, of 7] st b show ?thesis
    by (auto split: option.splits)
qed

text \<open>A revoked grant is never the answer of \<open>check\<close> again, and an answer is always a
  stored grant for the subject asked about whose record is not revoked. The scope argument
  does not influence the answer.\<close>

theorem revoked_grant_not_returned:
  assumes "backend_ok b" and "permissions_revoke b i = Inr b'"
    and "permissions_check b' subject scope = Inr (Some g)"
  shows "pg_grant_id g \<noteq> i \<and> subject_key (pg_subject g) = subject_key subject \<and>
    pg_revoked_at g = None \<and> g \<in> set (stored_grants b) \<and>
    (\<forall>scope'. permissions_check b' subject scope' = Inr (Some g))"
proof -
  note ok' = permissions_revoke_ok [OF assms(1,2)]
  from permissions_check_Some [OF ok' assms(3)] obtain r where r: "r \<in> set (t_grants b')"
    and i: "row_id r = ustr b' (pg_grant_id g)" and sb: "fst (row_ix r) = subject_key subject"
    and nr: "\<not> snd (row_ix r)"
    and g: "g = record_of (be_sealer b') (cd_grant (be_codecs b')) ''grants'' r" .
  have b': "be_sealer b' = be_sealer b" "be_codecs b' = be_codecs b"
      "t_grants b' = map (\<lambda>r. if row_id r = ustr b i
         then r\<lparr>row_ix := (fst (row_ix r), True)\<rparr> else r) (t_grants b)"
    using assms(2) by (auto simp: permissions_revoke_def)
  from r nr b' have "row_id r \<noteq> ustr b i" and "r \<in> set (t_grants b)"
    by (auto split: if_splits)
  moreover have "fst (row_ix r) = subject_key (pg_subject g)" "pg_revoked_at g = None"
    using table_okD(3) [OF grants_table [OF ok'] r] nr by (auto simp: g)
  moreover have "permissions_check b' subject scope' = Inr (Some g)" for scope'
    using assms(3) by (simp add: permissions_check_def)
  ultimately show ?thesis
    using i sb g by (auto simp: b' stored_grants_def records_of_def)
qed

theorem revoked_grant_not_returned_witness:
  "\<exists>b b'. put_all permissions_grant demo_backend [(0, demo_grant 1), (0, demo_grant 2)] = Inr b
     \<and> permissions_revoke b 2 = Inr b'
     \<and> permissions_check b (SubjTool ''shell_exec'') [] = Inr (Some (demo_grant 2))
     \<and> permissions_check b' (SubjTool ''shell_exec'') [] = Inr (Some (demo_grant 1))"
proof -
  let ?g1 = "demo_grant 1" and ?g2 = "demo_grant 2" and ?s = "SubjTool ''shell_exec''"
  let ?K = "list_codec [?g1, ?g2]" and ?u = "uuid_to_string demo_env"
  have g: "pg_grant_id (demo_grant i) = i" "pg_subject (demo_grant i) = ?s"
      "pg_revoked_at (demo_grant i) = None" for i
    by (simp_all add: demo_grant_def)
  have inj: "?u i = ?u j \<longleftrightarrow> i = j" for i j
    using crypto_ok_uuid_inject [OF demo_env_ok] .
  obtain e1 where e1: "seal demo_sealer ?K 0 ''grants'' (?u 1) ?g1 = Inr e1"
    using demo_seal [of ?g1 "[?g1, ?g2]"] by fastforce
  obtain e2 where e2: "seal demo_sealer ?K 0 ''grants'' (?u 2) ?g2 = Inr e2"
    using demo_seal [of ?g2 "[?g1, ?g2]"] by fastforce
  have env: "sl_env demo_sealer = demo_env"
    by (simp add: demo_sealer_def)
  let ?r1 = "mk_row (?u 1) (subject_key ?s, False) e1"
  let ?r2 = "mk_row (?u 2) (subject_key ?s, False) e2"
  let ?b = "demo_backend\<lparr>t_grants := [?r1, ?r2]\<rparr>"
  let ?b' = "?b\<lparr>t_grants := [?r1, ?r2\<lparr>row_ix := (subject_key ?s, True)\<rparr>]\<rparr>"
  have put: "put_all permissions_grant demo_backend [(0, ?g1), (0, ?g2)] = Inr ?b"
    by (simp add: permissions_grant_def g env e1 e2 insert_or_replace_def inj)
  have rev: "permissions_revoke ?b 2 = Inr ?b'"
    by (simp add: permissions_revoke_def env inj)
  have un: "unseal_row demo_sealer ?K ''grants'' ?r1 = Inr ?g1"
      "unseal_row demo_sealer ?K ''grants'' ?r2 = Inr ?g2"
    using unseal_row_mk_row [OF _ list_codec_ok e1] unseal_row_mk_row [OF _ list_codec_ok e2]
    by (simp_all add: env demo_env_ok)
  have c: "permissions_check ?b ?s [] = Inr (Some ?g2)" "permissions_check ?b' ?s [] = Inr (Some ?g1)"
    by (simp_all add: permissions_check_def fetch_one_def un)
  obtain c1 where c1: "permissions_grant demo_backend 0 ?g1 = Inr c1"
      and c2: "permissions_grant c1 0 ?g2 = Inr ?b"
    using put by (auto simp: and_then_Inr_iff)
  have "backend_ok ?b"
    using permissions_grant_ok [OF permissions_grant_ok [OF demo_backend_is_ok c1] c2] .
  from revoked_grant_not_returned [OF this rev c(2)] put rev c show ?thesis
    by blast
qed

text \<open>Revoking a grant does not show in \<open>list\<close>: the sealed record, with its
  \<open>revoked_at\<close>, is left as it was, so the listed grants are the same before and after.\<close>

theorem revoke_invisible_in_list:
  assumes "backend_ok b" and "permissions_revoke b i = Inr b'"
  shows "permissions_list b' = permissions_list b"
proof -
  have "stored_grants b' = stored_grants b"
    using assms(2)
    by (auto simp: permissions_revoke_def stored_grants_def records_of_def record_of_def
        unseal_row_def)
  with assms permissions_revoke_ok [OF assms] show ?thesis
    by (simp add: permissions_list_eq)
qed

theorem revoke_invisible_in_list_witness:
  "\<exists>b b'. permissions_grant demo_backend 0 (demo_grant 1) = Inr b
     \<and> permissions_revoke b 1 = Inr b' \<and> permissions_list b' = Inr [demo_grant 1]"
proof -
  let ?g = "demo_grant 1"
  from demo_seal [of ?g "[?g, demo_grant 2]"] obtain e where
      e: "seal demo_sealer (list_codec [?g, demo_grant 2]) 0 ''grants''
            (uuid_to_string demo_env 1) ?g = Inr e"
    by fastforce
  have env: "sl_env demo_sealer = demo_env" "pg_grant_id ?g = 1"
    by (simp_all add: demo_sealer_def demo_grant_def)
  let ?r = "mk_row (uuid_to_string demo_env 1) (subject_key (pg_subject ?g), pg_revoked_at ?g \<noteq> None) e"
  have b: "permissions_grant demo_backend 0 ?g = Inr (demo_backend\<lparr>t_grants := [?r]\<rparr>)"
    by (simp add: permissions_grant_def env e insert_or_replace_def)
  have "permissions_list (demo_backend\<lparr>t_grants := [?r]\<rparr>) = Inr [?g]"
    by (simp add: permissions_list_def fetch_all_def env demo_env_ok
        unseal_row_mk_row [OF _ list_codec_ok e])
  moreover obtain b' where b': "permissions_revoke (demo_backend\<lparr>t_grants := [?r]\<rparr>) 1 = Inr b'"
    by (simp add: permissions_revoke_def)
  ultimately show ?thesis
    using revoke_invisible_in_list [OF permissions_grant_ok [OF demo_backend_is_ok b] b'] b b'
    by auto
qed

text \<open>Memory search returns the first matching records. On a well-formed backend the
  result is, in table order, the records of the requested space (all records when none is
  given) whose lower-cased content contains the lower-cased query, cut after \<open>limit\<close> of them
  but never before the first.\<close>

theorem semantic_search_spec:
  assumes "backend_ok b"
  shows "memory_semantic_search b query space limit =
    Inr (take (max 1 (unat limit))
      (filter (memory_matches b query)
        (filter (\<lambda>v. space = None \<or> mem_space_id v = space) (stored_memory b))))"
proof -
  let ?rec = "record_of (be_sealer b) (cd_memory (be_codecs b)) ''memory''"
  let ?rows = "case space of Some s \<Rightarrow> filter (\<lambda>r. row_ix r = Some (ustr b s)) (t_memory b)
      | None \<Rightarrow> t_memory b"
  note rows = table_okD [OF memory_table [OF assms]]
  have "r \<in> set ?rows \<Longrightarrow> unseal_row (be_sealer b) (cd_memory (be_codecs b)) ''memory'' r = Inr (?rec r)"
    for r
    using rows(1) by (auto split: option.splits)
  note loop = search_loop_eq [where out = "[]", OF this]
  have "map ?rec ?rows = filter (\<lambda>v. space = None \<or> mem_space_id v = space) (stored_memory b)"
  proof (cases space)
    case None
    then show ?thesis
      by (simp add: stored_memory_def records_of_def)
  next
    case (Some s)
    have "filter (\<lambda>r. row_ix r = Some (ustr b s)) (t_memory b) =
        filter (\<lambda>r. mem_space_id (?rec r) = Some s) (t_memory b)"
      by (intro filter_cong) (auto simp: rows(3) ustr_inject [OF assms])
    then show ?thesis
      by (simp add: Some stored_memory_def records_of_def filter_map comp_def)
  qed
  then show ?thesis
    by (simp add: memory_semantic_search_def Let_def loop memory_matches_def [abs_def]
        del: filter_filter)
qed

theorem semantic_search_spec_witness:
  "\<exists>b. memory_upsert demo_backend 0 (demo_memory 1 ''Likes Tea'') = Inr b
     \<and> memory_semantic_search b ''tea'' None 5 = Inr (filter (memory_matches b ''tea'') (stored_memory b))"
proof -
  let ?m = "demo_memory 1 ''Likes Tea''"
  from demo_seal [of ?m "[?m]"] obtain e where
      e: "seal demo_sealer (list_codec [?m]) 0 ''memory'' (ustr demo_backend (mem_id ?m)) ?m = Inr e"
    by fastforce
  then obtain b where b: "memory_upsert demo_backend 0 ?m = Inr b" "length (stored_memory b) = 1"
    by (auto simp: memory_upsert_def insert_or_replace_def stored_memory_def records_of_def)
  have "length (filter (memory_matches b ''tea'') (stored_memory b)) \<le> 5"
    using length_filter_le [of "memory_matches b ''tea''" "stored_memory b"] b(2) by linarith
  with semantic_search_spec [OF memory_upsert_ok [OF demo_backend_is_ok b(1)], of "''tea''" None 5] b(1)
  show ?thesis
    by simp
qed

end
