(* ===== verification/Audit_Log.thy ===== *)
theory Audit_Log
  imports Store_Laws
begin

text \<open>
  The hash-chained audit log of \<open>crates/mahi-data/src/store.rs\<close>: \<open>AuditLog::append\<close>,
  \<open>AuditLog::query\<close> and \<open>SqliteBackend::verify_chain\<close>. Every append links the event to the
  hash of the last row; a log that was only appended to verifies, and its events come back in
  order. The last section states what verification detects and what it does not: it compares
  the plaintext \<open>prev_hash\<close> column with the chain and never the \<open>prev_hash\<close> inside the
  sealed event.
\<close>

section \<open>Operations\<close>

definition last_hash :: "audit_row list \<Rightarrow> string" where
  "last_hash rows = (if rows = [] then [] else ar_hash (last rows))"

definition audit_append :: "backend \<Rightarrow> nonce \<Rightarrow> audit_event \<Rightarrow> contract_error + backend" where
  "audit_append b n event =
     (let i = ustr b (au_event_id event);
          session = map_option (ustr b) (au_session_id event);
          prev = last_hash (t_audit b);
          event' = event\<lparr>au_prev_hash := prev\<rparr>;
          E = sl_env (be_sealer b)
      in and_then (ser_err (to_vec (cd_audit (be_codecs b)) event')) (\<lambda>js.
           let h = sha256_hex E js;
               key = record_key E (sl_root (be_sealer b)) ''audit'' (as_bytes i)
           in and_then (ok_or enc_err (encrypt E n key js (as_bytes i))) (\<lambda>e.
                if i \<in> set (map ar_event_id (t_audit b))
                then Inl (StoreErr (StoreBackend ''UNIQUE constraint failed: audit.event_id''))
                else Inr (b\<lparr>t_audit := t_audit b @
                  [\<lparr>ar_event_id = i, ar_session_id = session, ar_prev_hash = prev, ar_hash = h,
                    ar_enc = fst e, ar_nonce = snd e\<rparr>]\<rparr>))))"

definition unseal_audit :: "backend \<Rightarrow> audit_row \<Rightarrow> contract_error + audit_event" where
  "unseal_audit b r =
     unseal (be_sealer b) (cd_audit (be_codecs b)) ''audit'' (ar_event_id r) (ar_enc r) (ar_nonce r)"

definition audit_query :: "backend \<Rightarrow> uuid option \<Rightarrow> usize \<Rightarrow> contract_error + audit_event list" where
  "audit_query b session limit =
     collect_results (unseal_audit b)
       (sql_limit limit
         (case session of
            Some s \<Rightarrow> filter (\<lambda>r. ar_session_id r = Some (ustr b s)) (t_audit b)
          | None \<Rightarrow> t_audit b))"

fun verify_rows :: "backend \<Rightarrow> string \<Rightarrow> audit_row list \<Rightarrow> contract_error + bool" where
  "verify_rows b expected [] = Inr True"
| "verify_rows b expected (r # rows) =
     (if ar_prev_hash r \<noteq> expected then Inr False
      else and_then (unseal_audit b r) (\<lambda>event.
             and_then (ser_err (to_vec (cd_audit (be_codecs b)) event)) (\<lambda>js.
               if sha256_hex (sl_env (be_sealer b)) js \<noteq> ar_hash r then Inr False
               else verify_rows b (ar_hash r) rows)))"

definition verify_chain :: "backend \<Rightarrow> contract_error + bool" where
  "verify_chain b = verify_rows b [] (t_audit b)"

section \<open>The chain\<close>

text \<open>
  \<open>chained b prev rows evs\<close>: the rows seal the events \<open>evs\<close>, each row's hash is that of its
  event's bytes, and both the column and the sealed event carry the previous hash.
\<close>

fun chained :: "backend \<Rightarrow> string \<Rightarrow> audit_row list \<Rightarrow> audit_event list \<Rightarrow> bool" where
  "chained b prev [] [] = True"
| "chained b prev (r # rows) (ev # evs) =
     (ar_prev_hash r = prev \<and> au_prev_hash ev = prev \<and> unseal_audit b r = Inr ev \<and>
      ar_event_id r = ustr b (au_event_id ev) \<and>
      ar_session_id r = map_option (ustr b) (au_session_id ev) \<and>
      (\<exists>js. to_vec (cd_audit (be_codecs b)) ev = Inr js \<and>
            ar_hash r = sha256_hex (sl_env (be_sealer b)) js) \<and>
      chained b (ar_hash r) rows evs)"
| "chained b prev _ _ = False"

lemma chained_frame:
  "be_sealer b' = be_sealer b \<Longrightarrow> be_codecs b' = be_codecs b \<Longrightarrow>
    chained b' prev rows evs = chained b prev rows evs"
  by (induction b prev rows evs rule: chained.induct) (auto simp: unseal_audit_def)

lemma chained_snoc:
  "chained b prev (rows @ [r]) (evs @ [ev]) \<longleftrightarrow>
     chained b prev rows evs \<and>
     chained b (if rows = [] then prev else ar_hash (last rows)) [r] [ev]"
  if "length rows = length evs"
  using that by (induction rows evs arbitrary: prev rule: list_induct2) auto

lemma chained_length: "chained b prev rows evs \<Longrightarrow> length rows = length evs"
  by (induction b prev rows evs rule: chained.induct) auto

lemma verify_chained: "chained b prev rows evs \<Longrightarrow> verify_rows b prev rows = Inr True"
  by (induction b prev rows evs rule: chained.induct) auto

lemma chained_read:
  "chained b prev rows evs \<Longrightarrow> collect_results (unseal_audit b) rows = Inr evs"
  by (induction b prev rows evs rule: chained.induct) auto

lemma chained_filter_session:
  assumes "crypto_ok (sl_env (be_sealer b))" and "chained b prev rows evs"
  shows "collect_results (unseal_audit b) (filter (\<lambda>r. ar_session_id r = Some (ustr b s)) rows) =
    Inr (filter (\<lambda>e. au_session_id e = Some s) evs)"
  using assms
  by (induction b prev rows evs rule: chained.induct) (auto simp: crypto_ok_uuid_inject)

lemma audit_append_chained:
  assumes ok: "backend_ok b" and ch: "chained b [] (t_audit b) evs"
    and app: "audit_append b n ev = Inr b'"
  shows "backend_ok b' \<and>
    chained b' [] (t_audit b') (evs @ [ev\<lparr>au_prev_hash := last_hash (t_audit b)\<rparr>])"
proof -
  let ?ev = "ev\<lparr>au_prev_hash := last_hash (t_audit b)\<rparr>"
  let ?E = "sl_env (be_sealer b)" and ?i = "ustr b (au_event_id ev)"
  from app obtain js e where js: "to_vec (cd_audit (be_codecs b)) ?ev = Inr js"
    and e: "encrypt ?E n (record_key ?E (sl_root (be_sealer b)) ''audit'' (as_bytes ?i)) js
        (as_bytes ?i) = Some e"
    and b': "b' = b\<lparr>t_audit := t_audit b @
        [\<lparr>ar_event_id = ?i, ar_session_id = map_option (ustr b) (au_session_id ev),
          ar_prev_hash = last_hash (t_audit b), ar_hash = sha256_hex ?E js,
          ar_enc = fst e, ar_nonce = snd e\<rparr>]\<rparr>"
    by (auto simp: audit_append_def Let_def result_simps split: if_splits)
  from e js have "seal (be_sealer b) (cd_audit (be_codecs b)) n ''audit'' ?i ?ev = Inr (fst e, snd e)"
    by (simp add: seal_def)
  then have un: "unseal (be_sealer b) (cd_audit (be_codecs b)) ''audit'' ?i (fst e) (snd e) = Inr ?ev"
    by (rule unseal_seal [OF backend_okD(1,10) [OF ok]])
  have "chained b' [] (t_audit b) evs"
    using ch chained_frame [of b' b] by (simp add: b')
  then show ?thesis
    using ok un js chained_length [OF ch]
    by (simp add: b' backend_ok_def chained_snoc unseal_audit_def last_hash_def)
qed

text \<open>What a sequence of appends leaves in the log: the events with their links.\<close>

fun linked :: "backend \<Rightarrow> string \<Rightarrow> audit_event list \<Rightarrow> audit_event list" where
  "linked b prev [] = []"
| "linked b prev (ev # evs) =
     (let ev' = ev\<lparr>au_prev_hash := prev\<rparr>
      in ev' # linked b (sha256_hex (sl_env (be_sealer b))
                 (projr (to_vec (cd_audit (be_codecs b)) ev'))) evs)"

lemma linked_frame:
  "be_sealer b' = be_sealer b \<Longrightarrow> be_codecs b' = be_codecs b \<Longrightarrow> linked b' p evs = linked b p evs"
  by (induction evs arbitrary: p) (auto simp: Let_def)

lemma audit_append_frame:
  assumes "audit_append b n ev = Inr b'"
  shows "be_sealer b' = be_sealer b" and "be_codecs b' = be_codecs b"
    and "last_hash (t_audit b') = sha256_hex (sl_env (be_sealer b))
      (projr (to_vec (cd_audit (be_codecs b)) (ev\<lparr>au_prev_hash := last_hash (t_audit b)\<rparr>)))"
  using assms
  by (auto simp: audit_append_def Let_def result_simps last_hash_def split: if_splits)

lemma audit_run_chained:
  assumes "backend_ok b" and "chained b [] (t_audit b) evs0"
    and "put_all audit_append b nevs = Inr b'"
  shows "backend_ok b' \<and>
    chained b' [] (t_audit b') (evs0 @ linked b (last_hash (t_audit b)) (map snd nevs))"
  using assms
proof (induction nevs arbitrary: b evs0)
  case Nil
  then show ?case by simp
next
  case (Cons ne nevs)
  from Cons.prems(3) obtain c where c: "audit_append b (fst ne) (snd ne) = Inr c"
    and run: "put_all audit_append c nevs = Inr b'"
    by (auto simp: and_then_Inr_iff)
  from audit_append_chained [OF Cons.prems(1,2) c]
  have "backend_ok c" and
    "chained c [] (t_audit c) (evs0 @ [(snd ne)\<lparr>au_prev_hash := last_hash (t_audit b)\<rparr>])"
    by simp_all
  from Cons.IH [OF this run] show ?case
    by (simp add: Let_def audit_append_frame [OF c] linked_frame [OF audit_append_frame(1,2) [OF c]])
qed

section \<open>What verification sees\<close>

lemma verify_rows_append:
  "verify_rows b prev (xs @ ys) = Inr True \<longleftrightarrow>
     verify_rows b prev xs = Inr True \<and>
     verify_rows b (if xs = [] then prev else ar_hash (last xs)) ys = Inr True"
  by (induction b prev xs rule: verify_rows.induct) (auto simp: result_simps)

lemma verify_rows_frame:
  "be_sealer b' = be_sealer b \<Longrightarrow> be_codecs b' = be_codecs b \<Longrightarrow>
    verify_rows b' prev rows = verify_rows b prev rows"
  by (induction rows arbitrary: prev) (auto simp: unseal_audit_def cong: if_cong)

lemma verify_rows_Cons_True:
  "verify_rows b prev (r # rows) = Inr True \<longleftrightarrow>
     ar_prev_hash r = prev \<and>
     (\<exists>ev js. unseal_audit b r = Inr ev \<and> to_vec (cd_audit (be_codecs b)) ev = Inr js \<and>
        sha256_hex (sl_env (be_sealer b)) js = ar_hash r) \<and>
     verify_rows b (ar_hash r) rows = Inr True"
  by (auto simp: result_simps)

lemma demo_audit_append:
  assumes "be_sealer b = demo_sealer" and "cd_audit (be_codecs b) = list_codec vs"
    and "ev\<lparr>au_prev_hash := last_hash (t_audit b)\<rparr> \<in> set vs"
    and "ustr b (au_event_id ev) \<notin> ar_event_id ` set (t_audit b)"
  shows "\<exists>b'. audit_append b n ev = Inr b' \<and>
    map ar_event_id (t_audit b') = map ar_event_id (t_audit b) @ [ustr b (au_event_id ev)]"
proof -
  from index_of_in_set [OF assms(3)] obtain k where
      "index_of (ev\<lparr>au_prev_hash := last_hash (t_audit b)\<rparr>) vs = Some k" ..
  with assms show ?thesis
    by (simp add: audit_append_def list_codec_def demo_sealer_def encrypt_def demo_env_def Let_def)
qed

lemma demo_audit_two:
  "\<exists>b. put_all audit_append demo_backend [(0, demo_event 1 []), (0, demo_event 2 [])] = Inr b
     \<and> length (t_audit b) = 2"
proof -
  let ?e1 = "demo_event 1 []" and ?e2 = "demo_event 2 []"
  have u: "?e1\<lparr>au_prev_hash := []\<rparr> = ?e1" "?e2\<lparr>au_prev_hash := []\<rparr> = ?e2" "au_event_id ?e1 = 1"
      "au_event_id ?e2 = 2"
    by (simp_all add: demo_event_def)
  from demo_audit_append [of demo_backend "[?e1, ?e2, demo_event 2 ''01'']" ?e1 0] obtain c where
      c: "audit_append demo_backend 0 ?e1 = Inr c" "map ar_event_id (t_audit c) = [ustr demo_backend 1]"
    by (auto simp: u last_hash_def)
  have fr: "be_sealer c = demo_sealer" "be_codecs c = be_codecs demo_backend"
    using audit_append_frame [OF c(1)] by simp_all
  have h: "last_hash (t_audit c) = []"
    using audit_append_frame(3) [OF c(1)]
    by (simp add: u last_hash_def [of "[]"] list_codec_def sha256_hex_def demo_sealer_def demo_env_def)
  have "ustr c 2 \<notin> ar_event_id ` set (t_audit c)"
    using c(2) crypto_ok_uuid_inject [OF demo_env_ok, of 2 1]
    by (auto simp: fr demo_sealer_def map_eq_Cons_conv)
  from demo_audit_append [OF fr(1), of "[?e1, ?e2, demo_event 2 ''01'']" ?e2 0] this obtain b where
      b: "audit_append c 0 ?e2 = Inr b" "map ar_event_id (t_audit b) = [ustr demo_backend 1, ustr c 2]"
    by (auto simp: u h fr c(2))
  from b(2) have "length (t_audit b) = 2"
    by (metis length_Cons length_map list.size(3) numeral_2_eq_2)
  with b c show ?thesis
    by auto
qed

lemma demo_laws:
  "crypto_ok (sl_env demo_sealer)" "codecs_ok (demo_codecs cs ms mems cps aus gs)"
  by (simp_all add: demo_sealer_def demo_env_ok demo_codecs_ok)

section \<open>Properties\<close>

text \<open>C8: a log that was only appended to verifies and reads back. Starting from an empty
  backend, after any sequence of appends that succeeds the chain verifies, and the query
  without session and limit returns exactly the appended events in order, each carrying the
  SHA-256 of the serialised event before it (the first one the empty string).\<close>

theorem audit_appends_verify_and_read_back:
  assumes "crypto_ok (sl_env S)" and "codecs_ok K"
    and "put_all audit_append (backend_new S K) nevs = Inr b"
  shows "verify_chain b = Inr True \<and>
    audit_query b None (- 1) = Inr (linked (backend_new S K) [] (map snd nevs)) \<and>
    length (t_audit b) = length nevs"
proof -
  have ok: "backend_ok (backend_new S K)"
    using assms(1,2) by (rule backend_new_ok)
  have "chained (backend_new S K) [] (t_audit (backend_new S K)) []"
    by (simp add: backend_new_def)
  from audit_run_chained [OF ok this assms(3)]
  have ch: "chained b [] (t_audit b) (linked (backend_new S K) [] (map snd nevs))"
    by (simp add: backend_new_def last_hash_def)
  have "length (linked c p evs) = length evs" for c p evs
    by (induction evs arbitrary: p) (simp_all add: Let_def)
  with chained_length [OF ch] verify_chained [OF ch] chained_read [OF ch] show ?thesis
    by (simp add: verify_chain_def audit_query_def)
qed

theorem audit_appends_verify_and_read_back_witness:
  "\<exists>b. put_all audit_append demo_backend [(0, demo_event 1 []), (0, demo_event 2 [])] = Inr b
     \<and> verify_chain b = Inr True
     \<and> audit_query b None (- 1) = Inr (linked demo_backend [] [demo_event 1 [], demo_event 2 []])"
proof -
  obtain b where
      b: "put_all audit_append demo_backend [(0, demo_event 1 []), (0, demo_event 2 [])] = Inr b"
    using demo_audit_two by blast
  with audit_appends_verify_and_read_back [OF demo_laws b [unfolded demo_backend_def]]
  show ?thesis
    by (simp add: demo_backend_def)
qed

text \<open>A session's query returns its own events, all of them, in order: with the appends of
  the previous property, the query for a session is the log filtered by that session.\<close>

theorem audit_query_session:
  assumes "crypto_ok (sl_env S)" and "codecs_ok K"
    and "put_all audit_append (backend_new S K) nevs = Inr b"
  shows "audit_query b (Some s) (- 1) =
    Inr (filter (\<lambda>e. au_session_id e = Some s) (linked (backend_new S K) [] (map snd nevs)))"
proof -
  have ok: "backend_ok (backend_new S K)"
    using assms(1,2) by (rule backend_new_ok)
  have "chained (backend_new S K) [] (t_audit (backend_new S K)) []"
    by (simp add: backend_new_def)
  from audit_run_chained [OF ok this assms(3)]
  have "backend_ok b" and "chained b [] (t_audit b) (linked (backend_new S K) [] (map snd nevs))"
    by (simp_all add: backend_new_def last_hash_def)
  from chained_filter_session [OF backend_okD(1) [OF this(1)] this(2)] show ?thesis
    by (simp add: audit_query_def)
qed

theorem audit_query_session_witness:
  "\<exists>b. put_all audit_append demo_backend [(0, demo_event 1 []), (0, demo_event 2 [])] = Inr b
     \<and> audit_query b (Some 3) (- 1) = Inr []"
proof -
  have "filter (\<lambda>e. au_session_id e = Some 3)
      (linked demo_backend [] [demo_event 1 [], demo_event 2 []]) = []"
    by (simp add: demo_event_def Let_def)
  moreover obtain b where
      b: "put_all audit_append demo_backend [(0, demo_event 1 []), (0, demo_event 2 [])] = Inr b"
    using demo_audit_two by blast
  ultimately show ?thesis
    using audit_query_session [OF demo_laws b [unfolded demo_backend_def], of 3]
    by (simp add: demo_backend_def)
qed

text \<open>C9: changing what a sealed event decrypts to breaks the chain. In a log that verifies,
  replace the ciphertext and nonce of one row so that it decrypts to something else, or no
  longer decrypts; as long as the two payloads do not collide under SHA-256, verification of
  the changed log does not return \<open>true\<close>.\<close>

theorem tampered_payload_detected:
  assumes "codec_ok (cd_audit (be_codecs b))" and "verify_chain b = Inr True"
    and "t_audit b = xs @ r # ys" and "unseal_audit b r = Inr ev"
    and "r' = r\<lparr>ar_enc := ct, ar_nonce := nn\<rparr>" and "unseal_audit b r' \<noteq> Inr ev"
    and "\<And>ev' js js'. unseal_audit b r' = Inr ev' \<Longrightarrow> to_vec (cd_audit (be_codecs b)) ev' = Inr js' \<Longrightarrow>
      to_vec (cd_audit (be_codecs b)) ev = Inr js \<Longrightarrow>
      sha256_hex (sl_env (be_sealer b)) js' = sha256_hex (sl_env (be_sealer b)) js \<Longrightarrow> js' = js"
  shows "verify_chain (b\<lparr>t_audit := xs @ r' # ys\<rparr>) \<noteq> Inr True"
proof
  let ?c = "b\<lparr>t_audit := xs @ r' # ys\<rparr>" and ?p = "if xs = [] then [] else ar_hash (last xs)"
  assume "verify_chain ?c = Inr True"
  then have "verify_rows b ?p (r' # ys) = Inr True"
    using verify_rows_frame [of ?c b] by (simp add: verify_chain_def verify_rows_append)
  then obtain ev' js' where new: "unseal_audit b r' = Inr ev'"
      "to_vec (cd_audit (be_codecs b)) ev' = Inr js'"
      "sha256_hex (sl_env (be_sealer b)) js' = ar_hash r"
    by (auto simp: verify_rows_Cons_True assms(5) simp del: verify_rows.simps)
  from assms(2,3) have "verify_rows b ?p (r # ys) = Inr True"
    by (simp add: verify_chain_def verify_rows_append)
  then obtain js where old: "to_vec (cd_audit (be_codecs b)) ev = Inr js"
      "sha256_hex (sl_env (be_sealer b)) js = ar_hash r"
    by (auto simp: verify_rows_Cons_True assms(4) simp del: verify_rows.simps)
  from assms(7) [OF new(1,2) old(1)] new(3) old(2) have "js' = js"
    by simp
  with new(2) old(1) assms(1) have "ev' = ev"
    by (metis codec_ok_def sum.inject(2))
  with new(1) assms(6) show False
    by simp
qed

theorem tampered_payload_detected_witness:
  "\<exists>b r rs. put_all audit_append demo_backend [(0, demo_event 1 []), (0, demo_event 2 [])] = Inr b
     \<and> t_audit b = r # rs \<and> verify_chain b = Inr True
     \<and> verify_chain (b\<lparr>t_audit := r\<lparr>ar_enc := [], ar_nonce := []\<rparr> # rs\<rparr>) \<noteq> Inr True"
proof -
  from demo_audit_two obtain b where
      b: "put_all audit_append demo_backend [(0, demo_event 1 []), (0, demo_event 2 [])] = Inr b"
      "length (t_audit b) = 2"
    by blast
  then obtain r rs where rs: "t_audit b = r # rs"
    by (metis length_0_conv neq_Nil_conv zero_neq_numeral)
  have "chained demo_backend [] (t_audit demo_backend) []"
    by simp
  from audit_run_chained [OF demo_backend_is_ok this b(1)]
  have ok: "backend_ok b" and ch: "chained b [] (t_audit b)
      (linked demo_backend [] [demo_event 1 [], demo_event 2 []])"
    by (simp_all add: last_hash_def)
  then obtain ev where ev: "unseal_audit b r = Inr ev"
    by (auto simp: rs Let_def)
  have "unseal_audit b (r\<lparr>ar_enc := [], ar_nonce := []\<rparr>) = Inl enc_err"
    by (simp add: unseal_audit_def unseal_def decrypt_def)
  with tampered_payload_detected [OF backend_okD(10) [OF ok] verify_chained [OF ch, folded verify_chain_def],
      of "[]" r rs ev _ "[]" "[]"] rs ev b(1) verify_chained [OF ch]
  show ?thesis
    by (auto simp: verify_chain_def)
qed

text \<open>C39: verification does not see an excised event. In any log that verifies, delete a row
  and write the deleted row's \<open>prev_hash\<close> into the plaintext column of its successor: the
  shorter log verifies too, although the successor's sealed event still names the hash of the
  deleted one. No key is needed for this change.\<close>

theorem excised_event_not_detected:
  assumes "verify_chain b = Inr True" and "t_audit b = xs @ r # r' # ys"
  shows "verify_chain (b\<lparr>t_audit := xs @ r'\<lparr>ar_prev_hash := ar_prev_hash r\<rparr> # ys\<rparr>) = Inr True"
proof -
  let ?r'' = "r'\<lparr>ar_prev_hash := ar_prev_hash r\<rparr>"
  let ?p = "if xs = [] then [] else ar_hash (last xs)"
  have un: "unseal_audit b (r'\<lparr>ar_prev_hash := h\<rparr>) = unseal_audit b r'" for h
    by (simp add: unseal_audit_def)
  from assms have "verify_rows b [] xs = Inr True" and "verify_rows b ?p (r # r' # ys) = Inr True"
    by (simp_all add: verify_chain_def verify_rows_append)
  then have "verify_rows b ?p (?r'' # ys) = Inr True" and "verify_rows b [] xs = Inr True"
    by (simp_all add: verify_rows_Cons_True un del: verify_rows.simps)
  then show ?thesis
    using verify_rows_frame [of "b\<lparr>t_audit := xs @ ?r'' # ys\<rparr>" b]
    by (simp add: verify_chain_def verify_rows_append)
qed

theorem excised_event_not_detected_witness:
  "\<exists>b r r'. put_all audit_append demo_backend [(0, demo_event 1 []), (0, demo_event 2 [])] = Inr b
     \<and> t_audit b = [r, r'] \<and> verify_chain b = Inr True
     \<and> verify_chain (b\<lparr>t_audit := [r'\<lparr>ar_prev_hash := ar_prev_hash r\<rparr>]\<rparr>) = Inr True"
proof -
  from demo_audit_two obtain b where
      b: "put_all audit_append demo_backend [(0, demo_event 1 []), (0, demo_event 2 [])] = Inr b"
      "length (t_audit b) = 2"
    by blast
  then obtain r r' where rs: "t_audit b = [r, r']"
    by (auto simp: numeral_2_eq_2 length_Suc_conv)
  have "chained demo_backend [] (t_audit demo_backend) []"
    by simp
  from audit_run_chained [OF demo_backend_is_ok this b(1)] have v: "verify_chain b = Inr True"
    by (auto simp: verify_chain_def last_hash_def dest: verify_chained)
  from excised_event_not_detected [OF v, of "[]" r r' "[]"] rs v b(1) show ?thesis
    by auto
qed

end
