(* ===== verification/Router.thy ===== *)
theory Router
  imports Contracts
begin

text \<open>
  The compute layer of \<open>crates/mahi-compute\<close> that every request passes: the mode router
  (\<open>router.rs\<close>), the capability publisher (\<open>capability.rs\<close>) and the on-device provider
  (\<open>on_device.rs\<close>).

  An \<open>Arc<dyn InferenceProvider>\<close> is a record of the trait's functions. A cancellation token
  is the function telling, for each poll of a stream in turn, whether the token is set by
  then; a stream is the list of its items.
\<close>

section \<open>Providers\<close>

type_synonym cancel_token = "nat \<Rightarrow> bool"

definition never_cancelled :: cancel_token where
  "never_cancelled k = False"

record provider =
  pv_descriptor :: model_descriptor
  pv_can_handle :: "inference_request \<Rightarrow> can_handle_result"
  pv_generate :: "inference_request \<Rightarrow> cancel_token \<Rightarrow> contract_error + inference_stream"

section \<open>capability.rs\<close>

definition all_modes :: "compute_mode list" where
  "all_modes = [OnDevice, MacLan, MacRemote, Hosted]"

definition mode_unavailable :: mode_capability where
  "mode_unavailable = \<lparr>mc_available = False, mc_models = [], mc_tool_ids = []\<rparr>"

definition add_mode_entry ::
  "(compute_mode \<rightharpoonup> mode_capability) \<Rightarrow> compute_mode \<times> provider \<Rightarrow> (compute_mode \<rightharpoonup> mode_capability)" where
  "add_mode_entry modes e =
     (let entry = (case modes (fst e) of None \<Rightarrow> mode_unavailable | Some c \<Rightarrow> c)
      in modes(fst e \<mapsto> entry\<lparr>mc_available := True,
                               mc_models := mc_models entry @ [pv_descriptor (snd e)]\<rparr>))"

definition build_capability_snapshot ::
  "datetime \<Rightarrow> uuid \<Rightarrow> (compute_mode \<times> provider) list \<Rightarrow> device_capability_snapshot" where
  "build_capability_snapshot now device providers =
     \<lparr>dcs_device_id = device, dcs_timestamp = now,
      dcs_modes = foldl add_mode_entry (map_of (map (\<lambda>m. (m, mode_unavailable)) all_modes)) providers\<rparr>"

section \<open>router.rs\<close>

definition PREFERENCE_ORDER :: "compute_mode list" where
  "PREFERENCE_ORDER = [MacLan, MacRemote, Hosted, OnDevice]"

record router =
  rt_providers :: "compute_mode \<rightharpoonup> provider"
  rt_pin :: "compute_mode option"
  rt_last_active :: "compute_mode option"

definition registered_modes :: "router \<Rightarrow> compute_mode list" where
  "registered_modes r = filter (\<lambda>m. rt_providers r m \<noteq> None) PREFERENCE_ORDER"

text \<open>The router hands its provider map over in some order of its keys; \<open>entries\<close> is the
  preference order. The result does not depend on it (\<open>snapshot_order_irrelevant\<close>).\<close>

definition provider_entries :: "router \<Rightarrow> (compute_mode \<times> provider) list" where
  "provider_entries r =
     List.map_filter (\<lambda>m. map_option (Pair m) (rt_providers r m)) PREFERENCE_ORDER"

definition capability_snapshot :: "router \<Rightarrow> datetime \<Rightarrow> uuid \<Rightarrow> device_capability_snapshot" where
  "capability_snapshot r now device = build_capability_snapshot now device (provider_entries r)"

fun select_from ::
  "router \<Rightarrow> inference_request \<Rightarrow> compute_mode list \<Rightarrow> contract_error + (compute_mode \<times> provider)" where
  "select_from r req [] = Inl (InferenceErr NoCapableProvider)"
| "select_from r req (m # ms) =
     (case rt_providers r m of
        Some p \<Rightarrow> if chr_capable (pv_can_handle p req) then Inr (m, p) else select_from r req ms
      | None \<Rightarrow> select_from r req ms)"

definition select :: "router \<Rightarrow> inference_request \<Rightarrow> contract_error + (compute_mode \<times> provider)" where
  "select r req =
     (case rt_pin r of
        Some pinned \<Rightarrow>
          (case rt_providers r pinned of
             None \<Rightarrow> Inl (InferenceErr (PinViolation pinned))
           | Some p \<Rightarrow>
               if \<not> chr_capable (pv_can_handle p req)
               then Inl (InferenceErr (PinViolation pinned))
               else Inr (pinned, p))
      | None \<Rightarrow> select_from r req PREFERENCE_ORDER)"

fun first_registered :: "router \<Rightarrow> compute_mode list \<Rightarrow> provider option" where
  "first_registered r [] = None"
| "first_registered r (m # ms) =
     (case rt_providers r m of Some p \<Rightarrow> Some p | None \<Rightarrow> first_registered r ms)"

definition active_provider :: "router \<Rightarrow> provider option" where
  "active_provider r =
     (case rt_pin r of
        Some pinned \<Rightarrow> rt_providers r pinned
      | None \<Rightarrow>
          (case rt_last_active r of
             Some m \<Rightarrow> (case rt_providers r m of
                          Some p \<Rightarrow> Some p
                        | None \<Rightarrow> first_registered r PREFERENCE_ORDER)
           | None \<Rightarrow> first_registered r PREFERENCE_ORDER))"

definition unavailable_descriptor :: model_descriptor where
  "unavailable_descriptor =
     \<lparr>md_id = ''mahi-router/no-active-provider'',
      md_display_name = ''Mahi Router (no active provider)'',
      md_context_window = 0, md_capabilities = caps_none,
      md_limitations = [CustomLimit ''no provider registered or pinned mode unavailable''],
      md_size_bytes = None, md_quantization = None, md_source = SrcOnDevice,
      md_perf_profile = perf_default\<rparr>"

definition router_descriptor :: "router \<Rightarrow> model_descriptor" where
  "router_descriptor r =
     (case active_provider r of Some p \<Rightarrow> pv_descriptor p | None \<Rightarrow> unavailable_descriptor)"

definition chr_nobody :: "inference_request \<Rightarrow> can_handle_result" where
  "chr_nobody req =
     \<lparr>chr_capable = False, chr_missing_caps = req_required_caps req, chr_escalation_hint = None\<rparr>"

fun can_handle_from ::
  "router \<Rightarrow> inference_request \<Rightarrow> can_handle_result option \<Rightarrow> compute_mode list \<Rightarrow> can_handle_result" where
  "can_handle_from r req first_failure [] =
     (case first_failure of Some res \<Rightarrow> res | None \<Rightarrow> chr_nobody req)"
| "can_handle_from r req first_failure (m # ms) =
     (case rt_providers r m of
        Some p \<Rightarrow>
          (let result = pv_can_handle p req
           in if chr_capable result then result
              else can_handle_from r req
                     (case first_failure of None \<Rightarrow> Some result | Some _ \<Rightarrow> first_failure) ms)
      | None \<Rightarrow> can_handle_from r req first_failure ms)"

definition router_can_handle :: "router \<Rightarrow> inference_request \<Rightarrow> can_handle_result" where
  "router_can_handle r req =
     (case rt_pin r of
        Some pinned \<Rightarrow>
          (case rt_providers r pinned of
             Some p \<Rightarrow> pv_can_handle p req
           | None \<Rightarrow> chr_nobody req)
      | None \<Rightarrow> can_handle_from r req None PREFERENCE_ORDER)"

definition stamp_mode :: "compute_mode \<Rightarrow> contract_error + inference_chunk \<Rightarrow> contract_error + inference_chunk" where
  "stamp_mode m item =
     (case item of Inl e \<Rightarrow> Inl e | Inr ch \<Rightarrow> Inr (ch\<lparr>ch_active_mode := m\<rparr>))"

definition router_generate ::
  "router \<Rightarrow> inference_request \<Rightarrow> cancel_token \<Rightarrow> (contract_error + inference_stream) \<times> router" where
  "router_generate r req cancel =
     (case select r req of
        Inl e \<Rightarrow> (Inl e, r)
      | Inr (m, p) \<Rightarrow>
          (let r' = r\<lparr>rt_last_active := Some m\<rparr>
           in case pv_generate p req cancel of
                Inl e \<Rightarrow> (Inl e, r')
              | Inr inner \<Rightarrow> (Inr (map (stamp_mode m) inner), r')))"

text \<open>The builder.\<close>

record router_builder =
  rb_providers :: "compute_mode \<rightharpoonup> provider"
  rb_pin :: "compute_mode option"

definition builder_default :: router_builder where
  "builder_default = \<lparr>rb_providers = Map.empty, rb_pin = None\<rparr>"

definition add_provider :: "router_builder \<Rightarrow> compute_mode \<Rightarrow> provider \<Rightarrow> router_builder" where
  "add_provider b m p = b\<lparr>rb_providers := (rb_providers b)(m \<mapsto> p)\<rparr>"

definition builder_pin :: "router_builder \<Rightarrow> compute_mode option \<Rightarrow> router_builder" where
  "builder_pin b m = b\<lparr>rb_pin := m\<rparr>"

definition builder_build :: "router_builder \<Rightarrow> router" where
  "builder_build b = \<lparr>rt_providers = rb_providers b, rt_pin = rb_pin b, rt_last_active = None\<rparr>"

section \<open>on_device.rs\<close>

record on_device_provider =
  od_reply :: "string option"
  od_descriptor :: model_descriptor

definition on_device_default_descriptor :: model_descriptor where
  "on_device_default_descriptor =
     \<lparr>md_id = ''mahi-on-device-v0'', md_display_name = ''Mahi On-Device (mode A)'',
      md_context_window = 4096,
      md_capabilities = \<lparr>cap_vision = False, cap_tool_calling = False,
        cap_min_context_window = 4096, cap_code_gen = False, cap_thinking = False\<rparr>,
      md_limitations = [NoLocalRepo, NoComplexCodeGen, MaxContextWindow 4096],
      md_size_bytes = None, md_quantization = None, md_source = SrcOnDevice,
      md_perf_profile = \<lparr>ttft_ms = 25, tok_per_sec = Fin 40\<rparr>\<rparr>"

definition on_device_canned :: "string \<Rightarrow> on_device_provider" where
  "on_device_canned reply = \<lparr>od_reply = Some reply, od_descriptor = on_device_default_descriptor\<rparr>"

definition on_device_new :: on_device_provider where
  "on_device_new = on_device_canned ''Hello from Mahi. This is the on-device model.''"

definition on_device_echo :: on_device_provider where
  "on_device_echo = \<lparr>od_reply = None, od_descriptor = on_device_default_descriptor\<rparr>"

definition on_device_can_handle :: "on_device_provider \<Rightarrow> inference_request \<Rightarrow> can_handle_result" where
  "on_device_can_handle p req =
     (let offered = md_capabilities (od_descriptor p)
      in if satisfied_by (req_required_caps req) offered then chr_yes
         else \<lparr>chr_capable = False,
               chr_missing_caps = missing_from (req_required_caps req) offered,
               chr_escalation_hint = Some MacLan\<rparr>)"

fun split_inclusive :: "char \<Rightarrow> string \<Rightarrow> string list" where
  "split_inclusive c [] = []"
| "split_inclusive c (x # xs) =
     (if x = c then [x] # split_inclusive c xs
      else (case split_inclusive c xs of [] \<Rightarrow> [[x]] | w # ws \<Rightarrow> (x # w) # ws))"

fun on_device_stream :: "cancel_token \<Rightarrow> nat \<Rightarrow> string list \<Rightarrow> inference_stream" where
  "on_device_stream cancel k ws =
     (if cancel k then [Inr (chunk_finish FrCancelled OnDevice)]
      else (case ws of
              [] \<Rightarrow> [Inr (chunk_finish FrStop OnDevice)]
            | w # ws' \<Rightarrow> Inr (chunk_text w OnDevice) # on_device_stream cancel (Suc k) ws'))"

declare on_device_stream.simps [simp del]

definition on_device_reply :: "on_device_provider \<Rightarrow> inference_request \<Rightarrow> string" where
  "on_device_reply p req =
     (case od_reply p of
        Some r \<Rightarrow> r
      | None \<Rightarrow> ''You said: '' @
          (if req_messages req = [] then [] else text_content (last (req_messages req))))"

definition on_device_generate ::
  "on_device_provider \<Rightarrow> inference_request \<Rightarrow> cancel_token \<Rightarrow> contract_error + inference_stream" where
  "on_device_generate p req cancel =
     Inr (on_device_stream cancel 0 (split_inclusive CHR '' '' (on_device_reply p req)))"

definition on_device_as_provider :: "on_device_provider \<Rightarrow> provider" where
  "on_device_as_provider p =
     \<lparr>pv_descriptor = od_descriptor p, pv_can_handle = on_device_can_handle p,
      pv_generate = on_device_generate p\<rparr>"

section \<open>The provider contract\<close>

text \<open>
  What the engine relies on: every chunk of a stream carries one mode, and a provider that
  says it can handle a request does not refuse to start generating for a reason of routing.
\<close>

definition routing_error :: "contract_error \<Rightarrow> bool" where
  "routing_error e =
     (case e of
        InferenceErr NoCapableProvider \<Rightarrow> True
      | InferenceErr (PinViolation m) \<Rightarrow> True
      | _ \<Rightarrow> False)"

definition chunk_modes :: "inference_stream \<Rightarrow> compute_mode set" where
  "chunk_modes st = {ch_active_mode ch | ch. Inr ch \<in> set st}"

locale inference_provider =
  fixes can_handle :: "'p \<Rightarrow> inference_request \<Rightarrow> can_handle_result"
    and start :: "'p \<Rightarrow> inference_request \<Rightarrow> cancel_token \<Rightarrow> contract_error + inference_stream"
    and wf :: "'p \<Rightarrow> bool"
  assumes one_mode: "start p req c = Inr st \<Longrightarrow> \<exists>m. chunk_modes st \<subseteq> {m}"
    and capable_starts: "wf p \<Longrightarrow> chr_capable (can_handle p req) \<Longrightarrow>
      start p req c = Inl e \<Longrightarrow> \<not> routing_error e"
begin

lemma same_mode:
  assumes "start p req c = Inr st" and "Inr a \<in> set st" and "Inr b \<in> set st"
  shows "ch_active_mode a = ch_active_mode b"
proof -
  from one_mode [OF assms(1)] obtain m where "chunk_modes st \<subseteq> {m}" ..
  with assms(2,3) show ?thesis
    unfolding chunk_modes_def by blast
qed

end

section \<open>Laws\<close>

lemma select_from_Inr:
  "select_from r req ms = Inr (m, p) \<longleftrightarrow>
     (\<exists>as bs. ms = as @ m # bs \<and> rt_providers r m = Some p \<and> chr_capable (pv_can_handle p req) \<and>
        (\<forall>a \<in> set as. \<forall>q. rt_providers r a = Some q \<longrightarrow> \<not> chr_capable (pv_can_handle q req)))"
proof (induction ms)
  case Nil
  show ?case by simp
next
  case (Cons x xs)
  show ?case
  proof (cases "\<exists>q. rt_providers r x = Some q \<and> chr_capable (pv_can_handle q req)")
    case True
    then show ?thesis
      by (auto simp: Cons_eq_append_conv) (rule exI [of _ "[]"], simp)
  next
    case False
    then have "select_from r req (x # xs) = select_from r req xs"
      by (auto split: option.splits)
    moreover have "(\<exists>as bs. x # xs = as @ m # bs \<and> rt_providers r m = Some p \<and>
          chr_capable (pv_can_handle p req) \<and>
          (\<forall>a \<in> set as. \<forall>q. rt_providers r a = Some q \<longrightarrow> \<not> chr_capable (pv_can_handle q req)))
      \<longleftrightarrow> (\<exists>as bs. xs = as @ m # bs \<and> rt_providers r m = Some p \<and>
          chr_capable (pv_can_handle p req) \<and>
          (\<forall>a \<in> set as. \<forall>q. rt_providers r a = Some q \<longrightarrow> \<not> chr_capable (pv_can_handle q req)))"
      using False by (auto simp: Cons_eq_append_conv) (metis set_ConsD)
    ultimately show ?thesis
      using Cons by simp
  qed
qed

lemma select_from_Inl:
  "select_from r req ms = Inl e \<longleftrightarrow>
     e = InferenceErr NoCapableProvider \<and>
     (\<forall>m \<in> set ms. \<forall>p. rt_providers r m = Some p \<longrightarrow> \<not> chr_capable (pv_can_handle p req))"
  by (induction ms) (auto split: option.splits)

lemma select_capable:
  "select r req = Inr (m, p) \<Longrightarrow> rt_providers r m = Some p \<and> chr_capable (pv_can_handle p req)"
  by (auto simp: select_def select_from_Inr split: option.splits if_splits)

lemma can_handle_from_capable:
  assumes "\<And>f. ff = Some f \<Longrightarrow> \<not> chr_capable f"
  shows "chr_capable (can_handle_from r req ff ms) \<longleftrightarrow> is_ok (select_from r req ms)"
  using assms
proof (induction ms arbitrary: ff)
  case Nil
  then show ?case by (cases ff) (auto simp: chr_nobody_def)
next
  case (Cons m ms)
  then show ?case by (auto simp: Let_def split: option.splits)
qed

lemma router_can_handle_iff: "chr_capable (router_can_handle r req) \<longleftrightarrow> is_ok (select r req)"
  by (auto simp: router_can_handle_def select_def chr_nobody_def
      can_handle_from_capable [of None, simplified]
      split: option.splits)

lemma chunk_modes_stamp: "chunk_modes (map (stamp_mode m) st) \<subseteq> {m}"
  by (auto simp: chunk_modes_def stamp_mode_def split: sum.splits)

lemma concat_split_inclusive [simp]: "concat (split_inclusive c s) = s"
  by (induction s) (auto split: list.splits)

lemma chunk_modes_on_device: "chunk_modes (on_device_stream c k ws) \<subseteq> {OnDevice}"
proof (induction ws arbitrary: k)
  case Nil
  show ?case
    by (subst on_device_stream.simps) (auto simp: chunk_modes_def chunk_finish_def)
next
  case (Cons w ws)
  from Cons [of "Suc k"] show ?case
    by (subst on_device_stream.simps)
      (auto simp: chunk_modes_def chunk_finish_def chunk_text_def)
qed

interpretation on_device: inference_provider on_device_can_handle on_device_generate "\<lambda>_. True"
  by unfold_locales
    (auto simp: on_device_generate_def intro!: exI [of _ OnDevice] subsetD [OF chunk_modes_on_device])

text \<open>The router is a provider: its providers must not report routing errors themselves.\<close>

definition router_wf :: "router \<Rightarrow> bool" where
  "router_wf r =
     (\<forall>m p req c e. rt_providers r m = Some p \<longrightarrow> pv_generate p req c = Inl e \<longrightarrow> \<not> routing_error e)"

interpretation routed: inference_provider router_can_handle
  "\<lambda>r req c. fst (router_generate r req c)" router_wf
proof unfold_locales
  fix r req c st
  assume "fst (router_generate r req c) = Inr st"
  then obtain m inner where "st = map (stamp_mode m) inner"
    by (auto simp: router_generate_def Let_def split: sum.splits prod.splits)
  with chunk_modes_stamp show "\<exists>m. chunk_modes st \<subseteq> {m}"
    by blast
next
  fix r req c e
  assume "router_wf r" and "chr_capable (router_can_handle r req)"
    and "fst (router_generate r req c) = Inl e"
  then show "\<not> routing_error e"
    using select_capable [of r req]
    by (fastforce simp: router_can_handle_iff is_ok_iff router_generate_def router_wf_def Let_def
        split: sum.splits prod.splits)
qed

lemma on_device_stream_text:
  assumes "\<And>j. k \<le> j \<Longrightarrow> j \<le> k + length ws \<Longrightarrow> \<not> c j"
  shows "on_device_stream c k ws =
    map (\<lambda>w. Inr (chunk_text w OnDevice)) ws @ [Inr (chunk_finish FrStop OnDevice)]"
  using assms
proof (induction ws arbitrary: k)
  case Nil
  then show ?case by (subst on_device_stream.simps) simp
next
  case (Cons w ws)
  from Cons.IH [of "Suc k"] Cons.prems show ?case
    by (subst on_device_stream.simps) simp
qed

lemma foldl_add_mode_entry:
  assumes "distinct (map fst es)" and "\<And>m. m \<in> fst ` set es \<Longrightarrow> modes m = Some mode_unavailable"
  shows "foldl add_mode_entry modes es m =
    (case map_of es m of
       Some p \<Rightarrow> Some \<lparr>mc_available = True, mc_models = [pv_descriptor p], mc_tool_ids = []\<rparr>
     | None \<Rightarrow> modes m)"
  using assms
proof (induction es arbitrary: modes)
  case Nil
  then show ?case by simp
next
  case (Cons e es)
  have "foldl add_mode_entry (add_mode_entry modes e) es m =
      (case map_of es m of
         Some p \<Rightarrow> Some \<lparr>mc_available = True, mc_models = [pv_descriptor p], mc_tool_ids = []\<rparr>
       | None \<Rightarrow> add_mode_entry modes e m)"
  proof (rule Cons.IH)
    show "distinct (map fst es)"
      using Cons.prems(1) by simp
  next
    fix m'
    assume m': "m' \<in> fst ` set es"
    moreover have "fst e \<notin> fst ` set es"
      using Cons.prems(1) by simp
    ultimately have "m' \<noteq> fst e"
      by metis
    then show "add_mode_entry modes e m' = Some mode_unavailable"
      using Cons.prems(2) [of m'] m' by (cases e) (simp add: add_mode_entry_def Let_def split: option.splits)
  qed
  moreover have "map_of es (fst e) = None"
    using Cons.prems(1) by (simp add: map_of_eq_None_iff)
  moreover have "add_mode_entry modes e = modes(fst e \<mapsto>
      \<lparr>mc_available = True, mc_models = [pv_descriptor (snd e)], mc_tool_ids = []\<rparr>)"
    using Cons.prems(2) [of "fst e"]
    by (cases e) (simp add: add_mode_entry_def Let_def mode_unavailable_def)
  ultimately show ?case
    by (cases e) (simp split: option.splits)
qed

lemma in_all_modes: "m \<in> set all_modes"
  by (cases m) (simp_all add: all_modes_def)

lemma map_of_all_modes: "map_of (map (\<lambda>m. (m, mode_unavailable)) all_modes) m = Some mode_unavailable"
  using in_all_modes [of m] by (simp add: map_of_map_restrict)

lemma snapshot_modes:
  assumes "distinct (map fst es)"
  shows "dcs_modes (build_capability_snapshot now d es) m =
    (case map_of es m of
       Some p \<Rightarrow> Some \<lparr>mc_available = True, mc_models = [pv_descriptor p], mc_tool_ids = []\<rparr>
     | None \<Rightarrow> Some mode_unavailable)"
  using foldl_add_mode_entry [OF assms, of "map_of (map (\<lambda>m. (m, mode_unavailable)) all_modes)" m]
  by (simp add: build_capability_snapshot_def map_of_all_modes split: option.splits)

lemma snapshot_order_irrelevant:
  "distinct (map fst es) \<Longrightarrow> distinct (map fst es') \<Longrightarrow> map_of es = map_of es' \<Longrightarrow>
     build_capability_snapshot now d es = build_capability_snapshot now d es'"
  using snapshot_modes [of es now d] snapshot_modes [of es' now d]
  by (auto simp: build_capability_snapshot_def)

lemma provider_entries:
  "distinct (map fst (provider_entries r))" "map_of (provider_entries r) m = rt_providers r m"
  by (auto simp: provider_entries_def PREFERENCE_ORDER_def map_filter_simps split: option.splits)
    (cases m; simp)+

section \<open>Properties\<close>

text \<open>C10: a pin is never silently overridden. With a pinned mode the router either uses exactly
  the provider registered for it, which said it can handle the request, or fails with a pin
  violation naming the mode; it fails only when that provider is missing or not capable.\<close>

theorem pin_never_overridden:
  assumes "rt_pin r = Some m"
  shows "select r req =
    (if \<exists>p. rt_providers r m = Some p \<and> chr_capable (pv_can_handle p req)
     then Inr (m, the (rt_providers r m)) else Inl (InferenceErr (PinViolation m))) \<and>
    (\<forall>st. fst (router_generate r req c) = Inr st \<longrightarrow> chunk_modes st \<subseteq> {m})"
  using assms
  by (auto simp: select_def router_generate_def Let_def dest: subsetD [OF chunk_modes_stamp]
      split: option.splits if_splits sum.splits)

theorem pin_never_overridden_witness:
  "let r = builder_build (builder_pin (add_provider builder_default OnDevice
             (on_device_as_provider on_device_new)) (Some Hosted))
   in rt_pin r = Some Hosted \<and>
      select r (request_from_messages 0 []) = Inl (InferenceErr (PinViolation Hosted))"
  using pin_never_overridden
    [of "builder_build (builder_pin (add_provider builder_default OnDevice
             (on_device_as_provider on_device_new)) (Some Hosted))" Hosted "request_from_messages 0 []"]
  by (simp add: builder_build_def builder_pin_def add_provider_def builder_default_def)

text \<open>Without a pin the router picks by local-first preference: the selected mode is the
  first of MacLan, MacRemote, Hosted, OnDevice whose registered provider can handle the
  request, and selection fails exactly when there is none.\<close>

theorem select_prefers_local:
  assumes "rt_pin r = None"
  shows "(\<exists>p. select r req = Inr (m, p)) \<longleftrightarrow>
    (\<exists>p. rt_providers r m = Some p \<and> chr_capable (pv_can_handle p req)) \<and>
    (\<forall>m'. m' \<in> set (takeWhile (\<lambda>x. x \<noteq> m) PREFERENCE_ORDER) \<longrightarrow>
       (\<forall>q. rt_providers r m' = Some q \<longrightarrow> \<not> chr_capable (pv_can_handle q req)))"
proof -
  have tw: "takeWhile (\<lambda>x. x \<noteq> m) PREFERENCE_ORDER = as"
    if "PREFERENCE_ORDER = as @ m # bs" for as bs
  proof -
    have "distinct PREFERENCE_ORDER"
      by (simp add: PREFERENCE_ORDER_def)
    then have "m \<notin> set as"
      unfolding that by simp
    then have "\<forall>x \<in> set as. x \<noteq> m"
      by metis
    then show ?thesis
      unfolding that by (simp add: takeWhile_append2)
  qed
  have ex: "\<exists>bs. PREFERENCE_ORDER = takeWhile (\<lambda>x. x \<noteq> m) PREFERENCE_ORDER @ m # bs"
    by (cases m) (simp_all add: PREFERENCE_ORDER_def)
  have "select r req = select_from r req PREFERENCE_ORDER"
    using assms by (simp add: select_def)
  moreover have "(\<exists>p. select_from r req PREFERENCE_ORDER = Inr (m, p)) \<longleftrightarrow>
      (\<exists>p. rt_providers r m = Some p \<and> chr_capable (pv_can_handle p req)) \<and>
      (\<forall>m'. m' \<in> set (takeWhile (\<lambda>x. x \<noteq> m) PREFERENCE_ORDER) \<longrightarrow>
        (\<forall>q. rt_providers r m' = Some q \<longrightarrow> \<not> chr_capable (pv_can_handle q req)))"
    unfolding select_from_Inr using ex tw by fast
  ultimately show ?thesis
    by simp
qed

theorem select_prefers_local_witness:
  "let r = builder_build (add_provider (add_provider builder_default OnDevice
             (on_device_as_provider on_device_new)) Hosted (on_device_as_provider on_device_echo))
   in rt_pin r = None \<and>
      (\<exists>p. select r (request_from_messages 0 []) = Inr (Hosted, p))"
proof -
  let ?r = "builder_build (add_provider (add_provider builder_default OnDevice
             (on_device_as_provider on_device_new)) Hosted (on_device_as_provider on_device_echo))"
  have "rt_pin ?r = None"
    by (simp add: builder_build_def add_provider_def builder_default_def)
  from select_prefers_local [OF this, of "request_from_messages 0 []" Hosted] this show ?thesis
    by (simp add: builder_build_def add_provider_def builder_default_def PREFERENCE_ORDER_def
        on_device_as_provider_def on_device_can_handle_def request_from_messages_def chr_yes_def
        Let_def)
qed

text \<open>\<open>can_handle\<close> of the router tells the truth about \<open>generate\<close>: it reports the request
  as capable exactly when selection succeeds, and after a successful selection the router's
  descriptor is that of the selected provider.\<close>

theorem can_handle_iff_selects:
  "(chr_capable (router_can_handle r req) \<longleftrightarrow> (\<exists>m p. select r req = Inr (m, p))) \<and>
   (case select r req of
      Inl e \<Rightarrow> router_generate r req c = (Inl e, r)
    | Inr (m, p) \<Rightarrow> router_descriptor (snd (router_generate r req c)) = pv_descriptor p \<and>
        rt_last_active (snd (router_generate r req c)) = Some m)"
proof -
  have "chr_capable (router_can_handle r req) \<longleftrightarrow> (\<exists>m p. select r req = Inr (m, p))"
    by (auto simp: router_can_handle_iff is_ok_iff)
  moreover have "router_descriptor (snd (router_generate r req c)) = pv_descriptor p \<and>
      rt_last_active (snd (router_generate r req c)) = Some m" if "select r req = Inr (m, p)" for m p
  proof -
    have "rt_providers r m = Some p"
      using select_capable [OF that] by simp
    moreover have "rt_pin r = None \<or> rt_pin r = Some m"
      using that by (auto simp: select_def split: option.splits if_splits)
    ultimately show ?thesis
      using that
      by (auto simp: router_generate_def router_descriptor_def active_provider_def Let_def
          split: sum.splits)
  qed
  ultimately show ?thesis
    by (auto simp: router_generate_def split: sum.splits)
qed

text \<open>An on-device provider always answers a plain request. With one registered under
  OnDevice, no pin, and a request that needs no more than it offers, selection succeeds
  whatever the other providers say; and the on-device stream of a request that is not
  cancelled is the reply, chunk by chunk, followed by one stop chunk.\<close>

theorem on_device_never_strands:
  assumes "rt_pin r = None" and "rt_providers r OnDevice = Some (on_device_as_provider p)"
    and "satisfied_by (req_required_caps req) (md_capabilities (od_descriptor p))"
  shows "(\<exists>m q. select r req = Inr (m, q)) \<and>
    (\<exists>ws. concat ws = on_device_reply p req \<and>
       on_device_generate p req never_cancelled =
         Inr (map (\<lambda>w. Inr (chunk_text w OnDevice)) ws @ [Inr (chunk_finish FrStop OnDevice)]))"
proof -
  have "chr_capable (pv_can_handle (on_device_as_provider p) req)"
    using assms(3) by (simp add: on_device_as_provider_def on_device_can_handle_def chr_yes_def Let_def)
  moreover have "OnDevice \<in> set PREFERENCE_ORDER"
    by (simp add: PREFERENCE_ORDER_def)
  ultimately have "select_from r req PREFERENCE_ORDER \<noteq> Inl e" for e
    using assms(2) unfolding select_from_Inl by blast
  then have "\<exists>m q. select r req = Inr (m, q)"
    using assms(1) by (cases "select_from r req PREFERENCE_ORDER") (auto simp: select_def)
  moreover have "on_device_generate p req never_cancelled =
      Inr (map (\<lambda>w. Inr (chunk_text w OnDevice)) (split_inclusive CHR '' '' (on_device_reply p req))
        @ [Inr (chunk_finish FrStop OnDevice)])"
    by (simp add: on_device_generate_def on_device_stream_text never_cancelled_def)
  ultimately show ?thesis
    by (metis concat_split_inclusive)
qed

theorem on_device_never_strands_witness:
  "\<exists>m q. select (builder_build (add_provider builder_default OnDevice
     (on_device_as_provider on_device_new))) (request_from_messages 0 []) = Inr (m, q)"
  using on_device_never_strands
    [of "builder_build (add_provider builder_default OnDevice (on_device_as_provider on_device_new))"
      on_device_new "request_from_messages 0 []"]
  by (simp add: builder_build_def add_provider_def builder_default_def request_from_messages_def)

text \<open>The capability snapshot reports every mode: a registered one as available with its
  provider's descriptor, any other as unavailable with no models.\<close>

theorem snapshot_reports_every_mode:
  "dcs_modes (capability_snapshot r now d) m =
     (case rt_providers r m of
        Some p \<Rightarrow> Some \<lparr>mc_available = True, mc_models = [pv_descriptor p], mc_tool_ids = []\<rparr>
      | None \<Rightarrow> Some \<lparr>mc_available = False, mc_models = [], mc_tool_ids = []\<rparr>)"
  using snapshot_modes [OF provider_entries(1) [of r], of now d m]
  by (simp add: capability_snapshot_def provider_entries(2) mode_unavailable_def
      cong: option.case_cong)

end
