(* ===== verification/Approval.thy ===== *)
theory Approval
  imports Contracts
begin

text \<open>
  The approval gate of \<open>crates/mahi-agent-core/src/approval.rs\<close>: the registry of pending
  approvals, shared by the parked turn and the surface that answers it.

  A \<open>tokio::sync::oneshot\<close> channel is a slot of a heap of channels. The registry holds the
  sending ends, by approval id; the parked turn holds the receiving end, which is the number
  of the slot. Dropping one end is an explicit operation, as in Rust it is an effect.
\<close>

section \<open>Oneshot channels and the registry\<close>

datatype oneshot = Open | Sent bool | SenderDropped | ReceiverDropped

record approval_registry =
  ap_pending :: "uuid \<rightharpoonup> nat"
  ap_slots :: "oneshot list"

definition registry_default :: approval_registry where
  "registry_default = \<lparr>ap_pending = Map.empty, ap_slots = []\<rparr>"

text \<open>Dropping a sender wakes a waiting receiver with an error.\<close>

definition drop_sender :: "nat \<Rightarrow> oneshot list \<Rightarrow> oneshot list" where
  "drop_sender n slots = (if n < length slots \<and> slots ! n = Open then slots[n := SenderDropped] else slots)"

definition drop_receiver :: "nat \<Rightarrow> approval_registry \<Rightarrow> approval_registry" where
  "drop_receiver n r =
     (if n < length (ap_slots r) \<and> ap_slots r ! n = Open
      then r\<lparr>ap_slots := (ap_slots r)[n := ReceiverDropped]\<rparr> else r)"

text \<open>\<open>register\<close>, with the id that \<open>Uuid::new_v4\<close> drew. An insert drops what it replaces.\<close>

definition registry_register :: "uuid \<Rightarrow> approval_registry \<Rightarrow> (uuid \<times> nat) \<times> approval_registry" where
  "registry_register i r =
     (let n = length (ap_slots r);
          slots = (case ap_pending r i of None \<Rightarrow> ap_slots r | Some old \<Rightarrow> drop_sender old (ap_slots r))
      in ((i, n), \<lparr>ap_pending = (ap_pending r)(i \<mapsto> n), ap_slots = slots @ [Open]\<rparr>))"

definition registry_resolve ::
  "(uuid \<Rightarrow> string) \<Rightarrow> uuid \<Rightarrow> bool \<Rightarrow> approval_registry \<Rightarrow> (contract_error + unit) \<times> approval_registry" where
  "registry_resolve show_uuid i approved r =
     (case ap_pending r i of
        None \<Rightarrow> (Inl (OtherErr (''no pending approval with id '' @ show_uuid i)), r)
      | Some n \<Rightarrow>
          let r' = r\<lparr>ap_pending := (ap_pending r)(i := None)\<rparr>
          in if n < length (ap_slots r) \<and> ap_slots r ! n = Open
             then (Inr (), r'\<lparr>ap_slots := (ap_slots r)[n := Sent approved]\<rparr>)
             else (Inl (OtherErr ''approval waiter gone (turn ended or was cancelled)''), r'))"

definition registry_discard :: "uuid \<Rightarrow> approval_registry \<Rightarrow> approval_registry" where
  "registry_discard i r =
     (case ap_pending r i of
        None \<Rightarrow> r
      | Some n \<Rightarrow> \<lparr>ap_pending = (ap_pending r)(i := None), ap_slots = drop_sender n (ap_slots r)\<rparr>)"

text \<open>What polling the receiver gives: nothing yet, a decision, or that the sender is gone.\<close>

definition receive :: "nat \<Rightarrow> approval_registry \<Rightarrow> bool option option" where
  "receive n r =
     (if n < length (ap_slots r) then
        (case ap_slots r ! n of
           Open \<Rightarrow> None
         | Sent b \<Rightarrow> Some (Some b)
         | SenderDropped \<Rightarrow> Some None
         | ReceiverDropped \<Rightarrow> None)
      else None)"

section \<open>Invariant\<close>

text \<open>A pending id owns a slot of its own, on which nothing was sent.\<close>

definition registry_ok :: "approval_registry \<Rightarrow> bool" where
  "registry_ok r \<longleftrightarrow>
     (\<forall>i n. ap_pending r i = Some n \<longrightarrow>
        n < length (ap_slots r) \<and> (ap_slots r ! n = Open \<or> ap_slots r ! n = ReceiverDropped)) \<and>
     (\<forall>i j n. ap_pending r i = Some n \<longrightarrow> ap_pending r j = Some n \<longrightarrow> i = j)"

lemma registry_okD:
  "registry_ok r \<Longrightarrow> ap_pending r i = Some n \<Longrightarrow>
     n < length (ap_slots r) \<and> (ap_slots r ! n = Open \<or> ap_slots r ! n = ReceiverDropped)"
  by (simp add: registry_ok_def)

lemma registry_ok_inj:
  "registry_ok r \<Longrightarrow> ap_pending r i = Some n \<Longrightarrow> ap_pending r j = Some n \<Longrightarrow> i = j"
  by (auto simp: registry_ok_def)

lemma length_drop_sender [simp]: "length (drop_sender n slots) = length slots"
  by (simp add: drop_sender_def)

lemma drop_sender_nth [simp]: "k \<noteq> n \<Longrightarrow> drop_sender n slots ! k = slots ! k"
  by (simp add: drop_sender_def)

lemma registry_default_ok [simp]: "registry_ok registry_default"
  by (simp add: registry_ok_def registry_default_def)

lemma registry_register_ok:
  assumes "registry_ok r"
  shows "registry_ok (snd (registry_register i r))"
proof -
  define r' where "r' = snd (registry_register i r)"
  let ?n = "length (ap_slots r)"
  have p: "ap_pending r' = (ap_pending r)(i \<mapsto> ?n)" and len: "length (ap_slots r') = Suc ?n"
    and new: "ap_slots r' ! ?n = Open"
    by (auto simp: r'_def registry_register_def Let_def nth_append split: option.splits)
  have old: "ap_slots r' ! n = ap_slots r ! n" and lt: "n < ?n" if "ap_pending r j = Some n" "j \<noteq> i" for j n
    using registry_ok_inj [OF assms that(1), of i] registry_okD [OF assms that(1)] that(2)
    by (auto simp: r'_def registry_register_def Let_def nth_append drop_sender_def nth_list_update
        split: option.splits)
  have "n < length (ap_slots r') \<and> (ap_slots r' ! n = Open \<or> ap_slots r' ! n = ReceiverDropped)"
    if "ap_pending r' j = Some n" for j n
    using that new registry_okD [OF assms, of j n] old [of j n] lt [of j n]
    by (cases "j = i") (auto simp: p len)
  moreover have "j = k" if "ap_pending r' j = Some n" "ap_pending r' k = Some n" for j k n
    using that registry_ok_inj [OF assms, of j n k] lt [of j n] lt [of k n]
    by (auto simp: p split: if_splits)
  ultimately show ?thesis
    unfolding registry_ok_def r'_def by blast
qed

lemma registry_resolve_ok:
  assumes "registry_ok r"
  shows "registry_ok (snd (registry_resolve f i b r))"
  using registry_okD [OF assms] registry_ok_inj [OF assms]
  unfolding registry_ok_def registry_resolve_def Let_def
  by (auto simp: nth_list_update split: option.splits if_splits)

lemma registry_discard_ok:
  assumes "registry_ok r"
  shows "registry_ok (registry_discard i r)"
  using registry_okD [OF assms] registry_ok_inj [OF assms]
  unfolding registry_ok_def registry_discard_def
  by (auto simp: drop_sender_def nth_list_update split: option.splits if_splits)

lemma drop_receiver_ok: "registry_ok r \<Longrightarrow> registry_ok (drop_receiver n r)"
  by (auto simp: registry_ok_def drop_receiver_def nth_list_update)

lemma resolve_Inr_pending:
  "fst (registry_resolve f i b r) = Inr () \<Longrightarrow> \<exists>n. ap_pending r i = Some n"
  by (auto simp: registry_resolve_def split: option.splits)

lemma receive_resolve_other:
  assumes "registry_ok r" and "ap_pending r i = Some n" and "j \<noteq> i"
  shows "receive n (snd (registry_resolve f j b r)) = receive n r"
proof (cases "ap_pending r j")
  case None
  then show ?thesis by (simp add: registry_resolve_def)
next
  case (Some m)
  then have "m \<noteq> n"
    using registry_ok_inj [OF assms(1,2), of j] assms(3) by auto
  with Some show ?thesis
    by (simp add: registry_resolve_def receive_def Let_def)
qed

section \<open>Properties\<close>

text \<open>An approval is answered at most once and reaches the waiter. For a registered id
  whose waiter is still parked, \<open>resolve\<close> succeeds and the waiter receives exactly that
  decision; a second \<open>resolve\<close> of the id, or one after \<open>discard\<close>, is an error that changes
  nothing; waiters of other ids are not woken.\<close>

theorem approval_delivered_once:
  assumes "registry_ok r" and "ap_pending r i = Some n" and "receive n r = None"
    and "ap_slots r ! n \<noteq> ReceiverDropped"
  shows "fst (registry_resolve f i b r) = Inr () \<and>
    receive n (snd (registry_resolve f i b r)) = Some (Some b) \<and>
    registry_resolve f i b' (snd (registry_resolve f i b r)) =
      (Inl (OtherErr (''no pending approval with id '' @ f i)), snd (registry_resolve f i b r)) \<and>
    fst (registry_resolve f i b' (registry_discard i r)) =
      Inl (OtherErr (''no pending approval with id '' @ f i)) \<and>
    (\<forall>j m. ap_pending r j = Some m \<longrightarrow> j \<noteq> i \<longrightarrow>
       receive m (snd (registry_resolve f i b r)) = receive m r)"
proof -
  have n: "n < length (ap_slots r)" "ap_slots r ! n = Open"
    using registry_okD [OF assms(1,2)] assms(4) by auto
  then have res: "registry_resolve f i b r = (Inr (),
      r\<lparr>ap_pending := (ap_pending r)(i := None), ap_slots := (ap_slots r)[n := Sent b]\<rparr>)"
    using assms(2) by (simp add: registry_resolve_def Let_def)
  moreover have "\<forall>j m. ap_pending r j = Some m \<longrightarrow> j \<noteq> i \<longrightarrow>
      receive m (snd (registry_resolve f i b r)) = receive m r"
    using receive_resolve_other [OF assms(1)] by metis
  moreover have "registry_resolve f i b' r' =
      (Inl (OtherErr (''no pending approval with id '' @ f i)), r')" if "ap_pending r' i = None" for r'
    using that by (simp add: registry_resolve_def)
  moreover have "ap_pending (registry_discard i r) i = None"
    using assms(2) by (simp add: registry_discard_def)
  ultimately show ?thesis
    using n by (simp add: receive_def)
qed

theorem approval_delivered_once_witness:
  "let r = snd (registry_register 7 registry_default)
   in receive 0 r = None \<and>
      receive 0 (snd (registry_resolve (\<lambda>_. []) 7 True r)) = Some (Some True)"
proof -
  let ?r = "snd (registry_register 7 registry_default)"
  have "registry_ok ?r"
    by (simp add: registry_register_ok)
  moreover have "ap_pending ?r 7 = Some 0" "receive 0 ?r = None" "ap_slots ?r ! 0 \<noteq> ReceiverDropped"
    by (simp_all add: registry_register_def registry_default_def receive_def)
  ultimately show ?thesis
    using approval_delivered_once [of ?r 7 0 "\<lambda>_. []" True False] by (simp add: Let_def)
qed

end
