(* ===== verification/Seams.thy ===== *)
theory Seams
  imports Sealing Approval
begin

text \<open>
  What the agent core is injected with and how its code runs. \<open>EngineConfig\<close> of
  \<open>crates/mahi-agent-core/src/engine.rs\<close> holds trait objects: the data store, the
  inference provider and the tools. Here they are a record of operations on a world \<open>'w\<close>,
  which is the state behind those objects; the clock and the random generator are
  operations on it too.

  An engine call outside a turn is an action: it takes the world and gives a result and the
  world after it, with the changes made before an error kept. A turn runs as a task with a
  state of its own, and it can be parked, waiting for an approval that never comes, so its
  steps end in \<open>Done\<close>, \<open>Fail\<close> (the \<open>?\<close> operator) or \<open>Parked\<close>.

  The surface runs beside the turn. What it does is a sequence of batches: the \<open>k\<close>-th batch
  holds its calls between the turn's \<open>(k-1)\<close>-th and \<open>k\<close>-th look at its cancellation token,
  so a theorem about all batches is one about every interleaving of the turn and the
  surface. The turn keeps the log of its calls, in order: the events it sent on its channel
  and the seam calls that have an effect.
\<close>

section \<open>Display of the errors (error.rs)\<close>

fun show_mode :: "compute_mode \<Rightarrow> string" where
  "show_mode OnDevice = ''OnDevice''"
| "show_mode MacLan = ''MacLan''"
| "show_mode MacRemote = ''MacRemote''"
| "show_mode Hosted = ''Hosted''"

fun show_channel :: "channel_id \<Rightarrow> string" where
  "show_channel Control = ''Control''"
| "show_channel Inference = ''Inference''"
| "show_channel Sync = ''Sync''"
| "show_channel Approval = ''Approval''"
| "show_channel StreamVideo = ''StreamVideo''"
| "show_channel Input = ''Input''"
| "show_channel FileXfr = ''FileXfr''"
| "show_channel Audio = ''Audio''"

definition show_bool :: "bool \<Rightarrow> string" where
  "show_bool b = (if b then ''true'' else ''false'')"

text \<open>\<open>{:?}\<close> of a string: quoted, with the escapes of \<open>char::escape_debug\<close> for ASCII; other
  characters are taken to be printable.\<close>

definition debug_char :: "char \<Rightarrow> string" where
  "debug_char c =
     (let n = of_char c :: nat
      in if n = 9 then [CHR 0x5C, CHR ''t'']
         else if n = 10 then [CHR 0x5C, CHR ''n'']
         else if n = 13 then [CHR 0x5C, CHR ''r'']
         else if n = 0 then [CHR 0x5C, CHR ''0'']
         else if n = 34 \<or> n = 92 then [CHR 0x5C, c]
         else if n < 16 then [CHR 0x5C, CHR ''u'', CHR 0x7B, hex_digit n, CHR 0x7D]
         else if n < 32 \<or> n = 127
         then [CHR 0x5C, CHR ''u'', CHR 0x7B, hex_digit (n div 16), hex_digit (n mod 16), CHR 0x7D]
         else [c])"

definition debug_str :: "string \<Rightarrow> string" where
  "debug_str s = CHR 0x22 # concat (map debug_char s) @ [CHR 0x22]"

definition debug_strs :: "string list \<Rightarrow> string" where
  "debug_strs ss = ''['' @ str_join '', '' (map debug_str ss) @ '']''"

fun show_inference_error :: "inference_error \<Rightarrow> string" where
  "show_inference_error NoCapableProvider = ''no provider can handle the request''"
| "show_inference_error (PinViolation m) =
     ''pin violation: requested mode '' @ show_mode m @ '' is unavailable''"
| "show_inference_error (ProviderError msg retryable) =
     ''provider error: '' @ msg @ '' (retryable='' @ show_bool retryable @ '')''"
| "show_inference_error ThermalThrottle = ''compute resource is thermally throttled''"

fun show_tool_error :: "tool_error \<Rightarrow> string" where
  "show_tool_error (ToolNotFound t) = ''tool not found: '' @ t"
| "show_tool_error (UnavailableInMode t m) =
     ''tool '' @ t @ '' unavailable in mode '' @ show_mode m"
| "show_tool_error (SchemaValidation msg) = ''input schema validation failed: '' @ msg"
| "show_tool_error SandboxViolation = ''sandbox violation''"
| "show_tool_error (ToolExecution msg) = ''tool execution failed: '' @ msg"

fun show_store_error :: "(uuid \<Rightarrow> string) \<Rightarrow> store_error \<Rightarrow> string" where
  "show_store_error u (StoreNotFound i) = ''record not found: '' @ u i"
| "show_store_error u (StoreBackend msg) = ''storage backend error: '' @ msg"
| "show_store_error u (StoreEncryption msg) = ''encryption error: '' @ msg"
| "show_store_error u (StoreSerialization msg) = ''serialization error: '' @ msg"

fun show_connectivity_error :: "(uuid \<Rightarrow> string) \<Rightarrow> connectivity_error \<Rightarrow> string" where
  "show_connectivity_error u (PeerUnreachable p) = ''peer unreachable: '' @ u p"
| "show_connectivity_error u (ChannelClosed c) = ''channel '' @ show_channel c @ '' is not open''"
| "show_connectivity_error u (TransportError msg) = ''transport error: '' @ msg"

fun show_permission_error :: "permission_error \<Rightarrow> string" where
  "show_permission_error (PermissionDenied s scope) =
     ''permission denied for '' @ s @ '' in scope '' @ debug_strs scope"
| "show_permission_error (HardRuleBlocked r) = ''blocked by hard rule: '' @ r"
| "show_permission_error (PermissionBackend msg) = ''backend error: '' @ msg"

fun show_error :: "(uuid \<Rightarrow> string) \<Rightarrow> contract_error \<Rightarrow> string" where
  "show_error u (InferenceErr e) = ''inference error: '' @ show_inference_error e"
| "show_error u (ToolErr e) = ''tool error: '' @ show_tool_error e"
| "show_error u (StoreErr e) = ''store error: '' @ show_store_error u e"
| "show_error u (ConnectivityErr e) = ''connectivity error: '' @ show_connectivity_error u e"
| "show_error u (PermissionErr e) = ''permission error: '' @ show_permission_error e"
| "show_error u CancelledErr = ''operation cancelled''"
| "show_error u (OtherErr msg) = msg"

section \<open>The injected seams\<close>

type_synonym ('w, 'a) act = "'w \<Rightarrow> (contract_error + 'a) \<times> 'w"

text \<open>
  The last four fields are third-party functions the engine calls: the text form of an
  identifier, \<open>serde_json::from_str\<close>, the JSON text of content blocks, and base64.
\<close>

record 'w seams =
  sm_now :: "'w \<Rightarrow> datetime \<times> 'w"
  sm_new_v4 :: "'w \<Rightarrow> uuid \<times> 'w"
  sm_conversations_get :: "uuid \<Rightarrow> ('w, conversation option) act"
  sm_conversations_upsert :: "conversation \<Rightarrow> ('w, unit) act"
  sm_conversations_list :: "usize \<Rightarrow> ('w, conversation list) act"
  sm_messages_append :: "message \<Rightarrow> ('w, unit) act"
  sm_messages_range :: "uuid \<Rightarrow> usize \<Rightarrow> ('w, message list) act"
  sm_messages_next_sequence :: "uuid \<Rightarrow> ('w, int) act"
  sm_memory_search :: "string \<Rightarrow> uuid option \<Rightarrow> usize \<Rightarrow> ('w, memory_record list) act"
  sm_audit_append :: "audit_event \<Rightarrow> ('w, unit) act"
  sm_descriptor :: "'w \<Rightarrow> model_descriptor"
  sm_generate :: "inference_request \<Rightarrow> ('w, inference_stream) act"
  sm_describe :: "compute_mode \<Rightarrow> 'w \<Rightarrow> tool_descriptor list \<times> 'w"
  sm_invoke :: "tool_invocation \<Rightarrow> ('w, tool_event_stream) act"
  sm_show_uuid :: "uuid \<Rightarrow> string"
  sm_from_str :: "string \<Rightarrow> json option"
  sm_content_json :: "content_block list \<Rightarrow> string option"
  sm_base64 :: "bytes \<Rightarrow> string"

definition act_ok :: "'a \<Rightarrow> ('w, 'a) act" where
  "act_ok x w = (Inr x, w)"

definition bind_w :: "('w, 'a) act \<Rightarrow> ('a \<Rightarrow> ('w, 'b) act) \<Rightarrow> ('w, 'b) act" where
  "bind_w m f w = (case m w of (Inl e, w') \<Rightarrow> (Inl e, w') | (Inr x, w') \<Rightarrow> f x w')"

definition draw_w :: "('w \<Rightarrow> 'a \<times> 'w) \<Rightarrow> ('w, 'a) act" where
  "draw_w f w = (case f w of (x, w') \<Rightarrow> (Inr x, w'))"

text \<open>\<open>Message::text\<close> draws the id and reads the clock.\<close>

definition new_message_text ::
  "'w seams \<Rightarrow> uuid \<Rightarrow> message_role \<Rightarrow> string \<Rightarrow> compute_mode \<Rightarrow> int \<Rightarrow> ('w, message) act" where
  "new_message_text S conversation role text mode sequence =
     bind_w (draw_w (sm_new_v4 S)) (\<lambda>i.
     bind_w (draw_w (sm_now S)) (\<lambda>now.
     act_ok (message_text now i conversation role text mode sequence)))"

section \<open>The engine and a turn's state\<close>

record engine =
  en_device_id :: uuid
  en_approvals :: approval_registry
  en_context_budget_chars :: usize

datatype effect =
    Emitted agent_event
  | Described compute_mode "tool_descriptor list"
  | Generated inference_request
  | Invoked tool_invocation
  | Appended message
  | Audited audit_event
  | Upserted conversation
  | Answered uuid bool
  | CancelRequested

datatype surface_action = Resolve uuid bool | Cancel | SetContextWindow usize

record 'w turn =
  tn_world :: 'w
  tn_engine :: engine
  tn_conversation :: conversation
  tn_user_text :: string
  tn_user_message_id :: uuid
  tn_mode :: compute_mode
  tn_trace_id :: uuid
  tn_cancelled :: bool
  tn_surface :: "surface_action list list"
  tn_log :: "effect list"

section \<open>Steps of a turn\<close>

datatype 'a step = Done 'a | Fail contract_error | Parked

type_synonym ('w, 'a) turn_m = "'w turn \<Rightarrow> 'a step \<times> 'w turn"

definition ret :: "'a \<Rightarrow> ('w, 'a) turn_m" where
  "ret x s = (Done x, s)"

definition fail :: "contract_error \<Rightarrow> ('w, 'a) turn_m" where
  "fail e s = (Fail e, s)"

definition bind_t :: "('w, 'a) turn_m \<Rightarrow> ('a \<Rightarrow> ('w, 'b) turn_m) \<Rightarrow> ('w, 'b) turn_m" where
  "bind_t m f s =
     (case m s of
        (Done x, s') \<Rightarrow> f x s'
      | (Fail e, s') \<Rightarrow> (Fail e, s')
      | (Parked, s') \<Rightarrow> (Parked, s'))"

definition get_t :: "('w turn \<Rightarrow> 'a) \<Rightarrow> ('w, 'a) turn_m" where
  "get_t f s = (Done (f s), s)"

definition log_t :: "effect \<Rightarrow> ('w, unit) turn_m" where
  "log_t e s = (Done (), s\<lparr>tn_log := tn_log s @ [e]\<rparr>)"

definition call :: "('w, 'a) act \<Rightarrow> ('w, 'a) turn_m" where
  "call f s =
     (case f (tn_world s) of
        (Inl e, w) \<Rightarrow> (Fail e, s\<lparr>tn_world := w\<rparr>)
      | (Inr x, w) \<Rightarrow> (Done x, s\<lparr>tn_world := w\<rparr>))"

text \<open>\<open>TurnRunner::emit\<close>.\<close>

definition emit :: "agent_event \<Rightarrow> ('w, unit) turn_m" where
  "emit ev = log_t (Emitted ev)"

section \<open>The surface beside the turn\<close>

definition set_context_window :: "usize \<Rightarrow> engine \<Rightarrow> engine" where
  "set_context_window tokens e =
     e\<lparr>en_context_budget_chars := max (saturating_mul tokens 4) 2000\<rparr>"

definition apply_action :: "(uuid \<Rightarrow> string) \<Rightarrow> surface_action \<Rightarrow> 'w turn \<Rightarrow> 'w turn" where
  "apply_action u a s =
     (case a of
        Resolve i b \<Rightarrow>
          (case registry_resolve u i b (en_approvals (tn_engine s)) of
             (r, reg) \<Rightarrow>
               let s' = s\<lparr>tn_engine := (tn_engine s)\<lparr>en_approvals := reg\<rparr>\<rparr>
               in if is_ok r then s'\<lparr>tn_log := tn_log s' @ [Answered i b]\<rparr> else s')
      | Cancel \<Rightarrow> s\<lparr>tn_cancelled := True, tn_log := tn_log s @ [CancelRequested]\<rparr>
      | SetContextWindow t \<Rightarrow> s\<lparr>tn_engine := set_context_window t (tn_engine s)\<rparr>)"

definition apply_batch :: "(uuid \<Rightarrow> string) \<Rightarrow> surface_action list \<Rightarrow> 'w turn \<Rightarrow> 'w turn" where
  "apply_batch u as s = fold (apply_action u) as s"

text \<open>A look at the cancellation token: the surface's calls since the last look happen first.\<close>

definition poll :: "'w seams \<Rightarrow> ('w, bool) turn_m" where
  "poll S s =
     (case tn_surface s of
        [] \<Rightarrow> (Done (tn_cancelled s), s)
      | b # rest \<Rightarrow>
          let s' = apply_batch (sm_show_uuid S) b (s\<lparr>tn_surface := rest\<rparr>)
          in (Done (tn_cancelled s'), s'))"

text \<open>
  The \<open>select!\<close> between cancellation and the decision of an approval, cancellation first;
  \<open>None\<close> means cancelled. When the surface never acts again, the turn stays parked.
\<close>

fun await_decision ::
  "(uuid \<Rightarrow> string) \<Rightarrow> nat \<Rightarrow> surface_action list list \<Rightarrow> ('w, bool option option) turn_m" where
  "await_decision u n [] s =
     (if tn_cancelled s then (Done None, s\<lparr>tn_surface := []\<rparr>)
      else case receive n (en_approvals (tn_engine s)) of
             Some d \<Rightarrow> (Done (Some d), s\<lparr>tn_surface := []\<rparr>)
           | None \<Rightarrow> (Parked, s\<lparr>tn_surface := []\<rparr>))"
| "await_decision u n (b # rest) s =
     (let s' = apply_batch u b s
      in if tn_cancelled s' then (Done None, s'\<lparr>tn_surface := rest\<rparr>)
         else case receive n (en_approvals (tn_engine s')) of
                Some d \<Rightarrow> (Done (Some d), s'\<lparr>tn_surface := rest\<rparr>)
              | None \<Rightarrow> await_decision u n rest s')"

end
