(* ===== verification/Context.thy ===== *)
theory Context
  imports Seams
begin

text \<open>
  Context assembly, \<open>crates/mahi-agent-core/src/context.rs\<close>: the system prompts, the recalled
  memories and the recent history of a conversation, cut to a character budget by a sliding
  window over the history. A message costs the length of its serialised content. The sums
  of costs are lengths of text in memory, so they are natural numbers here.
\<close>

section \<open>Operations\<close>

definition CONTEXT_CHAR_BUDGET :: usize where
  "CONTEXT_CHAR_BUDGET = 16000"

definition DEFAULT_SYSTEM_PROMPT :: string where
  "DEFAULT_SYSTEM_PROMPT =
     ''You are Mahi, a capable personal AI assistant running on the user's own Mac. ''
     @ ''You act as a proactive coworker: understand the goal, make a short plan, and ''
     @ ''carry it out end to end rather than just describing what could be done.''
     @ [CHR 0x0A]
     @ [CHR 0x0A]
     @ ''You have tools available this turn ''
     @ utf8 [226, 128, 148]
     @ '' reading, writing, editing and searching files; running shell commands; ''
     @ ''fetching and searching the web; and, when working on the Mac, controlling the ''
     @ ''computer (capturing the screen, reading the on-screen UI, clicking, typing, ''
     @ ''scrolling, and pressing keys). Use them whenever they help, and prefer acting ''
     @ ''over asking. Call one or more tools, look at the results, and keep going until ''
     @ ''the task is actually done. When you write or change code, match the surrounding ''
     @ ''style and keep edits minimal, correct, and runnable.''
     @ [CHR 0x0A]
     @ [CHR 0x0A]
     @ ''For computer use: capture or describe the screen before you act so you target ''
     @ ''the right element, take one careful step at a time, and check the result before ''
     @ ''the next step. Some actions require the user's approval ''
     @ utf8 [226, 128, 148]
     @ '' when one is requested, wait for the decision and respect it. Never type ''
     @ ''credentials or act on login, password, or payment screens; stop and let the ''
     @ ''user handle those directly.''
     @ [CHR 0x0A]
     @ [CHR 0x0A]
     @ ''Be concise and direct, and explain your actions only as much as is useful. ''
     @ ''Break large tasks into steps, and delegate independent sub-tasks to parallel ''
     @ ''subagents when that's faster. If a request is ambiguous or risky, say so ''
     @ ''briefly and proceed with the most reasonable interpretation.''"

definition message_cost :: "(content_block list \<Rightarrow> string option) \<Rightarrow> message \<Rightarrow> nat" where
  "message_cost to_json m = (case to_json (msg_content m) of Some s \<Rightarrow> length s | None \<Rightarrow> 0)"

text \<open>The loop of \<open>compact\<close>, over the history from its newest message.\<close>

fun compact_loop ::
  "(message \<Rightarrow> nat) \<Rightarrow> nat \<Rightarrow> nat \<Rightarrow> message list \<Rightarrow> message list \<Rightarrow> message list" where
  "compact_loop cost budget used kept [] = kept"
| "compact_loop cost budget used kept (m # ms) =
     (if kept \<noteq> [] \<and> used + cost m > budget then kept
      else compact_loop cost budget (used + cost m) (kept @ [m]) ms)"

definition compact ::
  "(message \<Rightarrow> nat) \<Rightarrow> message list \<Rightarrow> message list \<Rightarrow> nat \<Rightarrow> message list" where
  "compact cost preamble history budget =
     preamble @ rev (compact_loop cost budget (sum_list (map cost preamble)) [] (rev history))"

definition synthetic_system :: "'w seams \<Rightarrow> conversation \<Rightarrow> string \<Rightarrow> ('w, message) act" where
  "synthetic_system S c text =
     new_message_text S (conv_id c) System text (conv_mode_at_creation c) (- 1)"

text \<open>The conversation's own instructions, when they are not blank.\<close>

definition extra_prompt :: "conversation \<Rightarrow> string option" where
  "extra_prompt c =
     (case conv_system_prompt c of
        Some extra \<Rightarrow> if str_trim extra \<noteq> [] then Some extra else None
      | None \<Rightarrow> None)"

definition memory_prompt :: "memory_record list \<Rightarrow> string" where
  "memory_prompt ms =
     ''Relevant memories recalled for this turn:'' @ [CHR 0x0A] @
     str_join [CHR 0x0A] (map (\<lambda>m. ''- '' @ mem_content m) ms)"

definition assemble_context ::
  "'w seams \<Rightarrow> conversation \<Rightarrow> string \<Rightarrow> usize \<Rightarrow> usize \<Rightarrow> usize \<Rightarrow> ('w, message list) act" where
  "assemble_context S c recall_query history_limit memory_limit budget_chars =
     bind_w (synthetic_system S c DEFAULT_SYSTEM_PROMPT) (\<lambda>default.
     bind_w (case extra_prompt c of
               Some extra \<Rightarrow> bind_w (synthetic_system S c extra) (\<lambda>m. act_ok [default, m])
             | None \<Rightarrow> act_ok [default]) (\<lambda>preamble.
     bind_w (sm_memory_search S recall_query (conv_space_id c) memory_limit) (\<lambda>memories.
     bind_w (if memories = [] then act_ok preamble
             else bind_w (synthetic_system S c (memory_prompt memories)) (\<lambda>m.
                    act_ok (preamble @ [m]))) (\<lambda>preamble.
     bind_w (sm_messages_range S (conv_id c) history_limit) (\<lambda>history.
     act_ok (compact (message_cost (sm_content_json S)) preamble history (unat budget_chars)))))))"

section \<open>The sliding window\<close>

lemma compact_loop_prefix:
  "\<exists>k \<le> length ms. compact_loop cost budget used kept ms = kept @ take k ms \<and>
     (kept = [] \<longrightarrow> ms \<noteq> [] \<longrightarrow> 0 < k) \<and>
     (\<forall>j. j < k \<longrightarrow> 0 < length kept + j \<longrightarrow> used + sum_list (map cost (take (Suc j) ms)) \<le> budget) \<and>
     (k < length ms \<longrightarrow> budget < used + sum_list (map cost (take (Suc k) ms)))"
proof (induction ms arbitrary: used kept)
  case Nil
  show ?case by simp
next
  case (Cons m ms)
  show ?case
  proof (cases "kept \<noteq> [] \<and> used + cost m > budget")
    case True
    then show ?thesis by (intro exI [of _ 0]) simp
  next
    case False
    from Cons.IH [of "used + cost m" "kept @ [m]"] obtain k where k: "k \<le> length ms"
      "compact_loop cost budget (used + cost m) (kept @ [m]) ms = (kept @ [m]) @ take k ms"
      "\<forall>j. j < k \<longrightarrow> 0 < length (kept @ [m]) + j \<longrightarrow>
         used + cost m + sum_list (map cost (take (Suc j) ms)) \<le> budget"
      "k < length ms \<longrightarrow> budget < used + cost m + sum_list (map cost (take (Suc k) ms))"
      by blast
    have "used + sum_list (map cost (take (Suc j) (m # ms))) \<le> budget"
      if "j < Suc k" "0 < length kept + j" for j
      using that False k(3) by (cases j) (auto simp: add.assoc)
    with False k show ?thesis
      by (intro exI [of _ "Suc k"]) (auto simp: add.assoc)
  qed
qed

lemma compact_suffix:
  "\<exists>old kept. history = old @ kept \<and> compact cost preamble history budget = preamble @ kept \<and>
     (history \<noteq> [] \<longrightarrow> kept \<noteq> []) \<and>
     (1 < length kept \<longrightarrow> sum_list (map cost (preamble @ kept)) \<le> budget) \<and>
     (old \<noteq> [] \<longrightarrow> budget < sum_list (map cost (preamble @ last old # kept)))"
proof -
  let ?u = "sum_list (map cost preamble)" and ?h = "rev history"
  from compact_loop_prefix [of ?h cost budget ?u "[]"] obtain k where k: "k \<le> length history"
    "compact_loop cost budget ?u [] ?h = take k ?h" "history \<noteq> [] \<longrightarrow> 0 < k"
    "\<And>j. j < k \<Longrightarrow> 0 < j \<Longrightarrow> ?u + sum_list (map cost (take (Suc j) ?h)) \<le> budget"
    "k < length history \<Longrightarrow> budget < ?u + sum_list (map cost (take (Suc k) ?h))"
    by auto
  let ?d = "length history - k"
  have kept: "rev (take k ?h) = drop ?d history" "take k ?h = rev (drop ?d history)"
    by (simp_all add: rev_take take_rev)
  have "sum_list (map cost (preamble @ drop ?d history)) \<le> budget" if "1 < length (drop ?d history)"
  proof -
    have "1 < k"
      using that k(1) by simp
    then have "?u + sum_list (map cost (take k ?h)) \<le> budget"
      using k(4) [of "k - 1"] by simp
    then show ?thesis
      by (simp add: kept(2) rev_map [symmetric] sum_list_rev)
  qed
  moreover have "budget < sum_list (map cost (preamble @ last (take ?d history) # drop ?d history))"
    if "take ?d history \<noteq> []"
  proof -
    have lt: "k < length history"
      using that by (cases "k < length history") auto
    then have "take (Suc k) ?h = take k ?h @ [last (take ?d history)]"
      using last_conv_nth [OF that] by (simp add: take_Suc_conv_app_nth rev_nth)
    with k(5) [OF lt] show ?thesis
      by (simp add: kept(2) rev_map [symmetric] sum_list_rev)
  qed
  moreover have "compact cost preamble history budget = preamble @ drop ?d history"
    by (simp add: compact_def k(2) kept(1))
  moreover have "history \<noteq> [] \<longrightarrow> drop ?d history \<noteq> []"
    using k(1,3) by auto
  ultimately show ?thesis
    by (intro exI conjI) (rule append_take_drop_id [symmetric], auto)
qed

section \<open>Properties\<close>

text \<open>C38: the sliding window keeps the preamble, then a suffix of the history in its order: the
  newest message always, more than it only while the whole context fits the budget, and it
  is the longest such suffix, as one message more would exceed the budget.\<close>

theorem compact_keeps_longest_suffix:
  "\<exists>old kept. history = old @ kept \<and>
     compact (message_cost J) preamble history budget = preamble @ kept \<and>
     (history \<noteq> [] \<longrightarrow> kept \<noteq> []) \<and>
     (1 < length kept \<longrightarrow> sum_list (map (message_cost J) (preamble @ kept)) \<le> budget) \<and>
     (old \<noteq> [] \<longrightarrow> budget < sum_list (map (message_cost J) (preamble @ last old # kept)))"
  by (rule compact_suffix)

theorem compact_keeps_longest_suffix_witness:
  "\<exists>old kept. [message_text 0 1 2 User ''hi'' OnDevice 0] = old @ kept \<and>
     compact (message_cost (\<lambda>_. Some ''xxxx'')) [] [message_text 0 1 2 User ''hi'' OnDevice 0] 1 = kept \<and>
     kept \<noteq> []"
  using compact_keeps_longest_suffix
    [of "[message_text 0 1 2 User ''hi'' OnDevice 0]" "\<lambda>_. Some ''xxxx''" "[]" 1]
  by fastforce

end
