(* ===== verification/Engine.thy ===== *)
theory Engine
  imports Context
begin

text \<open>
  \<open>MahiEngine\<close> and \<open>TurnRunner\<close> of \<open>crates/mahi-agent-core/src/engine.rs\<close>: the engine's calls
  as actions on the world, and the streaming turn loop, one definition per method, in the
  order of the file. A provider's or a tool's stream is the list of its items; the loops
  over them, over the tool calls of a round and over the rounds are recursive functions.
  The event channel is unbounded here: a surface that stops reading delays the turn and
  changes nothing else.
\<close>

section \<open>Text helpers\<close>

definition ellipsis :: string where
  "ellipsis = utf8 [226, 128, 166]"

definition title_from_text :: "string \<Rightarrow> string" where
  "title_from_text text =
     (let first_line = (case find (\<lambda>l. l \<noteq> []) (map str_trim (str_lines text)) of
            Some l \<Rightarrow> l | None \<Rightarrow> ''New conversation'')
      in if length (str_chars first_line) \<le> 48 then first_line
         else take_chars 48 first_line @ ellipsis)"

definition truncate_for_summary :: "string \<Rightarrow> nat \<Rightarrow> string" where
  "truncate_for_summary s max_chars =
     (if length (str_chars s) \<le> max_chars then s else take_chars max_chars s @ ellipsis)"

definition parse_args :: "(string \<Rightarrow> json option) \<Rightarrow> string \<Rightarrow> json" where
  "parse_args from_str raw =
     (let trimmed = str_trim raw
      in if trimmed = [] then JObj []
         else case from_str trimmed of Some (JObj m) \<Rightarrow> JObj m | _ \<Rightarrow> JObj [])"

text \<open>\<open>char::to_digit(16)\<close>.\<close>

definition to_digit :: "char \<Rightarrow> nat option" where
  "to_digit c =
     (let n = of_char c :: nat
      in if 48 \<le> n \<and> n \<le> 57 then Some (n - 48)
         else if 97 \<le> n \<and> n \<le> 102 then Some (n - 87)
         else if 65 \<le> n \<and> n \<le> 70 then Some (n - 55)
         else None)"

fun decode_pairs :: "string \<Rightarrow> bytes option" where
  "decode_pairs (h # l # s) =
     (case to_digit h of
        None \<Rightarrow> None
      | Some hi \<Rightarrow>
          (case to_digit l of
             None \<Rightarrow> None
           | Some lo \<Rightarrow> map_option (Cons (word_of_nat (hi * 16 + lo))) (decode_pairs s)))"
| "decode_pairs s = Some []"

definition decode_hex :: "string \<Rightarrow> bytes option" where
  "decode_hex s = (if length s mod 2 \<noteq> 0 then None else decode_pairs s)"

definition screenshot_image_block :: "(bytes \<Rightarrow> string) \<Rightarrow> json \<Rightarrow> (string \<times> string) option" where
  "screenshot_image_block base64 output =
     (case Option.bind (json_get output ''image_hex'') json_as_str of
        None \<Rightarrow> None
      | Some hex \<Rightarrow>
          (case decode_hex hex of
             None \<Rightarrow> None
           | Some bs \<Rightarrow> if bs = [] then None else Some (''image/png'', base64 bs)))"

section \<open>Calls of the engine\<close>

definition engine_new :: "uuid \<Rightarrow> engine" where
  "engine_new device =
     \<lparr>en_device_id = device, en_approvals = registry_default,
      en_context_budget_chars = CONTEXT_CHAR_BUDGET\<rparr>"

definition act_err :: "contract_error \<Rightarrow> ('w, 'a) act" where
  "act_err e w = (Inl e, w)"

definition create_conversation :: "'w seams \<Rightarrow> compute_mode \<Rightarrow> ('w, uuid) act" where
  "create_conversation S mode =
     bind_w (draw_w (sm_now S)) (\<lambda>now.
     bind_w (draw_w (sm_new_v4 S)) (\<lambda>i.
     bind_w (sm_conversations_upsert S (conversation_new now i mode)) (\<lambda>_.
     act_ok i)))"

definition list_conversations :: "'w seams \<Rightarrow> usize \<Rightarrow> ('w, conversation list) act" where
  "list_conversations S limit = sm_conversations_list S limit"

definition history :: "'w seams \<Rightarrow> uuid \<Rightarrow> ('w, message list) act" where
  "history S c = sm_messages_range S c (- 1)"

text \<open>The \<open>get(..)?.ok_or(NotFound)?\<close> that three calls share.\<close>

definition get_conversation :: "'w seams \<Rightarrow> uuid \<Rightarrow> ('w, conversation) act" where
  "get_conversation S i =
     bind_w (sm_conversations_get S i) (\<lambda>c.
       case c of None \<Rightarrow> act_err (StoreErr (StoreNotFound i)) | Some conv \<Rightarrow> act_ok conv)"

definition resolve_approval ::
  "'w seams \<Rightarrow> engine \<Rightarrow> uuid \<Rightarrow> bool \<Rightarrow> (contract_error + unit) \<times> engine" where
  "resolve_approval S e i approved =
     (case registry_resolve (sm_show_uuid S) i approved (en_approvals e) of
        (r, reg) \<Rightarrow> (r, e\<lparr>en_approvals := reg\<rparr>))"

definition set_system_prompt :: "'w seams \<Rightarrow> uuid \<Rightarrow> string option \<Rightarrow> ('w, unit) act" where
  "set_system_prompt S i prompt =
     bind_w (get_conversation S i) (\<lambda>conv.
     sm_conversations_upsert S
       (conv\<lparr>conv_system_prompt :=
          (case prompt of Some p \<Rightarrow> if str_trim p \<noteq> [] then Some p else None | None \<Rightarrow> None)\<rparr>))"

fun show_role :: "message_role \<Rightarrow> string" where
  "show_role User = ''User''"
| "show_role Assistant = ''Assistant''"
| "show_role Tool = ''Tool''"
| "show_role System = ''System''"

definition transcript :: "message list \<Rightarrow> string" where
  "transcript ms =
     str_join [CHR 0x0A] (map (\<lambda>m. show_role (msg_role m) @ '': '' @ text_content m) ms)"

definition summary_prompt :: "message list \<Rightarrow> string" where
  "summary_prompt ms =
     ''Summarize this conversation concisely for your own future reference, '' @
     ''preserving key facts, decisions, file paths, and open tasks. Write the '' @
     ''summary only.'' @ [CHR 0x0A, CHR 0x0A] @ transcript ms"

text \<open>The loop that drains a stream into one text, or stops at its first error.\<close>

fun drain_text :: "inference_stream \<Rightarrow> contract_error + string" where
  "drain_text [] = Inr []"
| "drain_text (Inl e # st) = Inl e"
| "drain_text (Inr c # st) =
     and_then (drain_text st) (\<lambda>t. Inr ((case ch_delta c of Some d \<Rightarrow> d | None \<Rightarrow> []) @ t))"

definition act_result :: "contract_error + 'a \<Rightarrow> ('w, 'a) act" where
  "act_result r w = (r, w)"

definition pin_summary :: "conversation \<Rightarrow> string \<Rightarrow> conversation" where
  "pin_summary conv summary =
     (let pinned = ''Summary of the conversation so far:'' @ [CHR 0x0A] @ summary
      in conv\<lparr>conv_system_prompt := Some
           (case conv_system_prompt conv of
              Some existing \<Rightarrow>
                if str_trim existing \<noteq> [] then existing @ [CHR 0x0A, CHR 0x0A] @ pinned else pinned
            | None \<Rightarrow> pinned)\<rparr>)"

definition compact_conversation :: "'w seams \<Rightarrow> uuid \<Rightarrow> ('w, string) act" where
  "compact_conversation S i =
     bind_w (get_conversation S i) (\<lambda>conv.
     bind_w (history S i) (\<lambda>ms.
       if ms = [] then act_ok []
       else
         bind_w (new_message_text S i User (summary_prompt ms) (conv_mode_at_creation conv) 0) (\<lambda>m.
         bind_w (draw_w (sm_new_v4 S)) (\<lambda>rid.
         bind_w (sm_generate S (request_from_messages rid [m])) (\<lambda>stream.
         bind_w (act_result (drain_text stream)) (\<lambda>text.
           let summary = str_trim text
           in if summary = [] then act_ok summary
              else bind_w (sm_conversations_upsert S (pin_summary conv summary)) (\<lambda>_.
                     act_ok summary)))))))"

section \<open>The turn loop\<close>

definition MAX_TOOL_STEPS :: nat where
  "MAX_TOOL_STEPS = 8"

definition DEFAULT_MAX_TOKENS :: u32 where
  "DEFAULT_MAX_TOKENS = 8192"

definition HISTORY_LIMIT :: usize where
  "HISTORY_LIMIT = 200"

definition MEMORY_RECALL_LIMIT :: usize where
  "MEMORY_RECALL_LIMIT = 5"

record pending_tool_call =
  pc_call_id :: string
  pc_tool_id :: string
  pc_args_raw :: string

datatype round_outcome =
    RoundFinished finish_reason
  | RoundToolCalls "pending_tool_call list" "(string \<times> string) option"
  | RoundCancelled

datatype tool_step_outcome = StepCompleted | StepCancelled

text \<open>\<open>messages.append(m).await?\<close> and the best-effort \<open>let _ = conversations.upsert(c).await\<close>.\<close>

definition append_message :: "'w seams \<Rightarrow> message \<Rightarrow> ('w, unit) turn_m" where
  "append_message S m = bind_t (call (sm_messages_append S m)) (\<lambda>_. log_t (Appended m))"

definition try_upsert :: "'w seams \<Rightarrow> conversation \<Rightarrow> ('w, unit) turn_m" where
  "try_upsert S c s =
     (case sm_conversations_upsert S c (tn_world s) of
        (Inr _, w) \<Rightarrow> (Done (), s\<lparr>tn_world := w, tn_log := tn_log s @ [Upserted c]\<rparr>)
      | (Inl _, w) \<Rightarrow> (Done (), s\<lparr>tn_world := w\<rparr>))"

definition build_request ::
  "uuid \<Rightarrow> message list \<Rightarrow> tool_descriptor list \<Rightarrow> inference_request" where
  "build_request fresh messages descriptors =
     (let specs = map (\<lambda>d. \<lparr>ts_id = td_id d, ts_description = td_display_name d,
            ts_input_schema = td_input_schema d\<rparr>) descriptors
      in \<lparr>req_request_id = fresh, req_messages = messages,
          req_tools = (if specs = [] then None else Some specs),
          req_max_tokens = Some DEFAULT_MAX_TOKENS, req_temperature = None,
          req_streaming_hint = True, req_required_caps = caps_none,
          req_thinking = Some thinking_enabled\<rparr>)"

text \<open>One chunk of a round: the handoff, the text, the thinking and the tool-call delta.\<close>

definition handoff :: "inference_chunk \<Rightarrow> ('w, unit) turn_m" where
  "handoff c =
     bind_t (get_t tn_mode) (\<lambda>m.
       if ch_active_mode c \<noteq> m
       then bind_t (emit (ModeHandoff m (ch_active_mode c))) (\<lambda>_ s.
              (Done (), s\<lparr>tn_mode := ch_active_mode c\<rparr>))
       else ret ())"

definition text_delta :: "inference_chunk \<Rightarrow> string \<Rightarrow> ('w, string) turn_m" where
  "text_delta c segment =
     (case ch_delta c of
        Some d \<Rightarrow> if d \<noteq> [] then bind_t (emit (TextDelta d)) (\<lambda>_. ret (segment @ d)) else ret segment
      | None \<Rightarrow> ret segment)"

fun add_call_delta :: "tool_call_delta \<Rightarrow> pending_tool_call list \<Rightarrow> pending_tool_call list" where
  "add_call_delta tc [] =
     [\<lparr>pc_call_id = tcd_call_id tc, pc_tool_id = tcd_tool_id tc, pc_args_raw = tcd_args_delta tc\<rparr>]"
| "add_call_delta tc (c # cs) =
     (if pc_call_id c = tcd_call_id tc
      then c\<lparr>pc_args_raw := pc_args_raw c @ tcd_args_delta tc,
             pc_tool_id := (if pc_tool_id c = [] \<and> tcd_tool_id tc \<noteq> [] then tcd_tool_id tc
                            else pc_tool_id c)\<rparr> # cs
      else c # add_call_delta tc cs)"

definition calls_after :: "inference_chunk \<Rightarrow> pending_tool_call list \<Rightarrow> pending_tool_call list" where
  "calls_after c calls =
     (case ch_tool_call_delta c of Some tc \<Rightarrow> add_call_delta tc calls | None \<Rightarrow> calls)"

definition thinking_after ::
  "inference_chunk \<Rightarrow> string \<times> string option \<Rightarrow> string \<times> string option" where
  "thinking_after c th =
     (case ch_thinking_delta c of
        Some t \<Rightarrow> (fst th @ thd_text t,
                   case thd_signature t of Some sig \<Rightarrow> Some sig | None \<Rightarrow> snd th)
      | None \<Rightarrow> th)"

definition round_end ::
  "finish_reason \<Rightarrow> pending_tool_call list \<Rightarrow> string \<times> string option \<Rightarrow> round_outcome" where
  "round_end reason calls th =
     (let thinking = (case snd th of
            Some sig \<Rightarrow> if fst th \<noteq> [] then Some (fst th, sig) else None
          | None \<Rightarrow> None)
      in case reason of
           FrToolCall \<Rightarrow> if calls \<noteq> [] then RoundToolCalls calls thinking else RoundFinished FrStop
         | FrCancelled \<Rightarrow> RoundCancelled
         | other \<Rightarrow> RoundFinished other)"

fun consume_inference ::
  "'w seams \<Rightarrow> inference_stream \<Rightarrow> string \<Rightarrow> pending_tool_call list \<Rightarrow> string \<times> string option \<Rightarrow>
     ('w, round_outcome \<times> string) turn_m" where
  "consume_inference S [] segment calls th =
     bind_t (poll S) (\<lambda>cancelled.
       ret (if cancelled then RoundCancelled else RoundFinished FrStop, segment))"
| "consume_inference S (item # stream) segment calls th =
     bind_t (poll S) (\<lambda>cancelled.
       if cancelled then ret (RoundCancelled, segment)
       else case item of
              Inl e \<Rightarrow> fail e
            | Inr c \<Rightarrow>
                bind_t (handoff c) (\<lambda>_.
                bind_t (text_delta c segment) (\<lambda>segment'.
                  case ch_finish_reason c of
                    Some reason \<Rightarrow>
                      ret (round_end reason (calls_after c calls) (thinking_after c th), segment')
                  | None \<Rightarrow>
                      consume_inference S stream segment' (calls_after c calls) (thinking_after c th))))"

section \<open>Persisting\<close>

definition persist_assistant_text :: "'w seams \<Rightarrow> string \<Rightarrow> ('w, unit) turn_m" where
  "persist_assistant_text S text =
     (if text = [] then ret ()
      else
        bind_t (get_t tn_conversation) (\<lambda>conv.
        bind_t (call (sm_messages_next_sequence S (conv_id conv))) (\<lambda>sequence.
        bind_t (get_t tn_mode) (\<lambda>mode.
        bind_t (call (new_message_text S (conv_id conv) Assistant text mode sequence)) (\<lambda>m.
        bind_t (get_t (\<lambda>s. md_id (sm_descriptor S (tn_world s)))) (\<lambda>model.
        append_message S (m\<lparr>msg_model_id := Some model\<rparr>)))))))"

definition tool_call_blocks ::
  "(string \<Rightarrow> json option) \<Rightarrow> string \<Rightarrow> pending_tool_call list \<Rightarrow> (string \<times> string) option \<Rightarrow>
     content_block list" where
  "tool_call_blocks from_str text calls thinking =
     (case thinking of Some (t, sig) \<Rightarrow> [ThinkingBlock t sig] | None \<Rightarrow> []) @
     (if text = [] then [] else [TextBlock text]) @
     map (\<lambda>c. ToolCallBlock (pc_call_id c) (pc_tool_id c) (parse_args from_str (pc_args_raw c))) calls"

definition persist_assistant_tool_calls ::
  "'w seams \<Rightarrow> string \<Rightarrow> pending_tool_call list \<Rightarrow> (string \<times> string) option \<Rightarrow> ('w, uuid) turn_m" where
  "persist_assistant_tool_calls S text calls thinking =
     bind_t (get_t tn_conversation) (\<lambda>conv.
     bind_t (call (sm_messages_next_sequence S (conv_id conv))) (\<lambda>sequence.
     bind_t (call (draw_w (sm_new_v4 S))) (\<lambda>i.
     bind_t (get_t (\<lambda>s. md_id (sm_descriptor S (tn_world s)))) (\<lambda>model.
     bind_t (get_t tn_mode) (\<lambda>mode.
     bind_t (call (draw_w (sm_now S))) (\<lambda>now.
     bind_t (append_message S
       \<lparr>msg_id = i, msg_conversation_id = conv_id conv, msg_role = Assistant,
        msg_content = tool_call_blocks (sm_from_str S) text calls thinking,
        msg_model_id = Some model, msg_mode = mode, msg_created_at = now,
        msg_sequence_num = sequence, msg_approval_refs = []\<rparr>) (\<lambda>_.
     ret i)))))))"

text \<open>The blocks of a tool-result message: the image bytes never stay in the text.\<close>

definition tool_result_blocks ::
  "(bytes \<Rightarrow> string) \<Rightarrow> bool \<Rightarrow> string \<Rightarrow> json \<Rightarrow> content_block list" where
  "tool_result_blocks base64 vision call_id output =
     (let has_image = (case Option.bind (json_get output ''image_hex'') json_as_str of
            Some s \<Rightarrow> s \<noteq> [] | None \<Rightarrow> False);
          image_block = (if has_image \<and> vision then screenshot_image_block base64 output else None);
          text_output = (if has_image
            then json_insert ''note''
                   (JStr ''screenshot captured; image attached for vision models'')
                   (json_remove ''image_hex'' output)
            else output)
      in ToolResultBlock call_id text_output #
         (case image_block of Some (media_type, data) \<Rightarrow> [ImageBlock media_type data] | None \<Rightarrow> []))"

definition append_tool_result ::
  "'w seams \<Rightarrow> string \<Rightarrow> json \<Rightarrow> uuid option \<Rightarrow> ('w, unit) turn_m" where
  "append_tool_result S call_id output approval_ref =
     bind_t (get_t tn_conversation) (\<lambda>conv.
     bind_t (call (sm_messages_next_sequence S (conv_id conv))) (\<lambda>sequence.
     bind_t (get_t (\<lambda>s. cap_vision (md_capabilities (sm_descriptor S (tn_world s))))) (\<lambda>vision.
     bind_t (call (draw_w (sm_new_v4 S))) (\<lambda>i.
     bind_t (get_t tn_mode) (\<lambda>mode.
     bind_t (call (draw_w (sm_now S))) (\<lambda>now.
     append_message S
       \<lparr>msg_id = i, msg_conversation_id = conv_id conv, msg_role = Tool,
        msg_content = tool_result_blocks (sm_base64 S) vision call_id output,
        msg_model_id = None, msg_mode = mode, msg_created_at = now,
        msg_sequence_num = sequence,
        msg_approval_refs = (case approval_ref of Some a \<Rightarrow> [a] | None \<Rightarrow> [])\<rparr>))))))"

definition audit_metadata ::
  "(uuid \<Rightarrow> string) \<Rightarrow> string \<Rightarrow> json \<Rightarrow> uuid \<Rightarrow> uuid option \<Rightarrow> json" where
  "audit_metadata u call_id args trace approval_ref =
     json_obj [(''call_id'', JStr call_id), (''args'', args), (''trace_id'', JStr (u trace)),
       (''approval_id'', case approval_ref of Some a \<Rightarrow> JStr (u a) | None \<Rightarrow> JNull)]"

definition audit_tool_call ::
  "'w seams \<Rightarrow> pending_tool_call \<Rightarrow> json \<Rightarrow> audit_outcome \<Rightarrow> uuid option \<Rightarrow> ('w, unit) turn_m" where
  "audit_tool_call S c args outcome approval_ref =
     bind_t (call (draw_w (sm_new_v4 S))) (\<lambda>i.
     bind_t (get_t (\<lambda>s. (en_device_id (tn_engine s), conv_id (tn_conversation s), tn_trace_id s)))
       (\<lambda>(device, conv, trace).
     bind_t (call (draw_w (sm_now S))) (\<lambda>now.
       let event =
         \<lparr>au_event_id = i, au_device_id = device, au_session_id = Some conv,
          au_event_type = AuToolCall, au_actor = ActAgent,
          au_resource_ref = Some (pc_tool_id c), au_outcome = outcome,
          au_metadata = audit_metadata (sm_show_uuid S) (pc_call_id c) args trace approval_ref,
          au_timestamp = now, au_prev_hash = []\<rparr>
       in bind_t (call (sm_audit_append S event)) (\<lambda>_. log_t (Audited event)))))"

definition touch_conversation :: "'w seams \<Rightarrow> ('w, unit) turn_m" where
  "touch_conversation S =
     bind_t (get_t tn_conversation) (\<lambda>conv.
     bind_t (call (draw_w (sm_now S))) (\<lambda>now.
     try_upsert S (conv\<lparr>conv_updated_at := now\<rparr>)))"

section \<open>One tool call\<close>

text \<open>The loop over a tool's events; \<open>None\<close> when the call was cancelled.\<close>

fun tool_output :: "tool_event \<Rightarrow> json \<Rightarrow> json" where
  "tool_output (ToolResult out final) output = out"
| "tool_output (ToolEventError message retryable) output = json_obj [(''error'', JStr message)]"
| "tool_output _ output = output"

fun consume_tool_events :: "'w seams \<Rightarrow> tool_event_stream \<Rightarrow> json \<Rightarrow> ('w, json option) turn_m" where
  "consume_tool_events S [] output =
     bind_t (poll S) (\<lambda>cancelled. ret (if cancelled then None else Some output))"
| "consume_tool_events S (item # events) output =
     bind_t (poll S) (\<lambda>cancelled.
       if cancelled then ret None
       else case item of
              Inr event \<Rightarrow>
                bind_t (emit (ToolEv event)) (\<lambda>_.
                  if event = ToolCancelled then ret None
                  else consume_tool_events S events (tool_output event output))
            | Inl e \<Rightarrow>
                bind_t (emit (ErrorEv (show_error (sm_show_uuid S) e))) (\<lambda>_.
                  ret (Some (json_obj [(''error'', JStr (show_error (sm_show_uuid S) e))]))))"

text \<open>A seam call whose error is caught by a \<open>match\<close>.\<close>

definition try_call :: "('w, 'a) act \<Rightarrow> ('w, contract_error + 'a) turn_m" where
  "try_call f s = (case f (tn_world s) of (r, w) \<Rightarrow> (Done r, s\<lparr>tn_world := w\<rparr>))"

definition register_approval :: "'w seams \<Rightarrow> ('w, uuid \<times> nat) turn_m" where
  "register_approval S =
     bind_t (call (draw_w (sm_new_v4 S))) (\<lambda>i s.
       case registry_register i (en_approvals (tn_engine s)) of
         (p, reg) \<Rightarrow> (Done p, s\<lparr>tn_engine := (tn_engine s)\<lparr>en_approvals := reg\<rparr>\<rparr>))"

definition discard_approval :: "uuid \<Rightarrow> nat \<Rightarrow> ('w, unit) turn_m" where
  "discard_approval i n s =
     (Done (), s\<lparr>tn_engine := (tn_engine s)\<lparr>en_approvals :=
        drop_receiver n (registry_discard i (en_approvals (tn_engine s)))\<rparr>\<rparr>)"

text \<open>The approval gate: ask, and park until the surface resolves. \<open>None\<close> when cancelled.\<close>

definition approval_summary :: "tool_descriptor \<Rightarrow> string \<Rightarrow> string" where
  "approval_summary d args_raw =
     ''Run tool '' @ [CHR 0x27] @ td_display_name d @ [CHR 0x27] @ '' ('' @ td_id d @
     '') with args '' @ truncate_for_summary args_raw 200"

definition ask_and_wait ::
  "'w seams \<Rightarrow> string \<Rightarrow> uuid \<Rightarrow> nat \<Rightarrow> ('w, (uuid \<times> bool) option) turn_m" where
  "ask_and_wait S summary approval_id n =
     bind_t (emit (ApprovalRequired approval_id summary)) (\<lambda>_.
     bind_t (\<lambda>s. await_decision (sm_show_uuid S) n (tn_surface s) s) (\<lambda>decision.
       case decision of
         None \<Rightarrow> bind_t (discard_approval approval_id n) (\<lambda>_. ret None)
       | Some d \<Rightarrow> ret (Some (approval_id, d = Some True))))"

definition approval_gate ::
  "'w seams \<Rightarrow> tool_descriptor \<Rightarrow> string \<Rightarrow> ('w, (uuid \<times> bool) option) turn_m" where
  "approval_gate S d args_raw =
     bind_t (register_approval S) (\<lambda>(approval_id, n).
       ask_and_wait S (approval_summary d args_raw) approval_id n)"

definition unknown_tool :: "string \<Rightarrow> string" where
  "unknown_tool t = ''model requested unknown tool '' @ [CHR 0x27] @ t @ [CHR 0x27]"

definition audit_and_answer ::
  "'w seams \<Rightarrow> pending_tool_call \<Rightarrow> json \<Rightarrow> audit_outcome \<Rightarrow> json \<Rightarrow> uuid option \<Rightarrow>
     ('w, tool_step_outcome) turn_m" where
  "audit_and_answer S c args outcome output approval_ref =
     bind_t (audit_tool_call S c args outcome approval_ref) (\<lambda>_.
     bind_t (append_tool_result S (pc_call_id c) output approval_ref) (\<lambda>_.
     ret StepCompleted))"

definition invoke_tool ::
  "'w seams \<Rightarrow> uuid \<Rightarrow> pending_tool_call \<Rightarrow> json \<Rightarrow> uuid option \<Rightarrow> ('w, tool_step_outcome) turn_m" where
  "invoke_tool S assistant_message_id c args approval_ref =
     bind_t (call (draw_w (sm_new_v4 S))) (\<lambda>i.
     bind_t (get_t (\<lambda>s. (conv_id (tn_conversation s), tn_mode s, tn_trace_id s))) (\<lambda>(conv, mode, trace).
       let iv = \<lparr>ti_invocation_id = i, ti_tool_id = pc_tool_id c, ti_args = args,
             ti_session_id = conv, ti_conversation_id = conv,
             ti_message_id = assistant_message_id, ti_compute_mode = mode,
             ti_trace_id = trace, ti_stream = True\<rparr>
       in
       bind_t (log_t (Invoked iv)) (\<lambda>_.
       bind_t (try_call (sm_invoke S iv)) (\<lambda>r.
       bind_t (case r of
                 Inr events \<Rightarrow> consume_tool_events S events JNull
               | Inl e \<Rightarrow>
                   bind_t (emit (ErrorEv (show_error (sm_show_uuid S) e))) (\<lambda>_.
                   ret (Some (json_obj [(''error'', JStr (show_error (sm_show_uuid S) e))])))) (\<lambda>out.
         case out of
           None \<Rightarrow> ret StepCancelled
         | Some output \<Rightarrow> audit_and_answer S c args Allowed output approval_ref)))))"

definition execute_tool_call ::
  "'w seams \<Rightarrow> uuid \<Rightarrow> tool_descriptor list \<Rightarrow> pending_tool_call \<Rightarrow> ('w, tool_step_outcome) turn_m" where
  "execute_tool_call S assistant_message_id descriptors c =
     (let args = parse_args (sm_from_str S) (pc_args_raw c)
      in case find (\<lambda>d. td_id d = pc_tool_id c) descriptors of
           None \<Rightarrow>
             bind_t (emit (ErrorEv (unknown_tool (pc_tool_id c)))) (\<lambda>_.
             audit_and_answer S c args Denied
               (json_obj [(''error'', JStr (unknown_tool (pc_tool_id c)))]) None)
         | Some d \<Rightarrow>
             if td_requires_approval d
             then bind_t (approval_gate S d (pc_args_raw c)) (\<lambda>decision.
                    case decision of
                      None \<Rightarrow> ret StepCancelled
                    | Some (approval_id, approved) \<Rightarrow>
                        if approved
                        then invoke_tool S assistant_message_id c args (Some approval_id)
                        else audit_and_answer S c args Denied
                               (json_obj [(''denied'', JBool True),
                                          (''message'', JStr ''the user denied this action'')])
                               (Some approval_id))
             else invoke_tool S assistant_message_id c args None)"

section \<open>The loop\<close>

text \<open>The calls of one round; \<open>Some reason\<close> is an early return of the turn.\<close>

fun run_tool_calls ::
  "'w seams \<Rightarrow> uuid \<Rightarrow> tool_descriptor list \<Rightarrow> pending_tool_call list \<Rightarrow>
     ('w, finish_reason option) turn_m" where
  "run_tool_calls S mid descriptors [] = ret None"
| "run_tool_calls S mid descriptors (c # calls) =
     bind_t (poll S) (\<lambda>cancelled.
       if cancelled then ret (Some FrCancelled)
       else bind_t (execute_tool_call S mid descriptors c) (\<lambda>outcome.
              case outcome of
                StepCompleted \<Rightarrow> run_tool_calls S mid descriptors calls
              | StepCancelled \<Rightarrow> ret (Some FrCancelled)))"

definition describe_tools :: "'w seams \<Rightarrow> ('w, tool_descriptor list) turn_m" where
  "describe_tools S =
     bind_t (get_t tn_mode) (\<lambda>mode.
     bind_t (call (draw_w (sm_describe S mode))) (\<lambda>ds.
     bind_t (log_t (Described mode ds)) (\<lambda>_. ret ds)))"

definition generate_t :: "'w seams \<Rightarrow> inference_request \<Rightarrow> ('w, inference_stream) turn_m" where
  "generate_t S req = bind_t (log_t (Generated req)) (\<lambda>_. call (sm_generate S req))"

text \<open>One iteration of the \<open>for\<close> loop of \<open>drive\<close>.\<close>

definition drive_step :: "'w seams \<Rightarrow> ('w, finish_reason option) turn_m" where
  "drive_step S =
     bind_t (describe_tools S) (\<lambda>descriptors.
     bind_t (get_t id) (\<lambda>s.
     bind_t (call (assemble_context S (tn_conversation s) (tn_user_text s) HISTORY_LIMIT
       MEMORY_RECALL_LIMIT (en_context_budget_chars (tn_engine s)))) (\<lambda>messages.
     bind_t (call (draw_w (sm_new_v4 S))) (\<lambda>rid.
     bind_t (generate_t S (build_request rid messages descriptors)) (\<lambda>stream.
     bind_t (consume_inference S stream [] [] ([], None)) (\<lambda>(outcome, segment).
       case outcome of
         RoundCancelled \<Rightarrow>
           bind_t (persist_assistant_text S segment) (\<lambda>_. ret (Some FrCancelled))
       | RoundFinished reason \<Rightarrow>
           bind_t (persist_assistant_text S segment) (\<lambda>_. ret (Some reason))
       | RoundToolCalls calls thinking \<Rightarrow>
           bind_t (persist_assistant_tool_calls S segment calls thinking) (\<lambda>mid.
           run_tool_calls S mid descriptors calls)))))))"

fun drive_loop :: "'w seams \<Rightarrow> nat \<Rightarrow> ('w, finish_reason) turn_m" where
  "drive_loop S 0 =
     bind_t (emit (ErrorEv ''tool-step cap (8) reached; ending turn'')) (\<lambda>_. ret FrError)"
| "drive_loop S (Suc steps) =
     bind_t (drive_step S) (\<lambda>r. case r of Some reason \<Rightarrow> ret reason | None \<Rightarrow> drive_loop S steps)"

definition drive :: "'w seams \<Rightarrow> ('w, finish_reason) turn_m" where
  "drive S = drive_loop S MAX_TOOL_STEPS"

definition catch_t :: "('w, 'a) turn_m \<Rightarrow> (contract_error \<Rightarrow> ('w, 'a) turn_m) \<Rightarrow> ('w, 'a) turn_m" where
  "catch_t m h s = (case m s of (Fail e, s') \<Rightarrow> h e s' | (r, s') \<Rightarrow> (r, s'))"

definition run :: "'w seams \<Rightarrow> ('w, unit) turn_m" where
  "run S =
     bind_t (get_t id) (\<lambda>s.
     bind_t (emit (TurnStarted (conv_id (tn_conversation s)) (tn_user_message_id s) (tn_mode s))) (\<lambda>_.
     bind_t (catch_t (drive S) (\<lambda>e.
       bind_t (emit (ErrorEv (show_error (sm_show_uuid S) e))) (\<lambda>_. ret FrError))) (\<lambda>reason.
     bind_t (touch_conversation S) (\<lambda>_.
     emit (TurnFinished reason)))))"

text \<open>
  \<open>MahiEngine::run_turn\<close>: the user message is persisted and the conversation titled, then
  the spawned runner runs beside the surface. The result is the turn at its end.
\<close>

definition try_act :: "('w, 'a) act \<Rightarrow> ('w, contract_error + 'a) act" where
  "try_act f w = (case f w of (r, w') \<Rightarrow> (Inr r, w'))"

definition auto_title :: "'w seams \<Rightarrow> conversation \<Rightarrow> string \<Rightarrow> ('w, conversation \<times> effect list) act" where
  "auto_title S conv user_text =
     (if conv_title conv = None
      then let conv' = conv\<lparr>conv_title := Some (title_from_text user_text)\<rparr>
           in bind_w (try_act (sm_conversations_upsert S conv')) (\<lambda>r.
              act_ok (conv', if is_ok r then [Upserted conv'] else []))
      else act_ok (conv, []))"

definition run_turn ::
  "'w seams \<Rightarrow> engine \<Rightarrow> uuid \<Rightarrow> string \<Rightarrow> bool \<Rightarrow> surface_action list list \<Rightarrow>
     ('w, unit step \<times> 'w turn) act" where
  "run_turn S e cid user_text cancelled surface =
     bind_w (get_conversation S cid) (\<lambda>conv.
     bind_w (sm_messages_next_sequence S cid) (\<lambda>sequence.
     bind_w (new_message_text S cid User user_text (conv_mode_at_creation conv) sequence) (\<lambda>m.
     bind_w (sm_messages_append S m) (\<lambda>_.
     bind_w (auto_title S conv user_text) (\<lambda>(conv', logged).
     bind_w (draw_w (sm_new_v4 S)) (\<lambda>trace w.
       let t = run S \<lparr>tn_world = w, tn_engine = e, tn_conversation = conv',
             tn_user_text = user_text, tn_user_message_id = msg_id m,
             tn_mode = conv_mode_at_creation conv, tn_trace_id = trace,
             tn_cancelled = cancelled, tn_surface = surface,
             tn_log = Appended m # logged\<rparr>
       in (Inr t, tn_world (snd t))))))))"

end
