(* ===== verification/Turn_Logic.thy ===== *)
theory Turn_Logic
  imports Engine
begin

text \<open>
  A Hoare logic for turns and the safety argument of the turn loop. A triple speaks of a
  step that ends normally and, with its last assertion, of one that fails or parks, so what
  it shows holds of every state a turn can stop in. The locale \<open>turn_log\<close> takes a property of
  logs that survives each kind of effect in the situation the engine causes it, and shows
  that every turn keeps it: the approval and audit theorems are interpretations.
\<close>

section \<open>Triples\<close>

definition triple ::
  "('w turn \<Rightarrow> bool) \<Rightarrow> ('w, 'a) turn_m \<Rightarrow> ('a \<Rightarrow> 'w turn \<Rightarrow> bool) \<Rightarrow> ('w turn \<Rightarrow> bool) \<Rightarrow> bool" where
  "triple P m Q E \<longleftrightarrow>
     (\<forall>s. P s \<longrightarrow> (case m s of (Done x, s') \<Rightarrow> Q x s' | (Fail e, s') \<Rightarrow> E s' | (Parked, s') \<Rightarrow> E s'))"

definition pres :: "('w turn \<Rightarrow> bool) \<Rightarrow> ('w, 'a) turn_m \<Rightarrow> bool" where
  "pres I m \<longleftrightarrow> triple I m (\<lambda>_. I) I"

named_theorems pres_intros \<open>what keeps an assertion\<close>

lemma tripleI:
  "(\<And>s. P s \<Longrightarrow> case m s of (Done x, s') \<Rightarrow> Q x s' | (Fail e, s') \<Rightarrow> E s' | (Parked, s') \<Rightarrow> E s') \<Longrightarrow>
     triple P m Q E"
  by (simp add: triple_def)

lemma triple_bind:
  assumes "triple P m Q E" and "\<And>x. triple (Q x) (f x) R E"
  shows "triple P (bind_t m f) R E"
  unfolding triple_def
proof (intro allI impI)
  fix s
  assume "P s"
  with assms(1) have *: "case m s of (Done x, s') \<Rightarrow> Q x s' | (Fail e, s') \<Rightarrow> E s' | (Parked, s') \<Rightarrow> E s'"
    by (simp add: triple_def)
  show "case bind_t m f s of (Done x, s') \<Rightarrow> R x s' | (Fail e, s') \<Rightarrow> E s' | (Parked, s') \<Rightarrow> E s'"
  proof (cases "m s")
    case (Pair r s')
    with * show ?thesis
    proof (cases r)
      case (Done x)
      with * Pair assms(2) [of x, unfolded triple_def, rule_format, of s'] show ?thesis
        by (simp add: bind_t_def)
    qed (simp_all add: bind_t_def)
  qed
qed

lemma triple_weaken:
  "triple P m Q E \<Longrightarrow> (\<And>s. P' s \<Longrightarrow> P s) \<Longrightarrow> (\<And>x s. Q x s \<Longrightarrow> Q' x s) \<Longrightarrow> (\<And>s. E s \<Longrightarrow> E' s) \<Longrightarrow>
     triple P' m Q' E'"
  unfolding triple_def by (fastforce split: prod.splits step.splits)

lemma triple_pre: "triple P m Q E \<Longrightarrow> (\<And>s. P' s \<Longrightarrow> P s) \<Longrightarrow> triple P' m Q E"
  by (simp add: triple_def)

lemma triple_ret: "(\<And>s. P s \<Longrightarrow> Q x s) \<Longrightarrow> triple P (ret x) Q E"
  by (simp add: triple_def ret_def)

lemma triple_get: "triple P (get_t f) (\<lambda>x s. P s \<and> x = f s) E"
  by (simp add: triple_def get_t_def)

lemma triple_conj_result: "(\<And>x. Q x \<Longrightarrow> triple P (f x) R E) \<Longrightarrow> triple (\<lambda>s. P s \<and> Q x) (f x) R E"
  by (auto simp: triple_def)

lemma pres_bind [pres_intros]: "pres I m \<Longrightarrow> (\<And>x. pres I (f x)) \<Longrightarrow> pres I (bind_t m f)"
  unfolding pres_def by (rule triple_bind)

lemma pres_ret [pres_intros]: "pres I (ret x)"
  by (simp add: pres_def triple_ret)

lemma pres_fail [pres_intros]: "pres I (fail e)"
  by (simp add: pres_def triple_def fail_def)

lemma pres_get [pres_intros]: "pres I (get_t f)"
  by (simp add: pres_def triple_def get_t_def)

lemma pres_if [pres_intros]: "(b \<Longrightarrow> pres I m) \<Longrightarrow> (\<not> b \<Longrightarrow> pres I m') \<Longrightarrow> pres I (if b then m else m')"
  by simp

lemma pres_option [pres_intros]:
  "(r = None \<Longrightarrow> pres I m) \<Longrightarrow> (\<And>x. r = Some x \<Longrightarrow> pres I (f x)) \<Longrightarrow>
     pres I (case r of None \<Rightarrow> m | Some x \<Rightarrow> f x)"
  by (cases r) simp_all

lemma pres_sum [pres_intros]:
  "(\<And>e. r = Inl e \<Longrightarrow> pres I (g e)) \<Longrightarrow> (\<And>x. r = Inr x \<Longrightarrow> pres I (f x)) \<Longrightarrow>
     pres I (case r of Inl e \<Rightarrow> g e | Inr x \<Rightarrow> f x)"
  by (cases r) simp_all

lemma pres_prod [pres_intros]:
  "(\<And>x y. p = (x, y) \<Longrightarrow> pres I (f x y)) \<Longrightarrow> pres I (case p of (x, y) \<Rightarrow> f x y)"
  by (cases p) simp_all

lemma pres_triple: "pres I m \<Longrightarrow> triple I m (\<lambda>_. I) I"
  by (simp add: pres_def)

lemma pres_run:
  "pres I m \<Longrightarrow> I s \<Longrightarrow> I (snd (m s))"
  by (cases "m s"; cases "fst (m s)") (auto simp: pres_def triple_def)

section \<open>Assertions on the log\<close>

text \<open>The registry is well formed and the log has a property.\<close>

definition lg :: "(effect list \<Rightarrow> bool) \<Rightarrow> 'w turn \<Rightarrow> bool" where
  "lg ok s \<longleftrightarrow> registry_ok (en_approvals (tn_engine s)) \<and> ok (tn_log s)"

lemma lg_simps [simp]:
  "lg ok (s\<lparr>tn_world := w\<rparr>) = lg ok s"
  "lg ok (s\<lparr>tn_mode := m\<rparr>) = lg ok s"
  "lg ok (s\<lparr>tn_surface := q\<rparr>) = lg ok s"
  "lg ok (s\<lparr>tn_cancelled := b\<rparr>) = lg ok s"
  "lg ok (s\<lparr>tn_log := l\<rparr>) \<longleftrightarrow> registry_ok (en_approvals (tn_engine s)) \<and> ok l"
  by (simp_all add: lg_def)

definition kept_by :: "(effect list \<Rightarrow> bool) \<Rightarrow> effect \<Rightarrow> bool" where
  "kept_by ok e \<longleftrightarrow> (\<forall>l. ok l \<longrightarrow> ok (l @ [e]))"

text \<open>
  The effects between the two lifecycle events of a turn, apart from its inference calls; and
  those of them that the surface or a tool's event stream causes.
\<close>

fun lifecycle :: "agent_event \<Rightarrow> bool" where
  "lifecycle (TurnStarted c m mode) = True"
| "lifecycle (TurnFinished reason) = True"
| "lifecycle _ = False"

definition inner :: "effect \<Rightarrow> bool" where
  "inner e = (case e of Emitted ev \<Rightarrow> \<not> lifecycle ev | Generated req \<Rightarrow> False | _ \<Rightarrow> True)"

definition is_text :: "agent_event \<Rightarrow> bool" where
  "is_text ev = (case ev of TextDelta t \<Rightarrow> True | _ \<Rightarrow> False)"

definition calm :: "effect \<Rightarrow> bool" where
  "calm e =
     (case e of
        Answered i b \<Rightarrow> True
      | CancelRequested \<Rightarrow> True
      | Emitted ev \<Rightarrow> \<not> lifecycle ev \<and> \<not> is_text ev
      | _ \<Rightarrow> False)"

text \<open>What executing tool calls can add.\<close>

definition exec :: "effect \<Rightarrow> bool" where
  "exec e =
     (case e of
        Invoked iv \<Rightarrow> True
      | Audited a \<Rightarrow> True
      | Appended m \<Rightarrow> msg_role m = Tool
      | _ \<Rightarrow> calm e)"

definition calm_stable :: "(effect list \<Rightarrow> bool) \<Rightarrow> bool" where
  "calm_stable ok \<longleftrightarrow> (\<forall>e. calm e \<longrightarrow> kept_by ok e)"

definition inner_stable :: "(effect list \<Rightarrow> bool) \<Rightarrow> bool" where
  "inner_stable ok \<longleftrightarrow> (\<forall>e. inner e \<longrightarrow> kept_by ok e)"

definition exec_stable :: "(effect list \<Rightarrow> bool) \<Rightarrow> bool" where
  "exec_stable ok \<longleftrightarrow> (\<forall>e. exec e \<longrightarrow> kept_by ok e)"

lemma calm_stableD:
  "calm_stable ok \<Longrightarrow> ok l \<Longrightarrow> \<not> lifecycle ev \<Longrightarrow> \<not> is_text ev \<Longrightarrow> ok (l @ [Emitted ev])"
  "calm_stable ok \<Longrightarrow> ok l \<Longrightarrow> ok (l @ [Answered i b])"
  "calm_stable ok \<Longrightarrow> ok l \<Longrightarrow> ok (l @ [CancelRequested])"
  by (auto simp: calm_stable_def kept_by_def calm_def)

lemma exec_calm: "exec_stable ok \<Longrightarrow> calm_stable ok"
  by (auto simp: exec_stable_def calm_stable_def exec_def calm_def split: effect.splits)

lemma inner_exec: "inner_stable ok \<Longrightarrow> exec_stable ok"
  by (auto simp: inner_stable_def exec_stable_def calm_def exec_def inner_def split: effect.splits)

lemma pres_call [pres_intros]: "pres (lg ok) (call f)"
  by (auto simp: pres_def triple_def call_def split: prod.splits sum.splits)

lemma pres_try_call [pres_intros]: "pres (lg ok) (try_call f)"
  by (auto simp: pres_def triple_def try_call_def split: prod.splits)

lemma pres_log: "kept_by ok e \<Longrightarrow> pres (lg ok) (log_t e)"
  by (simp add: pres_def triple_def log_t_def lg_def kept_by_def)

lemma pres_emit: "calm_stable ok \<Longrightarrow> \<not> lifecycle ev \<Longrightarrow> \<not> is_text ev \<Longrightarrow> pres (lg ok) (emit ev)"
  by (simp add: emit_def pres_log calm_stable_def calm_def)

lemma pres_emits [pres_intros]:
  "calm_stable ok \<Longrightarrow> pres (lg ok) (emit (ToolEv te))"
  "calm_stable ok \<Longrightarrow> pres (lg ok) (emit (ModeHandoff m m'))"
  "calm_stable ok \<Longrightarrow> pres (lg ok) (emit (ErrorEv msg))"
  by (simp_all add: pres_emit is_text_def)

lemma apply_action_lg: "calm_stable ok \<Longrightarrow> lg ok s \<Longrightarrow> lg ok (apply_action u a s)"
  by (cases a)
    (auto simp: apply_action_def lg_def Let_def set_context_window_def calm_stableD registry_resolve_ok
      split: prod.splits dest: arg_cong [of _ _ snd] intro: registry_resolve_ok
      dest!: sym [of "registry_resolve _ _ _ _"])

lemma apply_batch_lg: "calm_stable ok \<Longrightarrow> lg ok s \<Longrightarrow> lg ok (apply_batch u b s)"
  unfolding apply_batch_def by (induction b arbitrary: s) (auto simp: apply_action_lg)

lemma pres_poll [pres_intros]: "calm_stable ok \<Longrightarrow> pres (lg ok) (poll S)"
  by (auto simp: pres_def triple_def poll_def Let_def apply_batch_lg split: list.splits)

lemma pres_handoff [pres_intros]: "calm_stable ok \<Longrightarrow> pres (lg ok) (handoff c)"
  unfolding handoff_def
  by (intro pres_intros) (auto simp: pres_def triple_def)

lemma pres_text_delta [pres_intros]:
  "(\<And>d. kept_by ok (Emitted (TextDelta d))) \<Longrightarrow> pres (lg ok) (text_delta c t)"
  unfolding text_delta_def emit_def by (intro pres_intros pres_log)

lemma pres_consume_inference [pres_intros]:
  assumes "calm_stable ok" and "\<And>d. kept_by ok (Emitted (TextDelta d))"
  shows "pres (lg ok) (consume_inference S stream t cs th)"
proof (induction stream arbitrary: t cs th)
  case Nil
  show ?case by (simp add: pres_intros assms)
next
  case (Cons item stream)
  show ?case
    unfolding consume_inference.simps by (intro pres_intros Cons.IH assms)
qed

lemma pres_consume_tool_events [pres_intros]:
  "calm_stable ok \<Longrightarrow> pres (lg ok) (consume_tool_events S events out)"
  by (induction events arbitrary: out) (auto intro!: pres_intros)

section \<open>Where a turn stands\<close>

text \<open>The tools the last \<open>describe\<close> returned.\<close>

definition current_tools :: "effect list \<Rightarrow> tool_descriptor list option" where
  "current_tools l = foldl (\<lambda>t e. case e of Described m ds \<Rightarrow> Some ds | _ \<Rightarrow> t) None l"

text \<open>The approval asked for last, and whether it was granted since; an invocation uses it up.\<close>

datatype approval_state = NotAsked | Asked uuid | Granted uuid

fun approval_step :: "approval_state \<Rightarrow> effect \<Rightarrow> approval_state" where
  "approval_step a (Emitted (ApprovalRequired i txt)) = Asked i"
| "approval_step a (Answered i b) = (if a = Asked i \<and> b then Granted i else a)"
| "approval_step a (Invoked iv) = NotAsked"
| "approval_step a _ = a"

definition approval_state :: "effect list \<Rightarrow> approval_state" where
  "approval_state l = foldl approval_step NotAsked l"

text \<open>The invocation that has no audit event yet.\<close>

definition open_invocation :: "effect list \<Rightarrow> tool_invocation option" where
  "open_invocation l =
     foldl (\<lambda>t e. case e of Invoked iv \<Rightarrow> Some iv | Audited a \<Rightarrow> None | _ \<Rightarrow> t) None l"

lemma stand_snoc [simp]:
  "current_tools (l @ [e]) = (case e of Described m ds \<Rightarrow> Some ds | _ \<Rightarrow> current_tools l)"
  "approval_state (l @ [e]) = approval_step (approval_state l) e"
  "open_invocation (l @ [e]) =
     (case e of Invoked iv \<Rightarrow> Some iv | Audited a \<Rightarrow> None | _ \<Rightarrow> open_invocation l)"
  by (cases e; simp add: current_tools_def approval_state_def open_invocation_def)+

text \<open>
  A tool may run: the current tools offer it and, if it requires approval, the last approval
  asked for was granted and has not been used.
\<close>

definition gate :: "effect list \<Rightarrow> string \<Rightarrow> bool" where
  "gate l tool \<longleftrightarrow>
     (\<exists>ds d. current_tools l = Some ds \<and> find (\<lambda>d. td_id d = tool) ds = Some d \<and>
        (td_requires_approval d \<longrightarrow> (\<exists>i. approval_state l = Granted i)))"

text \<open>An audit event says \<open>Allowed\<close> exactly when the call it records was invoked.\<close>

definition audit_matches :: "effect list \<Rightarrow> audit_event \<Rightarrow> bool" where
  "audit_matches l a \<longleftrightarrow>
     (case open_invocation l of
        Some iv \<Rightarrow> au_outcome a = Allowed \<and> au_resource_ref a = Some (ti_tool_id iv)
      | None \<Rightarrow> au_outcome a = Denied)"

text \<open>A tool-result message answers the call an audit event records.\<close>

definition answers :: "audit_event \<Rightarrow> message \<Rightarrow> bool" where
  "answers a m \<longleftrightarrow>
     msg_role m = Tool \<and> Some (msg_conversation_id m) = au_session_id a \<and>
     (\<exists>call_id output rest. msg_content m = ToolResultBlock call_id output # rest \<and>
        json_get (au_metadata a) ''call_id'' = Some (JStr call_id))"

definition quiet :: "effect \<Rightarrow> bool" where
  "quiet e =
     (case e of Invoked iv \<Rightarrow> False | Audited a \<Rightarrow> False | Appended m \<Rightarrow> msg_role m \<noteq> Tool | _ \<Rightarrow> True)"

lemma json_get_audit_metadata:
  "json_get (audit_metadata u c args t r) ''call_id'' = Some (JStr c)"
  by (simp add: audit_metadata_def json_obj_def map_of_bt_insert bt_ok_insert)

section \<open>The approval gate\<close>

text \<open>A turn waits on slot \<open>n\<close> for the approval \<open>i\<close>: it is unanswered, or it was answered and
  the log says so.\<close>

definition waiting :: "(effect list \<Rightarrow> bool) \<Rightarrow> uuid \<Rightarrow> nat \<Rightarrow> 'w turn \<Rightarrow> bool" where
  "waiting ok i n s \<longleftrightarrow>
     lg ok s \<and> n < length (ap_slots (en_approvals (tn_engine s))) \<and>
     (ap_pending (en_approvals (tn_engine s)) i = Some n \<and>
        ap_slots (en_approvals (tn_engine s)) ! n = Open \<and> approval_state (tn_log s) = Asked i \<or>
      ap_slots (en_approvals (tn_engine s)) ! n = Sent True \<and> approval_state (tn_log s) = Granted i \<or>
      ap_slots (en_approvals (tn_engine s)) ! n = Sent False)"

lemma waiting_surface [simp]: "waiting ok i n (s\<lparr>tn_surface := q\<rparr>) = waiting ok i n s"
  by (simp add: waiting_def)

lemma waiting_resolve:
  assumes "calm_stable ok" and "waiting ok i n s"
  shows "waiting ok i n (apply_action u (Resolve j b) s)"
proof -
  let ?r = "en_approvals (tn_engine s)"
  have ok: "registry_ok ?r" "n < length (ap_slots ?r)"
    using assms(2) by (auto simp: waiting_def lg_def)
  have lg: "lg ok (apply_action u (Resolve j b) s)"
    using assms by (intro apply_action_lg) (auto simp: waiting_def)
  show ?thesis
  proof (cases "ap_pending ?r j")
    case None
    then have "apply_action u (Resolve j b) s = s"
      by (simp add: apply_action_def registry_resolve_def)
    with assms(2) show ?thesis by simp
  next
    case (Some m)
    show ?thesis
    proof (cases "m = n")
      case True
      with Some ok(1) assms(2) have "ap_slots ?r ! n = Open" "ap_pending ?r i = Some n"
        using registry_okD [OF ok(1) Some] by (auto simp: waiting_def)
      moreover from this True Some have "j = i"
        using registry_ok_inj [OF ok(1)] by metis
      ultimately show ?thesis
        using Some True assms(2) ok(2) lg
        by (auto simp: waiting_def apply_action_def registry_resolve_def Let_def)
    next
      case False
      then have "j = i \<Longrightarrow> ap_pending ?r i \<noteq> Some n"
        using Some by auto
      with Some False assms(2) lg show ?thesis
        by (auto simp: waiting_def apply_action_def registry_resolve_def Let_def)
    qed
  qed
qed

lemma waiting_action:
  assumes "calm_stable ok" and "waiting ok i n s"
  shows "waiting ok i n (apply_action u a s)"
proof (cases a)
  case (Resolve j b)
  with waiting_resolve [OF assms] show ?thesis by simp
next
  case Cancel
  with assms show ?thesis
    by (auto simp: waiting_def apply_action_def lg_def calm_stableD)
next
  case (SetContextWindow t)
  with assms show ?thesis
    by (simp add: waiting_def apply_action_def lg_def set_context_window_def)
qed

lemma waiting_batch: "calm_stable ok \<Longrightarrow> waiting ok i n s \<Longrightarrow> waiting ok i n (apply_batch u b s)"
  unfolding apply_batch_def by (induction b arbitrary: s) (auto simp: waiting_action)

lemma waiting_received:
  "waiting ok i n s \<Longrightarrow> receive n (en_approvals (tn_engine s)) = Some (Some True) \<Longrightarrow>
     approval_state (tn_log s) = Granted i"
  by (auto simp: waiting_def receive_def)

lemma await_decision_waiting:
  assumes "calm_stable ok" and "waiting ok i n s"
  shows "case await_decision u n tape s of
    (Done d, s') \<Rightarrow> lg ok s' \<and> (d = Some (Some True) \<longrightarrow> approval_state (tn_log s') = Granted i)
  | (Fail e, s') \<Rightarrow> lg ok s'
  | (Parked, s') \<Rightarrow> lg ok s'"
  using assms(2)
proof (induction tape arbitrary: s)
  case Nil
  then show ?case
    using waiting_received [OF Nil] by (auto simp: waiting_def split: option.splits)
next
  case (Cons b tape)
  let ?s = "apply_batch u b s"
  have w: "waiting ok i n ?s"
    using waiting_batch [OF assms(1) Cons.prems] .
  show ?case
    using waiting_received [OF w] Cons.IH [OF w] w
    by (auto simp: Let_def waiting_def split: option.splits)
qed

text \<open>The approval \<open>i\<close> is registered on slot \<open>n\<close> and unanswered.\<close>

definition registered :: "(effect list \<Rightarrow> bool) \<Rightarrow> uuid \<Rightarrow> nat \<Rightarrow> 'w turn \<Rightarrow> bool" where
  "registered ok i n s \<longleftrightarrow>
     lg ok s \<and> n < length (ap_slots (en_approvals (tn_engine s))) \<and>
     ap_pending (en_approvals (tn_engine s)) i = Some n \<and>
     ap_slots (en_approvals (tn_engine s)) ! n = Open"

definition granted :: "(effect list \<Rightarrow> bool) \<Rightarrow> (uuid \<times> bool) option \<Rightarrow> 'w turn \<Rightarrow> bool" where
  "granted ok r s \<longleftrightarrow>
     lg ok s \<and> (\<forall>i. r = Some (i, True) \<longrightarrow> approval_state (tn_log s) = Granted i)"

lemma register_triple:
  "triple (lg ok) (register_approval S) (\<lambda>p. registered ok (fst p) (snd p)) (lg ok)"
  unfolding register_approval_def
proof (rule triple_bind [OF pres_triple [OF pres_call]], rule tripleI)
  fix x :: uuid and s :: "'a turn"
  assume s: "lg ok s"
  then have "registry_ok (snd (registry_register x (en_approvals (tn_engine s))))"
    by (simp add: registry_register_ok lg_def)
  with s show "case (case registry_register x (en_approvals (tn_engine s)) of (p, reg) \<Rightarrow>
      (Done p, s\<lparr>tn_engine := tn_engine s\<lparr>en_approvals := reg\<rparr>\<rparr>)) of
    (Done p, s') \<Rightarrow> registered ok (fst p) (snd p) s' | (Fail e, s') \<Rightarrow> lg ok s' | (Parked, s') \<Rightarrow> lg ok s'"
    by (auto simp: registered_def registry_register_def Let_def lg_def nth_append split: option.splits)
qed

lemma pres_discard [pres_intros]: "pres (lg ok) (discard_approval i n)"
  by (auto simp: pres_def triple_def discard_approval_def lg_def
      intro: drop_receiver_ok registry_discard_ok)

lemma ask_and_wait_triple:
  assumes "calm_stable ok"
  shows "triple (registered ok i n) (ask_and_wait S txt i n) (granted ok) (lg ok)"
  unfolding ask_and_wait_def
proof (rule triple_bind)
  show "triple (registered ok i n) (emit (ApprovalRequired i txt)) (\<lambda>_. waiting ok i n) (lg ok)"
    by (auto simp: emit_def triple_def log_t_def registered_def waiting_def lg_def is_text_def
        calm_stableD [OF assms])
next
  fix x :: unit
  let ?Q = "\<lambda>dec s. lg ok s \<and> (dec = Some (Some True) \<longrightarrow> approval_state (tn_log s) = Granted i)"
  have await: "triple (waiting ok i n) (\<lambda>s. await_decision (sm_show_uuid S) n (tn_surface s) s) ?Q (lg ok)"
    by (rule tripleI) (rule await_decision_waiting [OF assms])
  have none: "triple (?Q None) (bind_t (discard_approval i n) (\<lambda>_. ret None)) (granted ok) (lg ok)"
    by (rule triple_bind [where Q = "\<lambda>_. lg ok"], rule triple_weaken [OF pres_triple [OF pres_discard]])
      (auto simp: granted_def intro: triple_ret)
  have "triple (?Q (Some d)) (ret (Some (i, d = Some True))) (granted ok) (lg ok)" for d
    by (rule triple_ret) (auto simp: granted_def)
  with none show "triple (waiting ok i n)
     (bind_t (\<lambda>s. await_decision (sm_show_uuid S) n (tn_surface s) s) (\<lambda>decision.
       case decision of
         None \<Rightarrow> bind_t (discard_approval i n) (\<lambda>_. ret None)
       | Some d \<Rightarrow> ret (Some (i, d = Some True)))) (granted ok) (lg ok)"
    by (intro triple_bind [OF await]) (auto split: option.split)
qed

lemma approval_gate_triple:
  "calm_stable ok \<Longrightarrow> triple (lg ok) (approval_gate S d raw) (granted ok) (lg ok)"
  unfolding approval_gate_def
  by (rule triple_bind [OF register_triple]) (simp add: ask_and_wait_triple case_prod_unfold)

section \<open>What every step keeps\<close>

text \<open>A property of the log that all inner effects keep is kept by every part of a turn
  between its two lifecycle events.\<close>

lemma exec_stableD:
  assumes "exec_stable ok"
  shows "calm_stable ok" "kept_by ok (Invoked iv)" "msg_role m = Tool \<Longrightarrow> kept_by ok (Appended m)"
    "kept_by ok (Audited a)"
  using assms exec_calm [OF assms] by (auto simp: exec_stable_def exec_def)

lemma inner_stableD:
  assumes "inner_stable ok"
  shows "calm_stable ok" "exec_stable ok" "kept_by ok (Described m ds)" "kept_by ok (Appended msg)"
    "kept_by ok (Emitted (TextDelta d))"
  using assms exec_calm [OF inner_exec [OF assms]] inner_exec [OF assms]
  by (auto simp: inner_stable_def inner_def)

lemma pres_append_message: "kept_by ok (Appended m) \<Longrightarrow> pres (lg ok) (append_message S m)"
  unfolding append_message_def by (intro pres_intros pres_log)

lemma pres_try_upsert: "kept_by ok (Upserted c) \<Longrightarrow> pres (lg ok) (try_upsert S c)"
  by (auto simp: pres_def triple_def try_upsert_def lg_def kept_by_def split: prod.splits sum.splits)

lemma pres_approval_gate: "calm_stable ok \<Longrightarrow> pres (lg ok) (approval_gate S d raw)"
  unfolding pres_def by (rule triple_weaken [OF approval_gate_triple]) (auto simp: granted_def)

lemma pres_audit_and_answer:
  assumes "exec_stable ok"
  shows "pres (lg ok) (audit_and_answer S c args outcome output r)"
  unfolding audit_and_answer_def audit_tool_call_def append_tool_result_def Let_def
  by (intro pres_intros pres_append_message pres_log exec_stableD [OF assms]) simp

lemma pres_invoke_tool:
  assumes "exec_stable ok"
  shows "pres (lg ok) (invoke_tool S mid c args r)"
  unfolding invoke_tool_def Let_def
  by (intro pres_intros pres_log pres_audit_and_answer exec_stableD [OF assms] assms)

lemma pres_execute_tool_call:
  assumes "exec_stable ok"
  shows "pres (lg ok) (execute_tool_call S mid ds c)"
  unfolding execute_tool_call_def Let_def
  by (intro pres_intros pres_approval_gate pres_invoke_tool pres_audit_and_answer
      exec_stableD [OF assms] assms)

lemma pres_run_tool_calls:
  assumes "exec_stable ok"
  shows "pres (lg ok) (run_tool_calls S mid ds calls)"
proof (induction calls)
  case Nil
  show ?case by (simp add: pres_ret)
next
  case (Cons c calls)
  have "pres (lg ok) (case x of StepCompleted \<Rightarrow> run_tool_calls S mid ds calls
      | StepCancelled \<Rightarrow> ret (Some FrCancelled))" for x
    using Cons.IH by (cases x) (simp_all add: pres_ret)
  then show ?case
    unfolding run_tool_calls.simps
    by (intro pres_intros pres_execute_tool_call exec_stableD [OF assms] assms)
qed

lemma pres_persist_assistant_text: "inner_stable ok \<Longrightarrow> pres (lg ok) (persist_assistant_text S t)"
  unfolding persist_assistant_text_def
  by (intro pres_intros pres_append_message inner_stableD)

lemma pres_persist_assistant_tool_calls:
  "inner_stable ok \<Longrightarrow> pres (lg ok) (persist_assistant_tool_calls S t calls th)"
  unfolding persist_assistant_tool_calls_def
  by (intro pres_intros pres_append_message inner_stableD)

lemma pres_describe_tools: "inner_stable ok \<Longrightarrow> pres (lg ok) (describe_tools S)"
  unfolding describe_tools_def by (intro pres_intros pres_log inner_stableD)

text \<open>What follows the inference call of a round.\<close>

definition after_generate ::
  "'w seams \<Rightarrow> tool_descriptor list \<Rightarrow> inference_stream \<Rightarrow> ('w, finish_reason option) turn_m" where
  "after_generate S descriptors stream =
     bind_t (consume_inference S stream [] [] ([], None)) (\<lambda>(outcome, segment).
       case outcome of
         RoundCancelled \<Rightarrow>
           bind_t (persist_assistant_text S segment) (\<lambda>_. ret (Some FrCancelled))
       | RoundFinished reason \<Rightarrow>
           bind_t (persist_assistant_text S segment) (\<lambda>_. ret (Some reason))
       | RoundToolCalls calls thinking \<Rightarrow>
           bind_t (persist_assistant_tool_calls S segment calls thinking) (\<lambda>mid.
           run_tool_calls S mid descriptors calls))"

lemma pres_after_generate:
  assumes "inner_stable ok"
  shows "pres (lg ok) (after_generate S ds stream)"
proof -
  have "pres (lg ok) (case outcome of
         RoundCancelled \<Rightarrow> bind_t (persist_assistant_text S seg) (\<lambda>_. ret (Some FrCancelled))
       | RoundFinished reason \<Rightarrow> bind_t (persist_assistant_text S seg) (\<lambda>_. ret (Some reason))
       | RoundToolCalls calls thinking \<Rightarrow>
           bind_t (persist_assistant_tool_calls S seg calls thinking) (\<lambda>mid.
           run_tool_calls S mid ds calls))" for outcome seg
    by (cases outcome)
      (auto intro!: pres_intros pres_persist_assistant_text pres_persist_assistant_tool_calls
        pres_run_tool_calls inner_stableD [OF assms] assms)
  then show ?thesis
    unfolding after_generate_def by (intro pres_intros inner_stableD [OF assms])
qed

lemma drive_step_eq:
  "drive_step S =
     bind_t (describe_tools S) (\<lambda>descriptors.
     bind_t (get_t id) (\<lambda>s.
     bind_t (call (assemble_context S (tn_conversation s) (tn_user_text s) HISTORY_LIMIT
       MEMORY_RECALL_LIMIT (en_context_budget_chars (tn_engine s)))) (\<lambda>messages.
     bind_t (call (draw_w (sm_new_v4 S))) (\<lambda>rid.
     bind_t (generate_t S (build_request rid messages descriptors)) (\<lambda>stream.
     after_generate S descriptors stream)))))"
  by (simp add: drive_step_def after_generate_def)

lemma pres_drive_loop:
  assumes "inner_stable ok" and "\<And>req. kept_by ok (Generated req)"
  shows "pres (lg ok) (drive_loop S n)"
proof (induction n)
  case 0
  show ?case
    unfolding drive_loop.simps by (intro pres_intros inner_stableD [OF assms(1)])
next
  case (Suc n)
  have "pres (lg ok) (drive_step S)"
    unfolding drive_step_eq generate_t_def
    by (intro pres_intros pres_log pres_describe_tools pres_after_generate assms)
  with Suc.IH show ?case
    unfolding drive_loop.simps by (intro pres_intros)
qed

section \<open>Safety of the loop\<close>

text \<open>
  What a turn needs of a property of its log: it survives the quiet effects, an invocation
  that passed the gate, an audit event that tells whether its call was invoked, and the
  tool-result message that answers the call just audited.
\<close>

locale turn_log =
  fixes ok :: "effect list \<Rightarrow> bool"
  assumes quiet_ok: "ok l \<Longrightarrow> quiet e \<Longrightarrow> ok (l @ [e])"
    and invoke_ok: "ok l \<Longrightarrow> gate l (ti_tool_id iv) \<Longrightarrow> open_invocation l = None \<Longrightarrow> ok (l @ [Invoked iv])"
    and audit_ok: "ok l \<Longrightarrow> audit_matches l a \<Longrightarrow> ok (l @ [Audited a])"
    and result_ok: "ok (l @ [Audited a]) \<Longrightarrow> answers a m \<Longrightarrow> ok (l @ [Audited a, Appended m])"
begin

text \<open>The property, with the tools of the round and the call that is under way.\<close>

definition st :: "tool_descriptor list \<Rightarrow> tool_invocation option \<Rightarrow> effect list \<Rightarrow> bool" where
  "st ds ov l \<longleftrightarrow> ok l \<and> current_tools l = Some ds \<and> open_invocation l = ov"

definition idle :: "effect list \<Rightarrow> bool" where
  "idle l \<longleftrightarrow> ok l \<and> open_invocation l = None"

lemma quiet_stable:
  "quiet e \<Longrightarrow> kept_by ok e"
  "quiet e \<Longrightarrow> kept_by idle e"
  "quiet e \<Longrightarrow> (\<And>m d. e \<noteq> Described m d) \<Longrightarrow> kept_by (st ds ov) e"
  by (auto simp: kept_by_def idle_def st_def quiet_ok quiet_def split: effect.splits)

lemma text_stable: "kept_by (st ds ov) (Emitted (TextDelta d))"
  by (rule quiet_stable) (simp_all add: quiet_def)

lemma calm_stable_st [intro, simp]: "calm_stable ok" "calm_stable idle" "calm_stable (st ds ov)"
  by (auto simp: calm_stable_def calm_def intro!: quiet_stable split: effect.splits)
    (simp_all add: quiet_def)

text \<open>The call \<open>cid\<close> was just audited.\<close>

definition audited :: "tool_descriptor list \<Rightarrow> string \<Rightarrow> 'w turn \<Rightarrow> bool" where
  "audited ds cid s \<longleftrightarrow>
     lg (st ds None) s \<and>
     (\<exists>l a. tn_log s = l @ [Audited a] \<and> au_session_id a = Some (conv_id (tn_conversation s)) \<and>
        json_get (au_metadata a) ''call_id'' = Some (JStr cid))"

lemma audit_tool_call_triple:
  assumes "\<And>l a. st ds ov l \<Longrightarrow> au_outcome a = outcome \<Longrightarrow> au_resource_ref a = Some (pc_tool_id c) \<Longrightarrow>
      audit_matches l a"
  shows "triple (lg (st ds ov)) (audit_tool_call S c args outcome r) (\<lambda>_. audited ds (pc_call_id c)) (lg ok)"
proof -
  have "ok (l @ [Audited a])"
    if "st ds ov l" "au_outcome a = outcome" "au_resource_ref a = Some (pc_tool_id c)" for l a
    using that assms by (intro audit_ok) (auto simp: st_def)
  then show ?thesis
    unfolding triple_def audit_tool_call_def
    by (auto simp: bind_t_def call_def get_t_def log_t_def draw_w_def audited_def lg_def st_def
        json_get_audit_metadata Let_def split: prod.splits sum.splits)
qed

lemma append_tool_result_triple:
  "triple (audited ds cid) (append_tool_result S cid out r) (\<lambda>_. lg (st ds None)) (lg ok)"
proof -
  have "ok (l @ [Audited a, Appended m])" if "ok (l @ [Audited a])" "answers a m" for l a m
    using that by (rule result_ok)
  then show ?thesis
    unfolding triple_def append_tool_result_def append_message_def
    by (auto simp: bind_t_def call_def get_t_def log_t_def draw_w_def audited_def lg_def st_def
        answers_def tool_result_blocks_def Let_def split: prod.splits sum.splits)
qed

lemma audit_and_answer_triple:
  assumes "\<And>l a. st ds ov l \<Longrightarrow> au_outcome a = outcome \<Longrightarrow> au_resource_ref a = Some (pc_tool_id c) \<Longrightarrow>
      audit_matches l a"
  shows "triple (lg (st ds ov)) (audit_and_answer S c args outcome output r)
    (\<lambda>x. lg (st ds None)) (lg ok)"
  unfolding audit_and_answer_def
  by (intro triple_bind [OF audit_tool_call_triple] triple_bind [OF append_tool_result_triple] triple_ret
      assms)


lemma lg_weaken:
  "lg (st ds ov) s \<Longrightarrow> lg ok s" "lg (st ds None) s \<Longrightarrow> lg idle s" "lg idle s \<Longrightarrow> lg ok s"
  by (auto simp: lg_def st_def idle_def)

text \<open>After a tool call: when it completed, no call is under way.\<close>

definition after :: "tool_descriptor list \<Rightarrow> tool_step_outcome \<Rightarrow> 'w turn \<Rightarrow> bool" where
  "after ds r s \<longleftrightarrow> lg ok s \<and> (r = StepCompleted \<longrightarrow> lg (st ds None) s)"

lemma answer_after:
  assumes "\<And>l a. st ds ov l \<Longrightarrow> au_outcome a = outcome \<Longrightarrow> au_resource_ref a = Some (pc_tool_id c) \<Longrightarrow>
      audit_matches l a"
  shows "triple (lg (st ds ov)) (audit_and_answer S c args outcome output r) (after ds) (lg ok)"
  by (rule triple_weaken [OF audit_and_answer_triple [OF assms]]) (auto simp: after_def lg_weaken)

lemma denied_after:
  "triple (lg (st ds None)) (audit_and_answer S c args Denied output r) (after ds) (lg ok)"
  by (rule answer_after) (simp add: audit_matches_def st_def)

lemma invoked_triple:
  "triple (\<lambda>s. lg (st ds None) s \<and> gate (tn_log s) (ti_tool_id iv)) (log_t (Invoked iv))
     (\<lambda>_. lg (st ds (Some iv))) (lg ok)"
  by (auto simp: triple_def log_t_def lg_def st_def invoke_ok)

lemma triple_call_gate:
  "triple (\<lambda>s. lg (st ds None) s \<and> gate (tn_log s) t) (call f)
     (\<lambda>_ s. lg (st ds None) s \<and> gate (tn_log s) t) (lg ok)"
  by (auto simp: triple_def call_def lg_weaken split: prod.splits sum.splits)

lemma invoke_tool_triple:
  "triple (\<lambda>s. lg (st ds None) s \<and> gate (tn_log s) (pc_tool_id c)) (invoke_tool S mid c args r)
     (after ds) (lg ok)"
  unfolding invoke_tool_def
proof (rule triple_bind [OF triple_call_gate], rule triple_bind [OF triple_get], goal_cases)
  case (1 i p)
  obtain conv mode trace where p: "p = (conv, mode, trace)"
    by (cases p) auto
  define iv where "iv = \<lparr>ti_invocation_id = i, ti_tool_id = pc_tool_id c, ti_args = args,
    ti_session_id = conv, ti_conversation_id = conv, ti_message_id = mid, ti_compute_mode = mode,
    ti_trace_id = trace, ti_stream = True\<rparr>"
  let ?I = "lg (st ds (Some iv))"
  have tool: "ti_tool_id iv = pc_tool_id c"
    by (simp add: iv_def)
  have run: "pres ?I (case q of
        Inr events \<Rightarrow> consume_tool_events S events JNull
      | Inl e \<Rightarrow> bind_t (emit (ErrorEv (show_error (sm_show_uuid S) e))) (\<lambda>_.
          ret (Some (json_obj [(''error'', JStr (show_error (sm_show_uuid S) e))]))))" for q
    by (intro pres_intros calm_stable_st)
  have fin: "triple ?I (case out of None \<Rightarrow> ret StepCancelled
      | Some output \<Rightarrow> audit_and_answer S c args Allowed output r) (after ds) (lg ok)" for out
    by (cases out) (auto simp: after_def audit_matches_def st_def tool lg_weaken
        intro!: triple_ret answer_after)
  have ok: "triple ?I m (\<lambda>_. ?I) (lg ok)" if "pres ?I m" for m :: "('w, 'x) turn_m"
    using pres_triple [OF that] by (rule triple_weaken) (auto simp: lg_weaken)
  show ?case
    unfolding p prod.case iv_def [symmetric] Let_def
    by (rule triple_pre [OF triple_bind [OF invoked_triple [of ds iv]]])
      (auto simp: tool intro!: triple_bind [OF ok [OF pres_try_call]] triple_bind [OF ok [OF run]] fin)
qed


lemma gate_granted:
  "granted (st ds None) (Some (i, True)) s \<Longrightarrow> find (\<lambda>d. td_id d = t) ds = Some d \<Longrightarrow> gate (tn_log s) t"
  by (auto simp: granted_def gate_def lg_def st_def)

lemma execute_tool_call_triple:
  "triple (lg (st ds None)) (execute_tool_call S mid ds c) (after ds) (lg ok)"
proof -
  let ?args = "parse_args (sm_from_str S) (pc_args_raw c)"
  have err: "triple (lg (st ds None)) m (\<lambda>_. lg (st ds None)) (lg ok)"
    if "pres (lg (st ds None)) m" for m :: "('w, 'x) turn_m"
    using pres_triple [OF that] by (rule triple_weaken) (auto simp: lg_weaken)
  show ?thesis
  proof (cases "find (\<lambda>d. td_id d = pc_tool_id c) ds")
    case None
    then show ?thesis
      by (auto simp: execute_tool_call_def Let_def
          intro!: triple_bind [OF err [OF pres_emits(3)]] denied_after)
  next
    case (Some d)
    have free: "triple (lg (st ds None)) (invoke_tool S mid c ?args None) (after ds) (lg ok)"
      if "\<not> td_requires_approval d"
      by (rule triple_pre [OF invoke_tool_triple]) (use Some that in \<open>auto simp: gate_def lg_def st_def\<close>)
    have gated: "triple (granted (st ds None) (Some (i, b)))
        (if b then invoke_tool S mid c ?args (Some i)
         else audit_and_answer S c ?args Denied (json_obj [(''denied'', JBool True),
           (''message'', JStr ''the user denied this action'')]) (Some i)) (after ds) (lg ok)" for i b
      by (cases b)
        (auto intro!: triple_pre [OF invoke_tool_triple] triple_pre [OF denied_after] gate_granted [OF _ Some]
          simp: granted_def)
    have canc: "triple (granted (st ds None) None) (ret StepCancelled) (after ds) (lg ok)"
      by (auto intro!: triple_ret simp: after_def granted_def lg_weaken)
    have gate: "triple (lg (st ds None)) (approval_gate S d (pc_args_raw c)) (granted (st ds None)) (lg ok)"
      by (rule triple_weaken [OF approval_gate_triple [OF calm_stable_st(3)]]) (auto simp: lg_weaken)
    show ?thesis
      using Some free gated canc
      by (auto simp: execute_tool_call_def Let_def intro!: triple_bind [OF gate] split: option.split)
  qed
qed

lemma run_tool_calls_triple:
  "triple (lg (st ds None)) (run_tool_calls S mid ds calls)
     (\<lambda>r s. lg ok s \<and> (r = None \<longrightarrow> lg idle s)) (lg ok)"
proof (induction calls)
  case Nil
  show ?case by (auto intro!: triple_ret simp: lg_weaken)
next
  case (Cons c calls)
  have poll: "triple (lg (st ds None)) (poll S) (\<lambda>_. lg (st ds None)) (lg ok)"
    by (rule triple_weaken [OF pres_triple [OF pres_poll [OF calm_stable_st(3)]]]) (auto simp: lg_weaken)
  have next': "triple (after ds o') (case o' of StepCompleted \<Rightarrow> run_tool_calls S mid ds calls
      | StepCancelled \<Rightarrow> ret (Some FrCancelled))
      (\<lambda>r s. lg ok s \<and> (r = None \<longrightarrow> lg idle s)) (lg ok)" for o'
    using Cons.IH by (cases o') (auto intro!: triple_ret elim: triple_pre simp: after_def)
  show ?case
    unfolding run_tool_calls.simps
    by (rule triple_bind [OF poll]) (auto intro!: triple_ret triple_bind [OF execute_tool_call_triple] next'
        simp: lg_weaken)
qed


lemma pres_persist_text: "pres (lg ok) (persist_assistant_text S t)"
  unfolding pres_def triple_def persist_assistant_text_def append_message_def new_message_text_def
  by (auto simp: bind_t_def bind_w_def act_ok_def call_def get_t_def log_t_def draw_w_def ret_def lg_def
      quiet_ok quiet_def split: prod.splits sum.splits)

lemma persist_calls_triple:
  "pres (lg (st ds None)) (persist_assistant_tool_calls S text calls th)"
  unfolding persist_assistant_tool_calls_def
  by (intro pres_intros pres_append_message quiet_stable) (auto simp: quiet_def)

lemma drive_step_triple:
  "triple (lg idle) (drive_step S) (\<lambda>r s. lg ok s \<and> (r = None \<longrightarrow> lg idle s)) (lg ok)"
proof -
  let ?R = "\<lambda>r s. lg ok s \<and> (r = None \<longrightarrow> lg idle s)"
  have describe: "triple (lg idle) (describe_tools S) (\<lambda>ds. lg (st ds None)) (lg ok)"
    by (auto simp: describe_tools_def triple_def bind_t_def get_t_def call_def draw_w_def log_t_def ret_def
        lg_def idle_def st_def quiet_ok quiet_def split: prod.splits)
  have keep: "triple (lg (st ds None)) m (\<lambda>_. lg (st ds None)) (lg ok)"
    if "pres (lg (st ds None)) m" for m :: "('w, 'x) turn_m" and ds
    using pres_triple [OF that] by (rule triple_weaken) (auto simp: lg_weaken)
  have gen: "pres (lg (st ds None)) (generate_t S req)" for ds req
    unfolding generate_t_def by (intro pres_intros pres_log quiet_stable) (auto simp: quiet_def)
  have persist: "triple (lg (st ds None)) (bind_t (persist_assistant_text S t) (\<lambda>_. ret (Some x))) ?R (lg ok)"
    for ds t x
    by (rule triple_pre [OF triple_bind [OF pres_triple [OF pres_persist_text]]])
      (auto intro: triple_ret simp: lg_weaken)
  have calls: "triple (lg (st ds None)) (bind_t (persist_assistant_tool_calls S t cs th) (\<lambda>mid.
      run_tool_calls S mid ds cs)) ?R (lg ok)" for ds t cs th
    by (rule triple_bind [OF keep [OF persist_calls_triple] run_tool_calls_triple])
  show ?thesis
    unfolding drive_step_def
    by (intro triple_bind [OF describe] triple_bind [OF keep [OF pres_get]]
        triple_bind [OF keep [OF pres_call]] triple_bind [OF keep [OF gen]]
        triple_bind [OF keep [OF pres_consume_inference [OF calm_stable_st(3) text_stable]]])
      (auto intro!: persist calls split: prod.split round_outcome.split)
qed

lemma drive_loop_triple: "triple (lg idle) (drive_loop S n) (\<lambda>_. lg ok) (lg ok)"
proof (induction n)
  case 0
  show ?case
    unfolding drive_loop.simps
    by (rule triple_pre [OF triple_bind [OF pres_triple [OF pres_emits(3) [OF calm_stable_st(1)]]]])
      (auto intro: triple_ret simp: lg_weaken)
next
  case (Suc n)
  show ?case
    unfolding drive_loop.simps
    by (rule triple_bind [OF drive_step_triple])
      (auto intro: triple_ret triple_pre [OF Suc.IH] split: option.split)
qed

lemma run_keeps_log: "lg idle s \<Longrightarrow> lg ok (snd (run S s))"
proof -
  have quiet': "kept_by ok e" if "quiet e" for e
    using that by (rule quiet_stable)
  have start: "triple (lg idle) (emit ev) (\<lambda>_. lg idle) (lg ok)" for ev
    unfolding emit_def
    by (rule triple_weaken [OF pres_triple [OF pres_log [OF quiet_stable(2)]]]) (auto simp: lg_weaken quiet_def)
  have body: "triple (lg idle) (catch_t (drive S) (\<lambda>e.
      bind_t (emit (ErrorEv (show_error (sm_show_uuid S) e))) (\<lambda>_. ret FrError))) (\<lambda>_. lg ok) (lg ok)"
    using drive_loop_triple [of S MAX_TOOL_STEPS]
    by (fastforce simp: catch_t_def drive_def triple_def bind_t_def emit_def log_t_def ret_def lg_def
        quiet_ok quiet_def split: prod.splits step.splits)
  have finish: "pres (lg ok) (bind_t (touch_conversation S) (\<lambda>_. emit (TurnFinished r)))" for r
    unfolding touch_conversation_def emit_def
    by (intro pres_intros pres_try_upsert pres_log quiet') (simp_all add: quiet_def)
  have "triple (lg idle) (run S) (\<lambda>_. lg ok) (lg ok)"
    unfolding run_def
    by (rule triple_bind [where Q = "\<lambda>_. lg idle"], simp add: get_t_def triple_def)
      (rule triple_bind [OF start triple_bind [OF body pres_triple [OF finish]]])
  moreover assume "lg idle s"
  ultimately show "lg ok (snd (run S s))"
    by (cases "run S s"; cases "fst (run S s)") (auto simp: triple_def)
qed

end

end
