(* ===== verification/Demo_Turn.thy ===== *)
theory Demo_Turn
  imports Engine
begin

text \<open>
  Two concrete turns, evaluated step by step: seams with one tool that requires approval and a
  model that always calls it. In the first the surface approves and then cancels while the
  tool runs; in the second the tool completes and the surface cancels in the next round.
\<close>

section \<open>The seams\<close>

definition demo_tool :: tool_descriptor where
  "demo_tool =
     \<lparr>td_id = ''shell'', td_display_name = ''Shell'', td_category = BuiltIn,
      td_available_in_modes = [MacLan], td_required_permissions = [],
      td_input_schema = JObj [], td_output_schema = JObj [], td_requires_approval = True,
      td_destructive_level = High\<rparr>"

definition demo_model :: model_descriptor where
  "demo_model =
     \<lparr>md_id = ''demo'', md_display_name = ''Demo'', md_context_window = 4096,
      md_capabilities = caps_none, md_limitations = [], md_size_bytes = None,
      md_quantization = None, md_source = SrcOnDevice, md_perf_profile = perf_default\<rparr>"

definition demo_tool_chunk :: inference_chunk where
  "demo_tool_chunk =
     \<lparr>ch_delta = Some ''ok'',
      ch_tool_call_delta = Some \<lparr>tcd_call_id = ''c1'', tcd_tool_id = ''shell'', tcd_args_delta = []\<rparr>,
      ch_thinking_delta = None, ch_finish_reason = Some FrToolCall, ch_active_mode = MacLan,
      ch_latency_hint_ms = None\<rparr>"

text \<open>The world is the number of identifiers drawn.\<close>

definition demo_seams :: "nat seams" where
  "demo_seams =
     \<lparr>sm_now = (\<lambda>w. (0, w)), sm_new_v4 = (\<lambda>w. (word_of_nat w, Suc w)),
      sm_conversations_get = (\<lambda>i w. (Inr (Some ((conversation_new 0 i MacLan)\<lparr>conv_title := Some ''t''\<rparr>)), w)),
      sm_conversations_upsert = (\<lambda>c w. (Inr (), w)), sm_conversations_list = (\<lambda>n w. (Inr [], w)),
      sm_messages_append = (\<lambda>m w. (Inr (), w)), sm_messages_range = (\<lambda>c n w. (Inr [], w)),
      sm_messages_next_sequence = (\<lambda>c w. (Inr 0, w)), sm_memory_search = (\<lambda>q s n w. (Inr [], w)),
      sm_audit_append = (\<lambda>a w. (Inr (), w)), sm_descriptor = (\<lambda>w. demo_model),
      sm_generate = (\<lambda>r w. (Inr [Inr demo_tool_chunk], w)),
      sm_describe = (\<lambda>m w. ([demo_tool], w)), sm_invoke = (\<lambda>iv w. (Inr [], w)),
      sm_show_uuid = (\<lambda>i. ''id''), sm_from_str = (\<lambda>s. None), sm_content_json = (\<lambda>c. None),
      sm_base64 = (\<lambda>b. [])\<rparr>"

section \<open>Evaluating a turn\<close>

text \<open>Equations of the turn's parts at a state, so that the simplifier runs a turn in order.\<close>

lemmas step_defs = bind_t_def ret_def fail_def get_t_def log_t_def call_def emit_def try_call_def
  bind_w_def act_ok_def draw_w_def act_err_def poll_def apply_batch_def apply_action_def

lemmas turn_defs = run_def [THEN fun_cong]
  drive_def [THEN fun_cong]
  drive_step_def [THEN fun_cong]
  describe_tools_def [THEN fun_cong]
  assemble_context_def [THEN fun_cong]
  synthetic_system_def [THEN fun_cong]
  generate_t_def [THEN fun_cong]
  touch_conversation_def [THEN fun_cong]
  persist_assistant_text_def [THEN fun_cong]
  persist_assistant_tool_calls_def [THEN fun_cong]
  append_message_def [THEN fun_cong]
  execute_tool_call_def [THEN fun_cong]
  approval_gate_def [THEN fun_cong]
  ask_and_wait_def [THEN fun_cong]
  register_approval_def [THEN fun_cong]
  invoke_tool_def [THEN fun_cong]
  audit_and_answer_def [THEN fun_cong]
  audit_tool_call_def [THEN fun_cong]
  append_tool_result_def [THEN fun_cong]
  handoff_def [THEN fun_cong]
  text_delta_def [THEN fun_cong]
  run_turn_def [THEN fun_cong]
  get_conversation_def [THEN fun_cong]
  new_message_text_def [THEN fun_cong]
  auto_title_def [THEN fun_cong]
  drive_loop.simps [THEN fun_cong] consume_inference.simps [THEN fun_cong]
  consume_tool_events.simps [THEN fun_cong] run_tool_calls.simps [THEN fun_cong]

lemmas pure_defs = MAX_TOOL_STEPS_def numeral_eq_Suc
  extra_prompt_def compact_def message_cost_def build_request_def catch_t_def
  try_upsert_def calls_after_def thinking_after_def round_end_def discard_approval_def

lemmas demo_defs = demo_seams_def demo_tool_def demo_model_def demo_tool_chunk_def engine_new_def registry_default_def
  registry_register_def registry_resolve_def receive_def conversation_new_def

definition demo_turn :: "surface_action list list \<Rightarrow> (contract_error + unit step \<times> nat turn) \<times> nat" where
  "demo_turn surface = run_turn demo_seams (engine_new 0) 7 ''go'' False surface 0"

lemmas demo_eval = demo_turn_def step_defs turn_defs pure_defs demo_defs Let_def

lemma demo_cancelled_call:
  "\<exists>t m started ds g txt m2 ask iv c.
     demo_turn [[], [], [Resolve 5 True], [Cancel]] = (Inr (Done (), t), 7) \<and>
     tn_log t =
       [Appended m, Emitted started, Described MacLan ds, Generated g, Emitted txt, Appended m2,
        Emitted ask, Answered 5 True] @
       Invoked iv # [CancelRequested, Upserted c, Emitted (TurnFinished FrCancelled)]"
  by (simp add: demo_eval del: drive_loop.simps consume_inference.simps consume_tool_events.simps
      run_tool_calls.simps)

lemma demo_audited_call:
  "\<exists>t m started ds g txt m2 ask iv a m3 rest.
     demo_turn [[], [], [Resolve 5 True], [], [Cancel]] = (Inr (Done (), t), 11) \<and>
     tn_log t =
       [Appended m, Emitted started, Described MacLan ds, Generated g, Emitted txt, Appended m2,
        Emitted ask, Answered 5 True, Invoked iv, Audited a] @ Appended m3 # rest \<and> msg_role m3 = Tool"
  by (simp add: demo_eval del: drive_loop.simps consume_inference.simps consume_tool_events.simps
      run_tool_calls.simps)

text \<open>A turn's state before its first round.\<close>

definition demo_start :: "nat turn" where
  "demo_start =
     \<lparr>tn_world = 0, tn_engine = engine_new 0, tn_conversation = conversation_new 0 7 MacLan,
      tn_user_text = ''go'', tn_user_message_id = 0, tn_mode = MacLan, tn_trace_id = 1,
      tn_cancelled = False, tn_surface = [], tn_log = []\<rparr>"

end
