(* ===== verification/Engine_Laws.thy ===== *)
theory Engine_Laws
  imports Turn_Logic Demo_Turn
begin

text \<open>
  What a turn guarantees, whatever the store, the model, the tools and the surface do: tools
  run only past the approval gate, every tool result is audited first, events are framed, the
  number of inference rounds is bounded, and what was streamed is what is persisted.
\<close>

section \<open>Properties of every entry of a log\<close>

definition every :: "(effect list \<Rightarrow> effect \<Rightarrow> bool) \<Rightarrow> effect list \<Rightarrow> bool" where
  "every P l \<longleftrightarrow> (\<forall>pre e post. l = pre @ e # post \<longrightarrow> P pre e)"

lemma every_Nil [simp]: "every P []"
  by (simp add: every_def)

lemma every_snoc [simp]: "every P (l @ [e]) \<longleftrightarrow> every P l \<and> P l e"
proof
  assume *: "every P (l @ [e])"
  have "P pre x" if "l = pre @ x # post" for pre x post
    using * [unfolded every_def, rule_format, of pre x "post @ [e]"] that by simp
  moreover have "P l e"
    using * [unfolded every_def, rule_format, of l e "[]"] by simp
  ultimately show "every P l \<and> P l e"
    by (simp add: every_def)
next
  assume *: "every P l \<and> P l e"
  show "every P (l @ [e])"
    unfolding every_def
  proof (intro allI impI)
    fix pre x post
    assume "l @ [e] = pre @ x # post"
    then show "P pre x"
      using * by (cases post rule: rev_cases) (auto simp: every_def)
  qed
qed

lemma everyD: "every P l \<Longrightarrow> l = pre @ e # post \<Longrightarrow> P pre e"
  by (simp add: every_def)

lemma every_two: "every P (l @ [e, f]) \<longleftrightarrow> every P l \<and> P l e \<and> P (l @ [e]) f"
  using every_snoc [of P "l @ [e]" f] by simp

definition gate_entry :: "effect list \<Rightarrow> effect \<Rightarrow> bool" where
  "gate_entry pre e = (case e of Invoked iv \<Rightarrow> gate pre (ti_tool_id iv) | _ \<Rightarrow> True)"

definition audit_entry :: "effect list \<Rightarrow> effect \<Rightarrow> bool" where
  "audit_entry pre e =
     (case e of
        Audited a \<Rightarrow> audit_matches pre a
      | Appended m \<Rightarrow> msg_role m = Tool \<longrightarrow> (\<exists>p a. pre = p @ [Audited a] \<and> answers a m)
      | _ \<Rightarrow> True)"

interpretation gated: turn_log "every gate_entry"
  by unfold_locales (auto simp: gate_entry_def quiet_def every_two split: effect.splits)

interpretation audits: turn_log "every audit_entry"
  by unfold_locales (auto simp: audit_entry_def quiet_def every_two split: effect.splits)

section \<open>Reading the state of a log\<close>

lemma current_tools_Some:
  "current_tools l = Some ds \<Longrightarrow>
     \<exists>a m b. l = a @ Described m ds # b \<and> (\<forall>m' ds'. Described m' ds' \<notin> set b)"
proof (induction l rule: rev_induct)
  case Nil
  then show ?case by (simp add: current_tools_def)
next
  case (snoc e l)
  show ?case
  proof (cases "\<exists>m ds'. e = Described m ds'")
    case True
    with snoc.prems show ?thesis by fastforce
  next
    case False
    with snoc.prems have "current_tools l = Some ds"
      by (cases e) auto
    with snoc.IH obtain a m b where "l = a @ Described m ds # b" "\<forall>m' ds'. Described m' ds' \<notin> set b"
      by blast
    with False show ?thesis
      by (intro exI [of _ a] exI [of _ m] exI [of _ "b @ [e]"]) auto
  qed
qed

definition asked_since :: "uuid \<Rightarrow> effect list \<Rightarrow> effect list \<Rightarrow> bool" where
  "asked_since i l b \<longleftrightarrow>
     (\<exists>a txt. l = a @ Emitted (ApprovalRequired i txt) # b) \<and> (\<forall>iv. Invoked iv \<notin> set b)"

lemma asked_since_snoc: "asked_since i l b \<Longrightarrow> (\<And>iv. e \<noteq> Invoked iv) \<Longrightarrow> asked_since i (l @ [e]) (b @ [e])"
  by (auto simp: asked_since_def)

lemma approval_state_asked:
  "(approval_state l = Asked i \<longrightarrow> (\<exists>b. asked_since i l b)) \<and>
   (approval_state l = Granted i \<longrightarrow> (\<exists>b. asked_since i l b \<and> Answered i True \<in> set b))"
proof (induction l rule: rev_induct)
  case Nil
  show ?case by (simp add: approval_state_def)
next
  case (snoc e l)
  have new: "asked_since i (l @ [Emitted (ApprovalRequired i t)]) []" for t
    by (auto simp: asked_since_def)
  have keep: ?case if "approval_step (approval_state l) e = approval_state l" "\<And>iv. e \<noteq> Invoked iv"
    using snoc.IH asked_since_snoc [OF _ that(2)] that(1) by fastforce
  show ?case
  proof (cases e)
    case (Emitted ev)
    then show ?thesis
      using keep new by (cases ev) fastforce+
  next
    case (Answered j b)
    show ?thesis
    proof (cases "approval_state l = Asked j \<and> b")
      case True
      with Answered have "approval_state (l @ [e]) = Granted j" "e = Answered j True"
        by simp_all
      moreover from True snoc.IH have "j = i \<Longrightarrow> \<exists>b. asked_since i l b"
        by simp
      ultimately show ?thesis
        using asked_since_snoc [of i l _ e] by fastforce
    next
      case False
      with Answered keep show ?thesis by auto
    qed
  qed (use keep in auto)
qed

lemma open_invocation_Some:
  "open_invocation l = Some iv \<Longrightarrow>
     \<exists>p q. l = p @ Invoked iv # q \<and> (\<forall>a. Audited a \<notin> set q)"
proof (induction l rule: rev_induct)
  case Nil
  then show ?case by (simp add: open_invocation_def)
next
  case (snoc e l)
  show ?case
  proof (cases "e = Invoked iv")
    case True
    then show ?thesis by fastforce
  next
    case False
    with snoc.prems have "open_invocation l = Some iv" "\<forall>a. e \<noteq> Audited a"
      by (cases e; simp)+
    with snoc.IH obtain p q where "l = p @ Invoked iv # q" "\<forall>a. Audited a \<notin> set q"
      by blast
    with \<open>\<forall>a. e \<noteq> Audited a\<close> show ?thesis
      by (intro exI [of _ p] exI [of _ "q @ [e]"]) auto
  qed
qed

section \<open>From the runner to the turn\<close>

text \<open>A turn that began ran from a state whose log holds the persisted user message and, when
  the conversation got its title, the update.\<close>

lemma bind_w_Inr:
  "bind_w m f w = (Inr y, w') \<longleftrightarrow> (\<exists>x w1. m w = (Inr x, w1) \<and> f x w1 = (Inr y, w'))"
  by (auto simp: bind_w_def split: prod.splits sum.splits)

lemma run_turn_runs:
  assumes "run_turn S e cid txt c tape w = (Inr (r, t), w')"
  shows "\<exists>s m l. (r, t) = run S s \<and> tn_engine s = e \<and> tn_log s = Appended m # l \<and>
    msg_role m = User \<and> msg_conversation_id m = cid \<and> text_content m = txt \<and>
    tn_user_message_id s = msg_id m \<and> tn_surface s = tape \<and> tn_cancelled s = c \<and> tn_user_text s = txt \<and>
    (l = [] \<or> (\<exists>conv. l = [Upserted conv])) \<and> w' = tn_world t \<and>
    (\<exists>conv0 w0. get_conversation S cid w = (Inr conv0, w0) \<and>
       conv_id (tn_conversation s) = conv_id conv0 \<and> tn_mode s = conv_mode_at_creation conv0)"
proof -
  from assms obtain conv sq m conv' l trace w1 w2 w3 w4 w5 w6 where
    conv: "get_conversation S cid w = (Inr conv, w1)" and
    m: "new_message_text S cid User txt (conv_mode_at_creation conv) sq w2 = (Inr m, w3)" and
    l: "auto_title S conv txt w4 = (Inr (conv', l), w5)" and
    t: "run S \<lparr>tn_world = w6, tn_engine = e, tn_conversation = conv',
             tn_user_text = txt, tn_user_message_id = msg_id m,
             tn_mode = conv_mode_at_creation conv, tn_trace_id = trace,
             tn_cancelled = c, tn_surface = tape, tn_log = Appended m # l\<rparr> = (r, t)" and
    w': "w' = tn_world t"
    unfolding run_turn_def bind_w_Inr split_paired_Ex prod.case Let_def prod.inject sum.inject
    by (elim exE conjE) (rule that, assumption, assumption, assumption, assumption, simp)
  have "msg_role m = User" "msg_conversation_id m = cid" "text_content m = txt"
    using m by (auto simp: new_message_text_def bind_w_Inr act_ok_def)
  moreover have "l = [] \<or> (\<exists>conv. l = [Upserted conv])"
    using l by (auto simp: auto_title_def Let_def bind_w_Inr act_ok_def split: if_splits)
  moreover have "conv_id conv' = conv_id conv"
    using l by (auto simp: auto_title_def Let_def bind_w_Inr act_ok_def split: if_splits)
  ultimately show ?thesis
    using w' conv by - (rule exI, rule exI [of _ m], rule exI [of _ l], rule conjI, rule t [symmetric], simp)
qed

lemma start_idle:
  assumes "registry_ok (en_approvals (tn_engine s))" and "tn_log s = Appended m # l" and "msg_role m = User"
    and "l = [] \<or> (\<exists>conv. l = [Upserted conv])"
  shows "lg gated.idle s" "lg audits.idle s"
proof -
  have one: "every P [e] \<longleftrightarrow> P [] e" for P e
    using every_snoc [of P "[]" e] by simp
  have two: "every P [e, f] \<longleftrightarrow> P [] e \<and> P [e] f" for P e f
    using every_snoc [of P "[e]" f] one [of P e] by simp
  show "lg gated.idle s" "lg audits.idle s"
    using assms
    by (auto simp: lg_def gated.idle_def audits.idle_def one two gate_entry_def audit_entry_def
        open_invocation_def)
qed

section \<open>Framing, rounds\<close>

definition emitted :: "effect list \<Rightarrow> agent_event list" where
  "emitted l = List.map_filter (\<lambda>e. case e of Emitted ev \<Rightarrow> Some ev | _ \<Rightarrow> None) l"

definition rounds :: "effect list \<Rightarrow> nat" where
  "rounds l = length (filter (\<lambda>e. case e of Generated req \<Rightarrow> True | _ \<Rightarrow> False) l)"

lemma emitted_append [simp]: "emitted (l @ l') = emitted l @ emitted l'"
  by (simp add: emitted_def List.map_filter_def)

lemma emitted_simps [simp]:
  "emitted [] = []"
  "emitted (e # l) = (case e of Emitted ev \<Rightarrow> ev # emitted l | _ \<Rightarrow> emitted l)"
  by (simp_all add: emitted_def List.map_filter_def split: effect.splits)

lemma rounds_append: "rounds (l @ l') = rounds l + rounds l'"
  by (simp add: rounds_def)

lemma rounds_simps [simp]:
  "rounds [] = 0"
  "rounds (e # l) = (case e of Generated req \<Rightarrow> Suc (rounds l) | _ \<Rightarrow> rounds l)"
  "rounds (l @ [e]) = rounds l + (case e of Generated req \<Rightarrow> 1 | _ \<Rightarrow> 0)"
  by (simp_all add: rounds_def split: effect.splits)

text \<open>The log has grown from \<open>l0\<close> by entries that are not lifecycle events.\<close>

definition grown :: "effect list \<Rightarrow> effect list \<Rightarrow> bool" where
  "grown l0 l \<longleftrightarrow> (\<exists>x. l = l0 @ x \<and> (\<forall>ev. Emitted ev \<in> set x \<longrightarrow> \<not> lifecycle ev))"

lemma grown_refl [simp]: "grown l l"
  by (simp add: grown_def)

lemma grown_stable: "(\<And>ev. e = Emitted ev \<Longrightarrow> \<not> lifecycle ev) \<Longrightarrow> kept_by (grown l0) e"
  by (fastforce simp: kept_by_def grown_def)

lemma no_lifecycle:
  "\<forall>ev. Emitted ev \<in> set x \<longrightarrow> \<not> lifecycle ev \<Longrightarrow> ev \<in> set (emitted x) \<Longrightarrow> \<not> lifecycle ev"
  by (auto simp: emitted_def List.map_filter_def split: effect.splits)

lemma drive_grows:
  assumes "registry_ok (en_approvals (tn_engine s))"
  shows "lg (grown (tn_log s)) (snd (drive S s))"
proof -
  have "inner_stable (grown (tn_log s))"
    by (auto simp: inner_stable_def inner_def intro!: grown_stable split: effect.splits)
  then have "pres (lg (grown (tn_log s))) (drive S)"
    unfolding drive_def by (rule pres_drive_loop) (rule grown_stable, simp)
  then show ?thesis
    by (rule pres_run) (simp add: lg_def assms)
qed

text \<open>What the runner does after \<open>drive\<close>.\<close>

lemma run_split:
  assumes "drive S (s\<lparr>tn_log := tn_log s @
      [Emitted (TurnStarted (conv_id (tn_conversation s)) (tn_user_message_id s) (tn_mode s))]\<rparr>) = (r, s1)"
  shows "case r of
      Parked \<Rightarrow> run S s = (Parked, s1)
    | Done reason \<Rightarrow> fst (run S s) = Done () \<and> (\<exists>l. tn_log (snd (run S s)) = tn_log s1 @ l @ [Emitted (TurnFinished reason)] \<and>
        (l = [] \<or> (\<exists>c. l = [Upserted c])))
    | Fail e \<Rightarrow> fst (run S s) = Done () \<and> (\<exists>l. tn_log (snd (run S s)) =
        tn_log s1 @ Emitted (ErrorEv (show_error (sm_show_uuid S) e)) # l @ [Emitted (TurnFinished FrError)] \<and>
        (l = [] \<or> (\<exists>c. l = [Upserted c])))"
  using assms
  by (cases r)
    (auto simp: run_def bind_t_def get_t_def emit_def log_t_def catch_t_def ret_def touch_conversation_def
      call_def draw_w_def try_upsert_def split: prod.splits sum.splits)

lemma triple_run: "triple P m (\<lambda>_. Q) Q \<Longrightarrow> P s \<Longrightarrow> Q (snd (m s))"
  by (cases "m s"; cases "fst (m s)") (auto simp: triple_def)

lemma drive_step_rounds:
  "triple (lg (\<lambda>l. rounds l \<le> n)) (drive_step S) (\<lambda>_. lg (\<lambda>l. rounds l \<le> Suc n)) (lg (\<lambda>l. rounds l \<le> Suc n))"
proof -
  have ic: "inner_stable (\<lambda>l. rounds l \<le> k)" for k
    by (auto simp: inner_stable_def inner_def kept_by_def split: effect.splits)
  have keep: "triple (lg (\<lambda>l. rounds l \<le> n)) m (\<lambda>_. lg (\<lambda>l. rounds l \<le> n)) (lg (\<lambda>l. rounds l \<le> Suc n))"
    if "pres (lg (\<lambda>l. rounds l \<le> n)) m" for m :: "('w, 'x) turn_m"
    using pres_triple [OF that] by (rule triple_weaken) (auto simp: lg_def)
  have gen: "triple (lg (\<lambda>l. rounds l \<le> n)) (generate_t S req) (\<lambda>_. lg (\<lambda>l. rounds l \<le> Suc n))
      (lg (\<lambda>l. rounds l \<le> Suc n))" for req
    by (auto simp: triple_def generate_t_def bind_t_def log_t_def call_def lg_def split: prod.splits sum.splits)
  show ?thesis
    unfolding drive_step_eq
    by (intro triple_bind [OF keep [OF pres_describe_tools [OF ic]]] triple_bind [OF keep [OF pres_get]]
        triple_bind [OF keep [OF pres_call]] triple_bind [OF gen] pres_triple [OF pres_after_generate [OF ic]])
qed

lemma drive_loop_rounds:
  "triple (lg (\<lambda>l. rounds l \<le> n)) (drive_loop S k) (\<lambda>_. lg (\<lambda>l. rounds l \<le> n + k)) (lg (\<lambda>l. rounds l \<le> n + k))"
proof (induction k arbitrary: n)
  case 0
  have "calm_stable (\<lambda>l. rounds l \<le> n)"
    by (auto simp: calm_stable_def calm_def kept_by_def split: effect.splits)
  then have "pres (lg (\<lambda>l. rounds l \<le> n)) (drive_loop S 0)"
    unfolding drive_loop.simps by (intro pres_intros)
  then show ?case by (simp add: pres_def)
next
  case (Suc k)
  have "triple (lg (\<lambda>l. rounds l \<le> Suc n)) (case r of Some reason \<Rightarrow> ret reason | None \<Rightarrow> drive_loop S k)
      (\<lambda>_. lg (\<lambda>l. rounds l \<le> n + Suc k)) (lg (\<lambda>l. rounds l \<le> n + Suc k))" for r
    using Suc.IH [of "Suc n"] by (cases r) (simp, auto intro!: triple_ret simp: lg_def)
  moreover have "triple (lg (\<lambda>l. rounds l \<le> n)) (drive_step S) (\<lambda>_. lg (\<lambda>l. rounds l \<le> Suc n))
      (lg (\<lambda>l. rounds l \<le> n + Suc k))"
    by (rule triple_weaken [OF drive_step_rounds [of n S]]) (auto simp: lg_def)
  ultimately show ?case
    unfolding drive_loop.simps by (intro triple_bind)
qed

section \<open>Streamed and persisted text\<close>

definition streamed :: "effect list \<Rightarrow> string" where
  "streamed l = concat (map (\<lambda>e. case e of Emitted (TextDelta t) \<Rightarrow> t | _ \<Rightarrow> []) l)"

definition saved :: "effect list \<Rightarrow> string" where
  "saved l =
     concat (map (\<lambda>e. case e of Appended m \<Rightarrow> if msg_role m = Assistant then text_content m else [] | _ \<Rightarrow> []) l)"

text \<open>All text streamed so far has been persisted, apart from \<open>g\<close>.\<close>

definition unsaved :: "string \<Rightarrow> effect list \<Rightarrow> bool" where
  "unsaved g l \<longleftrightarrow> streamed l = saved l @ g"

definition lagging :: "effect list \<Rightarrow> bool" where
  "lagging l \<longleftrightarrow> (\<exists>g. unsaved g l)"

lemma streamed_saved_append [simp]:
  "streamed (l @ l') = streamed l @ streamed l'" "saved (l @ l') = saved l @ saved l'"
  "streamed [] = []" "saved [] = []"
  "streamed (e # l) = (case e of Emitted (TextDelta t) \<Rightarrow> t | _ \<Rightarrow> []) @ streamed l"
  "saved (e # l) = (case e of Appended m \<Rightarrow> if msg_role m = Assistant then text_content m else [] | _ \<Rightarrow> []) @ saved l"
  by (simp_all add: streamed_def saved_def)

lemma lg_lagging: "lg (unsaved g) s \<Longrightarrow> lg lagging s"
  by (auto simp: lg_def lagging_def)

lemma exec_unsaved: "exec_stable (unsaved g)"
  by (auto simp: exec_stable_def exec_def calm_def is_text_def kept_by_def unsaved_def
      split: effect.splits agent_event.splits)

lemma unsaved_keep: "pres (lg (unsaved g)) m \<Longrightarrow> triple (lg (unsaved g)) m (\<lambda>_. lg (unsaved g)) (lg lagging)"
  unfolding pres_def by (erule triple_weaken) (auto simp: lg_lagging)

lemma text_delta_unsaved:
  "triple (lg (unsaved g)) (text_delta c g) (\<lambda>g'. lg (unsaved g')) (lg lagging)"
  by (auto simp: text_delta_def triple_def bind_t_def emit_def log_t_def ret_def unsaved_def lg_def
      split: option.splits)

lemma consume_unsaved:
  "triple (lg (unsaved g)) (consume_inference S stream g cs th) (\<lambda>r. lg (unsaved (snd r))) (lg lagging)"
proof (induction stream arbitrary: g cs th)
  case Nil
  show ?case
    unfolding consume_inference.simps
    by (rule triple_bind [OF unsaved_keep [OF pres_poll [OF exec_calm [OF exec_unsaved]]]]) (simp add: triple_ret)
next
  case (Cons item stream)
  have item: "triple (lg (unsaved g)) (case item of
      Inl e \<Rightarrow> fail e
    | Inr c \<Rightarrow>
        bind_t (handoff c) (\<lambda>_.
        bind_t (text_delta c g) (\<lambda>segment'.
          case ch_finish_reason c of
            Some reason \<Rightarrow> ret (round_end reason (calls_after c cs) (thinking_after c th), segment')
          | None \<Rightarrow> consume_inference S stream segment' (calls_after c cs) (thinking_after c th))))
    (\<lambda>r. lg (unsaved (snd r))) (lg lagging)"
    by (auto intro!: triple_bind [OF unsaved_keep [OF pres_handoff [OF exec_calm [OF exec_unsaved]]]]
        triple_bind [OF text_delta_unsaved] triple_ret Cons.IH split: sum.split option.split)
      (auto simp: triple_def fail_def lg_lagging)
  show ?case
    unfolding consume_inference.simps
    by (rule triple_bind [OF unsaved_keep [OF pres_poll [OF exec_calm [OF exec_unsaved]]]])
      (use item in \<open>auto intro: triple_ret\<close>)
qed

lemma persist_text_unsaved:
  "triple (lg (unsaved g)) (persist_assistant_text S g) (\<lambda>_. lg (unsaved [])) (lg lagging)"
  unfolding triple_def persist_assistant_text_def append_message_def new_message_text_def
  by (auto simp: bind_t_def bind_w_def act_ok_def call_def get_t_def log_t_def draw_w_def ret_def lg_def
      unsaved_def lagging_def text_content_def message_text_def List.map_filter_def
      split: prod.splits sum.splits)

lemma text_of_tool_call_blocks:
  "concat (List.map_filter block_text (tool_call_blocks J t calls th)) = t"
proof -
  have "List.map_filter block_text (map (\<lambda>c. ToolCallBlock (f c) (g c) (h c)) calls) = []" for f g h
    by (induction calls) (simp_all add: List.map_filter_def)
  moreover have "List.map_filter block_text (xs @ ys) =
      List.map_filter block_text xs @ List.map_filter block_text ys" for xs ys
    by (simp add: List.map_filter_def)
  ultimately show ?thesis
    by (auto simp: tool_call_blocks_def List.map_filter_def split: option.splits)
qed

lemma persist_calls_unsaved:
  "triple (lg (unsaved g)) (persist_assistant_tool_calls S g calls th) (\<lambda>_. lg (unsaved [])) (lg lagging)"
  unfolding triple_def persist_assistant_tool_calls_def append_message_def
  by (auto simp: bind_t_def call_def get_t_def log_t_def draw_w_def ret_def lg_def unsaved_def lagging_def
      text_content_def text_of_tool_call_blocks split: prod.splits sum.splits)

lemma drive_step_unsaved:
  "triple (lg (unsaved [])) (drive_step S) (\<lambda>_. lg (unsaved [])) (lg lagging)"
proof -
  have describe: "pres (lg (unsaved [])) (describe_tools S)"
    unfolding describe_tools_def by (intro pres_intros pres_log) (simp add: kept_by_def unsaved_def)
  have gen: "pres (lg (unsaved [])) (generate_t S req)" for req
    unfolding generate_t_def by (intro pres_intros pres_log) (simp add: kept_by_def unsaved_def)
  have "triple (lg (unsaved g)) (case outcome of
         RoundCancelled \<Rightarrow> bind_t (persist_assistant_text S g) (\<lambda>_. ret (Some FrCancelled))
       | RoundFinished reason \<Rightarrow> bind_t (persist_assistant_text S g) (\<lambda>_. ret (Some reason))
       | RoundToolCalls calls thinking \<Rightarrow>
           bind_t (persist_assistant_tool_calls S g calls thinking) (\<lambda>mid.
           run_tool_calls S mid ds calls)) (\<lambda>_. lg (unsaved [])) (lg lagging)" for ds outcome g
    by (cases outcome)
      (auto intro!: triple_bind [OF persist_text_unsaved] triple_bind [OF persist_calls_unsaved] triple_ret
        unsaved_keep pres_ret pres_run_tool_calls exec_unsaved)
  then have "triple (lg (unsaved [])) (after_generate S ds stream) (\<lambda>_. lg (unsaved [])) (lg lagging)" for ds stream
    unfolding after_generate_def by (intro triple_bind [OF consume_unsaved]) (auto split: prod.split)
  then show ?thesis
    unfolding drive_step_eq
    by (intro triple_bind [OF unsaved_keep [OF describe]] triple_bind [OF unsaved_keep [OF pres_get]]
        triple_bind [OF unsaved_keep [OF pres_call]] triple_bind [OF unsaved_keep [OF gen]])
qed

lemma drive_loop_unsaved:
  "triple (lg (unsaved [])) (drive_loop S n) (\<lambda>_. lg (unsaved [])) (lg lagging)"
proof (induction n)
  case 0
  show ?case
    unfolding drive_loop.simps by (intro unsaved_keep pres_intros exec_calm [OF exec_unsaved])
next
  case (Suc n)
  then show ?case
    unfolding drive_loop.simps
    by (intro triple_bind [OF drive_step_unsaved]) (auto intro: triple_ret split: option.split)
qed

section \<open>Where an invocation comes from\<close>

definition last_assistant :: "effect list \<Rightarrow> message option" where
  "last_assistant l =
     foldl (\<lambda>t e. case e of Appended m \<Rightarrow> if msg_role m = Assistant then Some m else t | _ \<Rightarrow> t) None l"

lemma last_assistant_snoc [simp]:
  "last_assistant (l @ [e]) =
     (case e of Appended m \<Rightarrow> if msg_role m = Assistant then Some m else last_assistant l | _ \<Rightarrow> last_assistant l)"
  by (cases e) (simp_all add: last_assistant_def)

lemma last_assistant_Some:
  "last_assistant l = Some m \<Longrightarrow>
     \<exists>a b. l = a @ Appended m # b \<and> msg_role m = Assistant \<and> (\<forall>m'. Appended m' \<in> set b \<longrightarrow> msg_role m' \<noteq> Assistant)"
proof (induction l rule: rev_induct)
  case Nil
  then show ?case by (simp add: last_assistant_def)
next
  case (snoc e l)
  show ?case
  proof (cases "\<exists>m'. e = Appended m' \<and> msg_role m' = Assistant")
    case True
    with snoc.prems show ?thesis by fastforce
  next
    case False
    with snoc.prems have "last_assistant l = Some m"
      by (auto split: effect.splits if_splits)
    with snoc.IH obtain a b where "l = a @ Appended m # b" "msg_role m = Assistant"
        "\<forall>m'. Appended m' \<in> set b \<longrightarrow> msg_role m' \<noteq> Assistant"
      by blast
    with False show ?thesis
      by (intro exI [of _ a] exI [of _ "b @ [e]"]) auto
  qed
qed

text \<open>An invocation carries out a call of a message.\<close>

definition carries_out :: "tool_invocation \<Rightarrow> message \<Rightarrow> bool" where
  "carries_out iv m \<longleftrightarrow>
     ti_message_id iv = msg_id m \<and> json_is_object (ti_args iv) \<and>
     (\<exists>call_id. ToolCallBlock call_id (ti_tool_id iv) (ti_args iv) \<in> set (msg_content m))"

definition call_entry :: "effect list \<Rightarrow> effect \<Rightarrow> bool" where
  "call_entry pre e =
     (case e of Invoked iv \<Rightarrow> (\<exists>m. last_assistant pre = Some m \<and> carries_out iv m) | _ \<Rightarrow> True)"

text \<open>The calls being executed are those of the last assistant message.\<close>

definition executing :: "(string \<Rightarrow> json option) \<Rightarrow> uuid \<Rightarrow> pending_tool_call list \<Rightarrow> effect list \<Rightarrow> bool" where
  "executing J mid calls l \<longleftrightarrow>
     every call_entry l \<and>
     (\<exists>m. last_assistant l = Some m \<and> msg_id m = mid \<and>
        (\<forall>c \<in> set calls. ToolCallBlock (pc_call_id c) (pc_tool_id c) (parse_args J (pc_args_raw c)) \<in> set (msg_content m)))"

lemma parse_args_object: "json_is_object (parse_args J raw)"
  by (auto simp: parse_args_def Let_def split: option.splits json.splits)

lemma executing_stable:
  "calm_stable (executing J mid calls)"
  "kept_by (executing J mid calls) (Audited a)"
  "msg_role m = Tool \<Longrightarrow> kept_by (executing J mid calls) (Appended m)"
  "c \<in> set calls \<Longrightarrow> ti_message_id iv = mid \<Longrightarrow> ti_tool_id iv = pc_tool_id c \<Longrightarrow>
     ti_args iv = parse_args J (pc_args_raw c) \<Longrightarrow> kept_by (executing J mid calls) (Invoked iv)"
  by (auto simp: calm_stable_def kept_by_def calm_def executing_def call_entry_def carries_out_def
      parse_args_object intro!: exI [of _ "pc_call_id c"] split: effect.splits)

lemma calls_kept: "(\<And>iv. e \<noteq> Invoked iv) \<Longrightarrow> kept_by (every call_entry) e"
  by (auto simp: kept_by_def call_entry_def split: effect.splits)

lemma calls_calm: "calm_stable (every call_entry)"
  by (auto simp: calm_stable_def calm_def intro!: calls_kept split: effect.splits)

lemma pres_execute_call:
  assumes "c \<in> set calls"
  shows "pres (lg (executing (sm_from_str S) mid calls)) (execute_tool_call S mid ds c)"
proof -
  note st = executing_stable
  have answer: "pres (lg (executing (sm_from_str S) mid calls)) (audit_and_answer S c args out res r)" for args out res r
    unfolding audit_and_answer_def audit_tool_call_def append_tool_result_def Let_def
    by (intro pres_intros pres_append_message pres_log st) simp
  have "pres (lg (executing (sm_from_str S) mid calls))
      (invoke_tool S mid c (parse_args (sm_from_str S) (pc_args_raw c)) r)" for r
    unfolding invoke_tool_def Let_def
    by (intro pres_intros pres_log answer st(1) st(4) [OF assms]) simp_all
  then show ?thesis
    unfolding execute_tool_call_def Let_def by (intro pres_intros pres_approval_gate answer st(1))
qed

lemma pres_execute_calls:
  "set cs \<subseteq> set calls \<Longrightarrow> pres (lg (executing (sm_from_str S) mid calls)) (run_tool_calls S mid ds cs)"
proof (induction cs)
  case Nil
  show ?case by (simp add: pres_ret)
next
  case (Cons c cs)
  then have "pres (lg (executing (sm_from_str S) mid calls)) (case x of StepCompleted \<Rightarrow> run_tool_calls S mid ds cs
      | StepCancelled \<Rightarrow> ret (Some FrCancelled))" for x
    by (cases x) (simp_all add: pres_ret)
  with Cons.prems show ?case
    unfolding run_tool_calls.simps by (intro pres_intros pres_execute_call executing_stable(1)) simp_all
qed

lemma persist_calls_executing:
  "triple (lg (every call_entry)) (persist_assistant_tool_calls S seg calls th)
     (\<lambda>mid. lg (executing (sm_from_str S) mid calls)) (lg (every call_entry))"
  unfolding triple_def persist_assistant_tool_calls_def append_message_def
  by (auto simp: bind_t_def call_def get_t_def log_t_def draw_w_def ret_def lg_def executing_def call_entry_def
      tool_call_blocks_def split: prod.splits sum.splits)

lemma pres_round_calls: "pres (lg (every call_entry)) (after_generate S ds stream)"
proof -
  have seg: "pres (lg (every call_entry)) (persist_assistant_text S seg)" for seg
    unfolding persist_assistant_text_def by (intro pres_intros pres_append_message calls_kept) simp
  have "triple (lg (executing (sm_from_str S) mid calls)) (run_tool_calls S mid ds calls)
      (\<lambda>_. lg (every call_entry)) (lg (every call_entry))" for mid calls
    by (rule triple_weaken [OF pres_triple [OF pres_execute_calls [OF subset_refl]]])
      (auto simp: lg_def executing_def)
  then have "pres (lg (every call_entry)) (bind_t (persist_assistant_tool_calls S seg calls th)
      (\<lambda>mid. run_tool_calls S mid ds calls))" for seg calls th
    unfolding pres_def by (intro triple_bind [OF persist_calls_executing])
  with seg show ?thesis
    unfolding after_generate_def
    by (intro pres_intros calls_calm calls_kept) (auto intro!: pres_intros split: round_outcome.splits)
qed

lemma pres_catch:
  assumes "pres I m" and "\<And>e. pres I (h e)"
  shows "pres I (catch_t m h)"
  unfolding pres_def triple_def
proof (intro allI impI)
  fix s
  assume "I s"
  moreover obtain r s' where m: "m s = (r, s')"
    by (cases "m s")
  ultimately have "I s'"
    using pres_run [OF assms(1), of s] by simp
  with assms(2) m show "case catch_t m h s of (Done x, s') \<Rightarrow> I s' | (Fail e, s') \<Rightarrow> I s' | (Parked, s') \<Rightarrow> I s'"
    by (cases r) (simp_all add: catch_t_def pres_def triple_def)
qed

lemma pres_turn_calls: "pres (lg (every call_entry)) (run S)"
proof -
  let ?I = "lg (every call_entry)"
  have emits: "pres ?I (emit ev)" for ev
    unfolding emit_def by (intro pres_log calls_kept) simp
  have "pres ?I (drive_step S)"
    unfolding drive_step_eq generate_t_def describe_tools_def
    by (intro pres_intros pres_log pres_round_calls calls_kept) simp_all
  then have loop: "pres ?I (drive_loop S n)" for n
    by (induction n) (auto intro!: pres_intros emits)
  have handle: "pres ?I (bind_t (emit ev) (\<lambda>_. ret FrError))" for ev
    by (intro pres_intros emits)
  have "pres ?I (catch_t (drive S) (\<lambda>e. bind_t (emit (ErrorEv (f e))) (\<lambda>_. ret FrError)))" for f
    unfolding drive_def by (rule pres_catch [OF loop handle])
  then show ?thesis
    unfolding run_def touch_conversation_def
    by (intro pres_intros emits pres_try_upsert calls_kept) simp_all
qed

section \<open>Properties\<close>

lemma demo_registry_ok: "registry_ok (en_approvals (engine_new i))"
  by (simp add: engine_new_def)

text \<open>C1: a tool that requires approval runs only after the surface approved this very call.
  Every invocation in a turn's log is of a tool of the last \<open>describe\<close>, and if that
  descriptor requires approval, the turn asked for an approval since its previous invocation
  and the surface answered it with yes before the tool was invoked.\<close>

theorem tool_runs_only_if_approved:
  assumes "registry_ok (en_approvals e)"
    and "run_turn S e cid user_text c surface w = (Inr (r, t), w')"
    and "tn_log t = pre @ Invoked iv # post"
  shows "\<exists>a m ds b d. pre = a @ Described m ds # b \<and> (\<forall>m' ds'. Described m' ds' \<notin> set b) \<and>
    find (\<lambda>d. td_id d = ti_tool_id iv) ds = Some d \<and>
    (td_requires_approval d \<longrightarrow>
       (\<exists>a' i summary b'. pre = a' @ Emitted (ApprovalRequired i summary) # b' \<and>
          Answered i True \<in> set b' \<and> (\<forall>iv'. Invoked iv' \<notin> set b')))"
proof -
  from run_turn_runs [OF assms(2)] obtain s m l where s: "(r, t) = run S s" "tn_engine s = e"
      "tn_log s = Appended m # l" "msg_role m = User" "l = [] \<or> (\<exists>conv. l = [Upserted conv])"
    by blast
  then have "lg (every gate_entry) t"
    using gated.run_keeps_log [OF start_idle(1), of s m l S] assms(1) by (metis snd_conv)
  then have "gate pre (ti_tool_id iv)"
    using everyD [of gate_entry "tn_log t" pre] assms(3) by (auto simp: lg_def gate_entry_def)
  then show ?thesis
    using current_tools_Some [of pre] approval_state_asked [of pre]
    unfolding gate_def asked_since_def by metis
qed

theorem tool_runs_only_if_approved_witness:
  "\<exists>t w' pre iv post. demo_turn [[], [], [Resolve 5 True], [Cancel]] = (Inr (Done (), t), w') \<and>
     tn_log t = pre @ Invoked iv # post \<and>
     (\<exists>a m ds b d. pre = a @ Described m ds # b \<and> find (\<lambda>d. td_id d = ti_tool_id iv) ds = Some d)"
proof -
  from demo_cancelled_call obtain t pre iv post where
    t: "demo_turn [[], [], [Resolve 5 True], [Cancel]] = (Inr (Done (), t), 7)"
      "tn_log t = pre @ Invoked iv # post"
    by metis
  with tool_runs_only_if_approved [OF demo_registry_ok t(1) [unfolded demo_turn_def] t(2)] show ?thesis
    by metis
qed

text \<open>C2: every tool result the model gets is recorded in the audit log first. A tool-result
  message is appended right after an audit event of the same session and call id; the event
  says \<open>Allowed\<close> exactly when the call's tool was invoked since the previous audit event, and
  \<open>Denied\<close> when it was not invoked.\<close>

theorem tool_result_is_audited:
  assumes "registry_ok (en_approvals e)"
    and "run_turn S e cid user_text c surface w = (Inr (r, t), w')"
    and "tn_log t = pre @ Appended m # post" and "msg_role m = Tool"
  shows "\<exists>p a. pre = p @ [Audited a] \<and> answers a m \<and>
    (au_outcome a = Allowed \<and> (\<exists>x iv y. p = x @ Invoked iv # y \<and> (\<forall>a'. Audited a' \<notin> set y) \<and>
       au_resource_ref a = Some (ti_tool_id iv)) \<or>
     au_outcome a = Denied \<and> open_invocation p = None)"
proof -
  from run_turn_runs [OF assms(2)] obtain s um l where s: "(r, t) = run S s" "tn_engine s = e"
      "tn_log s = Appended um # l" "msg_role um = User" "l = [] \<or> (\<exists>conv. l = [Upserted conv])"
    by blast
  then have ev: "every audit_entry (tn_log t)"
    using audits.run_keeps_log [OF start_idle(2), of s um l S] assms(1) by (metis lg_def snd_conv)
  from everyD [OF ev assms(3)] assms(4) obtain p a where p: "pre = p @ [Audited a]" "answers a m"
    by (auto simp: audit_entry_def)
  have "audit_matches p a"
    using everyD [OF ev, of p "Audited a" "Appended m # post"] assms(3) p(1) by (simp add: audit_entry_def)
  then show ?thesis
  proof (cases "open_invocation p")
    case None
    with p \<open>audit_matches p a\<close> show ?thesis
      by (auto simp: audit_matches_def)
  next
    case (Some iv)
    from open_invocation_Some [OF this] obtain x y where "p = x @ Invoked iv # y" "\<forall>a'. Audited a' \<notin> set y"
      by blast
    with Some p \<open>audit_matches p a\<close> show ?thesis
      by (auto simp: audit_matches_def)
  qed
qed

theorem tool_result_is_audited_witness:
  "\<exists>t w' p a m post. demo_turn [[], [], [Resolve 5 True], [], [Cancel]] = (Inr (Done (), t), w') \<and>
     tn_log t = (p @ [Audited a]) @ Appended m # post \<and> answers a m"
proof -
  from demo_audited_call obtain t pre m post where
    t: "demo_turn [[], [], [Resolve 5 True], [], [Cancel]] = (Inr (Done (), t), 11)"
      "tn_log t = pre @ Appended m # post" "msg_role m = Tool"
    by metis
  with tool_result_is_audited [OF demo_registry_ok t(1) [unfolded demo_turn_def] t(2,3)] show ?thesis
    by metis
qed

text \<open>The events of a turn, from the first to the last.\<close>

lemma turn_framed:
  assumes "registry_ok (en_approvals e)"
    and "run_turn S e cid user_text c surface w = (Inr (r, t), w')"
  shows "\<exists>conv w0 m evs. get_conversation S cid w = (Inr conv, w0) \<and>
    emitted (tn_log t) = TurnStarted (conv_id conv) (msg_id m) (conv_mode_at_creation conv) # evs \<and>
    hd (tn_log t) = Appended m \<and> msg_role m = User \<and> msg_conversation_id m = cid \<and> text_content m = user_text \<and>
    (r = Parked \<and> (\<forall>ev \<in> set evs. \<not> lifecycle ev) \<or>
     r = Done () \<and> (\<exists>evs' reason. evs = evs' @ [TurnFinished reason] \<and> (\<forall>ev \<in> set evs'. \<not> lifecycle ev)))"
proof -
  from run_turn_runs [OF assms(2)] obtain s m l where s: "(r, t) = run S s" "tn_engine s = e"
      "tn_log s = Appended m # l" "text_content m = user_text" "tn_user_message_id s = msg_id m"
      "l = [] \<or> (\<exists>conv. l = [Upserted conv])" "msg_role m = User" "msg_conversation_id m = cid"
      and conv: "\<exists>conv0 w0. get_conversation S cid w = (Inr conv0, w0) \<and>
        conv_id (tn_conversation s) = conv_id conv0 \<and> tn_mode s = conv_mode_at_creation conv0"
    by blast
  let ?st = "Emitted (TurnStarted (conv_id (tn_conversation s)) (tn_user_message_id s) (tn_mode s))"
  obtain r1 s1 where d: "drive S (s\<lparr>tn_log := tn_log s @ [?st]\<rparr>) = (r1, s1)"
    by (cases "drive S (s\<lparr>tn_log := tn_log s @ [?st]\<rparr>)")
  have "lg (grown (tn_log s @ [?st])) s1"
    using drive_grows [of "s\<lparr>tn_log := tn_log s @ [?st]\<rparr>" S] d assms(1) s(2) by simp
  then obtain x where x: "tn_log s1 = tn_log s @ ?st # x" "\<forall>ev. Emitted ev \<in> set x \<longrightarrow> \<not> lifecycle ev"
    by (auto simp: lg_def grown_def)
  have em: "emitted (tn_log s) = []"
    using s(3,6) by auto
  have ev: "\<not> lifecycle ev" if "ev \<in> set (emitted x)" for ev
    using that no_lifecycle [OF x(2)] by simp
  note fin = run_split [OF d, folded s(1)]
  from conv obtain conv0 w0 where c0: "get_conversation S cid w = (Inr conv0, w0)"
      "conv_id (tn_conversation s) = conv_id conv0" "tn_mode s = conv_mode_at_creation conv0"
    by blast
  let ?evs = "\<lambda>evs. r = Parked \<and> (\<forall>ev \<in> set evs. \<not> lifecycle ev) \<or>
     r = Done () \<and> (\<exists>evs' reason. evs = evs' @ [TurnFinished reason] \<and> (\<forall>ev \<in> set evs'. \<not> lifecycle ev))"
  have "\<exists>y. tn_log t = tn_log s1 @ y \<and> ?evs (emitted x @ emitted y)"
  proof (cases r1)
    case (Done reason)
    with fin obtain l' where "r = Done ()" "tn_log t = tn_log s1 @ l' @ [Emitted (TurnFinished reason)]"
        "l' = [] \<or> (\<exists>c. l' = [Upserted c])"
      by auto
    then show ?thesis
      using ev by (intro exI [of _ "l' @ [Emitted (TurnFinished reason)]"]) auto
  next
    case (Fail er)
    with fin obtain l' where "r = Done ()" "tn_log t = tn_log s1 @
        Emitted (ErrorEv (show_error (sm_show_uuid S) er)) # l' @ [Emitted (TurnFinished FrError)]"
        "l' = [] \<or> (\<exists>c. l' = [Upserted c])"
      by auto
    then show ?thesis
      using ev by (intro exI [of _ "Emitted (ErrorEv (show_error (sm_show_uuid S) er)) # l' @
          [Emitted (TurnFinished FrError)]"]) (auto simp: append_Cons [symmetric] simp del: append_Cons)
  next
    case Parked
    with fin have "r = Parked" "t = s1"
      by auto
    then show ?thesis
      using ev by auto
  qed
  then obtain y where y: "tn_log t = tn_log s1 @ y" "?evs (emitted x @ emitted y)"
    by blast
  have "emitted (tn_log t) = TurnStarted (conv_id conv0) (msg_id m) (conv_mode_at_creation conv0) # emitted x @ emitted y"
    by (simp add: y(1) x(1) em c0 s(5))
  moreover have "hd (tn_log t) = Appended m"
    by (simp add: y(1) x(1) s(3))
  ultimately show ?thesis
    using s c0(1) y(2)
    by (intro exI [of _ conv0] exI [of _ w0] exI [of _ m] exI [of _ "emitted x @ emitted y"]) simp
qed

text \<open>C3: a turn's events are framed and the runner never fails. The first event is
  \<open>TurnStarted\<close> with the conversation and the persisted user message; a turn that is not parked
  ends with exactly one \<open>TurnFinished\<close>, its last event; no other lifecycle event comes between.\<close>

theorem turn_events_framed:
  assumes "registry_ok (en_approvals e)"
    and "run_turn S e cid user_text c surface w = (Inr (r, t), w')"
  shows "\<exists>conv mid mode evs. emitted (tn_log t) = TurnStarted conv mid mode # evs \<and>
    (\<exists>m. hd (tn_log t) = Appended m \<and> msg_id m = mid \<and> text_content m = user_text) \<and>
    (r = Parked \<and> (\<forall>ev \<in> set evs. \<not> lifecycle ev) \<or>
     r = Done () \<and> (\<exists>evs' reason. evs = evs' @ [TurnFinished reason] \<and> (\<forall>ev \<in> set evs'. \<not> lifecycle ev)))"
  using turn_framed [OF assms] by blast

theorem turn_events_framed_witness:
  "\<exists>t w' conv mid mode evs. demo_turn [[], [], [Resolve 5 True], [Cancel]] = (Inr (Done (), t), w') \<and>
     emitted (tn_log t) = TurnStarted conv mid mode # evs @ [TurnFinished FrCancelled]"
proof -
  from demo_cancelled_call obtain t x where
    t: "demo_turn [[], [], [Resolve 5 True], [Cancel]] = (Inr (Done (), t), 7)"
      "tn_log t = x @ [Emitted (TurnFinished FrCancelled)]"
    by (metis append.assoc append_Cons append_Nil)
  from turn_events_framed [OF demo_registry_ok t(1) [unfolded demo_turn_def]] obtain conv mid mode evs reason where
    "emitted (tn_log t) = TurnStarted conv mid mode # evs @ [TurnFinished reason]"
    by blast
  moreover from this t(2) have "reason = FrCancelled"
    by (metis agent_event.inject(6) append_Cons emitted_append emitted_simps(1) emitted_simps(2)
        effect.case(1) last_snoc)
  ultimately show ?thesis
    using t(1) by metis
qed

text \<open>C4: a turn calls the model at most eight times, whatever the model answers.\<close>

theorem inference_rounds_bounded:
  assumes "registry_ok (en_approvals e)"
    and "run_turn S e cid user_text c surface w = (Inr (r, t), w')"
  shows "rounds (tn_log t) \<le> 8"
proof -
  from run_turn_runs [OF assms(2)] obtain s m l where s: "(r, t) = run S s" "tn_engine s = e"
      "tn_log s = Appended m # l" "l = [] \<or> (\<exists>conv. l = [Upserted conv])"
    by blast
  let ?st = "Emitted (TurnStarted (conv_id (tn_conversation s)) (tn_user_message_id s) (tn_mode s))"
  obtain r1 s1 where d: "drive S (s\<lparr>tn_log := tn_log s @ [?st]\<rparr>) = (r1, s1)"
    by (cases "drive S (s\<lparr>tn_log := tn_log s @ [?st]\<rparr>)")
  have "lg (\<lambda>l. rounds l \<le> 0) (s\<lparr>tn_log := tn_log s @ [?st]\<rparr>)"
    using s(2-4) assms(1) by auto
  from triple_run [OF drive_loop_rounds [of 0 S MAX_TOOL_STEPS] this] d
  have "lg (\<lambda>l. rounds l \<le> 0 + MAX_TOOL_STEPS) s1"
    by (simp add: drive_def)
  then have "rounds (tn_log s1) \<le> 8"
    by (simp add: lg_def MAX_TOOL_STEPS_def)
  then show ?thesis
    using run_split [OF d, folded s(1)] by (cases r1) (auto simp: rounds_append)
qed

theorem inference_rounds_bounded_witness:
  "\<exists>t w'. demo_turn [[], [], [Resolve 5 True], [], [Cancel]] = (Inr (Done (), t), w') \<and> rounds (tn_log t) \<le> 8"
proof -
  from demo_audited_call obtain t where
    t: "demo_turn [[], [], [Resolve 5 True], [], [Cancel]] = (Inr (Done (), t), 11)"
    by metis
  with inference_rounds_bounded [OF demo_registry_ok t [unfolded demo_turn_def]] show ?thesis
    by metis
qed

text \<open>C5: the text the surface was streamed is the text that is kept. Whatever happens, the
  assistant text persisted by a turn is a prefix of the text it streamed; when the turn
  finishes for a reason other than an error, the two are equal.\<close>

theorem streamed_text_is_persisted:
  assumes "registry_ok (en_approvals e)"
    and "run_turn S e cid user_text c surface w = (Inr (r, t), w')"
  shows "(\<exists>g. streamed (tn_log t) = saved (tn_log t) @ g) \<and>
    (\<forall>reason. last (emitted (tn_log t)) = TurnFinished reason \<longrightarrow> reason \<noteq> FrError \<longrightarrow>
       streamed (tn_log t) = saved (tn_log t))"
proof -
  from run_turn_runs [OF assms(2)] obtain s m l where s: "(r, t) = run S s" "tn_engine s = e"
      "tn_log s = Appended m # l" "msg_role m = User" "l = [] \<or> (\<exists>conv. l = [Upserted conv])"
    by blast
  let ?st = "Emitted (TurnStarted (conv_id (tn_conversation s)) (tn_user_message_id s) (tn_mode s))"
  let ?s = "s\<lparr>tn_log := tn_log s @ [?st]\<rparr>"
  obtain r1 s1 where d: "drive S ?s = (r1, s1)"
    by (cases "drive S ?s")
  have start: "lg (unsaved []) ?s"
    using s(2-5) assms(1) by (auto simp: unsaved_def)
  have grows: "lg (grown (tn_log s @ [?st])) s1"
    using drive_grows [of ?s S] d assms(1) s(2) by simp
  note run = drive_loop_unsaved [of S MAX_TOOL_STEPS, folded drive_def, unfolded triple_def, rule_format, OF start]
  note fin = run_split [OF d, folded s(1)]
  show ?thesis
  proof (cases r1)
    case (Done reason)
    with run d have "unsaved [] (tn_log s1)"
      by (simp add: lg_def)
    with Done fin show ?thesis
      by (auto simp: unsaved_def)
  next
    case (Fail er)
    with run d obtain g where "unsaved g (tn_log s1)"
      by (auto simp: lg_def lagging_def)
    with Fail fin show ?thesis
      by (auto simp: unsaved_def)
  next
    case Parked
    with run d obtain g where "unsaved g (tn_log s1)"
      by (auto simp: lg_def lagging_def)
    moreover have "last (emitted (tn_log s1)) \<noteq> TurnFinished reason" for reason
    proof -
      from grows obtain x where x: "tn_log s1 = tn_log s @ ?st # x" "\<forall>ev. Emitted ev \<in> set x \<longrightarrow> \<not> lifecycle ev"
        by (auto simp: lg_def grown_def)
      have "emitted x \<noteq> [] \<Longrightarrow> \<not> lifecycle (last (emitted x))"
        using no_lifecycle [OF x(2)] by simp
      then show ?thesis
        by (cases "emitted x = []") (auto simp: x(1))
    qed
    ultimately show ?thesis
      using Parked fin by (auto simp: unsaved_def)
  qed
qed

theorem streamed_text_is_persisted_witness:
  "\<exists>t w'. demo_turn [[], [], [Resolve 5 True], [Cancel]] = (Inr (Done (), t), w') \<and>
     streamed (tn_log t) = saved (tn_log t)"
proof -
  from demo_cancelled_call obtain t x where
    t: "demo_turn [[], [], [Resolve 5 True], [Cancel]] = (Inr (Done (), t), 7)"
      "tn_log t = x @ [Emitted (TurnFinished FrCancelled)]"
    by (metis append.assoc append_Cons append_Nil)
  then have "last (emitted (tn_log t)) = TurnFinished FrCancelled"
    by simp
  with streamed_text_is_persisted [OF demo_registry_ok t(1) [unfolded demo_turn_def]] t(1) show ?thesis
    by blast
qed



text \<open>An invoked tool may leave no audit event. There is a turn in which the surface
  approves a call, the tool is invoked, the surface then cancels, and the turn finishes with
  neither an audit event nor a tool result for the invocation.\<close>

theorem cancelled_invocation_not_audited:
  "\<exists>t w' pre iv post. demo_turn [[], [], [Resolve 5 True], [Cancel]] = (Inr (Done (), t), w') \<and>
     tn_log t = pre @ Invoked iv # post \<and> last post = Emitted (TurnFinished FrCancelled) \<and>
     list_all (\<lambda>e. case e of Audited a \<Rightarrow> False | Appended m \<Rightarrow> msg_role m \<noteq> Tool | _ \<Rightarrow> True) post"
proof -
  from demo_cancelled_call obtain t pre iv c where
    t: "demo_turn [[], [], [Resolve 5 True], [Cancel]] = (Inr (Done (), t), 7)"
      "tn_log t = pre @ Invoked iv # [CancelRequested, Upserted c, Emitted (TurnFinished FrCancelled)]"
    by metis
  show ?thesis
    by (intro exI conjI, rule t(1), rule t(2)) simp_all
qed

end
