(* ===== verification/Engine_Values.thy ===== *)
theory Engine_Values
  imports Demo_Turn
begin

text \<open>
  The values the engine computes on the way: the tool calls put together from a stream's
  deltas, their arguments, the content of a tool result, titles, summaries and the context
  window. Every theorem here is about all inputs.
\<close>

section \<open>Tool calls from deltas\<close>

definition accumulate :: "tool_call_delta list \<Rightarrow> pending_tool_call list \<Rightarrow> pending_tool_call list" where
  "accumulate tcs cs = foldl (\<lambda>cs tc. add_call_delta tc cs) cs tcs"

definition deltas :: "inference_chunk list \<Rightarrow> tool_call_delta list" where
  "deltas chunks = List.map_filter ch_tool_call_delta chunks"

text \<open>The deltas of one call, its first tool name that is not empty, and its arguments.\<close>

definition deltas_of :: "string \<Rightarrow> tool_call_delta list \<Rightarrow> tool_call_delta list" where
  "deltas_of i tcs = filter (\<lambda>tc. tcd_call_id tc = i) tcs"

definition tool_of :: "tool_call_delta list \<Rightarrow> string" where
  "tool_of tcs = (case find (\<lambda>t. t \<noteq> []) (map tcd_tool_id tcs) of Some t \<Rightarrow> t | None \<Rightarrow> [])"

definition assembled :: "tool_call_delta list \<Rightarrow> pending_tool_call \<Rightarrow> bool" where
  "assembled tcs c \<longleftrightarrow>
     pc_tool_id c = tool_of (deltas_of (pc_call_id c) tcs) \<and>
     pc_args_raw c = concat (map tcd_args_delta (deltas_of (pc_call_id c) tcs))"

lemma ids_add_call_delta:
  "map pc_call_id (add_call_delta tc cs) =
     (if tcd_call_id tc \<in> pc_call_id ` set cs then map pc_call_id cs
      else map pc_call_id cs @ [tcd_call_id tc])"
  by (induction cs) auto

lemma find_snoc:
  "find P (xs @ [x]) = (case find P xs of Some y \<Rightarrow> Some y | None \<Rightarrow> if P x then Some x else None)"
  by (induction xs) auto

lemma tool_of_snoc: "tool_of (tcs @ [tc]) = (if tool_of tcs = [] then tcd_tool_id tc else tool_of tcs)"
  by (auto simp: tool_of_def find_snoc split: option.splits dest: find_Some_in_set)

lemma deltas_of_snoc:
  "deltas_of i (tcs @ [tc]) = (if tcd_call_id tc = i then deltas_of i tcs @ [tc] else deltas_of i tcs)"
  by (simp add: deltas_of_def)

lemma add_call_delta_assembled:
  assumes "\<And>c. c \<in> set cs \<Longrightarrow> assembled tcs c" and "distinct (map pc_call_id cs)"
    and "tcd_call_id tc \<notin> pc_call_id ` set cs \<Longrightarrow> deltas_of (tcd_call_id tc) tcs = []"
    and "c \<in> set (add_call_delta tc cs)"
  shows "assembled (tcs @ [tc]) c"
  using assms
proof (induction cs)
  case Nil
  then show ?case
    by (simp add: assembled_def deltas_of_snoc tool_of_snoc) (simp add: tool_of_def)
next
  case (Cons d cs)
  show ?case
  proof (cases "pc_call_id d = tcd_call_id tc")
    case True
    then have "c = d\<lparr>pc_args_raw := pc_args_raw d @ tcd_args_delta tc,
        pc_tool_id := (if pc_tool_id d = [] \<and> tcd_tool_id tc \<noteq> [] then tcd_tool_id tc else pc_tool_id d)\<rparr> \<or>
      c \<in> set cs"
      using Cons.prems(4) by auto
    moreover have "pc_call_id c \<noteq> tcd_call_id tc" if "c \<in> set cs"
      using that Cons.prems(2) True by force
    ultimately show ?thesis
      using Cons.prems(1) [of d] Cons.prems(1) [of c] True
      by (auto simp: assembled_def deltas_of_snoc tool_of_snoc)
  next
    case False
    then have "c = d \<or> c \<in> set (add_call_delta tc cs)"
      using Cons.prems(4) by auto
    then show ?thesis
    proof
      assume "c = d"
      then show ?thesis
        using Cons.prems(1) [of d] False by (simp add: assembled_def deltas_of_snoc)
    next
      assume "c \<in> set (add_call_delta tc cs)"
      then show ?thesis
        using Cons.IH Cons.prems(1-3) False by auto
    qed
  qed
qed

lemma accumulate_snoc: "accumulate (tcs @ [tc]) cs = add_call_delta tc (accumulate tcs cs)"
  by (simp add: accumulate_def)

lemma accumulate_ids: "map pc_call_id (accumulate tcs []) = rev (remdups (rev (map tcd_call_id tcs)))"
proof (induction tcs rule: rev_induct)
  case Nil
  show ?case by (simp add: accumulate_def)
next
  case (snoc tc tcs)
  have "pc_call_id ` set (accumulate tcs []) = tcd_call_id ` set tcs"
    using arg_cong [OF snoc.IH, of set] by simp
  then show ?case
    by (simp add: accumulate_snoc ids_add_call_delta snoc.IH)
qed

lemma accumulate_assembled: "c \<in> set (accumulate tcs []) \<Longrightarrow> assembled tcs c"
proof (induction tcs arbitrary: c rule: rev_induct)
  case Nil
  then show ?case by (simp add: accumulate_def)
next
  case (snoc tc tcs)
  have "distinct (map pc_call_id (accumulate tcs []))"
    by (simp add: accumulate_ids)
  moreover have "pc_call_id ` set (accumulate tcs []) = tcd_call_id ` set tcs"
    using arg_cong [OF accumulate_ids [of tcs], of set] by simp
  moreover have "deltas_of i tcs = []" if "i \<notin> tcd_call_id ` set tcs" for i
    using that by (auto simp: deltas_of_def filter_empty_conv)
  ultimately show ?case
    using add_call_delta_assembled [of "accumulate tcs []" tcs tc c] snoc by (simp add: accumulate_snoc)
qed

lemma calls_after_accumulate: "calls_after c cs = accumulate (deltas [c]) cs"
  by (simp add: calls_after_def deltas_def List.map_filter_def accumulate_def split: option.splits)

lemma accumulate_append: "accumulate (xs @ ys) cs = accumulate ys (accumulate xs cs)"
  by (simp add: accumulate_def)

lemma deltas_Cons: "deltas (c # cs) = deltas [c] @ deltas cs"
  by (simp add: deltas_def List.map_filter_def)

lemma bind_t_Done:
  "bind_t m f s = (Done y, s') \<longleftrightarrow> (\<exists>x s1. m s = (Done x, s1) \<and> f x s1 = (Done y, s'))"
  by (auto simp: bind_t_def split: prod.splits step.splits)

lemma bind_t_DoneE:
  assumes "bind_t m f s = (Done y, s')"
  obtains x s1 where "m s = (Done x, s1)" "f x s1 = (Done y, s')"
  using assms by (auto simp: bind_t_Done)

definition chunk_texts :: "inference_chunk list \<Rightarrow> string" where
  "chunk_texts chunks = concat (List.map_filter ch_delta chunks)"

lemma text_delta_Done: "text_delta c seg s = (Done seg1, s1) \<Longrightarrow> seg1 = seg @ chunk_texts [c]"
  by (auto simp: text_delta_def chunk_texts_def List.map_filter_def bind_t_Done ret_def split: option.splits if_splits)

lemma chunk_texts_Cons: "chunk_texts (c # cs) = chunk_texts [c] @ chunk_texts cs"
  by (simp add: chunk_texts_def List.map_filter_def)

text \<open>The chunks a round that ends in tool calls consumed: up to and with the first that has a
  finish reason, which is \<open>ToolCall\<close>.\<close>

definition consumed :: "inference_chunk list \<Rightarrow> bool" where
  "consumed chunks \<longleftrightarrow> chunks \<noteq> [] \<and> ch_finish_reason (last chunks) = Some FrToolCall \<and>
     (\<forall>c \<in> set (butlast chunks). ch_finish_reason c = None)"

lemma consume_calls:
  "consume_inference S stream seg cs th s = (Done (RoundToolCalls calls thk, seg'), s') \<Longrightarrow>
     \<exists>chunks rest. stream = map Inr chunks @ rest \<and> consumed chunks \<and>
       calls = accumulate (deltas chunks) cs \<and> seg' = seg @ chunk_texts chunks \<and> calls \<noteq> []"
proof (induction stream arbitrary: seg cs th s)
  case Nil
  then show ?case
    by (auto simp: bind_t_Done ret_def split: if_splits)
next
  case (Cons item stream)
  let ?k = "\<lambda>c seg1. case ch_finish_reason c of
        Some reason \<Rightarrow> ret (round_end reason (calls_after c cs) (thinking_after c th), seg1)
      | None \<Rightarrow> consume_inference S stream seg1 (calls_after c cs) (thinking_after c th)"
  from Cons.prems [unfolded consume_inference.simps bind_t_Done] obtain b s0 where
    "(if b then ret (RoundCancelled, seg) else case item of Inl e \<Rightarrow> fail e
      | Inr c \<Rightarrow> bind_t (handoff c) (\<lambda>_. bind_t (text_delta c seg) (?k c))) s0 =
      (Done (RoundToolCalls calls thk, seg'), s')"
    by blast
  then obtain c where item: "item = Inr c" and
    "bind_t (handoff c) (\<lambda>_. bind_t (text_delta c seg) (?k c)) s0 = (Done (RoundToolCalls calls thk, seg'), s')"
    by (cases b; cases item) (simp_all add: ret_def fail_def)
  then obtain s2 seg1 s1 where seg1: "text_delta c seg s2 = (Done seg1, s1)"
      and rest: "?k c seg1 s1 = (Done (RoundToolCalls calls thk, seg'), s')"
    by (elim bind_t_DoneE) (rule that)
  show ?case
  proof (cases "ch_finish_reason c")
    case None
    with rest have "consume_inference S stream seg1 (calls_after c cs) (thinking_after c th) s1 =
        (Done (RoundToolCalls calls thk, seg'), s')"
      by simp
    from Cons.IH [OF this] obtain chunks rs where ih: "stream = map Inr chunks @ rs" "consumed chunks"
        "calls = accumulate (deltas chunks) (calls_after c cs)" "seg' = seg1 @ chunk_texts chunks" "calls \<noteq> []"
      by blast
    then have "item # stream = map Inr (c # chunks) @ rs" "calls = accumulate (deltas (c # chunks)) cs"
        "seg' = seg @ chunk_texts (c # chunks)" "consumed (c # chunks)"
      using None text_delta_Done [OF seg1]
      by (simp_all add: item calls_after_accumulate deltas_Cons [of c chunks] chunk_texts_Cons [of c chunks]
          accumulate_append consumed_def)
    with ih(5) show ?thesis
      by blast
  next
    case (Some reason)
    with rest have "calls = accumulate (deltas [c]) cs" "calls \<noteq> []" "reason = FrToolCall" "seg' = seg1"
      by (auto simp: ret_def round_end_def Let_def calls_after_accumulate split: finish_reason.splits if_splits)
    moreover from this Some have "item # stream = map Inr [c] @ stream" "consumed [c]" "seg' = seg @ chunk_texts [c]"
      using text_delta_Done [OF seg1] by (simp_all add: item consumed_def)
    ultimately show ?thesis
      by blast
  qed
qed

section \<open>Hex\<close>

lemma to_digit_hex_digit: "d < 16 \<Longrightarrow> to_digit (hex_digit d) = Some d"
  by (auto simp: to_digit_def hex_digit_def Let_def)

lemma decode_pairs_hex: "decode_pairs (concat (map hex_byte bs)) = Some bs"
proof (induction bs)
  case Nil
  show ?case by simp
next
  case (Cons b bs)
  have "unat b < 256"
    using unsigned_less [of b, where 'a = nat] by simp
  then have "unat b div 16 < 16" "unat b mod 16 < 16"
    by simp_all
  moreover have "(word_of_nat (unat b div 16 * 16 + unat b mod 16) :: u8) = b"
    by simp
  ultimately show ?case
    using Cons by (simp add: hex_byte_def to_digit_hex_digit del: div_mult_mod_eq)
qed

lemma length_hex: "length (concat (map hex_byte bs)) = 2 * length bs"
  by (induction bs) (simp_all add: hex_byte_def)

lemma length_decode_pairs: "decode_pairs s = Some bs \<Longrightarrow> even (length s) \<Longrightarrow> length s = 2 * length bs"
  by (induction s arbitrary: bs rule: decode_pairs.induct) (auto split: option.splits)

section \<open>Properties\<close>

text \<open>C6: tool calls are put together exactly from their deltas. When a round ends in tool
  calls, it consumed the provider's chunks up to and with the first one that has a finish reason,
  which is \<open>ToolCall\<close>. The calls come from all deltas of those chunks, the last one's included:
  one call per call id, in the order the ids first appear, with the first tool name that is not
  empty and the concatenation of all argument fragments of that id; the text of the round is the
  text of those chunks.\<close>

theorem tool_calls_assembled:
  assumes "consume_inference S stream [] [] ([], None) s = (Done (RoundToolCalls calls thk, text), s')"
  shows "\<exists>before fin rest. stream = map Inr (before @ [fin]) @ rest \<and>
    (\<forall>c \<in> set before. ch_finish_reason c = None) \<and> ch_finish_reason fin = Some FrToolCall \<and>
    map pc_call_id calls = rev (remdups (rev (map tcd_call_id (deltas (before @ [fin]))))) \<and> calls \<noteq> [] \<and>
    (\<forall>c \<in> set calls. assembled (deltas (before @ [fin])) c) \<and>
    text = concat (List.map_filter ch_delta (before @ [fin]))"
proof -
  from consume_calls [OF assms] obtain chunks rest where
    *: "stream = map Inr chunks @ rest" "consumed chunks" "calls = accumulate (deltas chunks) []" "calls \<noteq> []"
      "text = chunk_texts chunks"
    by auto
  then have "chunks = butlast chunks @ [last chunks]"
    by (simp add: consumed_def)
  then obtain before fin where ch: "chunks = before @ [fin]"
    by blast
  show ?thesis
    by (rule exI [of _ before], rule exI [of _ fin], rule exI [of _ rest])
      (use * in \<open>simp add: accumulate_ids accumulate_assembled consumed_def chunk_texts_def ch\<close>)
qed

text \<open>The stream of the witness: the arguments come in two pieces, the second in the last chunk.\<close>

definition demo_pieces :: inference_stream where
  "demo_pieces =
     [Inr (demo_tool_chunk\<lparr>ch_finish_reason := None, ch_tool_call_delta :=
        Some \<lparr>tcd_call_id = ''c1'', tcd_tool_id = ''shell'', tcd_args_delta = ''{''\<rparr>\<rparr>),
      Inr (demo_tool_chunk\<lparr>ch_delta := None, ch_tool_call_delta :=
        Some \<lparr>tcd_call_id = ''c1'', tcd_tool_id = [], tcd_args_delta = ''}''\<rparr>\<rparr>)]"

lemma demo_consume_pieces:
  "\<exists>s'. consume_inference demo_seams demo_pieces [] [] ([], None) demo_start =
     (Done (RoundToolCalls [\<lparr>pc_call_id = ''c1'', pc_tool_id = ''shell'', pc_args_raw = ''{}''\<rparr>] None, ''ok''), s')"
  by (simp add: demo_eval demo_start_def demo_pieces_def del: drive_loop.simps consume_inference.simps
      consume_tool_events.simps run_tool_calls.simps)

theorem tool_calls_assembled_witness:
  "\<exists>calls s'. consume_inference demo_seams demo_pieces [] [] ([], None) demo_start =
     (Done (RoundToolCalls calls None, ''ok''), s') \<and>
     calls = [\<lparr>pc_call_id = ''c1'', pc_tool_id = ''shell'', pc_args_raw = ''{}''\<rparr>] \<and>
     (\<exists>before fin rest. demo_pieces = map Inr (before @ [fin]) @ rest \<and> ch_finish_reason fin = Some FrToolCall \<and>
        (\<forall>c \<in> set calls. assembled (deltas (before @ [fin])) c))"
proof -
  from demo_consume_pieces obtain s' where d: "consume_inference demo_seams demo_pieces [] [] ([], None) demo_start =
     (Done (RoundToolCalls [\<lparr>pc_call_id = ''c1'', pc_tool_id = ''shell'', pc_args_raw = ''{}''\<rparr>] None, ''ok''), s')"
    by blast
  from tool_calls_assembled [OF d] obtain before fin rest where
    "demo_pieces = map Inr (before @ [fin]) @ rest" "ch_finish_reason fin = Some FrToolCall"
      "\<forall>c \<in> set [\<lparr>pc_call_id = ''c1'', pc_tool_id = ''shell'', pc_args_raw = ''{}''\<rparr>].
         assembled (deltas (before @ [fin])) c"
    by (elim exE conjE) (rule that)
  with d show ?thesis
    by blast
qed

text \<open>The arguments of a tool call are always a JSON object, whatever the model streamed: they
  are the parsed text when that is an object, and empty otherwise.\<close>

theorem parse_args_is_object:
  "json_is_object (parse_args from_str raw) \<and>
   parse_args from_str raw =
     (if str_trim raw \<noteq> [] \<and> (\<exists>m. from_str (str_trim raw) = Some (JObj m))
      then the (from_str (str_trim raw)) else JObj [])"
  by (auto simp: parse_args_def Let_def split: option.splits json.splits)

text \<open>Hex decoding inverts the hex encoding of a byte string, and accepts nothing of odd
  length: what it accepts has two digits for every byte.\<close>

theorem decode_hex_roundtrip:
  "decode_hex (concat (map hex_byte bs)) = Some bs \<and>
   (decode_hex s = Some cs \<longrightarrow> length s = 2 * length cs)"
  using length_decode_pairs [of s cs] by (auto simp: decode_hex_def decode_pairs_hex length_hex even_iff_mod_2_eq_zero)

theorem decode_hex_roundtrip_witness:
  "decode_hex ''0a'' = Some [10] \<and> length ''0a'' = 2 * length [10 :: u8]"
proof -
  have "decode_hex ''0a'' = Some [10]"
    by (simp add: decode_hex_def to_digit_def)
  with decode_hex_roundtrip [of "[]" "''0a''" "[10]"] show ?thesis
    by simp
qed

text \<open>Image bytes never reach the model as text. For an output with a non-empty
  \<open>image_hex\<close> field, the text of the tool result has every other field but \<open>note\<close> unchanged and
  no \<open>image_hex\<close>; an image block with the decoded picture is attached exactly when the model
  can see and the hex text decodes.\<close>

theorem image_bytes_stripped:
  assumes "bt_ok m" and "map_of m ''image_hex'' = Some (JStr hex)" and "hex \<noteq> []"
  shows "\<exists>m' imgs. tool_result_blocks base64 vision cid (JObj m) = ToolResultBlock cid (JObj m') # imgs \<and>
    map_of m' ''image_hex'' = None \<and>
    (\<forall>k. k \<noteq> ''image_hex'' \<longrightarrow> k \<noteq> ''note'' \<longrightarrow> map_of m' k = map_of m k) \<and>
    imgs = (case decode_hex hex of
        Some bs \<Rightarrow> if vision \<and> bs \<noteq> [] then [ImageBlock ''image/png'' (base64 bs)] else []
      | None \<Rightarrow> [])"
  using assms
  by (auto simp: tool_result_blocks_def screenshot_image_block_def Let_def map_of_bt_insert bt_ok_remove
      map_of_bt_remove split: option.splits)

theorem image_bytes_stripped_witness:
  "\<exists>m' imgs. tool_result_blocks (\<lambda>b. ''AA'') True ''c'' (JObj [(''image_hex'', JStr ''ff'')]) =
     ToolResultBlock ''c'' (JObj m') # imgs \<and> map_of m' ''image_hex'' = None \<and>
     imgs = [ImageBlock ''image/png'' ''AA'']"
  using image_bytes_stripped [of "[(''image_hex'', JStr ''ff'')]" "''ff''" "\<lambda>b. ''AA''" True "''c''"]
  by (auto simp: bt_ok_def decode_hex_def to_digit_def)

text \<open>A conversation's automatic title is never empty and has at most 48 characters, or 49
  with the ellipsis that marks a cut; it is cut between characters, never inside one.\<close>

theorem title_bounded:
  "title_from_text text \<noteq> [] \<and>
   (\<exists>line. line \<in> insert ''New conversation'' (set (map str_trim (str_lines text))) \<and>
      title_from_text text =
        (if length (str_chars line) \<le> 48 then line else concat (take 48 (str_chars line)) @ ellipsis))"
proof -
  define line where "line = (case find (\<lambda>l. l \<noteq> []) (map str_trim (str_lines text)) of
    Some l \<Rightarrow> l | None \<Rightarrow> ''New conversation'')"
  have "line \<in> insert ''New conversation'' (set (map str_trim (str_lines text)))" "line \<noteq> []"
    by (auto simp: line_def split: option.splits dest: find_Some_in_set)
  moreover have "title_from_text text =
      (if length (str_chars line) \<le> 48 then line else concat (take 48 (str_chars line)) @ ellipsis)"
    by (simp add: title_from_text_def line_def take_chars_def Let_def)
  ultimately show ?thesis
    by (auto simp: ellipsis_def utf8_def)
qed

text \<open>The context window is \<open>4\<close> characters per token, at least 2000 and saturating at the
  largest \<open>usize\<close>, so a huge request never wraps to a small window.\<close>

theorem context_window_bounds:
  "unat (en_context_budget_chars (set_context_window tokens e)) =
     max 2000 (min (unat tokens * 4) (2 ^ 64 - 1)) \<and>
   en_approvals (set_context_window tokens e) = en_approvals e"
proof -
  have "unat (max a b) = max (unat a) (unat b)" for a b :: usize
    by (simp add: max_def word_le_nat_alt)
  moreover have "unat (saturating_mul tokens 4) = min (unat tokens * 4) (2 ^ 64 - 1)"
    by (simp add: unat_saturating_mul)
  ultimately show ?thesis
    by (simp add: set_context_window_def max.commute)
qed

end
