(* ===== verification/Session.thy ===== *)
theory Session
  imports Contracts
begin

text \<open>
  Device sessions, \<open>crates/mahi-connectivity/src/session.rs\<close>: the manager that issues, checks
  and kills bearer tokens, and the bus that sends only while its session is active.

  The wall clock (\<open>Utc::now\<close>) and the monotonic clock (\<open>Instant::now\<close>) are arguments, both in
  nanoseconds, and so is what the random generator draws. HMAC-SHA256 is a parameter: a
  function of key and message. A life of a manager is a sequence of calls, as a step relation:
  \<open>Instant\<close> never goes back, the wall clock may. Every call takes the lock once, but
  \<open>set_controlling\<close>, which checks and then applies: any calls may come in between.
\<close>

section \<open>Tokens\<close>

datatype capability = CapInference | CapTakeover | CapFileXfr

record session_token =
  st_session_id :: uuid
  st_peer_id :: uuid
  st_issued_at :: datetime
  st_expires_at :: datetime
  st_capabilities :: "capability list"
  st_hmac :: bytes

definition has_capability :: "session_token \<Rightarrow> capability \<Rightarrow> bool" where
  "has_capability t c = (c \<in> set (st_capabilities t))"

fun capability_byte :: "capability \<Rightarrow> u8" where
  "capability_byte CapInference = 1"
| "capability_byte CapTakeover = 2"
| "capability_byte CapFileXfr = 3"

text \<open>The bytes of a \<open>Uuid\<close>, and \<open>i64::to_be_bytes\<close> in two's complement.\<close>

definition uuid_bytes :: "uuid \<Rightarrow> bytes" where
  "uuid_bytes u = be_bytes 16 (unat u)"

definition i64_be_bytes :: "int \<Rightarrow> bytes" where
  "i64_be_bytes i = be_bytes 8 (nat (i mod 2 ^ 64))"

definition canonical_bytes :: "session_token \<Rightarrow> bytes" where
  "canonical_bytes t =
     uuid_bytes (st_session_id t) @ uuid_bytes (st_peer_id t) @
     i64_be_bytes (timestamp_millis (st_issued_at t)) @
     i64_be_bytes (timestamp_millis (st_expires_at t)) @
     map capability_byte (st_capabilities t)"

section \<open>The session manager\<close>

record session_entry =
  se_token :: session_token
  se_last_activity :: int
  se_killed :: bool
  se_controlling :: bool

type_synonym mac = "bytes \<Rightarrow> bytes \<Rightarrow> bytes"

record session_manager =
  sg_signing_key :: bytes
  sg_idle_timeout :: int
  sg_default_ttl :: int
  sg_sessions :: "uuid \<rightharpoonup> session_entry"

record clocks =
  ck_utc :: datetime
  ck_instant :: int

definition with_config :: "bytes \<Rightarrow> int \<Rightarrow> int \<Rightarrow> session_manager" where
  "with_config key idle ttl =
     \<lparr>sg_signing_key = key, sg_idle_timeout = idle, sg_default_ttl = ttl, sg_sessions = Map.empty\<rparr>"

definition session_manager_new :: "bytes \<Rightarrow> session_manager" where
  "session_manager_new key = with_config key (15 * 60 * 1000000000) (8 * 3600 * 1000000000)"

definition session_err :: "(uuid \<Rightarrow> string) \<Rightarrow> uuid \<Rightarrow> string \<Rightarrow> connectivity_error" where
  "session_err u i reason = TransportError (''session '' @ u i @ '': '' @ reason)"

definition sign :: "mac \<Rightarrow> session_manager \<Rightarrow> session_token \<Rightarrow> bytes" where
  "sign H g t = H (sg_signing_key g) (canonical_bytes t)"

definition issue_with_ttl ::
  "mac \<Rightarrow> session_manager \<Rightarrow> clocks \<Rightarrow> uuid \<Rightarrow> uuid \<Rightarrow> capability list \<Rightarrow> int \<Rightarrow> session_token \<times> session_manager" where
  "issue_with_ttl H g ck fresh peer caps ttl =
     (let token0 = \<lparr>st_session_id = fresh, st_peer_id = peer, st_issued_at = ck_utc ck,
            st_expires_at = ck_utc ck + ttl, st_capabilities = caps, st_hmac = []\<rparr>;
          token = token0\<lparr>st_hmac := sign H g token0\<rparr>
      in (token, g\<lparr>sg_sessions := (sg_sessions g)(fresh \<mapsto>
            \<lparr>se_token = token, se_last_activity = ck_instant ck, se_killed = False,
             se_controlling = False\<rparr>)\<rparr>))"

definition issue ::
  "mac \<Rightarrow> session_manager \<Rightarrow> clocks \<Rightarrow> uuid \<Rightarrow> uuid \<Rightarrow> capability list \<Rightarrow> session_token \<times> session_manager" where
  "issue H g ck fresh peer caps = issue_with_ttl H g ck fresh peer caps (sg_default_ttl g)"

definition ensure_active ::
  "(uuid \<Rightarrow> string) \<Rightarrow> session_manager \<Rightarrow> clocks \<Rightarrow> uuid \<Rightarrow> connectivity_error + unit" where
  "ensure_active u g ck i =
     (case sg_sessions g i of
        None \<Rightarrow> Inl (session_err u i ''unknown session'')
      | Some e \<Rightarrow>
          if se_killed e then Inl (session_err u i ''session was killed'')
          else if st_expires_at (se_token e) \<le> ck_utc ck
          then Inl (session_err u i ''session token expired'')
          else if sg_idle_timeout g < ck_instant ck - se_last_activity e
          then Inl (session_err u i ''session idle timeout exceeded'')
          else Inr ())"

definition validate ::
  "mac \<Rightarrow> (uuid \<Rightarrow> string) \<Rightarrow> session_manager \<Rightarrow> clocks \<Rightarrow> session_token \<Rightarrow> connectivity_error + unit" where
  "validate H u g ck t =
     (if st_hmac t \<noteq> H (sg_signing_key g) (canonical_bytes t)
      then Inl (session_err u (st_session_id t) ''invalid token signature'')
      else ensure_active u g ck (st_session_id t))"

definition record_activity :: "session_manager \<Rightarrow> clocks \<Rightarrow> uuid \<Rightarrow> session_manager" where
  "record_activity g ck i =
     (case sg_sessions g i of
        Some e \<Rightarrow> g\<lparr>sg_sessions := (sg_sessions g)(i \<mapsto> e\<lparr>se_last_activity := ck_instant ck\<rparr>)\<rparr>
      | None \<Rightarrow> g)"

definition kill :: "session_manager \<Rightarrow> uuid \<Rightarrow> bool \<times> session_manager" where
  "kill g i =
     (case sg_sessions g i of
        Some e \<Rightarrow> (True, g\<lparr>sg_sessions := (sg_sessions g)(i \<mapsto> e\<lparr>se_killed := True, se_controlling := False\<rparr>)\<rparr>)
      | None \<Rightarrow> (False, g))"

text \<open>\<open>set_controlling\<close> locks the map twice: for the check, and then to apply the change.\<close>

definition apply_controlling ::
  "(uuid \<Rightarrow> string) \<Rightarrow> session_manager \<Rightarrow> uuid \<Rightarrow> bool \<Rightarrow> (connectivity_error + unit) \<times> session_manager" where
  "apply_controlling u g i controlling =
     (case sg_sessions g i of
        None \<Rightarrow> (Inl (session_err u i ''unknown session''), g)
      | Some e \<Rightarrow>
          if controlling \<and> \<not> has_capability (se_token e) CapTakeover
          then (Inl (session_err u i ''session lacks takeover capability''), g)
          else (Inr (), g\<lparr>sg_sessions := (sg_sessions g)(i \<mapsto> e\<lparr>se_controlling := controlling\<rparr>)\<rparr>))"

definition set_controlling ::
  "(uuid \<Rightarrow> string) \<Rightarrow> session_manager \<Rightarrow> clocks \<Rightarrow> uuid \<Rightarrow> bool \<Rightarrow>
     (connectivity_error + unit) \<times> session_manager" where
  "set_controlling u g ck i controlling =
     (case ensure_active u g ck i of
        Inl er \<Rightarrow> (Inl er, g)
      | Inr _ \<Rightarrow> apply_controlling u g i controlling)"

definition is_controlling :: "session_manager \<Rightarrow> uuid \<Rightarrow> bool" where
  "is_controlling g i =
     (case sg_sessions g i of Some e \<Rightarrow> se_controlling e \<and> \<not> se_killed e | None \<Rightarrow> False)"

text \<open>The ids come in the order of the map's keys, which \<open>keys\<close> lists.\<close>

definition active_sessions ::
  "(uuid \<Rightarrow> string) \<Rightarrow> session_manager \<Rightarrow> clocks \<Rightarrow> uuid list \<Rightarrow> uuid list" where
  "active_sessions u g ck keys = filter (\<lambda>i. is_ok (ensure_active u g ck i)) keys"

section \<open>The life of a manager\<close>

datatype session_call =
    Issue uuid uuid "capability list" int
  | RecordActivity uuid
  | Kill uuid
  | SetControlling uuid bool
  | ApplyControlling uuid bool

definition session_exec :: "mac \<Rightarrow> (uuid \<Rightarrow> string) \<Rightarrow> clocks \<Rightarrow> session_call \<Rightarrow> session_manager \<Rightarrow> session_manager" where
  "session_exec H u ck c g =
     (case c of
        Issue fresh peer caps ttl \<Rightarrow> snd (issue_with_ttl H g ck fresh peer caps ttl)
      | RecordActivity i \<Rightarrow> record_activity g ck i
      | Kill i \<Rightarrow> snd (kill g i)
      | SetControlling i b \<Rightarrow> snd (set_controlling u g ck i b)
      | ApplyControlling i b \<Rightarrow> snd (apply_controlling u g i b))"

text \<open>
  A step is a call; the monotonic clock is not behind its last reading, and a new session id is
  one the manager has not issued before. \<open>ApplyControlling\<close> is the second half of a
  \<open>set_controlling\<close> whose check passed at some earlier time.
\<close>

inductive session_step ::
  "mac \<Rightarrow> (uuid \<Rightarrow> string) \<Rightarrow> session_manager \<times> clocks \<Rightarrow> session_manager \<times> clocks \<Rightarrow> bool"
  for H :: mac and u :: "uuid \<Rightarrow> string" where
  session_call_step: "ck_instant ck \<le> ck_instant ck' \<Longrightarrow>
     (\<And>fresh peer caps ttl. c = Issue fresh peer caps ttl \<Longrightarrow> sg_sessions g fresh = None) \<Longrightarrow>
     session_step H u (g, ck) (session_exec H u ck' c g, ck')"
| session_wait_step: "ck_instant ck \<le> ck_instant ck' \<Longrightarrow>
     session_step H u (g, ck) (g, ck')"

inductive_cases session_stepE: "session_step H u (g, ck) s"

inductive session_steps ::
  "mac \<Rightarrow> (uuid \<Rightarrow> string) \<Rightarrow> session_manager \<times> clocks \<Rightarrow> session_manager \<times> clocks \<Rightarrow> bool"
  for H :: mac and u :: "uuid \<Rightarrow> string" where
  session_steps_refl: "session_steps H u s s"
| session_steps_more: "session_step H u s s' \<Longrightarrow> session_steps H u s' s'' \<Longrightarrow> session_steps H u s s''"

lemmas session_ops = issue_with_ttl_def record_activity_def kill_def set_controlling_def apply_controlling_def Let_def

text \<open>A sequence of calls with their clock readings.\<close>

definition session_run ::
  "mac \<Rightarrow> (uuid \<Rightarrow> string) \<Rightarrow> (clocks \<times> session_call) list \<Rightarrow> session_manager \<Rightarrow> session_manager" where
  "session_run H u calls g = fold (\<lambda>(ck, c). session_exec H u ck c) calls g"

definition activity :: "uuid \<Rightarrow> (clocks \<times> session_call) list \<Rightarrow> int list" where
  "activity i calls = map (ck_instant \<circ> fst) (filter (\<lambda>c. snd c = RecordActivity i) calls)"

section \<open>The bus bound to a session\<close>

text \<open>
  The wrapped bus is a parameter: its \<open>send\<close> on a state \<open>'b\<close>. \<open>SessionBoundBus::send\<close> gates it.
\<close>

definition bound_send ::
  "(uuid \<Rightarrow> string) \<Rightarrow> ('b \<Rightarrow> multiplexed_envelope \<Rightarrow> (connectivity_error + unit) \<times> 'b) \<Rightarrow> clocks \<Rightarrow> uuid \<Rightarrow>
     session_manager \<times> 'b \<Rightarrow> multiplexed_envelope \<Rightarrow> (connectivity_error + unit) \<times> session_manager \<times> 'b" where
  "bound_send u inner_send ck i s env =
     (case ensure_active u (fst s) ck i of
        Inl er \<Rightarrow> (Inl er, s)
      | Inr _ \<Rightarrow>
          let env' = env\<lparr>env_session_id := i\<rparr>;
              g' = record_activity (fst s) ck i
          in case inner_send (snd s) env' of (r, b') \<Rightarrow> (r, g', b'))"

section \<open>Invariant\<close>

text \<open>Every entry is filed under its token's id, and a controlling session is allowed to take over.\<close>

definition session_ok :: "session_manager \<Rightarrow> bool" where
  "session_ok g \<longleftrightarrow>
     (\<forall>i e. sg_sessions g i = Some e \<longrightarrow>
        st_session_id (se_token e) = i \<and>
        (se_controlling e \<longrightarrow> has_capability (se_token e) CapTakeover))"

lemma with_config_ok [simp]: "session_ok (with_config key idle ttl)"
  by (simp add: session_ok_def with_config_def)

lemma ensure_active_Inr:
  "ensure_active u g ck i = Inr () \<longleftrightarrow>
     (\<exists>e. sg_sessions g i = Some e \<and> \<not> se_killed e \<and> ck_utc ck < st_expires_at (se_token e) \<and>
        ck_instant ck - se_last_activity e \<le> sg_idle_timeout g)"
  by (auto simp: ensure_active_def split: option.splits)

lemma session_exec_ok: "session_ok g \<Longrightarrow> session_ok (session_exec H u ck c g)"
  by (cases c)
    (auto simp: session_exec_def session_ops session_ok_def ensure_active_def split: option.splits if_splits)

lemma session_steps_ok:
  assumes "session_steps H u (g, ck) (g', ck')" and "session_ok g"
  shows "session_ok g'"
  using assms
proof (induction "(g, ck)" "(g', ck')" arbitrary: g ck rule: session_steps.induct)
  case session_steps_refl
  then show ?case by simp
next
  case (session_steps_more s')
  from session_steps_more.hyps(1) session_steps_more.prems have "session_ok (fst s')"
    by (auto elim!: session_stepE intro: session_exec_ok)
  with session_steps_more.hyps(3) [of "fst s'" "snd s'"] show ?case by simp
qed

section \<open>The life of a session\<close>

text \<open>An entry keeps its token, and is never unkilled.\<close>

definition outlives :: "uuid \<Rightarrow> session_entry \<Rightarrow> session_manager \<Rightarrow> bool" where
  "outlives i e g \<longleftrightarrow>
     (\<exists>e'. sg_sessions g i = Some e' \<and> se_token e' = se_token e \<and> (se_killed e \<longrightarrow> se_killed e'))"

lemma outlives_exec:
  assumes "outlives i e g" and "\<And>fresh peer caps ttl. c = Issue fresh peer caps ttl \<Longrightarrow> fresh \<noteq> i"
  shows "outlives i e (session_exec H u ck c g)"
  using assms
  by (cases c) (auto simp: outlives_def session_exec_def session_ops split: option.splits sum.splits)

lemma outlives_step:
  assumes "session_step H u s s'" and "outlives i e (fst s)"
  shows "outlives i e (fst s')"
  using assms
proof (cases rule: session_step.cases)
  case (session_call_step ck ck' c g)
  have "fresh \<noteq> i" if "c = Issue fresh peer caps ttl" for fresh peer caps ttl
    using session_call_step(4) [OF that] assms(2) session_call_step(1) by (auto simp: outlives_def)
  with outlives_exec [of i e g c H u ck'] assms(2) session_call_step(1,2) show ?thesis
    by simp
qed simp

lemma outlives_steps: "session_steps H u s s' \<Longrightarrow> outlives i e (fst s) \<Longrightarrow> outlives i e (fst s')"
  by (induction rule: session_steps.induct) (auto intro: outlives_step)

text \<open>What a sequence of calls does to an entry.\<close>

lemma session_run_entry:
  assumes "sg_sessions g i = Some e" and "\<forall>(ck, c) \<in> set calls. \<forall>p cs tl. c \<noteq> Issue i p cs tl"
  shows "\<exists>e'. sg_sessions (session_run H u calls g) i = Some e' \<and> se_token e' = se_token e \<and>
    (se_killed e' \<longleftrightarrow> se_killed e \<or> Kill i \<in> snd ` set calls) \<and>
    se_last_activity e' = last (se_last_activity e # activity i calls)"
  using assms
proof (induction calls arbitrary: g e)
  case Nil
  then show ?case by (simp add: session_run_def activity_def)
next
  case (Cons p calls)
  obtain ck c where p: "p = (ck, c)"
    by fastforce
  have "\<exists>e1. sg_sessions (session_exec H u ck c g) i = Some e1 \<and> se_token e1 = se_token e \<and>
      (se_killed e1 \<longleftrightarrow> se_killed e \<or> c = Kill i) \<and>
      se_last_activity e1 = (if c = RecordActivity i then ck_instant ck else se_last_activity e)"
    using Cons.prems p
    by (cases c) (auto simp: session_exec_def session_ops split: option.splits sum.splits)
  then obtain e1 where e1: "sg_sessions (session_exec H u ck c g) i = Some e1" "se_token e1 = se_token e"
      "se_killed e1 \<longleftrightarrow> se_killed e \<or> c = Kill i"
      "se_last_activity e1 = (if c = RecordActivity i then ck_instant ck else se_last_activity e)"
    by blast
  from Cons.IH [OF e1(1)] Cons.prems(2) obtain e' where
    "sg_sessions (session_run H u calls (session_exec H u ck c g)) i = Some e'" "se_token e' = se_token e1"
    "se_killed e' \<longleftrightarrow> se_killed e1 \<or> Kill i \<in> snd ` set calls"
    "se_last_activity e' = last (se_last_activity e1 # activity i calls)"
    by auto
  with e1 show ?case
    by (auto simp: p session_run_def activity_def)
qed

lemma session_run_config:
  "sg_signing_key (session_run H u calls g) = sg_signing_key g \<and>
   sg_idle_timeout (session_run H u calls g) = sg_idle_timeout g"
proof -
  have "sg_signing_key (session_exec H u ck c g) = sg_signing_key g \<and>
      sg_idle_timeout (session_exec H u ck c g) = sg_idle_timeout g" for ck c g
    by (cases c) (auto simp: session_exec_def session_ops split: option.splits sum.splits)
  then show ?thesis
    unfolding session_run_def by (induction calls arbitrary: g) auto
qed

section \<open>Signed bytes\<close>

definition millis_fit :: "session_token \<Rightarrow> bool" where
  "millis_fit t \<longleftrightarrow>
     - (2 ^ 63) \<le> timestamp_millis (st_issued_at t) \<and> timestamp_millis (st_issued_at t) < 2 ^ 63 \<and>
     - (2 ^ 63) \<le> timestamp_millis (st_expires_at t) \<and> timestamp_millis (st_expires_at t) < 2 ^ 63"

lemma uuid_bytes_inject [simp]: "uuid_bytes a = uuid_bytes b \<longleftrightarrow> a = b"
proof -
  have "unat x < 256 ^ 16" for x :: uuid
    using unsigned_less [of x, where 'a = nat] by simp
  then show ?thesis
    by (simp add: uuid_bytes_def be_bytes_inject word_unat_eq_iff)
qed

lemma i64_be_bytes_inject:
  assumes "- (2 ^ 63) \<le> a" "a < 2 ^ 63" "- (2 ^ 63) \<le> b" "b < 2 ^ 63"
  shows "i64_be_bytes a = i64_be_bytes b \<longleftrightarrow> a = b"
proof -
  have lt: "nat (x mod 2 ^ 64) < 256 ^ 8" for x :: int
    by (simp add: nat_less_iff)
  have "a mod 2 ^ 64 = b mod 2 ^ 64 \<longleftrightarrow> a = b"
  proof
    assume "a mod 2 ^ 64 = b mod 2 ^ 64"
    then have "(2 ^ 64) dvd (a - b)"
      by (simp add: mod_eq_dvd_iff)
    then obtain k where "a - b = 2 ^ 64 * k"
      by (elim dvdE)
    with assms have "k < 1" "- 1 < k"
      by simp_all
    with \<open>a - b = 2 ^ 64 * k\<close> show "a = b"
      by simp
  qed simp
  moreover have "nat (a mod 2 ^ 64) = nat (b mod 2 ^ 64) \<longleftrightarrow> a mod 2 ^ 64 = b mod 2 ^ 64"
    by (rule eq_nat_nat_iff) simp_all
  ultimately show ?thesis
    unfolding i64_be_bytes_def be_bytes_inject [OF lt lt] by metis
qed

lemma capability_byte_inject: "map capability_byte xs = map capability_byte ys \<longleftrightarrow> xs = ys"
proof -
  have "inj capability_byte"
    by (rule injI) (case_tac x; case_tac y; simp)
  then show ?thesis
    by (simp add: inj_map_eq_map)
qed

lemma canonical_bytes_inject:
  assumes "millis_fit t" "millis_fit t'"
  shows "canonical_bytes t = canonical_bytes t' \<longleftrightarrow>
    st_session_id t = st_session_id t' \<and> st_peer_id t = st_peer_id t' \<and>
    timestamp_millis (st_issued_at t) = timestamp_millis (st_issued_at t') \<and>
    timestamp_millis (st_expires_at t) = timestamp_millis (st_expires_at t') \<and>
    st_capabilities t = st_capabilities t'"
proof -
  have len: "length (uuid_bytes x) = 16" "length (i64_be_bytes y) = 8" for x y
    by (simp_all add: uuid_bytes_def i64_be_bytes_def)
  show ?thesis
    using assms
    by (auto simp: canonical_bytes_def len i64_be_bytes_inject millis_fit_def capability_byte_inject)
qed

section \<open>Properties\<close>

text \<open>C19: a killed or expired session never works again. Whatever calls follow, at whatever later
  times, the session stays inactive: its checks fail, the token is refused, and a send on a bus
  bound to it fails without reaching the wrapped bus. A killed session is dead whatever the wall
  clock does, an expired one as long as the wall clock does not go back behind the reading at
  which it had expired.\<close>

theorem dead_session_stays_dead:
  assumes "sg_sessions g i = Some e"
    and "se_killed e \<or> st_expires_at (se_token e) \<le> ck_utc ck \<and> ck_utc ck \<le> ck_utc ck'"
    and "session_steps H u (g, ck) (g', ck')"
  shows "\<exists>er. ensure_active u g' ck' i = Inl er \<and>
    (\<forall>t. st_session_id t = i \<longrightarrow> \<not> is_ok (validate H u g' ck' t)) \<and>
    (\<forall>inner b env. bound_send u inner ck' i (g', b) env = (Inl er, g', b))"
proof -
  have "outlives i e g'"
    using outlives_steps [OF assms(3), of i e] assms(1) by (simp add: outlives_def)
  then obtain e' where e': "sg_sessions g' i = Some e'" "se_killed e' \<or> st_expires_at (se_token e') \<le> ck_utc ck'"
    using assms(2) unfolding outlives_def by fastforce
  then obtain er where "ensure_active u g' ck' i = Inl er"
    by (cases "se_killed e'") (auto simp: ensure_active_def)
  then show ?thesis
    by (auto simp: validate_def bound_send_def)
qed

theorem dead_session_stays_dead_witness:
  "let g = snd (issue_with_ttl (\<lambda>k m. k @ m) (session_manager_new [1]) \<lparr>ck_utc = 0, ck_instant = 0\<rparr> 7 9 [CapTakeover] 1000);
       g' = snd (kill g 7)
   in is_ok (ensure_active (\<lambda>_. []) g \<lparr>ck_utc = 1, ck_instant = 1\<rparr> 7) \<and>
      \<not> is_ok (ensure_active (\<lambda>_. []) g' \<lparr>ck_utc = 2, ck_instant = 2\<rparr> 7)"
proof -
  let ?g = "snd (issue_with_ttl (\<lambda>k m. k @ m) (session_manager_new [1]) \<lparr>ck_utc = 0, ck_instant = 0\<rparr> 7 9 [CapTakeover] 1000)"
  let ?g' = "snd (kill ?g 7)"
  have "\<exists>e. sg_sessions ?g' 7 = Some e \<and> se_killed e"
    by (simp add: issue_with_ttl_def kill_def Let_def)
  then obtain e where e: "sg_sessions ?g' 7 = Some e" "se_killed e"
    by blast
  have "session_steps (\<lambda>k m. k @ m) (\<lambda>_. []) (?g', \<lparr>ck_utc = 1, ck_instant = 1\<rparr>) (?g', \<lparr>ck_utc = 2, ck_instant = 2\<rparr>)"
    by (rule session_steps_more [OF session_wait_step session_steps_refl]) simp
  from dead_session_stays_dead [OF e(1) disjI1 [OF e(2)] this] have
    "\<not> is_ok (ensure_active (\<lambda>_. []) ?g' \<lparr>ck_utc = 2, ck_instant = 2\<rparr> 7)"
    by auto
  moreover have "ensure_active (\<lambda>_. []) ?g \<lparr>ck_utc = 1, ck_instant = 1\<rparr> 7 = Inr ()"
    unfolding ensure_active_Inr
    by (simp add: issue_with_ttl_def Let_def session_manager_new_def with_config_def)
  ultimately show ?thesis
    by (simp add: Let_def)
qed

text \<open>The takeover indicator is lit only for a session that may take over. In every state a
  manager can reach, a session that is controlling is not killed and its token carries the
  takeover capability.\<close>

theorem controlling_needs_takeover:
  assumes "session_steps H u (with_config key idle ttl, ck) (g, ck')" and "is_controlling g i"
  shows "\<exists>e. sg_sessions g i = Some e \<and> has_capability (se_token e) CapTakeover \<and> \<not> se_killed e \<and>
    st_session_id (se_token e) = i"
  using session_steps_ok [OF assms(1) with_config_ok] assms(2)
  by (auto simp: session_ok_def is_controlling_def split: option.splits)

theorem controlling_needs_takeover_witness:
  "\<exists>g. session_steps (\<lambda>k m. k @ m) (\<lambda>_. []) (with_config [1] 100 100, \<lparr>ck_utc = 0, ck_instant = 0\<rparr>)
       (g, \<lparr>ck_utc = 0, ck_instant = 0\<rparr>) \<and> is_controlling g 7 \<and>
     (\<exists>e. sg_sessions g 7 = Some e \<and> has_capability (se_token e) CapTakeover)"
proof -
  let ?ck = "\<lparr>ck_utc = 0, ck_instant = 0\<rparr>" and ?H = "\<lambda>k m. k @ m :: bytes"
  let ?g0 = "with_config [1] 100 100"
  let ?g1 = "session_exec ?H (\<lambda>_. []) ?ck (Issue 7 9 [CapTakeover] 100) ?g0"
  let ?g2 = "session_exec ?H (\<lambda>_. []) ?ck (SetControlling 7 True) ?g1"
  have "session_step ?H (\<lambda>_. []) (?g0, ?ck) (?g1, ?ck)"
    by (rule session_call_step) (simp_all add: with_config_def)
  moreover have "session_step ?H (\<lambda>_. []) (?g1, ?ck) (?g2, ?ck)"
    by (rule session_call_step) simp_all
  ultimately have steps: "session_steps ?H (\<lambda>_. []) (?g0, ?ck) (?g2, ?ck)"
    by (blast intro: session_steps.intros)
  moreover have "is_controlling ?g2 7"
    by (simp add: session_exec_def session_ops ensure_active_def with_config_def has_capability_def is_controlling_def)
  ultimately show ?thesis
    using controlling_needs_takeover [OF steps] by blast
qed

text \<open>C20: a token is accepted exactly while its session lives, and altering it means breaking the
  MAC. After a token was issued, and after any later calls (none of which issues its session id
  again), the token validates exactly when none of the calls killed the session, the wall clock
  is before the expiry, and the time since the last recorded activity (or since the issue) does
  not exceed the idle timeout. A token that is accepted with the tag of the issued one has the
  same session, peer, capabilities and times, in milliseconds; if not, it exhibits two different
  messages with one tag.\<close>

theorem token_validates_unaltered:
  assumes "issue_with_ttl H g ck fresh peer caps ttl = (t, g')"
    and "\<forall>(k, c) \<in> set calls. \<forall>p cs tl. c \<noteq> Issue fresh p cs tl"
    and "millis_fit t" and "millis_fit t'"
  shows "(is_ok (validate H u (session_run H u calls g') ck' t) \<longleftrightarrow>
      Kill fresh \<notin> snd ` set calls \<and> ck_utc ck' < ck_utc ck + ttl \<and>
      ck_instant ck' - last (ck_instant ck # activity fresh calls) \<le> sg_idle_timeout g) \<and>
    (is_ok (validate H u (session_run H u calls g') ck' t') \<longrightarrow> st_hmac t' = st_hmac t \<longrightarrow>
      st_session_id t' = fresh \<and> st_peer_id t' = peer \<and> st_capabilities t' = caps \<and>
      timestamp_millis (st_issued_at t') = timestamp_millis (ck_utc ck) \<and>
      timestamp_millis (st_expires_at t') = timestamp_millis (ck_utc ck + ttl) \<or>
      canonical_bytes t' \<noteq> canonical_bytes t \<and>
      H (sg_signing_key g) (canonical_bytes t') = H (sg_signing_key g) (canonical_bytes t))"
proof -
  define t0 where "t0 = \<lparr>st_session_id = fresh, st_peer_id = peer, st_issued_at = ck_utc ck,
    st_expires_at = ck_utc ck + ttl, st_capabilities = caps, st_hmac = []\<rparr>"
  let ?e = "\<lparr>se_token = t, se_last_activity = ck_instant ck, se_killed = False, se_controlling = False\<rparr>"
  let ?g = "session_run H u calls g'"
  have t: "t = t0\<lparr>st_hmac := H (sg_signing_key g) (canonical_bytes t0)\<rparr>"
    and g': "g' = g\<lparr>sg_sessions := (sg_sessions g)(fresh \<mapsto> ?e)\<rparr>"
    using assms(1) by (auto simp: issue_with_ttl_def Let_def sign_def t0_def)
  have tag: "st_hmac t = H (sg_signing_key g) (canonical_bytes t)" "st_session_id t = fresh"
      "st_expires_at t = ck_utc ck + ttl"
    by (simp_all add: t canonical_bytes_def t0_def)
  have cfg: "sg_signing_key ?g = sg_signing_key g" "sg_idle_timeout ?g = sg_idle_timeout g"
    using session_run_config [of H u calls g'] by (simp_all add: g')
  obtain e' where e': "sg_sessions ?g fresh = Some e'" "se_token e' = t" "se_killed e' \<longleftrightarrow> Kill fresh \<in> snd ` set calls"
      "se_last_activity e' = last (ck_instant ck # activity fresh calls)"
    using session_run_entry [of g' fresh ?e calls H u] assms(2) by (auto simp: g')
  have "is_ok (validate H u ?g ck' t) \<longleftrightarrow> is_ok (ensure_active u ?g ck' fresh)"
    by (simp add: validate_def cfg tag(1)) (simp add: tag(2))
  also have "\<dots> \<longleftrightarrow> Kill fresh \<notin> snd ` set calls \<and> ck_utc ck' < ck_utc ck + ttl \<and>
      ck_instant ck' - last (ck_instant ck # activity fresh calls) \<le> sg_idle_timeout g"
    unfolding ensure_active_def by (simp add: e' cfg(2) tag(3) not_le not_less)
  finally have live: "is_ok (validate H u ?g ck' t) \<longleftrightarrow> Kill fresh \<notin> snd ` set calls \<and> ck_utc ck' < ck_utc ck + ttl \<and>
      ck_instant ck' - last (ck_instant ck # activity fresh calls) \<le> sg_idle_timeout g" .
  have "H (sg_signing_key g) (canonical_bytes t') = H (sg_signing_key g) (canonical_bytes t)"
    if "is_ok (validate H u ?g ck' t')" "st_hmac t' = st_hmac t"
    using that tag(1) by (auto simp: validate_def cfg(1) split: if_splits)
  moreover have "st_session_id t' = fresh \<and> st_peer_id t' = peer \<and> st_capabilities t' = caps \<and>
      timestamp_millis (st_issued_at t') = timestamp_millis (ck_utc ck) \<and>
      timestamp_millis (st_expires_at t') = timestamp_millis (ck_utc ck + ttl)"
    if "canonical_bytes t' = canonical_bytes t"
    using canonical_bytes_inject [OF assms(4,3)] that by (simp add: t t0_def)
  ultimately show ?thesis
    using live by blast
qed

text \<open>In the witness the session is kept alive by activity at time 9 and killed later; the tag is a
  checksum, so that there are collisions.\<close>

theorem token_validates_unaltered_witness:
  "let H = \<lambda>k m. k @ [sum_list m];
       (t, g') = issue_with_ttl H (with_config [1] 10 20) \<lparr>ck_utc = 0, ck_instant = 0\<rparr> 7 9 [CapInference] 20;
       seen = [(\<lparr>ck_utc = 9, ck_instant = 9\<rparr>, RecordActivity 7)];
       now = \<lparr>ck_utc = 15, ck_instant = 15\<rparr>
   in is_ok (validate H (\<lambda>_. []) (session_run H (\<lambda>_. []) seen g') now t) \<and>
      \<not> is_ok (validate H (\<lambda>_. []) g' now t) \<and>
      \<not> is_ok (validate H (\<lambda>_. []) (session_run H (\<lambda>_. []) (seen @ [(now, Kill 7)]) g') now t)"
proof -
  let ?ck = "\<lparr>ck_utc = 0, ck_instant = 0\<rparr>" and ?H = "\<lambda>k m. k @ [sum_list m] :: bytes" and ?g = "with_config [1] 10 20"
  let ?seen = "[(\<lparr>ck_utc = 9, ck_instant = 9\<rparr>, RecordActivity 7)]" and ?now = "\<lparr>ck_utc = 15, ck_instant = 15\<rparr>"
  obtain t g' where t: "issue_with_ttl ?H ?g ?ck 7 9 [CapInference] 20 = (t, g')"
    by (cases "issue_with_ttl ?H ?g ?ck 7 9 [CapInference] 20")
  have fit: "millis_fit t"
    using t by (auto simp: issue_with_ttl_def Let_def millis_fit_def timestamp_millis_def)
  note law = token_validates_unaltered [OF t _ fit fit, where u = "\<lambda>_. []" and ck' = ?now]
  have idle: "sg_idle_timeout ?g = 10"
    by (simp add: with_config_def)
  have "session_run ?H (\<lambda>_. []) [] g' = g'"
    by (simp add: session_run_def)
  then show ?thesis
    unfolding Let_def t prod.case
    using law [of ?seen] law [of "[]"] law [of "?seen @ [(?now, Kill 7)]"]
    by (simp add: idle activity_def)
qed

end
