(* ===== verification/Pairing.thy ===== *)
theory Pairing
  imports Contracts
begin

text \<open>
  Enrolment of a peer, \<open>crates/mahi-connectivity/src/pairing.rs\<close>: a one-time challenge with a
  six-digit code, the tag that proves the peer saw the code, and the trust records. SHA-256
  and HMAC-SHA256 are parameters; the clock and the random draws are arguments.
\<close>

section \<open>Data\<close>

datatype pairing_method = MethodQr | MethodProximity | MethodCode

record placeholder_keypair =
  kp_public_key :: bytes
  kp_secret_key :: bytes

record pairing_challenge =
  pch_challenge_id :: uuid
  pch_code :: string
  pch_local_keypair :: placeholder_keypair
  pch_created_at :: datetime

record trust_record =
  tr_peer_id :: uuid
  tr_pairing_date :: datetime
  tr_local_private_key :: bytes
  tr_peer_public_key :: bytes
  tr_pairing_method :: pairing_method
  tr_revoked :: bool
  tr_revoked_at :: "datetime option"

record pairing_manager =
  pm_pending :: "uuid \<rightharpoonup> pairing_challenge"
  pm_trusted :: "uuid \<rightharpoonup> trust_record"

section \<open>Operations\<close>

definition pairing_manager_new :: pairing_manager where
  "pairing_manager_new = \<lparr>pm_pending = Map.empty, pm_trusted = Map.empty\<rparr>"

definition keypair_generate :: "(bytes \<Rightarrow> bytes) \<Rightarrow> bytes \<Rightarrow> placeholder_keypair" where
  "keypair_generate sha256 secret = \<lparr>kp_public_key = sha256 secret, kp_secret_key = secret\<rparr>"

text \<open>\<open>format!("{:06}", n)\<close>: at least six decimal digits.\<close>

fun decimal :: "nat \<Rightarrow> string" where
  "decimal n = (if n < 10 then [char_of (48 + n)] else decimal (n div 10) @ [char_of (48 + n mod 10)])"

declare decimal.simps [simp del]

definition pad_decimal :: "nat \<Rightarrow> nat \<Rightarrow> string" where
  "pad_decimal width n =
     (let d = decimal n in replicate (width - length d) CHR ''0'' @ d)"

definition begin_pairing ::
  "(bytes \<Rightarrow> bytes) \<Rightarrow> uuid \<Rightarrow> nat \<Rightarrow> bytes \<Rightarrow> datetime \<Rightarrow> pairing_manager \<Rightarrow>
     pairing_challenge \<times> pairing_manager" where
  "begin_pairing sha256 fresh n secret now m =
     (let challenge = \<lparr>pch_challenge_id = fresh, pch_code = pad_decimal 6 n,
            pch_local_keypair = keypair_generate sha256 secret, pch_created_at = now\<rparr>
      in (challenge, m\<lparr>pm_pending := (pm_pending m)(fresh \<mapsto> challenge)\<rparr>))"

definition confirmation_tag ::
  "(bytes \<Rightarrow> bytes \<Rightarrow> bytes) \<Rightarrow> string \<Rightarrow> bytes \<Rightarrow> bytes \<Rightarrow> bytes" where
  "confirmation_tag H code initiator_public responder_public =
     H (as_bytes code) (initiator_public @ responder_public)"

definition complete_pairing ::
  "(bytes \<Rightarrow> bytes \<Rightarrow> bytes) \<Rightarrow> (uuid \<Rightarrow> string) \<Rightarrow> datetime \<Rightarrow> uuid \<Rightarrow> uuid \<Rightarrow> bytes \<Rightarrow> bytes \<Rightarrow>
     pairing_method \<Rightarrow> pairing_manager \<Rightarrow> (connectivity_error + trust_record) \<times> pairing_manager" where
  "complete_pairing H u now challenge_id peer_id peer_public_key peer_tag meth m =
     (case pm_pending m challenge_id of
        None \<Rightarrow>
          (Inl (TransportError (''pairing: unknown or already-used challenge '' @ u challenge_id)), m)
      | Some challenge \<Rightarrow>
          let m1 = m\<lparr>pm_pending := (pm_pending m)(challenge_id := None)\<rparr>;
              expected = confirmation_tag H (pch_code challenge)
                (kp_public_key (pch_local_keypair challenge)) peer_public_key
          in if expected \<noteq> peer_tag
             then (Inl (TransportError ''pairing: confirmation tag mismatch (wrong code?)''), m1)
             else let record' = \<lparr>tr_peer_id = peer_id, tr_pairing_date = now,
                        tr_local_private_key = kp_secret_key (pch_local_keypair challenge),
                        tr_peer_public_key = peer_public_key, tr_pairing_method = meth,
                        tr_revoked = False, tr_revoked_at = None\<rparr>
                  in (Inr record', m1\<lparr>pm_trusted := (pm_trusted m1)(peer_id \<mapsto> record')\<rparr>))"

definition get_trust_record :: "pairing_manager \<Rightarrow> uuid \<Rightarrow> trust_record option" where
  "get_trust_record m peer = pm_trusted m peer"

definition is_trusted :: "pairing_manager \<Rightarrow> uuid \<Rightarrow> bool" where
  "is_trusted m peer = (case get_trust_record m peer of Some r \<Rightarrow> \<not> tr_revoked r | None \<Rightarrow> False)"

definition revoke_trust :: "datetime \<Rightarrow> uuid \<Rightarrow> pairing_manager \<Rightarrow> bool \<times> pairing_manager" where
  "revoke_trust now peer m =
     (case pm_trusted m peer of
        Some r \<Rightarrow> (True, m\<lparr>pm_trusted := (pm_trusted m)(peer \<mapsto> r\<lparr>tr_revoked := True, tr_revoked_at := Some now\<rparr>)\<rparr>)
      | None \<Rightarrow> (False, m))"

section \<open>Codes\<close>

definition is_ascii_digit :: "char \<Rightarrow> bool" where
  "is_ascii_digit c = (48 \<le> (of_char c :: nat) \<and> (of_char c :: nat) \<le> 57)"

lemma decimal_digits: "c \<in> set (decimal n) \<Longrightarrow> 48 \<le> (of_char c :: nat) \<and> (of_char c :: nat) \<le> 57"
proof (induction n rule: decimal.induct)
  case (1 n)
  show ?case
  proof (cases "n < 10")
    case True
    with "1.prems" show ?thesis
      by (simp add: decimal.simps [of n])
  next
    case False
    with 1 show ?thesis
      by (auto simp: decimal.simps [of n])
  qed
qed

lemma length_decimal: "n < 10 ^ k \<Longrightarrow> 0 < k \<Longrightarrow> length (decimal n) \<le> k"
proof (induction k arbitrary: n)
  case 0
  then show ?case by simp
next
  case (Suc k)
  show ?case
  proof (cases "n < 10")
    case True
    then show ?thesis by (simp add: decimal.simps [of n])
  next
    case False
    then have "0 < k"
      using Suc.prems by (cases k) auto
    moreover have "n div 10 < 10 ^ k"
      using Suc.prems by (simp add: less_mult_imp_div_less mult.commute)
    ultimately show ?thesis
      using Suc.IH False by (simp add: decimal.simps [of n])
  qed
qed

text \<open>Reading the digits back.\<close>

definition digits_value :: "string \<Rightarrow> nat" where
  "digits_value s = foldl (\<lambda>v c. v * 10 + (of_char c - 48)) 0 s"

lemma digits_value_decimal: "digits_value (decimal n) = n"
proof (induction n rule: decimal.induct)
  case (1 n)
  show ?case
  proof (cases "n < 10")
    case True
    then show ?thesis by (simp add: decimal.simps [of n] digits_value_def)
  next
    case False
    with 1 show ?thesis
      by (simp add: decimal.simps [of n] digits_value_def)
  qed
qed

lemma digits_value_zeros: "digits_value (replicate k CHR ''0'' @ s) = digits_value s"
proof -
  have "foldl (\<lambda>v c. v * 10 + (of_char c - 48)) (0 :: nat) (replicate k CHR ''0'') = 0"
    by (induction k) simp_all
  then show ?thesis
    by (simp add: digits_value_def)
qed

section \<open>Properties\<close>

text \<open>The pairing code is always six ASCII digits, and different draws below a million give
  different codes.\<close>

theorem pairing_code_six_digits:
  assumes "n < 1000000"
  shows "length (pad_decimal 6 n) = 6 \<and> list_all is_ascii_digit (pad_decimal 6 n) \<and>
    digits_value (pad_decimal 6 n) = n"
proof -
  have "length (decimal n) \<le> 6"
    using length_decimal [of n 6] assms by simp
  moreover have "list_all is_ascii_digit (decimal n)"
    using decimal_digits by (simp add: list_all_iff is_ascii_digit_def)
  ultimately show ?thesis
    by (auto simp: pad_decimal_def Let_def digits_value_zeros digits_value_decimal list_all_iff is_ascii_digit_def)
qed

theorem pairing_code_six_digits_witness:
  "length (pad_decimal 6 42) = 6 \<and> digits_value (pad_decimal 6 42) = 42"
  using pairing_code_six_digits [of 42] by simp

text \<open>C21: a challenge admits one attempt, and only the right tag gets trust. Completing a
  pending challenge succeeds exactly when the tag is the HMAC under the challenge's code of
  both public keys; the peer is then trusted with its key. A wrong tag changes no trust.
  Either way the challenge is consumed: any later attempt with it fails and changes nothing.\<close>

theorem pairing_is_one_shot:
  assumes "pm_pending m ch = Some c"
    and "complete_pairing H u now ch peer pk tag meth m = (r, m')"
  shows "(is_ok r \<longleftrightarrow> tag = confirmation_tag H (pch_code c) (kp_public_key (pch_local_keypair c)) pk) \<and>
    (is_ok r \<longrightarrow> is_trusted m' peer \<and>
       map_option tr_peer_public_key (get_trust_record m' peer) = Some pk) \<and>
    (\<not> is_ok r \<longrightarrow> pm_trusted m' = pm_trusted m) \<and>
    (\<forall>q. q \<noteq> peer \<longrightarrow> pm_trusted m' q = pm_trusted m q) \<and>
    (\<exists>er. complete_pairing H u now' ch peer' pk' tag' meth' m' = (Inl er, m'))"
  using assms
  by (auto simp: complete_pairing_def Let_def is_trusted_def get_trust_record_def split: if_splits)

theorem pairing_is_one_shot_witness:
  "let m = snd (begin_pairing (\<lambda>b. b) 1 42 [7] 0 pairing_manager_new);
       tag = confirmation_tag (\<lambda>k b. k @ b) (pad_decimal 6 42) [7] [9]
   in is_trusted (snd (complete_pairing (\<lambda>k b. k @ b) (\<lambda>_. []) 0 1 5 [9] tag MethodCode m)) 5"
proof -
  let ?m = "snd (begin_pairing (\<lambda>b. b) 1 42 [7] 0 pairing_manager_new)"
  let ?tag = "confirmation_tag (\<lambda>k b. k @ b) (pad_decimal 6 42) [7] [9]"
  have m: "pm_pending ?m 1 = Some \<lparr>pch_challenge_id = 1, pch_code = pad_decimal 6 42,
      pch_local_keypair = \<lparr>kp_public_key = [7], kp_secret_key = [7]\<rparr>, pch_created_at = 0\<rparr>"
    by (simp add: begin_pairing_def keypair_generate_def Let_def)
  from pairing_is_one_shot [OF m surjective_pairing, where tag = ?tag and pk = "[9]" and peer = 5
      and H = "\<lambda>k b. k @ b" and u = "\<lambda>_. []" and now = 0 and meth = MethodCode]
  show ?thesis
    by (simp add: Let_def)
qed

text \<open>Revocation holds until the peer pairs again. After \<open>revoke\<close> a known peer is not
  trusted, its record stays and says when it was revoked, and no other call on the manager
  but a successful pairing of that peer makes it trusted again.\<close>

theorem revoked_peer_not_trusted:
  assumes "pm_trusted m peer = Some r" and "revoke_trust now peer m = (known, m')"
  shows "known \<and> \<not> is_trusted m' peer \<and>
    map_option tr_revoked_at (get_trust_record m' peer) = Some (Some now) \<and>
    \<not> is_trusted (snd (begin_pairing sha256 fresh n secret now' m')) peer \<and>
    \<not> is_trusted (snd (revoke_trust now' q m')) peer \<and>
    (is_trusted (snd (complete_pairing H u now' ch q pk tag meth m')) peer \<longrightarrow>
       q = peer \<and> is_ok (fst (complete_pairing H u now' ch q pk tag meth m')))"
  using assms
  by (auto simp: revoke_trust_def is_trusted_def get_trust_record_def begin_pairing_def complete_pairing_def
      Let_def split: option.splits if_splits)

theorem revoked_peer_not_trusted_witness:
  "let r = \<lparr>tr_peer_id = 5, tr_pairing_date = 0, tr_local_private_key = [], tr_peer_public_key = [],
         tr_pairing_method = MethodQr, tr_revoked = False, tr_revoked_at = None\<rparr>;
       m = pairing_manager_new\<lparr>pm_trusted := [5 \<mapsto> r]\<rparr>
   in is_trusted m 5 \<and> \<not> is_trusted (snd (revoke_trust 3 5 m)) 5"
proof -
  let ?r = "\<lparr>tr_peer_id = 5, tr_pairing_date = 0, tr_local_private_key = [], tr_peer_public_key = [],
         tr_pairing_method = MethodQr, tr_revoked = False, tr_revoked_at = None\<rparr>"
  let ?m = "pairing_manager_new\<lparr>pm_trusted := [5 \<mapsto> ?r]\<rparr>"
  have "pm_trusted ?m 5 = Some ?r"
    by simp
  from revoked_peer_not_trusted [OF this surjective_pairing, of 3] show ?thesis
    by (simp add: Let_def is_trusted_def get_trust_record_def)
qed

end
