(* ===== verification/Peers.thy ===== *)
theory Peers
  imports Store_Spec
begin

text \<open>
  The table of known peers, \<open>crates/mahi-connectivity/src/peers.rs\<close>. It is an interpretation of
  the keyed-store contract of theory \<open>Store_Spec\<close>, so it refines a map; the load hints it keeps
  are clamped.
\<close>

section \<open>Data\<close>

datatype peer_transport = Mdns | QuicDirect | Relay | Tcp

record peer_address =
  pa_transport :: peer_transport
  pa_addr :: string

datatype reachability = ReachUnknown | Reachable | Unreachable

record peer_descriptor =
  pd_peer_id :: uuid
  pd_display_name :: string
  pd_public_key :: bytes
  pd_addresses :: "peer_address list"
  pd_reachability :: reachability
  pd_last_seen :: datetime
  pd_latency_ms :: "u32 option"
  pd_load_hint :: "f32 option"

record peer_registry_snapshot =
  ps_taken_at :: datetime
  ps_peers :: "peer_descriptor list"

type_synonym peer_registry = "uuid \<rightharpoonup> peer_descriptor"

section \<open>Operations\<close>

definition peer_descriptor_new :: "datetime \<Rightarrow> uuid \<Rightarrow> string \<Rightarrow> bytes \<Rightarrow> peer_descriptor" where
  "peer_descriptor_new now peer name key =
     \<lparr>pd_peer_id = peer, pd_display_name = name, pd_public_key = key, pd_addresses = [],
      pd_reachability = ReachUnknown, pd_last_seen = now, pd_latency_ms = None, pd_load_hint = None\<rparr>"

definition peers_new :: peer_registry where
  "peers_new = Map.empty"

definition peers_upsert :: "peer_descriptor \<Rightarrow> peer_registry \<Rightarrow> peer_registry" where
  "peers_upsert d r = r(pd_peer_id d \<mapsto> d)"

definition peers_get :: "peer_registry \<Rightarrow> uuid \<Rightarrow> peer_descriptor option" where
  "peers_get r i = r i"

definition peers_remove :: "uuid \<Rightarrow> peer_registry \<Rightarrow> peer_descriptor option \<times> peer_registry" where
  "peers_remove i r = (r i, r(i := None))"

text \<open>\<open>if let Some(peer) = peers.get_mut(&id) { .. }\<close>\<close>

definition modify_peer ::
  "uuid \<Rightarrow> (peer_descriptor \<Rightarrow> peer_descriptor) \<Rightarrow> peer_registry \<Rightarrow> peer_registry" where
  "modify_peer i f r = (case r i of Some d \<Rightarrow> r(i \<mapsto> f d) | None \<Rightarrow> r)"

definition mark_seen :: "datetime \<Rightarrow> uuid \<Rightarrow> reachability \<Rightarrow> peer_registry \<Rightarrow> peer_registry" where
  "mark_seen now i reach = modify_peer i (\<lambda>d. d\<lparr>pd_last_seen := now, pd_reachability := reach\<rparr>)"

definition record_latency :: "uuid \<Rightarrow> u32 \<Rightarrow> peer_registry \<Rightarrow> peer_registry" where
  "record_latency i ms = modify_peer i (\<lambda>d. d\<lparr>pd_latency_ms := Some ms\<rparr>)"

text \<open>\<open>f32::clamp(0.0, 1.0)\<close>: a \<open>NaN\<close> stays one.\<close>

fun clamp01 :: "f32 \<Rightarrow> f32" where
  "clamp01 FNaN = FNaN"
| "clamp01 FNegInf = Fin 0"
| "clamp01 FPosInf = Fin 1"
| "clamp01 (Fin x) = (if x < 0 then Fin 0 else if 1 < x then Fin 1 else Fin x)"

definition record_load_hint :: "uuid \<Rightarrow> f32 \<Rightarrow> peer_registry \<Rightarrow> peer_registry" where
  "record_load_hint i load = modify_peer i (\<lambda>d. d\<lparr>pd_load_hint := Some (clamp01 load)\<rparr>)"

text \<open>The peers of a snapshot come in the order of the map's keys, which \<open>keys\<close> lists.\<close>

definition snapshot :: "datetime \<Rightarrow> uuid list \<Rightarrow> peer_registry \<Rightarrow> peer_registry_snapshot" where
  "snapshot now keys r = \<lparr>ps_taken_at = now, ps_peers = List.map_filter r keys\<rparr>"

section \<open>The table as a keyed store\<close>

interpretation peers: keyed_store_del
  "\<lambda>r i. Inr (peers_get r i) :: unit + peer_descriptor option" "\<lambda>r (n :: unit) d. Inr (peers_upsert d r)"
  pd_peer_id "\<lambda>r. True" "\<lambda>r i. Inr (snd (peers_remove i r))"
  by unfold_locales (auto simp: peers_get_def peers_upsert_def peers_remove_def)

definition peers_ok :: "peer_registry \<Rightarrow> bool" where
  "peers_ok r \<longleftrightarrow> (\<forall>i d. r i = Some d \<longrightarrow> pd_peer_id d = i)"

definition peer_update :: "(peer_registry \<Rightarrow> peer_registry) \<Rightarrow> bool" where
  "peer_update f \<longleftrightarrow>
     (\<exists>d. f = peers_upsert d) \<or> (\<exists>i. f = (\<lambda>r. snd (peers_remove i r))) \<or>
     (\<exists>now i reach. f = mark_seen now i reach) \<or> (\<exists>i ms. f = record_latency i ms) \<or>
     (\<exists>i load. f = record_load_hint i load)"

lemma modify_peer_ok:
  "peers_ok r \<Longrightarrow> (\<And>d. pd_peer_id (f d) = pd_peer_id d) \<Longrightarrow> peers_ok (modify_peer i f r)"
  by (auto simp: peers_ok_def modify_peer_def split: option.splits if_splits)

lemma peer_update_ok: "peer_update f \<Longrightarrow> peers_ok r \<Longrightarrow> peers_ok (f r)"
  unfolding peer_update_def mark_seen_def record_latency_def record_load_hint_def
  by (auto intro!: modify_peer_ok) (auto simp: peers_ok_def peers_upsert_def peers_remove_def)

lemma fold_peers_ok: "list_all peer_update fs \<Longrightarrow> peers_ok r \<Longrightarrow> peers_ok (fold (\<lambda>f r. f r) fs r)"
proof (induction fs arbitrary: r)
  case (Cons f fs)
  then show ?case using peer_update_ok [of f r] by simp
qed simp

lemma map_filter_peer_ids:
  "peers_ok r \<Longrightarrow> set ks \<subseteq> dom r \<Longrightarrow> map pd_peer_id (List.map_filter r ks) = ks"
  by (induction ks) (auto simp: List.map_filter_simps peers_ok_def split: option.splits)

lemma set_map_filter_dom:
  assumes "set keys = dom r"
  shows "set (List.map_filter r keys) = ran r"
proof -
  have "set (List.map_filter r ks) = {d. \<exists>k \<in> set ks. r k = Some d}" for ks
    by (induction ks) (auto simp: List.map_filter_simps split: option.splits)
  then show ?thesis
    using assms by (auto simp: ran_def)
qed

section \<open>Properties\<close>

text \<open>A peer-reported load hint is stored in \<open>0.0..=1.0\<close>, exactly as reported when it lies
  there, and nothing else of the table changes; the one value that escapes the clamp is \<open>NaN\<close>,
  which is stored as it is.\<close>

theorem load_hint_clamped:
  assumes "r i = Some d"
  shows "\<exists>v. peers_get (record_load_hint i load r) i = Some (d\<lparr>pd_load_hint := Some v\<rparr>) \<and>
    (load = FNaN \<longrightarrow> v = FNaN) \<and>
    (load \<noteq> FNaN \<longrightarrow> (\<exists>x. v = Fin x \<and> 0 \<le> x \<and> x \<le> 1 \<and>
       (\<forall>y. load = Fin y \<longrightarrow> 0 \<le> y \<longrightarrow> y \<le> 1 \<longrightarrow> x = y))) \<and>
    (\<forall>j. j \<noteq> i \<longrightarrow> peers_get (record_load_hint i load r) j = peers_get r j)"
  using assms
  by (cases load) (auto simp: record_load_hint_def modify_peer_def peers_get_def)

theorem load_hint_clamped_witness:
  "\<exists>v. peers_get (record_load_hint 7 (Fin 2) (peers_upsert (peer_descriptor_new 0 7 ''Mac'' []) peers_new)) 7 =
     Some ((peer_descriptor_new 0 7 ''Mac'' [])\<lparr>pd_load_hint := Some v\<rparr>) \<and> (\<exists>x. v = Fin x \<and> x \<le> 1)"
proof -
  have "(peers_upsert (peer_descriptor_new 0 7 ''Mac'' []) peers_new) 7 = Some (peer_descriptor_new 0 7 ''Mac'' [])"
    by (simp add: peers_upsert_def peer_descriptor_new_def)
  then show ?thesis
    using load_hint_clamped [of "peers_upsert (peer_descriptor_new 0 7 ''Mac'' []) peers_new" 7 _ "Fin 2"]
    by blast
qed

text \<open>After any calls, every entry of the table is filed under its own peer id, and a
  snapshot taken with the table's keys holds exactly the entries of the table.\<close>

theorem peer_snapshot_exact:
  assumes "list_all peer_update fs" and "distinct keys" and "set keys = dom (fold (\<lambda>f r. f r) fs peers_new)"
  shows "set (ps_peers (snapshot now keys (fold (\<lambda>f r. f r) fs peers_new))) =
      ran (fold (\<lambda>f r. f r) fs peers_new) \<and>
    distinct (map pd_peer_id (ps_peers (snapshot now keys (fold (\<lambda>f r. f r) fs peers_new))))"
proof -
  let ?r = "fold (\<lambda>f r. f r) fs peers_new"
  have ok: "peers_ok ?r"
    by (rule fold_peers_ok [OF assms(1)]) (simp add: peers_ok_def peers_new_def)
  have "map pd_peer_id (List.map_filter ?r keys) = keys"
    using map_filter_peer_ids [OF ok] assms(3) by simp
  moreover have "set (List.map_filter ?r keys) = ran ?r"
    by (rule set_map_filter_dom [OF assms(3)])
  ultimately show ?thesis
    using assms(2) by (simp add: snapshot_def)
qed

theorem peer_snapshot_exact_witness:
  "ps_peers (snapshot 0 [7] (peers_upsert (peer_descriptor_new 0 7 ''Mac'' []) peers_new)) =
     [peer_descriptor_new 0 7 ''Mac'' []] \<and>
   set (ps_peers (snapshot 0 [7] (peers_upsert (peer_descriptor_new 0 7 ''Mac'' []) peers_new))) =
     ran (peers_upsert (peer_descriptor_new 0 7 ''Mac'' []) peers_new)"
proof -
  let ?f = "peers_upsert (peer_descriptor_new 0 7 ''Mac'' [])"
  have "list_all peer_update [?f]"
    by (auto simp: peer_update_def)
  moreover have "set [7] = dom (fold (\<lambda>f r. f r) [?f] peers_new)"
    by (simp add: peers_upsert_def peers_new_def peer_descriptor_new_def)
  ultimately have "set (ps_peers (snapshot 0 [7] (?f peers_new))) = ran (?f peers_new)"
    using peer_snapshot_exact [of "[?f]" "[7]" 0] by simp
  then show ?thesis
    by (simp add: snapshot_def peers_upsert_def peer_descriptor_new_def List.map_filter_simps)
qed

end
