(* ===== verification/Bus.thy ===== *)
theory Bus
  imports Session
begin

text \<open>
  The multiplexed bus, \<open>crates/mahi-connectivity/src/bus.rs\<close>: per-channel fan-out to
  subscribers, the two send queues with strict priority for \<open>Control\<close>, and the in-process bus
  with its dispatcher.

  A \<open>tokio\<close> broadcast receiver is the list of the envelopes it has not read; when a channel
  holds more than its capacity for a slow subscriber, the oldest are dropped. A bounded
  \<open>mpsc\<close> queue is a list with a depth; a \<open>send\<close> on a full queue waits, which is the result
  \<open>None\<close>. The dispatcher's loop is one step per envelope.
\<close>

section \<open>Fan-out\<close>

definition ALL_CHANNELS :: "channel_id list" where
  "ALL_CHANNELS = [Control, Inference, Sync, Approval, StreamVideo, Input, FileXfr, Audio]"

record subscriber =
  sub_channel :: channel_id
  sub_unread :: "multiplexed_envelope list"

record channel_router =
  cr_capacity :: nat
  cr_subscribers :: "subscriber list"

definition channel_router_new :: "nat \<Rightarrow> channel_router" where
  "channel_router_new capacity = \<lparr>cr_capacity = capacity, cr_subscribers = []\<rparr>"

definition keep_last :: "nat \<Rightarrow> 'a list \<Rightarrow> 'a list" where
  "keep_last n xs = drop (length xs - n) xs"

definition deliver :: "nat \<Rightarrow> multiplexed_envelope \<Rightarrow> subscriber \<Rightarrow> subscriber" where
  "deliver capacity env s =
     (if sub_channel s = env_channel env
      then s\<lparr>sub_unread := keep_last capacity (sub_unread s @ [env])\<rparr> else s)"

definition publish :: "multiplexed_envelope \<Rightarrow> channel_router \<Rightarrow> channel_router" where
  "publish env r = r\<lparr>cr_subscribers := map (deliver (cr_capacity r) env) (cr_subscribers r)\<rparr>"

text \<open>A new subscription, known by its position.\<close>

definition router_subscribe :: "channel_id \<Rightarrow> channel_router \<Rightarrow> nat \<times> channel_router" where
  "router_subscribe channel r =
     (length (cr_subscribers r),
      r\<lparr>cr_subscribers := cr_subscribers r @ [\<lparr>sub_channel = channel, sub_unread = []\<rparr>]\<rparr>)"

section \<open>Send queues\<close>

record send_queues =
  sq_control :: "multiplexed_envelope list"
  sq_normal :: "multiplexed_envelope list"

definition queues_empty :: send_queues where
  "queues_empty = \<lparr>sq_control = [], sq_normal = []\<rparr>"

text \<open>\<open>pick_sender\<close>: the queue's sender, or an error once the bus is closed (its queues taken).\<close>

definition for_channel :: "channel_id \<Rightarrow> bool" where
  "for_channel channel = (channel = Control)"

definition pick_sender :: "bool \<Rightarrow> channel_id \<Rightarrow> connectivity_error + bool" where
  "pick_sender opened channel = (if opened then Inr (for_channel channel) else Inl (ChannelClosed channel))"

text \<open>A \<open>send(envelope)\<close> on the picked queue (the control one for \<open>True\<close>), with room in it.\<close>

definition enqueue :: "nat \<Rightarrow> bool \<Rightarrow> multiplexed_envelope \<Rightarrow> send_queues \<Rightarrow> send_queues option" where
  "enqueue depth control env q =
     (if control
      then if length (sq_control q) < depth then Some (q\<lparr>sq_control := sq_control q @ [env]\<rparr>) else None
      else if length (sq_normal q) < depth then Some (q\<lparr>sq_normal := sq_normal q @ [env]\<rparr>) else None)"

text \<open>The biased \<open>select!\<close>: a ready control envelope always wins.\<close>

definition next_envelope :: "send_queues \<Rightarrow> (multiplexed_envelope \<times> send_queues) option" where
  "next_envelope q =
     (case sq_control q of
        e # es \<Rightarrow> Some (e, q\<lparr>sq_control := es\<rparr>)
      | [] \<Rightarrow> (case sq_normal q of
                 e # es \<Rightarrow> Some (e, q\<lparr>sq_normal := es\<rparr>)
               | [] \<Rightarrow> None))"

lemmas sender_defs = pick_sender_def for_channel_def enqueue_def

section \<open>The in-process bus\<close>

record local_bus =
  lb_router :: channel_router
  lb_open :: bool
  lb_depth :: nat
  lb_queues :: send_queues

definition DEFAULT_CHANNEL_CAPACITY :: nat where
  "DEFAULT_CHANNEL_CAPACITY = 256"

definition DEFAULT_QUEUE_DEPTH :: nat where
  "DEFAULT_QUEUE_DEPTH = 256"

definition local_bus_with_capacity :: "nat \<Rightarrow> nat \<Rightarrow> local_bus" where
  "local_bus_with_capacity channel_capacity queue_depth =
     \<lparr>lb_router = channel_router_new channel_capacity, lb_open = True, lb_depth = queue_depth,
      lb_queues = queues_empty\<rparr>"

definition local_bus_new :: local_bus where
  "local_bus_new = local_bus_with_capacity DEFAULT_CHANNEL_CAPACITY DEFAULT_QUEUE_DEPTH"

definition local_send ::
  "multiplexed_envelope \<Rightarrow> local_bus \<Rightarrow> (connectivity_error + unit) option \<times> local_bus" where
  "local_send env b =
     (case pick_sender (lb_open b) (env_channel env) of
        Inl er \<Rightarrow> (Some (Inl er), b)
      | Inr control \<Rightarrow>
          (case enqueue (lb_depth b) control env (lb_queues b) of
             None \<Rightarrow> (None, b)
           | Some q \<Rightarrow> (Some (Inr ()), b\<lparr>lb_queues := q\<rparr>)))"

definition local_subscribe :: "channel_id \<Rightarrow> local_bus \<Rightarrow> nat \<times> local_bus" where
  "local_subscribe channel b =
     (case router_subscribe channel (lb_router b) of (i, r) \<Rightarrow> (i, b\<lparr>lb_router := r\<rparr>))"

definition local_close :: "local_bus \<Rightarrow> local_bus" where
  "local_close b = b\<lparr>lb_open := False\<rparr>"

definition is_closed :: "local_bus \<Rightarrow> bool" where
  "is_closed b = (\<not> lb_open b)"

text \<open>One turn of the dispatcher's loop: the envelope it published, or \<open>None\<close> when it waits (or,
  on a closed bus, ends).\<close>

definition dispatch_step :: "local_bus \<Rightarrow> (multiplexed_envelope \<times> local_bus) option" where
  "dispatch_step b =
     (case next_envelope (lb_queues b) of
        None \<Rightarrow> None
      | Some (env, q) \<Rightarrow> Some (env, b\<lparr>lb_queues := q, lb_router := publish env (lb_router b)\<rparr>))"

definition queued :: "send_queues \<Rightarrow> nat" where
  "queued q = length (sq_control q) + length (sq_normal q)"

lemma next_envelope_queued: "next_envelope q = Some (e, q') \<Longrightarrow> queued q' < queued q"
  by (auto simp: next_envelope_def queued_def split: list.splits)

function dispatch_all :: "local_bus \<Rightarrow> multiplexed_envelope list \<times> local_bus" where
  "dispatch_all b =
     (case dispatch_step b of
        None \<Rightarrow> ([], b)
      | Some (env, b') \<Rightarrow> (case dispatch_all b' of (es, b'') \<Rightarrow> (env # es, b'')))"
  by pat_completeness auto
termination
  by (relation "measure (\<lambda>b. queued (lb_queues b))")
    (auto simp: dispatch_step_def split: option.splits dest: next_envelope_queued)

declare dispatch_all.simps [simp del]

lemma next_envelope_cases:
  assumes "next_envelope q = Some (e, q')"
  obtains es where "sq_control q = e # es" "q' = q\<lparr>sq_control := es\<rparr>"
  | es where "sq_control q = []" "sq_normal q = e # es" "q' = q\<lparr>sq_normal := es\<rparr>"
  using assms by (auto simp: next_envelope_def split: list.splits)

section \<open>The contract of an outbound bus\<close>

text \<open>
  What a transport promises of its outbound side: an accepted envelope joins the end of its
  class (control or normal), and what leaves is the oldest control envelope or, when there is
  none, the oldest normal one.
\<close>

datatype bus_op = Push multiplexed_envelope | Pull

text \<open>Within each class the envelopes taken in so far are those that left and then those queued.\<close>

definition class_fifo ::
  "multiplexed_envelope list \<Rightarrow> multiplexed_envelope list \<Rightarrow> send_queues \<Rightarrow> bool" where
  "class_fifo ins outs q \<longleftrightarrow>
     list_all (\<lambda>e. env_channel e = Control) (sq_control q) \<and>
     list_all (\<lambda>e. env_channel e \<noteq> Control) (sq_normal q) \<and>
     filter (\<lambda>e. env_channel e = Control) ins = filter (\<lambda>e. env_channel e = Control) outs @ sq_control q \<and>
     filter (\<lambda>e. env_channel e \<noteq> Control) ins = filter (\<lambda>e. env_channel e \<noteq> Control) outs @ sq_normal q"

lemma class_fifo_empty: "class_fifo [] [] queues_empty"
  by (simp add: class_fifo_def queues_empty_def)

locale priority_bus =
  fixes push :: "multiplexed_envelope \<Rightarrow> 's \<Rightarrow> 's option"
    and pull :: "'s \<Rightarrow> (multiplexed_envelope \<times> 's) option"
    and queues :: "'s \<Rightarrow> send_queues"
  assumes push_queues: "push e s = Some s' \<Longrightarrow>
      queues s' = (if env_channel e = Control then (queues s)\<lparr>sq_control := sq_control (queues s) @ [e]\<rparr>
                   else (queues s)\<lparr>sq_normal := sq_normal (queues s) @ [e]\<rparr>)"
    and pull_queues: "pull s = Some (e, s') \<Longrightarrow> next_envelope (queues s) = Some (e, queues s')"
begin

text \<open>A history of the bus: the envelopes accepted and those that left.\<close>

fun run_ops :: "bus_op list \<Rightarrow> 's \<Rightarrow> multiplexed_envelope list \<times> multiplexed_envelope list \<times> 's" where
  "run_ops [] s = ([], [], s)"
| "run_ops (Push e # ops) s =
     (case push e s of
        Some s' \<Rightarrow> (case run_ops ops s' of (ins, outs, t) \<Rightarrow> (e # ins, outs, t))
      | None \<Rightarrow> run_ops ops s)"
| "run_ops (Pull # ops) s =
     (case pull s of
        Some (e, s') \<Rightarrow> (case run_ops ops s' of (ins, outs, t) \<Rightarrow> (ins, e # outs, t))
      | None \<Rightarrow> run_ops ops s)"

lemma pull_control_first: "pull s = Some (e, s') \<Longrightarrow> sq_control (queues s) \<noteq> [] \<Longrightarrow>
    e = hd (sq_control (queues s))"
  using pull_queues [of s e s'] by (auto simp: next_envelope_def split: list.splits)

text \<open>Nothing is lost, duplicated or reordered within a class.\<close>

lemma push_fifo: "class_fifo ins outs (queues s) \<Longrightarrow> push e s = Some s' \<Longrightarrow> class_fifo (ins @ [e]) outs (queues s')"
  using push_queues [of e s s'] by (auto simp: class_fifo_def split: if_splits)

lemma pull_fifo:
  assumes "class_fifo ins outs (queues s)" and "pull s = Some (e, s')"
  shows "class_fifo ins (outs @ [e]) (queues s')"
  using pull_queues [OF assms(2)]
proof (cases rule: next_envelope_cases)
  case (1 es)
  with assms(1) show ?thesis by (simp add: class_fifo_def)
next
  case (2 es)
  with assms(1) show ?thesis by (simp add: class_fifo_def)
qed

lemma run_ops_fifo:
  assumes "run_ops ops s = (ins, outs, t)" and "class_fifo ins0 outs0 (queues s)"
  shows "class_fifo (ins0 @ ins) (outs0 @ outs) (queues t)"
  using assms
proof (induction ops arbitrary: s ins outs ins0 outs0)
  case (Cons opr ops)
  show ?case
  proof (cases opr)
    case (Push e)
    with Cons.IH [of _ _ _ "ins0 @ [e]"] Cons.IH [OF _ Cons.prems(2)] Cons.prems show ?thesis
      by (auto split: option.splits prod.splits dest: push_fifo)
  next
    case Pull
    show ?thesis
    proof (cases "pull s")
      case None
      with Pull Cons.IH [OF _ Cons.prems(2)] Cons.prems(1) show ?thesis by simp
    next
      case (Some p)
      then obtain e s' where p: "pull s = Some (e, s')"
        by (cases p) auto
      with Pull Cons.prems(1) obtain outs' where "outs = e # outs'" "run_ops ops s' = (ins, outs', t)"
        by (auto split: prod.splits)
      with Cons.IH [OF this(2) pull_fifo [OF Cons.prems(2) p]] show ?thesis by simp
    qed
  qed
qed simp

end

definition local_push :: "multiplexed_envelope \<Rightarrow> local_bus \<Rightarrow> local_bus option" where
  "local_push e b = (case local_send e b of (Some (Inr _), b') \<Rightarrow> Some b' | _ \<Rightarrow> None)"

interpretation local_bus: priority_bus local_push dispatch_step lb_queues
  by unfold_locales
    (auto simp: local_push_def local_send_def sender_defs dispatch_step_def split: option.splits if_splits)

section \<open>Delivery\<close>

lemma length_keep_last [simp]: "length (keep_last n xs) = min n (length xs)"
  by (simp add: keep_last_def)

lemma keep_last_all: "length xs \<le> n \<Longrightarrow> keep_last n xs = xs"
  by (simp add: keep_last_def)

lemma keep_last_snoc: "keep_last n (keep_last n xs @ ys) = keep_last n (xs @ ys)"
  by (cases "n \<le> length xs") (auto simp: keep_last_def add.commute)

lemma publish_frame [simp]:
  "cr_capacity (publish e r) = cr_capacity r"
  "length (cr_subscribers (publish e r)) = length (cr_subscribers r)"
  by (simp_all add: publish_def)

lemma fold_publish_frame [simp]:
  "cr_capacity (fold publish es r) = cr_capacity r"
  "length (cr_subscribers (fold publish es r)) = length (cr_subscribers r)"
  by (induction es arbitrary: r) simp_all

lemma fold_publish_unread:
  assumes "i < length (cr_subscribers r)"
    and "length (sub_unread (cr_subscribers r ! i)) \<le> cr_capacity r"
  shows "cr_subscribers (fold publish es r) ! i =
    (cr_subscribers r ! i)\<lparr>sub_unread := keep_last (cr_capacity r)
      (sub_unread (cr_subscribers r ! i) @
       filter (\<lambda>e. env_channel e = sub_channel (cr_subscribers r ! i)) es)\<rparr>"
  using assms
proof (induction es arbitrary: r)
  case Nil
  then show ?case by (simp add: keep_last_all)
next
  case (Cons e es)
  let ?s = "cr_subscribers r ! i"
  have s: "cr_subscribers (publish e r) ! i = deliver (cr_capacity r) e ?s"
    using Cons.prems(1) by (simp add: publish_def)
  have "length (sub_unread (deliver (cr_capacity r) e ?s)) \<le> cr_capacity r"
    using Cons.prems(2) by (simp add: deliver_def)
  with Cons.IH [of "publish e r"] Cons.prems(1) show ?case
    by (auto simp: s deliver_def keep_last_snoc)
qed

lemma dispatch_step_router:
  "dispatch_step b = Some (e, b') \<Longrightarrow> lb_router b' = publish e (lb_router b) \<and> lb_open b' = lb_open b \<and> lb_depth b' = lb_depth b"
  by (auto simp: dispatch_step_def split: option.splits)

lemma dispatch_all_spec:
  "dispatch_all b = (sq_control (lb_queues b) @ sq_normal (lb_queues b),
     b\<lparr>lb_queues := queues_empty,
       lb_router := fold publish (sq_control (lb_queues b) @ sq_normal (lb_queues b)) (lb_router b)\<rparr>)"
proof (induction b rule: dispatch_all.induct)
  case (1 b)
  show ?case
  proof (cases "next_envelope (lb_queues b)")
    case None
    then have "lb_queues b = queues_empty"
      by (cases "lb_queues b") (auto simp: next_envelope_def queues_empty_def split: list.splits)
    with None show ?thesis
      by (subst dispatch_all.simps) (simp add: dispatch_step_def queues_empty_def)
  next
    case (Some p)
    then obtain e q where p: "next_envelope (lb_queues b) = Some (e, q)"
      by (cases p) auto
    let ?b = "b\<lparr>lb_queues := q, lb_router := publish e (lb_router b)\<rparr>"
    have st: "dispatch_step b = Some (e, ?b)"
      by (simp add: dispatch_step_def p)
    have "sq_control (lb_queues b) @ sq_normal (lb_queues b) = e # sq_control q @ sq_normal q"
      using p by (auto simp: next_envelope_def split: list.splits)
    with 1 [OF st refl] show ?thesis
      by (subst dispatch_all.simps) (simp add: st)
  qed
qed

section \<open>Properties\<close>

text \<open>C36: control traffic is never starved and nothing is lost or reordered. In any history of
  sends and dispatcher steps on a fresh bus, the control envelopes leave in the order they were
  accepted and so do the others, what has not left is still queued; and a step that finds a
  control envelope waiting always delivers the oldest of them.\<close>

theorem local_bus_priority_fifo:
  assumes "local_bus.run_ops ops (local_bus_with_capacity c d) = (ins, outs, b)"
  shows "filter (\<lambda>e. env_channel e = Control) ins =
      filter (\<lambda>e. env_channel e = Control) outs @ sq_control (lb_queues b) \<and>
    filter (\<lambda>e. env_channel e \<noteq> Control) ins =
      filter (\<lambda>e. env_channel e \<noteq> Control) outs @ sq_normal (lb_queues b) \<and>
    (\<forall>e es. sq_control (lb_queues b) = e # es \<longrightarrow> (\<exists>b'. dispatch_step b = Some (e, b')))"
  using local_bus.run_ops_fifo [OF assms, of "[]" "[]"]
  by (auto simp: local_bus_with_capacity_def class_fifo_def queues_empty_def dispatch_step_def
      next_envelope_def)

theorem local_bus_priority_fifo_witness:
  "\<exists>ins outs b. local_bus.run_ops
       [Push \<lparr>env_channel = Inference, env_seq_no = 1, env_session_id = 0, env_payload_type = [], env_payload_bytes = []\<rparr>,
        Push \<lparr>env_channel = Control, env_seq_no = 2, env_session_id = 0, env_payload_type = [], env_payload_bytes = []\<rparr>,
        Pull] (local_bus_with_capacity 4 4) = (ins, outs, b) \<and>
     map env_seq_no outs = [2] \<and>
     filter (\<lambda>e. env_channel e \<noteq> Control) ins =
      filter (\<lambda>e. env_channel e \<noteq> Control) outs @ sq_normal (lb_queues b)"
proof -
  let ?ops = "[Push \<lparr>env_channel = Inference, env_seq_no = 1, env_session_id = 0, env_payload_type = [], env_payload_bytes = []\<rparr>,
        Push \<lparr>env_channel = Control, env_seq_no = 2, env_session_id = 0, env_payload_type = [], env_payload_bytes = []\<rparr>,
        Pull]"
  obtain ins outs b where r: "local_bus.run_ops ?ops (local_bus_with_capacity 4 4) = (ins, outs, b)"
    by (cases "local_bus.run_ops ?ops (local_bus_with_capacity 4 4)") auto
  moreover have "map env_seq_no outs = [2]"
    using r by (auto simp: local_push_def local_send_def sender_defs local_bus_with_capacity_def
        queues_empty_def dispatch_step_def next_envelope_def)
  ultimately show ?thesis
    using local_bus_priority_fifo [OF r] by (intro exI conjI) (rule r, simp_all)
qed

text \<open>Channels are isolated and a subscriber that keeps up misses nothing. A new subscriber of
  a channel has unread, after any envelopes are published, exactly those of its channel, in
  order, as long as they fit the channel's capacity; beyond it the oldest are dropped.\<close>

theorem subscriber_gets_its_channel:
  assumes "router_subscribe c r = (i, r')"
  shows "sub_unread (cr_subscribers (fold publish es r') ! i) =
      keep_last (cr_capacity r) (filter (\<lambda>e. env_channel e = c) es) \<and>
    (length (filter (\<lambda>e. env_channel e = c) es) \<le> cr_capacity r \<longrightarrow>
       sub_unread (cr_subscribers (fold publish es r') ! i) = filter (\<lambda>e. env_channel e = c) es)"
  using fold_publish_unread [of i r' es] assms
  by (auto simp: router_subscribe_def keep_last_all)

theorem subscriber_gets_its_channel_witness:
  "let r = channel_router_new 2; p = router_subscribe Sync r;
       e = \<lambda>c n. \<lparr>env_channel = c, env_seq_no = n, env_session_id = 0, env_payload_type = [], env_payload_bytes = []\<rparr>
   in map env_seq_no (sub_unread (cr_subscribers
        (fold publish [e Sync 1, e Audio 2, e Sync 3] (snd p)) ! fst p)) = [1, 3]"
  using subscriber_gets_its_channel [of Sync "channel_router_new 2" 0 "snd (router_subscribe Sync (channel_router_new 2))"
      "[\<lparr>env_channel = Sync, env_seq_no = 1, env_session_id = 0, env_payload_type = [], env_payload_bytes = []\<rparr>,
        \<lparr>env_channel = Audio, env_seq_no = 2, env_session_id = 0, env_payload_type = [], env_payload_bytes = []\<rparr>,
        \<lparr>env_channel = Sync, env_seq_no = 3, env_session_id = 0, env_payload_type = [], env_payload_bytes = []\<rparr>]"]
  by (simp add: router_subscribe_def channel_router_new_def keep_last_def)

text \<open>Closing refuses new envelopes and loses none accepted before. After \<open>close\<close> every send
  fails with \<open>ChannelClosed\<close> and leaves the bus as it is; the dispatcher's loop ends, with both
  queues empty, having published every queued envelope, control ones first, each class in order.\<close>

theorem close_drains:
  "local_send e (local_close b) = (Some (Inl (ChannelClosed (env_channel e))), local_close b) \<and>
   dispatch_all (local_close b) =
     (sq_control (lb_queues b) @ sq_normal (lb_queues b),
      (local_close b)\<lparr>lb_queues := queues_empty,
        lb_router := fold publish (sq_control (lb_queues b) @ sq_normal (lb_queues b)) (lb_router b)\<rparr>) \<and>
   dispatch_step (snd (dispatch_all (local_close b))) = None"
  by (simp add: local_send_def sender_defs local_close_def dispatch_all_spec)
    (simp add: dispatch_step_def next_envelope_def queues_empty_def)

end
