(* ===== verification/Transport.thy ===== *)
theory Transport
  imports Bus Pairing Instances
begin

text \<open>
  The TCP transport, \<open>crates/mahi-connectivity/src/transport.rs\<close>: length-prefixed frames, the
  bus over one connection and the pump that moves frames both ways.

  \<open>serde_json\<close> is a codec, as in the store. A socket half is the bytes written to it, or the
  bytes the peer sends before it closes. A connection that breaks carries only so many bytes: the
  write that exceeds them puts its beginning on the wire and fails. The pump's two loops are
  steps: \<open>write_step\<close> for one envelope of the writer, \<open>read_step\<close> for one frame of the reader.
\<close>

section \<open>Frames\<close>

definition MAX_FRAME_LEN :: nat where
  "MAX_FRAME_LEN = 16 * 1024 * 1024"

datatype frame_error = InvalidInput string | InvalidData string | UnexpectedEof | BrokenPipe

record sink =
  sk_bytes :: bytes
  sk_room :: "nat option"

definition write_bytes :: "bytes \<Rightarrow> sink \<Rightarrow> (frame_error + unit) \<times> sink" where
  "write_bytes bs k =
     (case sk_room k of
        None \<Rightarrow> (Inr (), k\<lparr>sk_bytes := sk_bytes k @ bs\<rparr>)
      | Some n \<Rightarrow>
          if length bs \<le> n
          then (Inr (), k\<lparr>sk_bytes := sk_bytes k @ bs, sk_room := Some (n - length bs)\<rparr>)
          else (Inl BrokenPipe, k\<lparr>sk_bytes := sk_bytes k @ take n bs, sk_room := Some 0\<rparr>))"

definition write_frame ::
  "multiplexed_envelope codec \<Rightarrow> multiplexed_envelope \<Rightarrow> sink \<Rightarrow> (frame_error + unit) \<times> sink" where
  "write_frame J env k =
     (case to_vec J env of
        Inl e \<Rightarrow> (Inl (InvalidData e), k)
      | Inr bs \<Rightarrow>
          if MAX_FRAME_LEN < length bs
          then (Inl (InvalidInput
                  (''frame of '' @ decimal (length bs) @ '' bytes exceeds MAX_FRAME_LEN'')), k)
          else case write_bytes (be_bytes 4 (length bs)) k of
                 (Inl e, k') \<Rightarrow> (Inl e, k')
               | (Inr _, k') \<Rightarrow> write_bytes bs k')"

text \<open>Reading \<open>n\<close> bytes takes what is there and fails when that is less.\<close>

definition read_exact :: "nat \<Rightarrow> bytes \<Rightarrow> (frame_error + bytes) \<times> bytes" where
  "read_exact n bs = (if length bs < n then (Inl UnexpectedEof, []) else (Inr (take n bs), drop n bs))"

definition read_frame ::
  "multiplexed_envelope codec \<Rightarrow> bytes \<Rightarrow> (frame_error + multiplexed_envelope option) \<times> bytes" where
  "read_frame J bs =
     (case read_exact 4 bs of
        (Inl e, rest) \<Rightarrow> (if e = UnexpectedEof then Inr None else Inl e, rest)
      | (Inr prefix', rest) \<Rightarrow>
          let len = be_value prefix'
          in if MAX_FRAME_LEN < len
             then (Inl (InvalidData
                     (''incoming frame of '' @ decimal len @ '' bytes exceeds MAX_FRAME_LEN'')), rest)
             else case read_exact len rest of
                    (Inl e, rest') \<Rightarrow> (Inl e, rest')
                  | (Inr buf, rest') \<Rightarrow>
                      (case from_slice J buf of
                         Inl e \<Rightarrow> (Inl (InvalidData e), rest')
                       | Inr env \<Rightarrow> (Inr (Some env), rest')))"

lemma read_frame_consumes:
  "read_frame J bs = (Inr (Some e), rest) \<Longrightarrow> length rest < length bs"
  by (auto simp: read_frame_def read_exact_def Let_def split: if_splits sum.splits)

text \<open>The reader's loop on all the bytes the peer sends: what it published and how it ended.\<close>

function read_loop ::
  "multiplexed_envelope codec \<Rightarrow> bytes \<Rightarrow> channel_router \<Rightarrow> channel_router \<times> frame_error option" where
  "read_loop J bs r =
     (case read_frame J bs of
        (Inr (Some env), rest) \<Rightarrow> read_loop J rest (publish env r)
      | (Inr None, _) \<Rightarrow> (r, None)
      | (Inl e, _) \<Rightarrow> (r, Some e))"
  by pat_completeness auto
termination
  by (relation "measure (\<lambda>(J, bs, r). length bs)") (auto dest!: sym [of "(Inr (Some _), _)"] read_frame_consumes)

declare read_loop.simps [simp del]

section \<open>The bus over a connection\<close>

text \<open>
  The pump first acquires its stream (at once for \<open>connect\<close>, on the first accept for
  \<open>listen\<close>); then writer and reader run until each ends. The queues' receivers belong to the
  pump, which returns only when the reader has ended too.
\<close>

datatype pump_state = Acquiring | Pumping | WriterDone | AcquireFailed

record tcp_bus =
  tb_router :: channel_router
  tb_open :: bool
  tb_queues :: send_queues
  tb_pump :: pump_state
  tb_reading :: bool
  tb_inbox :: bytes
  tb_sink :: sink

definition tcp_start :: tcp_bus where
  "tcp_start =
     \<lparr>tb_router = channel_router_new DEFAULT_CHANNEL_CAPACITY, tb_open = True, tb_queues = queues_empty,
      tb_pump = Acquiring, tb_reading = False, tb_inbox = [],
      tb_sink = \<lparr>sk_bytes = [], sk_room = None\<rparr>\<rparr>"

text \<open>The outcome of \<open>acquire\<close>: a stream, with what its peer will send and how many bytes it takes
  before it breaks, or a failure.\<close>

definition tcp_acquire :: "(bytes \<times> nat option) option \<Rightarrow> tcp_bus \<Rightarrow> tcp_bus" where
  "tcp_acquire stream b =
     (case stream of
        Some (inbox, room) \<Rightarrow>
          b\<lparr>tb_pump := Pumping, tb_reading := True, tb_inbox := inbox,
            tb_sink := \<lparr>sk_bytes = [], sk_room = room\<rparr>\<rparr>
      | None \<Rightarrow> b\<lparr>tb_pump := AcquireFailed\<rparr>)"

definition receivers_alive :: "tcp_bus \<Rightarrow> bool" where
  "receivers_alive b =
     (case tb_pump b of
        Acquiring \<Rightarrow> True | Pumping \<Rightarrow> True | WriterDone \<Rightarrow> tb_reading b | AcquireFailed \<Rightarrow> False)"

definition tcp_send ::
  "multiplexed_envelope \<Rightarrow> tcp_bus \<Rightarrow> (connectivity_error + unit) option \<times> tcp_bus" where
  "tcp_send env b =
     (case pick_sender (tb_open b) (env_channel env) of
        Inl er \<Rightarrow> (Some (Inl er), b)
      | Inr control \<Rightarrow>
          if \<not> receivers_alive b then (Some (Inl (ChannelClosed (env_channel env))), b)
          else case enqueue DEFAULT_QUEUE_DEPTH control env (tb_queues b) of
                 None \<Rightarrow> (None, b)
               | Some q \<Rightarrow> (Some (Inr ()), b\<lparr>tb_queues := q\<rparr>))"

definition tcp_subscribe :: "channel_id \<Rightarrow> tcp_bus \<Rightarrow> nat \<times> tcp_bus" where
  "tcp_subscribe channel b =
     (case router_subscribe channel (tb_router b) of (i, r) \<Rightarrow> (i, b\<lparr>tb_router := r\<rparr>))"

definition tcp_close :: "tcp_bus \<Rightarrow> tcp_bus" where
  "tcp_close b = b\<lparr>tb_open := False\<rparr>"

text \<open>One turn of the writer's loop: \<open>None\<close> while it waits or after it ended. An envelope that was
  taken from its queue and could not be written is gone, and the loop ends.\<close>

datatype write_outcome = Wrote multiplexed_envelope | WriteFailed multiplexed_envelope | WriterEnds

definition write_step ::
  "multiplexed_envelope codec \<Rightarrow> tcp_bus \<Rightarrow> (write_outcome \<times> tcp_bus) option" where
  "write_step J b =
     (if tb_pump b \<noteq> Pumping then None
      else case next_envelope (tb_queues b) of
             None \<Rightarrow> (if tb_open b then None else Some (WriterEnds, b\<lparr>tb_pump := WriterDone\<rparr>))
           | Some (env, q) \<Rightarrow>
               (case write_frame J env (tb_sink b) of
                  (Inr _, k) \<Rightarrow> Some (Wrote env, b\<lparr>tb_queues := q, tb_sink := k\<rparr>)
                | (Inl _, k) \<Rightarrow>
                    Some (WriteFailed env, b\<lparr>tb_queues := q, tb_sink := k, tb_pump := WriterDone\<rparr>)))"

text \<open>One turn of the reader's loop.\<close>

definition read_step :: "multiplexed_envelope codec \<Rightarrow> tcp_bus \<Rightarrow> tcp_bus option" where
  "read_step J b =
     (if \<not> tb_reading b then None
      else case read_frame J (tb_inbox b) of
             (Inr (Some env), rest) \<Rightarrow>
               Some (b\<lparr>tb_router := publish env (tb_router b), tb_inbox := rest\<rparr>)
           | (_, rest) \<Rightarrow> Some (b\<lparr>tb_reading := False, tb_inbox := rest\<rparr>))"

section \<open>The contract of an outbound bus\<close>

definition tcp_push :: "multiplexed_envelope \<Rightarrow> tcp_bus \<Rightarrow> tcp_bus option" where
  "tcp_push e b = (case tcp_send e b of (Some (Inr _), b') \<Rightarrow> Some b' | _ \<Rightarrow> None)"

text \<open>The envelope the writer takes from its queue, written or not.\<close>

definition tcp_pull :: "multiplexed_envelope codec \<Rightarrow> tcp_bus \<Rightarrow> (multiplexed_envelope \<times> tcp_bus) option" where
  "tcp_pull J b =
     (case write_step J b of
        Some (Wrote e, b') \<Rightarrow> Some (e, b')
      | Some (WriteFailed e, b') \<Rightarrow> Some (e, b')
      | _ \<Rightarrow> None)"

lemma tcp_push_Some:
  "tcp_push e b = Some b' \<Longrightarrow>
     (\<exists>q. enqueue DEFAULT_QUEUE_DEPTH (env_channel e = Control) e (tb_queues b) = Some q \<and> b' = b\<lparr>tb_queues := q\<rparr>)"
  by (auto simp: tcp_push_def tcp_send_def pick_sender_def for_channel_def split: if_splits option.splits)

lemma tcp_pull_Some:
  "tcp_pull J b = Some (e, b') \<Longrightarrow> next_envelope (tb_queues b) = Some (e, tb_queues b')"
  by (auto simp: tcp_pull_def write_step_def split: if_splits option.splits sum.splits prod.splits)

interpretation tcp_bus: priority_bus tcp_push "tcp_pull J" tb_queues for J
proof
  fix e s s'
  show "tcp_push e s = Some s' \<Longrightarrow>
      tb_queues s' = (if env_channel e = Control then (tb_queues s)\<lparr>sq_control := sq_control (tb_queues s) @ [e]\<rparr>
                   else (tb_queues s)\<lparr>sq_normal := sq_normal (tb_queues s) @ [e]\<rparr>)"
    by (auto dest!: tcp_push_Some simp: enqueue_def split: if_splits)
  show "tcp_pull J s = Some (e, s') \<Longrightarrow> next_envelope (tb_queues s) = Some (e, tb_queues s')"
    by (auto dest!: tcp_pull_Some)
qed

section \<open>Frames on the wire\<close>

lemma be_bytes_numeral:
  "be_bytes (numeral k) n = be_bytes (pred_numeral k) (n div 256) @ [word_of_nat n]"
  by (simp only: numeral_eq_Suc be_bytes.simps)

definition frame :: "multiplexed_envelope codec \<Rightarrow> multiplexed_envelope \<Rightarrow> bytes" where
  "frame J e = (case to_vec J e of Inr bs \<Rightarrow> be_bytes 4 (length bs) @ bs | Inl _ \<Rightarrow> [])"

definition fits :: "multiplexed_envelope codec \<Rightarrow> multiplexed_envelope \<Rightarrow> bool" where
  "fits J e = (case to_vec J e of Inr bs \<Rightarrow> length bs \<le> MAX_FRAME_LEN | Inl _ \<Rightarrow> False)"

lemma write_frame_Inr:
  "write_frame J e k = (Inr u, k') \<Longrightarrow>
     fits J e \<and> sk_bytes k' = sk_bytes k @ frame J e \<and> (sk_room k' = None \<longleftrightarrow> sk_room k = None)"
  by (auto simp: write_frame_def write_bytes_def fits_def frame_def split: sum.splits option.splits if_splits)

lemma write_frame_room: "fits J e \<Longrightarrow> sk_room k = None \<Longrightarrow> \<exists>k'. write_frame J e k = (Inr (), k')"
  by (auto simp: write_frame_def write_bytes_def fits_def split: sum.splits)

text \<open>A write that fails leaves a proper beginning of the frame on the wire, or nothing.\<close>

lemma write_frame_Inl:
  assumes "write_frame J e k = (Inl er, k')"
  shows "\<exists>cut. sk_bytes k' = sk_bytes k @ cut \<and>
    (\<not> fits J e \<and> cut = [] \<or> fits J e \<and> sk_room k' = Some 0 \<and> (\<exists>n < length (frame J e). cut = take n (frame J e)))"
proof (cases "fits J e")
  case False
  with assms show ?thesis
    by (auto simp: write_frame_def fits_def split: sum.splits if_splits)
next
  case True
  then obtain bs where bs: "to_vec J e = Inr bs" "length bs \<le> MAX_FRAME_LEN"
    by (auto simp: fits_def split: sum.splits)
  obtain n where n: "sk_room k = Some n"
    using write_frame_room [OF True, of k] assms by (cases "sk_room k") auto
  have len: "length (be_bytes 4 (length bs)) = 4"
    by simp
  have "n < length (frame J e) \<and> sk_room k' = Some 0 \<and> sk_bytes k' = sk_bytes k @ take n (frame J e)"
    using assms bs n by (auto simp: write_frame_def write_bytes_def frame_def not_le split: if_splits)
  with True show ?thesis
    by blast
qed

lemma read_frame_frame:
  assumes "codec_ok J" and "fits J e"
  shows "read_frame J (frame J e @ rest) = (Inr (Some e), rest)"
proof -
  from assms(2) obtain bs where bs: "to_vec J e = Inr bs" "length bs \<le> MAX_FRAME_LEN"
    by (auto simp: fits_def split: sum.splits)
  from bs(2) have "length bs < 256 ^ 4"
    by (simp add: MAX_FRAME_LEN_def)
  then have "be_value (be_bytes 4 (length bs)) = length bs"
    by (simp only: be_value_be_bytes mod_less)
  with bs assms(1) show ?thesis
    by (simp add: read_frame_def read_exact_def frame_def codec_ok_def Let_def)
qed

lemma read_loop_frames:
  assumes "codec_ok J" and "list_all (fits J) es"
  shows "read_loop J (concat (map (frame J) es) @ rest) r = read_loop J rest (fold publish es r)"
  using assms(2)
proof (induction es arbitrary: r)
  case (Cons e es)
  then show ?case
    by (subst read_loop.simps) (simp add: read_frame_frame [OF assms(1)])
qed simp

lemma read_loop_short:
  "length bs < 4 \<Longrightarrow> read_loop J bs r = (r, None)"
  by (subst read_loop.simps) (simp add: read_frame_def read_exact_def)

text \<open>A frame that is cut off is no frame: the reader ends there, with nothing published.\<close>

lemma read_loop_cut:
  assumes "fits J e" and "n < length (frame J e)"
  shows "read_loop J (take n (frame J e)) r = (r, if n < 4 then None else Some UnexpectedEof)"
proof (cases "n < 4")
  case True
  then show ?thesis by (simp add: read_loop_short)
next
  case False
  from assms(1) obtain bs where bs: "to_vec J e = Inr bs" "length bs \<le> MAX_FRAME_LEN"
    by (auto simp: fits_def split: sum.splits)
  from bs(2) have "length bs < 256 ^ 4"
    by (simp add: MAX_FRAME_LEN_def)
  then have v: "be_value (be_bytes 4 (length bs)) = length bs"
    by (simp only: be_value_be_bytes mod_less)
  have "take n (frame J e) = be_bytes 4 (length bs) @ take (n - 4) bs" "n - 4 < length bs"
    using assms(2) bs(1) False by (simp_all add: frame_def)
  with v bs(2) False show ?thesis
    by (subst read_loop.simps) (simp add: read_frame_def read_exact_def Let_def)
qed

text \<open>After the writer ended nothing reaches the wire any more.\<close>

datatype tcp_op =
    OpConnect "(bytes \<times> nat option) option"
  | OpSend multiplexed_envelope
  | OpClose
  | OpWrite
  | OpRead
  | OpSubscribe channel_id

definition tcp_exec :: "multiplexed_envelope codec \<Rightarrow> tcp_op \<Rightarrow> tcp_bus \<Rightarrow> tcp_bus" where
  "tcp_exec J opr b =
     (case opr of
        OpConnect stream \<Rightarrow> (if tb_pump b = Acquiring then tcp_acquire stream b else b)
      | OpSend e \<Rightarrow> snd (tcp_send e b)
      | OpClose \<Rightarrow> tcp_close b
      | OpWrite \<Rightarrow> (case write_step J b of Some (_, b') \<Rightarrow> b' | None \<Rightarrow> b)
      | OpRead \<Rightarrow> (case read_step J b of Some b' \<Rightarrow> b' | None \<Rightarrow> b)
      | OpSubscribe c \<Rightarrow> snd (tcp_subscribe c b))"

lemma tcp_exec_stopped:
  "tb_pump b = WriterDone \<Longrightarrow>
     tb_pump (tcp_exec J opr b) = WriterDone \<and> tb_sink (tcp_exec J opr b) = tb_sink b"
  by (cases opr)
    (auto simp: tcp_exec_def tcp_send_def tcp_close_def write_step_def read_step_def tcp_subscribe_def
      router_subscribe_def split: sum.splits option.splits prod.splits)

lemma fold_tcp_exec_stopped:
  "tb_pump b = WriterDone \<Longrightarrow>
     tb_pump (fold (tcp_exec J) oprs b) = WriterDone \<and> tb_sink (fold (tcp_exec J) oprs b) = tb_sink b"
  by (induction oprs arbitrary: b) (simp_all add: tcp_exec_stopped)

text \<open>A history of the bus: the envelopes accepted, those written, those lost, and the bus.\<close>

type_synonym tcp_history =
  "multiplexed_envelope list \<times> multiplexed_envelope list \<times> multiplexed_envelope list \<times> tcp_bus"

fun tcp_trace :: "multiplexed_envelope codec \<Rightarrow> tcp_op \<Rightarrow> tcp_history \<Rightarrow> tcp_history" where
  "tcp_trace J (OpSend e) (accepted, written, lost, b) =
     (case tcp_send e b of
        (Some (Inr _), b') \<Rightarrow> (accepted @ [e], written, lost, b')
      | (_, b') \<Rightarrow> (accepted, written, lost, b'))"
| "tcp_trace J OpWrite (accepted, written, lost, b) =
     (case write_step J b of
        Some (Wrote e, b') \<Rightarrow> (accepted, written @ [e], lost, b')
      | Some (WriteFailed e, b') \<Rightarrow> (accepted, written, lost @ [e], b')
      | Some (WriterEnds, b') \<Rightarrow> (accepted, written, lost, b')
      | None \<Rightarrow> (accepted, written, lost, b))"
| "tcp_trace J opr (accepted, written, lost, b) = (accepted, written, lost, tcp_exec J opr b)"

text \<open>What the wire holds: the frames written, and perhaps the beginning of the frame that was lost.\<close>

fun tcp_wire_ok :: "multiplexed_envelope codec \<Rightarrow> tcp_history \<Rightarrow> bool" where
  "tcp_wire_ok J (accepted, written, lost, b) \<longleftrightarrow>
     class_fifo accepted (written @ lost) (tb_queues b) \<and> list_all (fits J) written \<and>
     (tb_pump b = Acquiring \<longrightarrow> written = [] \<and> lost = []) \<and>
     (lost = [] \<and> sk_bytes (tb_sink b) = concat (map (frame J) written) \<or>
      (\<exists>e cut. lost = [e] \<and> tb_pump b = WriterDone \<and>
         sk_bytes (tb_sink b) = concat (map (frame J) written) @ cut \<and>
         (\<not> fits J e \<and> cut = [] \<or>
          fits J e \<and> sk_room (tb_sink b) = Some 0 \<and> (\<exists>n < length (frame J e). cut = take n (frame J e)))))"

lemma tcp_exec_frame:
  assumes "opr \<noteq> OpWrite" and "\<forall>e. opr \<noteq> OpSend e"
  shows "tb_queues (tcp_exec J opr b) = tb_queues b \<and>
    (tb_pump b \<noteq> Acquiring \<longrightarrow> tb_pump (tcp_exec J opr b) = tb_pump b \<and> tb_sink (tcp_exec J opr b) = tb_sink b) \<and>
    (tb_pump b = Acquiring \<longrightarrow> tb_sink (tcp_exec J opr b) = tb_sink b \<or> sk_bytes (tb_sink (tcp_exec J opr b)) = [])"
  using assms
  by (cases opr)
    (auto simp: tcp_exec_def tcp_acquire_def tcp_close_def read_step_def tcp_subscribe_def
      split: sum.splits option.splits prod.splits)

lemma tcp_write_ok:
  assumes "tcp_wire_ok J (acc, wr, lo, b)"
  shows "tcp_wire_ok J (tcp_trace J OpWrite (acc, wr, lo, b))"
proof (cases "write_step J b")
  case None
  with assms show ?thesis by simp
next
  case (Some p)
  obtain o' b' where st: "write_step J b = Some (o', b')"
    by (cases p) (simp add: Some)
  then have pump: "tb_pump b = Pumping"
    by (simp add: write_step_def split: if_splits)
  with assms have inv: "class_fifo acc wr (tb_queues b)" "list_all (fits J) wr" "lo = []"
      "sk_bytes (tb_sink b) = concat (map (frame J) wr)"
    by auto
  show ?thesis
  proof (cases o')
    case (Wrote e)
    then have pull: "tcp_pull J b = Some (e, b')"
      by (simp add: tcp_pull_def st)
    from st pump Wrote obtain k where "write_frame J e (tb_sink b) = (Inr (), k)" "tb_sink b' = k" "tb_pump b' = Pumping"
      by (auto simp: write_step_def split: option.splits prod.splits sum.splits if_splits)
    with write_frame_Inr [OF this(1)] tcp_bus.pull_fifo [OF inv(1) pull] inv show ?thesis
      by (simp add: st Wrote)
  next
    case (WriteFailed e)
    then have pull: "tcp_pull J b = Some (e, b')"
      by (simp add: tcp_pull_def st)
    from st pump WriteFailed obtain er k where k: "write_frame J e (tb_sink b) = (Inl er, k)" "tb_sink b' = k"
        "tb_pump b' = WriterDone"
      by (auto simp: write_step_def split: option.splits prod.splits sum.splits if_splits)
    with write_frame_Inl [OF k(1)] tcp_bus.pull_fifo [OF inv(1) pull] inv show ?thesis
      by (simp add: st WriteFailed)
  next
    case WriterEnds
    with st pump have "b' = b\<lparr>tb_pump := WriterDone\<rparr>"
      by (auto simp: write_step_def split: option.splits prod.splits sum.splits if_splits)
    with inv show ?thesis
      by (simp add: st WriterEnds)
  qed
qed

lemma tcp_trace_ok:
  assumes "tcp_wire_ok J h"
  shows "tcp_wire_ok J (tcp_trace J opr h)"
proof -
  obtain acc wr lo b where h: "h = (acc, wr, lo, b)"
    by (cases h)
  consider (send) e where "opr = OpSend e" | (writer) "opr = OpWrite"
    | (other) "opr \<noteq> OpWrite" and "\<forall>e. opr \<noteq> OpSend e"
    by blast
  then show ?thesis
  proof cases
    case send
    show ?thesis
    proof (cases "tcp_push e b")
      case None
      then have "tcp_trace J opr h = h"
        by (auto simp: send h tcp_push_def tcp_send_def split: sum.splits option.splits if_splits)
      with assms show ?thesis by simp
    next
      case (Some b')
      then have "tcp_trace J opr h = (acc @ [e], wr, lo, b')"
        by (auto simp: send h tcp_push_def split: prod.splits sum.splits option.splits)
      with assms tcp_bus.push_fifo [OF _ Some] tcp_push_Some [OF Some] show ?thesis
        by (auto simp: h)
    qed
  next
    case writer
    then show ?thesis
      using assms tcp_write_ok [of J acc wr lo b] by (simp add: h)
  next
    case other
    then have "tcp_trace J opr h = (acc, wr, lo, tcp_exec J opr b)"
      by (cases opr) (simp_all add: h)
    with assms tcp_exec_frame [OF other, of J b] show ?thesis
      by (cases "tb_pump b = Acquiring") (auto simp: h)
  qed
qed

lemma tcp_history_ok: "tcp_wire_ok J (fold (tcp_trace J) oprs ([], [], [], tcp_start))"
proof -
  have "tcp_wire_ok J h \<Longrightarrow> tcp_wire_ok J (fold (tcp_trace J) oprs h)" for h
    by (induction oprs arbitrary: h) (simp_all add: tcp_trace_ok del: tcp_wire_ok.simps tcp_trace.simps)
  then show ?thesis
    by (simp add: tcp_start_def class_fifo_empty)
qed

text \<open>Envelopes and a codec for the witnesses.\<close>

definition demo_envelope :: "channel_id \<Rightarrow> u64 \<Rightarrow> multiplexed_envelope" where
  "demo_envelope c n =
     \<lparr>env_channel = c, env_seq_no = n, env_session_id = 0, env_payload_type = [], env_payload_bytes = []\<rparr>"

definition demo_wire :: "multiplexed_envelope codec" where
  "demo_wire = list_codec [demo_envelope Inference 1, demo_envelope Control 2]"

lemma demo_wire_ok: "codec_ok demo_wire"
  by (simp add: demo_wire_def list_codec_ok)

lemma demo_envelope_channel [simp]: "env_channel (demo_envelope c n) = c"
  by (simp add: demo_envelope_def)

lemma demo_wire_to_vec:
  "to_vec demo_wire (demo_envelope Inference 1) = Inr []"
  "to_vec demo_wire (demo_envelope Control 2) = Inr [1]"
  by (simp_all add: demo_wire_def list_codec_def demo_envelope_def)

section \<open>Properties\<close>



text \<open>A hostile or corrupt length cannot make the reader allocate. Whatever the bytes, a frame
  the reader accepts announced, and had, at most \<open>MAX_FRAME_LEN\<close> bytes, which decode to the
  envelope; a larger announcement is an error, and ends the reader with nothing more published.\<close>

theorem frame_length_bounded:
  "(\<forall>e rest. read_frame J bs = (Inr (Some e), rest) \<longrightarrow>
      (\<exists>buf. bs = be_bytes 4 (length buf) @ buf @ rest \<and> length buf \<le> MAX_FRAME_LEN \<and>
         from_slice J buf = Inr e)) \<and>
   (4 \<le> length bs \<longrightarrow> MAX_FRAME_LEN < be_value (take 4 bs) \<longrightarrow>
      (\<exists>msg. read_loop J bs r = (r, Some (InvalidData msg))))"
proof (intro conjI allI impI)
  fix e rest
  assume a: "read_frame J bs = (Inr (Some e), rest)"
  let ?n = "be_value (take 4 bs)"
  have len: "4 \<le> length bs" "?n \<le> MAX_FRAME_LEN" "?n \<le> length (drop 4 bs)"
      "rest = drop ?n (drop 4 bs)" "from_slice J (take ?n (drop 4 bs)) = Inr e"
    using a by (auto simp: read_frame_def read_exact_def Let_def not_less split: if_splits sum.splits)
  have "be_bytes 4 (be_value (take 4 bs)) = take 4 bs"
    by (rule be_bytes_be_value) (use len(1) in simp)
  moreover have "take 4 bs @ take ?n (drop 4 bs) @ rest = bs"
    by (simp add: len(4) del: drop_drop)
  ultimately show "\<exists>buf. bs = be_bytes 4 (length buf) @ buf @ rest \<and> length buf \<le> MAX_FRAME_LEN \<and>
      from_slice J buf = Inr e"
    using len by (intro exI [of _ "take ?n (drop 4 bs)"]) (simp add: min_absorb2)
next
  assume "4 \<le> length bs" "MAX_FRAME_LEN < be_value (take 4 bs)"
  then show "\<exists>msg. read_loop J bs r = (r, Some (InvalidData msg))"
    by (subst read_loop.simps) (simp add: read_frame_def read_exact_def Let_def not_less)
qed

theorem frame_length_bounded_witness:
  "\<exists>msg. read_loop demo_wire [2, 0, 0, 0] (channel_router_new 4) = (channel_router_new 4, Some (InvalidData msg))"
  using frame_length_bounded [of demo_wire "[2, 0, 0, 0]" "channel_router_new 4"]
  by (simp add: be_value_def MAX_FRAME_LEN_def)

text \<open>A frame cut inside its length prefix is taken for a clean end. The reader reports no
  error when the stream ends with one to three bytes of a next frame, although that is not a
  frame boundary.\<close>

theorem cut_prefix_reads_as_clean_eof:
  assumes "codec_ok J" and "list_all (fits J) es" and "length rest < 4"
  shows "read_loop J (concat (map (frame J) es) @ rest) r = (fold publish es r, None)"
  by (simp add: read_loop_frames [OF assms(1,2)] read_loop_short [OF assms(3)])

theorem cut_prefix_reads_as_clean_eof_witness:
  "read_loop demo_wire [0, 0, 0, 1, 1, 0, 0] (channel_router_new 4) =
     (publish (demo_envelope Control 2) (channel_router_new 4), None)"
proof -
  have "frame demo_wire (demo_envelope Control 2) = [0, 0, 0, 1, 1]"
    by (simp add: frame_def demo_wire_to_vec be_bytes_numeral)
  moreover have "fits demo_wire (demo_envelope Control 2)"
    by (simp add: fits_def demo_wire_to_vec MAX_FRAME_LEN_def)
  ultimately show ?thesis
    using cut_prefix_reads_as_clean_eof [OF demo_wire_ok, of "[demo_envelope Control 2]" "[0, 0]" "channel_router_new 4"]
    by simp
qed

text \<open>One envelope that does not fit silences the outbound side. When the next envelope is too
  large for a frame the writer ends; from then on nothing is written whatever happens, yet a
  send still reports success as long as the bus is open, the peer has not hung up and the queue
  has room.\<close>

theorem oversize_envelope_silences_writer:
  assumes "tb_pump b = Pumping" and "next_envelope (tb_queues b) = Some (big, q)"
    and "to_vec J big = Inr bs" and "MAX_FRAME_LEN < length bs"
  shows "\<exists>b1. write_step J b = Some (WriteFailed big, b1) \<and>
    (\<forall>oprs. tb_sink (fold (tcp_exec J) oprs b1) = tb_sink b \<and>
      (\<forall>e. tb_open (fold (tcp_exec J) oprs b1) \<longrightarrow> tb_reading (fold (tcp_exec J) oprs b1) \<longrightarrow>
         queued (tb_queues (fold (tcp_exec J) oprs b1)) < DEFAULT_QUEUE_DEPTH \<longrightarrow>
         fst (tcp_send e (fold (tcp_exec J) oprs b1)) = Some (Inr ())))"
proof -
  let ?b1 = "b\<lparr>tb_queues := q, tb_pump := WriterDone\<rparr>"
  have "write_frame J big (tb_sink b) =
      (Inl (InvalidInput (''frame of '' @ decimal (length bs) @ '' bytes exceeds MAX_FRAME_LEN'')), tb_sink b)"
    using assms(3,4) by (simp add: write_frame_def)
  then have "write_step J b = Some (WriteFailed big, ?b1)"
    using assms(1,2) by (simp add: write_step_def)
  moreover have "fst (tcp_send e b') = Some (Inr ())"
    if "tb_pump b' = WriterDone" "tb_open b'" "tb_reading b'" "queued (tb_queues b') < DEFAULT_QUEUE_DEPTH" for e b'
    using that by (auto simp: tcp_send_def sender_defs receivers_alive_def queued_def)
  ultimately show ?thesis
    using fold_tcp_exec_stopped [of ?b1 J] by (intro exI [of _ ?b1]) simp
qed

theorem oversize_envelope_silences_writer_witness:
  "let J = \<lparr>to_vec = \<lambda>e. Inr (replicate (Suc MAX_FRAME_LEN) 0), from_slice = \<lambda>_. Inl []\<rparr>;
       b = (tcp_acquire (Some ([], None)) tcp_start)\<lparr>tb_queues := \<lparr>sq_control = [], sq_normal = [demo_envelope Inference 1]\<rparr>\<rparr>
   in \<exists>b1. write_step J b = Some (WriteFailed (demo_envelope Inference 1), b1) \<and>
        fst (tcp_send (demo_envelope Inference 2) b1) = Some (Inr ()) \<and>
        sk_bytes (tb_sink (fold (tcp_exec J) [OpSend (demo_envelope Inference 2), OpWrite] b1)) = []"
proof -
  let ?J = "\<lparr>to_vec = \<lambda>e. Inr (replicate (Suc MAX_FRAME_LEN) 0), from_slice = \<lambda>_. Inl []\<rparr> :: multiplexed_envelope codec"
  let ?b = "(tcp_acquire (Some ([], None)) tcp_start)\<lparr>tb_queues :=
      \<lparr>sq_control = [], sq_normal = [demo_envelope Inference 1]\<rparr>\<rparr>"
  let ?b1 = "?b\<lparr>tb_queues := queues_empty, tb_pump := WriterDone\<rparr>"
  have st: "write_step ?J ?b = Some (WriteFailed (demo_envelope Inference 1), ?b1)"
    by (simp add: write_step_def tcp_acquire_def tcp_start_def next_envelope_def queues_empty_def write_frame_def
        del: replicate.simps)
  have "\<forall>oprs. tb_sink (fold (tcp_exec ?J) oprs ?b1) = tb_sink ?b \<and>
      (\<forall>e. tb_open (fold (tcp_exec ?J) oprs ?b1) \<longrightarrow> tb_reading (fold (tcp_exec ?J) oprs ?b1) \<longrightarrow>
         queued (tb_queues (fold (tcp_exec ?J) oprs ?b1)) < DEFAULT_QUEUE_DEPTH \<longrightarrow>
         fst (tcp_send e (fold (tcp_exec ?J) oprs ?b1)) = Some (Inr ()))"
    using oversize_envelope_silences_writer [of ?b "demo_envelope Inference 1" queues_empty ?J
        "replicate (Suc MAX_FRAME_LEN) 0", unfolded st]
    by (simp add: tcp_acquire_def next_envelope_def queues_empty_def del: replicate.simps fold_simps)
  note t = this [rule_format]
  have "tb_open ?b1" "tb_reading ?b1" "queued (tb_queues ?b1) < DEFAULT_QUEUE_DEPTH" "sk_bytes (tb_sink ?b) = []"
    by (simp_all add: tcp_acquire_def tcp_start_def queues_empty_def queued_def DEFAULT_QUEUE_DEPTH_def)
  with t [of "[]"] t [of "[OpSend (demo_envelope Inference 2), OpWrite]"] st show ?thesis
    unfolding Let_def by (intro exI [of _ ?b1]) (simp del: replicate.simps fold_simps add: fold_simps(1))
qed

end
