(* ===== verification/Subagent.thy ===== *)
theory Subagent
  imports Engine_Laws Demo_Turn
begin

text \<open>
  Subagents, \<open>crates/mahi-agent-core/src/subagent.rs\<close>: one goal is one turn of a fresh engine in a
  fresh conversation, and a list of goals is fanned out under a semaphore.

  A subagent's engine is reachable by nobody else, so its turn runs with an empty surface: no
  call ever resolves an approval or cancels. A turn that stays parked makes the subagent's
  future never complete, which is the result \<open>None\<close>. The fan-out is a step relation on
  the permits of the semaphore and the goals: a goal takes a permit when one is free, and gives it
  back when its subagent returns. A subagent returns what its turn gives from some world: the
  others share the store, and what they do between its calls is part of that world.
\<close>

section \<open>The coordinator\<close>

definition MAX_CONCURRENT_SUBAGENTS :: nat where
  "MAX_CONCURRENT_SUBAGENTS = 10"

record coordinator =
  sc_device_id :: uuid
  sc_max_concurrent :: nat

definition coordinator_new :: "uuid \<Rightarrow> coordinator" where
  "coordinator_new device = \<lparr>sc_device_id = device, sc_max_concurrent = MAX_CONCURRENT_SUBAGENTS\<rparr>"

definition from_engine :: "engine \<Rightarrow> coordinator" where
  "from_engine e = coordinator_new (en_device_id e)"

definition with_max_concurrent :: "usize \<Rightarrow> coordinator \<Rightarrow> coordinator" where
  "with_max_concurrent m sc = sc\<lparr>sc_max_concurrent := max 1 (min (unat m) MAX_CONCURRENT_SUBAGENTS)\<rparr>"

section \<open>One subagent\<close>

text \<open>Draining the event stream: the text streamed before \<open>TurnFinished\<close>.\<close>

fun drain_events :: "agent_event list \<Rightarrow> string \<Rightarrow> string" where
  "drain_events [] streamed_text = streamed_text"
| "drain_events (TextDelta t # evs) streamed_text = drain_events evs (streamed_text @ t)"
| "drain_events (TurnFinished reason # evs) streamed_text = streamed_text"
| "drain_events (_ # evs) streamed_text = drain_events evs streamed_text"

definition final_summary :: "message list \<Rightarrow> string \<Rightarrow> string" where
  "final_summary msgs streamed_text =
     (case find (\<lambda>m. msg_role m = Assistant) (rev msgs) of
        Some m \<Rightarrow> text_content m
      | None \<Rightarrow> streamed_text)"

definition run_one_subagent ::
  "'w seams \<Rightarrow> engine \<Rightarrow> string \<Rightarrow> compute_mode \<Rightarrow> 'w \<Rightarrow> (contract_error + string) option \<times> 'w" where
  "run_one_subagent S e goal mode w =
     (case create_conversation S mode w of
        (Inl er, w1) \<Rightarrow> (Some (Inl er), w1)
      | (Inr cid, w1) \<Rightarrow>
          (case run_turn S e cid goal False [] w1 of
             (Inl er, w2) \<Rightarrow> (Some (Inl er), w2)
           | (Inr (r, t), w2) \<Rightarrow>
               if r = Parked then (None, w2)
               else let streamed_text = drain_events (emitted (tn_log t)) []
                    in case history S cid w2 of
                         (Inl er, w3) \<Rightarrow> (Some (Inl er), w3)
                       | (Inr msgs, w3) \<Rightarrow> (Some (Inr (final_summary msgs streamed_text)), w3)))"

section \<open>The fan-out\<close>

datatype goal_state = Queued | Running | Finished "contract_error + string"

type_synonym goals = "(string \<times> goal_state) list"

record fan =
  fan_permits :: nat
  fan_goals :: goals

definition running :: "goals \<Rightarrow> nat" where
  "running gs = length (filter (\<lambda>g. snd g = Running) gs)"

text \<open>The semaphore gets the coordinator's cap, and a future is made per goal, in order.\<close>

definition fan_start :: "coordinator \<Rightarrow> string list \<Rightarrow> fan" where
  "fan_start sc goals =
     \<lparr>fan_permits = sc_max_concurrent sc, fan_goals = map (\<lambda>g. (g, Queued)) goals\<rparr>"

inductive fan_step :: "'w seams \<Rightarrow> coordinator \<Rightarrow> compute_mode \<Rightarrow> fan \<Rightarrow> fan \<Rightarrow> bool"
  for S :: "'w seams" and sc :: coordinator and mode :: compute_mode where
  fan_acquire: "i < length (fan_goals f) \<Longrightarrow> fan_goals f ! i = (goal, Queued) \<Longrightarrow> fan_permits f = Suc p \<Longrightarrow>
     fan_step S sc mode f \<lparr>fan_permits = p, fan_goals = (fan_goals f)[i := (goal, Running)]\<rparr>"
| fan_finish: "i < length (fan_goals f) \<Longrightarrow> fan_goals f ! i = (goal, Running) \<Longrightarrow>
     run_one_subagent S (engine_new (sc_device_id sc)) goal mode w = (Some r, w') \<Longrightarrow>
     fan_step S sc mode f
       \<lparr>fan_permits = Suc (fan_permits f), fan_goals = (fan_goals f)[i := (goal, Finished r)]\<rparr>"

inductive_cases fan_stepE: "fan_step S sc mode f f'"

text \<open>\<open>join_all(..).await.into_iter().collect()\<close>: all results in goal order, or the first error.\<close>

definition goal_result :: "string \<times> goal_state \<Rightarrow> contract_error + string" where
  "goal_result g = (case snd g of Finished r \<Rightarrow> r | _ \<Rightarrow> Inr [])"

definition all_finished :: "goals \<Rightarrow> bool" where
  "all_finished gs = list_all (\<lambda>g. case snd g of Finished r \<Rightarrow> True | _ \<Rightarrow> False) gs"

definition fan_result :: "fan \<Rightarrow> (contract_error + string list) option" where
  "fan_result f =
     (if all_finished (fan_goals f) then Some (collect_results goal_result (fan_goals f)) else None)"

text \<open>\<open>run_goals\<close>: the results it may return, one per interleaving that comes to an end.\<close>

definition run_goals ::
  "'w seams \<Rightarrow> coordinator \<Rightarrow> string list \<Rightarrow> compute_mode \<Rightarrow> contract_error + string list \<Rightarrow> bool" where
  "run_goals S sc goals mode res \<longleftrightarrow>
     (\<exists>f. (fan_step S sc mode)\<^sup>*\<^sup>* (fan_start sc goals) f \<and> fan_result f = Some res)"

text \<open>What the subagent of a goal may return.\<close>

definition outcome :: "'w seams \<Rightarrow> coordinator \<Rightarrow> compute_mode \<Rightarrow> string \<Rightarrow> contract_error + string \<Rightarrow> bool" where
  "outcome S sc mode goal r \<longleftrightarrow>
     (\<exists>w. fst (run_one_subagent S (engine_new (sc_device_id sc)) goal mode w) = Some r)"

section \<open>Invariant and measure of the fan-out\<close>

lemma collect_results_Inl:
  "collect_results f xs = Inl e \<Longrightarrow>
     \<exists>ys x zs. xs = ys @ x # zs \<and> f x = Inl e \<and> (\<forall>y \<in> set ys. is_ok (f y))"
proof (induction xs)
  case (Cons x xs)
  show ?case
  proof (cases "f x")
    case (Inl e')
    with Cons.prems show ?thesis by (intro exI [of _ "[]"]) auto
  next
    case (Inr y)
    with Cons.prems have "collect_results f xs = Inl e"
      by (auto simp: result_simps)
    with Cons.IH obtain ys x' zs where "xs = ys @ x' # zs" "f x' = Inl e" "\<forall>y \<in> set ys. is_ok (f y)"
      by blast
    with Inr show ?thesis by (intro exI [of _ "x # ys"]) auto
  qed
qed simp

lemma collect_results_Inr:
  "collect_results f xs = Inr ys \<Longrightarrow> list_all2 (\<lambda>x y. f x = Inr y) xs ys"
  by (induction xs arbitrary: ys) (auto simp: result_simps)

lemma length_filter_update:
  "i < length xs \<Longrightarrow> length (filter P (xs[i := y])) + (if P (xs ! i) then 1 else 0) =
     length (filter P xs) + (if P y then 1 else 0)"
proof (induction xs arbitrary: i)
  case (Cons x xs)
  then show ?case by (cases i) auto
qed simp

text \<open>The semaphore's account: the free permits and those of the running subagents are the cap.\<close>

definition fan_ok :: "'w seams \<Rightarrow> coordinator \<Rightarrow> compute_mode \<Rightarrow> string list \<Rightarrow> fan \<Rightarrow> bool" where
  "fan_ok S sc mode goals f \<longleftrightarrow>
     map fst (fan_goals f) = goals \<and> fan_permits f + running (fan_goals f) = sc_max_concurrent sc \<and>
     (\<forall>g r. (g, Finished r) \<in> set (fan_goals f) \<longrightarrow> outcome S sc mode g r)"

lemma fan_start_ok: "fan_ok S sc mode goals (fan_start sc goals)"
  by (auto simp: fan_ok_def fan_start_def running_def comp_def)

lemma running_update:
  assumes "i < length gs" and "gs ! i = (goal, st)"
  shows "running (gs[i := (goal, st')]) + (if st = Running then 1 else 0) =
    running gs + (if st' = Running then 1 else 0)"
  using length_filter_update [of i gs "\<lambda>g. snd g = Running" "(goal, st')"] assms by (simp add: running_def)

lemma fan_step_ok:
  assumes "fan_step S sc mode f f'" and "fan_ok S sc mode goals f"
  shows "fan_ok S sc mode goals f'"
  using assms(1)
proof cases
  case (fan_acquire i goal p)
  have "map fst (fan_goals f') = map fst (fan_goals f)"
    using fan_acquire by (simp add: map_update list_update_same_conv)
  with running_update [OF fan_acquire(2,3), of Running] show ?thesis
    using assms(2) fan_acquire set_update_subset_insert [of "fan_goals f" i "(goal, Running)"]
    by (auto simp: fan_ok_def)
next
  case (fan_finish i goal w r w')
  have "map fst (fan_goals f') = map fst (fan_goals f)"
    using fan_finish by (simp add: map_update list_update_same_conv)
  moreover have "outcome S sc mode goal r"
    using fan_finish(4) by (auto simp: outcome_def intro: exI [of _ w])
  ultimately show ?thesis
    using assms(2) fan_finish running_update [OF fan_finish(2,3), of "Finished r"]
      set_update_subset_insert [of "fan_goals f" i "(goal, Finished r)"]
    by (fastforce simp: fan_ok_def)
qed

lemma fan_steps_ok:
  "(fan_step S sc mode)\<^sup>*\<^sup>* f f' \<Longrightarrow> fan_ok S sc mode goals f \<Longrightarrow> fan_ok S sc mode goals f'"
  by (induction rule: rtranclp_induct) (auto intro: fan_step_ok)

text \<open>A goal makes two steps.\<close>

definition fan_left :: "goals \<Rightarrow> nat" where
  "fan_left gs = 2 * length (filter (\<lambda>g. snd g = Queued) gs) + running gs"

lemma fan_step_left:
  assumes "fan_step S sc mode f f'"
  shows "fan_left (fan_goals f) = Suc (fan_left (fan_goals f'))"
  using assms
proof cases
  case (fan_acquire i goal p)
  then show ?thesis
    using running_update [OF fan_acquire(2,3), of Running]
      length_filter_update [of i "fan_goals f" "\<lambda>g. snd g = Queued" "(goal, Running)"]
    by (simp add: fan_left_def)
next
  case (fan_finish i goal w r w')
  then show ?thesis
    using running_update [OF fan_finish(2,3), of "Finished r"]
      length_filter_update [of i "fan_goals f" "\<lambda>g. snd g = Queued" "(goal, Finished r)"]
    by (simp add: fan_left_def)
qed

lemma fan_steps_left:
  "((fan_step S sc mode) ^^ k) f f' \<Longrightarrow> fan_left (fan_goals f) = k + fan_left (fan_goals f')"
proof (induction k arbitrary: f')
  case (Suc k)
  then obtain f1 where "((fan_step S sc mode) ^^ k) f f1" "fan_step S sc mode f1 f'"
    by auto
  with Suc.IH [of f1] fan_step_left [of S sc mode f1 f'] show ?case by simp
qed simp

text \<open>Some goal can move as long as one is not finished, if there is a permit at all.\<close>

lemma fan_progress:
  assumes "fan_ok S sc mode goals f" and "\<not> all_finished (fan_goals f)" and "0 < sc_max_concurrent sc"
    and "\<And>g. \<exists>r. outcome S sc mode g r"
  shows "\<exists>f'. fan_step S sc mode f f'"
proof (cases "running (fan_goals f) = 0")
  case True
  from assms(2) obtain g where g: "g \<in> set (fan_goals f)" "\<And>r. snd g \<noteq> Finished r"
    by (auto simp: all_finished_def list_all_iff split: goal_state.splits)
  from True g(1) have "snd g \<noteq> Running"
    by (auto simp: running_def filter_empty_conv)
  with g(2) have "snd g = Queued"
    by (cases "snd g") auto
  with g(1) obtain i where "i < length (fan_goals f)" "fan_goals f ! i = (fst g, Queued)"
    by (metis in_set_conv_nth prod.collapse)
  moreover obtain p where "fan_permits f = Suc p"
    using True assms(1,3) by (cases "fan_permits f") (auto simp: fan_ok_def)
  ultimately show ?thesis
    using fan_acquire by metis
next
  case False
  then obtain g where "g \<in> set (fan_goals f)" "snd g = Running"
    by (auto simp: running_def filter_empty_conv)
  then obtain i where "i < length (fan_goals f)" "fan_goals f ! i = (fst g, Running)"
    by (metis in_set_conv_nth prod.collapse)
  moreover obtain w r w' where "run_one_subagent S (engine_new (sc_device_id sc)) (fst g) mode w = (Some r, w')"
    using assms(4) [of "fst g"] by (auto simp: outcome_def) (metis prod.collapse)
  ultimately show ?thesis
    using fan_finish by metis
qed

text \<open>A queued goal can start exactly when fewer subagents run than the cap allows.\<close>

lemma fan_starts_iff:
  assumes "fan_ok S sc mode goals f" and "i < length (fan_goals f)" and "fan_goals f ! i = (goal, Queued)"
  shows "(\<exists>f'. fan_step S sc mode f f' \<and> fan_goals f' ! i = (goal, Running)) \<longleftrightarrow>
    running (fan_goals f) < sc_max_concurrent sc"
proof
  assume "\<exists>f'. fan_step S sc mode f f' \<and> fan_goals f' ! i = (goal, Running)"
  then obtain f' where f': "fan_step S sc mode f f'" "fan_goals f' ! i = (goal, Running)"
    by blast
  from f'(1) have "fan_permits f \<noteq> 0"
  proof cases
    case (fan_finish j goal' w r w')
    with f'(2) assms(2,3) show ?thesis by (cases "j = i") auto
  qed simp
  with assms(1) show "running (fan_goals f) < sc_max_concurrent sc"
    by (simp add: fan_ok_def)
next
  assume "running (fan_goals f) < sc_max_concurrent sc"
  with assms(1) obtain p where "fan_permits f = Suc p"
    by (cases "fan_permits f") (auto simp: fan_ok_def)
  from fan_acquire [OF assms(2,3) this, of S sc mode] assms(2)
  show "\<exists>f'. fan_step S sc mode f f' \<and> fan_goals f' ! i = (goal, Running)"
    by (intro exI conjI) (assumption, simp)
qed

text \<open>The answer of a batch, read off its goals.\<close>

lemma fan_result_outcome:
  assumes "fan_ok S sc mode goals f" and "fan_result f = Some res"
  shows "(\<forall>rs. res = Inr rs \<longrightarrow> list_all2 (\<lambda>g r. outcome S sc mode g (Inr r)) goals rs) \<and>
    (\<forall>er. res = Inl er \<longrightarrow> (\<exists>before g rest. goals = before @ g # rest \<and> outcome S sc mode g (Inl er) \<and>
       (\<forall>g' \<in> set before. \<exists>r. outcome S sc mode g' (Inr r))))"
proof -
  let ?gs = "fan_goals f"
  have fin: "all_finished ?gs" and res: "collect_results goal_result ?gs = res" and goals: "goals = map fst ?gs"
    using assms by (auto simp: fan_result_def fan_ok_def split: if_splits)
  have out: "outcome S sc mode (fst g) (goal_result g)" if "g \<in> set ?gs" for g
    using assms(1) fin that by (cases g) (auto simp: fan_ok_def all_finished_def list_all_iff goal_result_def
        split: goal_state.splits)
  have "list_all2 (\<lambda>g r. outcome S sc mode g (Inr r)) goals rs" if "res = Inr rs" for rs
  proof -
    have "list_all2 (\<lambda>g r. goal_result g = Inr r) ?gs rs"
      using res that by (simp add: collect_results_Inr)
    then have "list_all2 (\<lambda>g r. outcome S sc mode (fst g) (Inr r)) ?gs rs"
      by (rule list.rel_mono_strong) (use out in force)
    then show ?thesis
      by (simp add: goals list_all2_map1)
  qed
  moreover have "\<exists>before g rest. goals = before @ g # rest \<and> outcome S sc mode g (Inl er) \<and>
      (\<forall>g' \<in> set before. \<exists>r. outcome S sc mode g' (Inr r))" if er: "res = Inl er" for er
  proof -
    obtain ys x zs where x: "?gs = ys @ x # zs" "goal_result x = Inl er" "\<forall>y \<in> set ys. is_ok (goal_result y)"
      using collect_results_Inl [of goal_result ?gs er] res er by blast
    have "\<exists>r. outcome S sc mode (fst y) (Inr r)" if "y \<in> set ys" for y
      using out [of y] x(1,3) that by (cases "goal_result y") auto
    then show ?thesis
      using out [of x] x(1,2)
      by (intro exI [of _ "map fst ys"] exI [of _ "fst x"] exI [of _ "map fst zs"]) (auto simp: goals)
  qed
  ultimately show ?thesis by blast
qed

section \<open>A turn with no surface\<close>

text \<open>
  \<open>alone\<close>: nobody can act on the turn any more and it has not asked for an approval. Every step
  of the engine keeps it, whether it ends normally or fails, or parks the turn having asked.
\<close>

definition asked :: "effect list \<Rightarrow> bool" where
  "asked l \<longleftrightarrow> (\<exists>i summary. Emitted (ApprovalRequired i summary) \<in> set l)"

definition alone :: "'w turn \<Rightarrow> bool" where
  "alone s \<longleftrightarrow> tn_surface s = [] \<and> \<not> tn_cancelled s \<and> \<not> asked (tn_log s)"

definition lone :: "('w, 'a) turn_m \<Rightarrow> bool" where
  "lone m \<longleftrightarrow> (\<forall>s. alone s \<longrightarrow>
     (case m s of (Parked, s') \<Rightarrow> asked (tn_log s') | (_, s') \<Rightarrow> alone s'))"

named_theorems lone_intros \<open>steps of a turn with no surface\<close>

lemma asked_append [simp]: "asked (l @ l') \<longleftrightarrow> asked l \<or> asked l'"
  by (auto simp: asked_def)

lemma loneD:
  "lone m \<Longrightarrow> alone s \<Longrightarrow> m s = (r, s') \<Longrightarrow> (if r = Parked then asked (tn_log s') else alone s')"
  unfolding lone_def by (drule spec [of _ s], cases r) simp_all

lemma lone_bind [lone_intros]:
  assumes "lone m" and "\<And>x. lone (f x)"
  shows "lone (bind_t m f)"
  unfolding lone_def
proof (intro allI impI)
  fix s :: "'a turn"
  assume a: "alone s"
  obtain r s' where m: "m s = (r, s')"
    by (cases "m s")
  show "case bind_t m f s of (Parked, s') \<Rightarrow> asked (tn_log s') | (_, s') \<Rightarrow> alone s'"
    using loneD [OF assms(1) a m] assms(2) by (cases r) (simp_all add: bind_t_def m lone_def)
qed

lemma lone_basics [lone_intros]:
  "lone (ret x)" "lone (fail e)" "lone (get_t f)" "lone (call g)" "lone (try_call g)"
  by (auto simp: lone_def alone_def ret_def fail_def get_t_def call_def try_call_def
      split: prod.splits sum.splits)

lemma lone_cases [lone_intros]:
  "(b \<Longrightarrow> lone m) \<Longrightarrow> (\<not> b \<Longrightarrow> lone m') \<Longrightarrow> lone (if b then m else m')"
  "lone m \<Longrightarrow> (\<And>x. lone (f x)) \<Longrightarrow> lone (case r of None \<Rightarrow> m | Some x \<Rightarrow> f x)"
  "(\<And>e. lone (g e)) \<Longrightarrow> (\<And>x. lone (h x)) \<Longrightarrow> lone (case q of Inl e \<Rightarrow> g e | Inr x \<Rightarrow> h x)"
  "(\<And>x y. lone (k x y)) \<Longrightarrow> lone (case p of (x, y) \<Rightarrow> k x y)"
  by (auto split: option.splits sum.splits prod.splits)

lemma lone_log [lone_intros]: "\<not> asked [e] \<Longrightarrow> lone (log_t e)"
  by (simp add: lone_def alone_def log_t_def)

lemma not_asked [simp]:
  "\<not> asked [Invoked iv]" "\<not> asked [Audited a]" "\<not> asked [Appended m]" "\<not> asked [Upserted c]"
  "\<not> asked [Described md ds]" "\<not> asked [Generated rq]"
  "asked [Emitted ev] \<longleftrightarrow> (\<exists>i summary. ev = ApprovalRequired i summary)"
  by (auto simp: asked_def)

lemma lone_emit [lone_intros]: "(\<And>i summary. ev \<noteq> ApprovalRequired i summary) \<Longrightarrow> lone (emit ev)"
  by (simp add: emit_def lone_log)

lemma lone_poll [lone_intros]: "lone (poll S)"
  by (auto simp: lone_def alone_def poll_def)

lemma register_waits:
  obtains n reg where "registry_register i r = ((i, n), reg)" "receive n reg = None"
  by (rule that [of "length (ap_slots r)" "snd (registry_register i r)"])
    (auto simp: registry_register_def Let_def receive_def nth_append split: option.splits)

lemma lone_approval_gate [lone_intros]: "lone (approval_gate S d args)"
  unfolding lone_def
proof (intro allI impI)
  fix s :: "'a turn"
  assume a: "alone s"
  obtain i w where w: "sm_new_v4 S (tn_world s) = (i, w)"
    by (cases "sm_new_v4 S (tn_world s)") auto
  obtain n reg where "registry_register i (en_approvals (tn_engine s)) = ((i, n), reg)" "receive n reg = None"
    by (rule register_waits)
  with a w show "case approval_gate S d args s of (Parked, s') \<Rightarrow> asked (tn_log s') | (_, s') \<Rightarrow> alone s'"
    by (simp add: approval_gate_def register_approval_def ask_and_wait_def bind_t_def call_def
        draw_w_def emit_def log_t_def alone_def)
qed

lemmas lone_unfold = handoff_def text_delta_def append_message_def persist_assistant_text_def
  persist_assistant_tool_calls_def append_tool_result_def audit_tool_call_def audit_and_answer_def
  invoke_tool_def execute_tool_call_def describe_tools_def generate_t_def touch_conversation_def

lemma lone_set_mode [lone_intros]: "lone (\<lambda>s. (Done (), s\<lparr>tn_mode := md\<rparr>))"
  by (simp add: lone_def alone_def)

lemma lone_try_upsert [lone_intros]: "lone (try_upsert S c)"
  by (auto simp: lone_def alone_def try_upsert_def split: prod.splits sum.splits)

lemma lone_consume_inference [lone_intros]: "lone (consume_inference S stream t cs th)"
proof (induction stream arbitrary: t cs th)
  case (Cons item stream)
  then show ?case
    unfolding consume_inference.simps lone_unfold by (intro lone_intros) auto
qed (auto intro: lone_intros)

lemma lone_consume_tool_events [lone_intros]: "lone (consume_tool_events S events out)"
proof (induction events arbitrary: out)
  case (Cons item events)
  then show ?case
    unfolding consume_tool_events.simps by (intro lone_intros) auto
qed (auto intro: lone_intros)

lemma lone_execute_tool_call [lone_intros]: "lone (execute_tool_call S mid ds c)"
  unfolding lone_unfold Let_def by (intro lone_intros) auto

lemma lone_run_tool_calls [lone_intros]: "lone (run_tool_calls S mid ds cs)"
proof (induction cs)
  case (Cons c cs)
  show ?case
    unfolding run_tool_calls.simps
    by (intro lone_intros) (auto intro!: lone_intros Cons.IH split: tool_step_outcome.splits)
qed (auto intro: lone_intros)

lemma lone_drive_step [lone_intros]: "lone (drive_step S)"
  unfolding drive_step_def lone_unfold
  by (intro lone_intros) (auto intro!: lone_intros split: round_outcome.splits)

lemma lone_drive_loop [lone_intros]: "lone (drive_loop S n)"
  by (induction n) (auto intro!: lone_intros)

lemma lone_catch: "lone m \<Longrightarrow> (\<And>e. lone (h e)) \<Longrightarrow> lone (catch_t m h)"
  unfolding lone_def catch_t_def
proof (intro allI impI)
  fix s :: "'a turn"
  assume m: "\<forall>s. alone s \<longrightarrow> (case m s of (Parked, s') \<Rightarrow> asked (tn_log s') | (_, s') \<Rightarrow> alone s')"
    and h: "\<And>e. \<forall>s. alone s \<longrightarrow> (case h e s of (Parked, s') \<Rightarrow> asked (tn_log s') | (_, s') \<Rightarrow> alone s')"
    and a: "alone s"
  obtain r s' where r: "m s = (r, s')"
    by (cases "m s")
  show "case case m s of (Fail e, s') \<Rightarrow> h e s' | (r, s') \<Rightarrow> (r, s') of
      (Parked, s') \<Rightarrow> asked (tn_log s') | (_, s') \<Rightarrow> alone s'"
    using spec [OF m, of s] a h r by (cases r) simp_all
qed

lemma lone_run: "lone (run S)"
  unfolding run_def lone_unfold drive_def
  by (intro lone_intros lone_catch) auto

section \<open>Properties\<close>

text \<open>A subagent comes back exactly when its turn asks for no approval. Nobody can resolve an
  approval of a subagent's engine, so the future of a subagent whose model calls a tool that
  requires approval never completes, and every other turn ends.\<close>

theorem subagent_blocks_iff_it_asks:
  assumes "create_conversation S mode w = (Inr cid, w1)"
    and "run_turn S e cid goal False [] w1 = (Inr (r, t), w2)"
  shows "fst (run_one_subagent S e goal mode w) = None \<longleftrightarrow>
    (\<exists>i summary. Emitted (ApprovalRequired i summary) \<in> set (tn_log t))"
proof -
  from run_turn_runs [OF assms(2)] obtain s m l where s: "(r, t) = run S s" "tn_log s = Appended m # l"
      "tn_surface s = []" "\<not> tn_cancelled s" and l: "l = [] \<or> (\<exists>conv. l = [Upserted conv])"
    by blast
  have "alone s"
    using s(2-4) l by (auto simp: alone_def asked_def)
  from loneD [OF lone_run this s(1) [symmetric]] have "r = Parked \<longleftrightarrow> asked (tn_log t)"
    by (auto simp: alone_def split: if_splits)
  with assms show ?thesis
    by (auto simp: run_one_subagent_def asked_def Let_def split: prod.splits sum.splits)
qed


text \<open>A batch whose subagents return comes to an end. If every goal's subagent returns
  something, then no interleaving has more than two steps per goal, and one that can make no
  further step has a result; so no goal waits for a permit for ever.\<close>

theorem subagents_all_finish:
  assumes "((fan_step S sc mode) ^^ k) (fan_start sc goals) f"
    and "0 < sc_max_concurrent sc" and "\<And>g. \<exists>r. outcome S sc mode g r"
  shows "k \<le> 2 * length goals \<and> ((\<nexists>f'. fan_step S sc mode f f') \<longleftrightarrow> fan_result f \<noteq> None)"
proof -
  have ok: "fan_ok S sc mode goals f"
    using fan_steps_ok [OF relpowp_imp_rtranclp [OF assms(1)] fan_start_ok] .
  have "fan_left (fan_goals (fan_start sc goals)) = 2 * length goals"
    by (simp add: fan_left_def fan_start_def running_def comp_def)
  with fan_steps_left [OF assms(1)] have "k \<le> 2 * length goals"
    by simp
  moreover have "\<nexists>f'. fan_step S sc mode f f'" if "all_finished (fan_goals f)"
    using that by (auto elim!: fan_stepE simp: all_finished_def list_all_length)
  moreover have "\<exists>f'. fan_step S sc mode f f'" if "\<not> all_finished (fan_goals f)"
    by (rule fan_progress [OF ok that assms(2,3)])
  ultimately show ?thesis
    by (auto simp: fan_result_def)
qed

text \<open>A model that answers at once, for the witnesses.\<close>

definition demo_answers :: "nat seams" where
  "demo_answers = demo_seams\<lparr>sm_generate := (\<lambda>r w.
     (Inr [Inr (demo_tool_chunk\<lparr>ch_tool_call_delta := None, ch_finish_reason := Some FrStop\<rparr>)], w))\<rparr>"

lemma demo_answer: "\<exists>w. run_one_subagent demo_answers (engine_new 0) goal MacLan 0 = (Some (Inr ''ok''), w)"
  by (simp add: demo_answers_def run_one_subagent_def create_conversation_def history_def final_summary_def demo_eval
      del: drive_loop.simps consume_inference.simps consume_tool_events.simps run_tool_calls.simps)

lemma demo_outcome: "outcome demo_answers (coordinator_new 0) MacLan goal (Inr ''ok'')"
  using demo_answer [of goal] by (auto simp: outcome_def coordinator_new_def intro!: exI [of _ 0])


theorem subagents_all_finish_witness:
  "\<exists>f'. fan_step demo_answers (coordinator_new 0) MacLan (fan_start (coordinator_new 0) [''a'']) f'"
  using subagents_all_finish [of 0 demo_answers "coordinator_new 0" MacLan "[''a'']", OF _ _ exI, OF _ _ demo_outcome]
  by (simp add: fan_start_def coordinator_new_def MAX_CONCURRENT_SUBAGENTS_def fan_result_def all_finished_def)

lemma demo_parked_call:
  "\<exists>t w. run_turn demo_seams (engine_new 0) 0 ''go'' False [] 1 = (Inr (Parked, t), w) \<and>
     (\<exists>summary. Emitted (ApprovalRequired 6 summary) \<in> set (tn_log t))"
  by (simp add: demo_eval del: drive_loop.simps consume_inference.simps consume_tool_events.simps
      run_tool_calls.simps)

theorem subagent_blocks_iff_it_asks_witness:
  "fst (run_one_subagent demo_seams (engine_new 0) ''go'' MacLan 0) = None"
proof -
  have "create_conversation demo_seams MacLan 0 = (Inr 0, 1)"
    by (simp add: create_conversation_def bind_w_def draw_w_def act_ok_def demo_seams_def)
  with demo_parked_call show ?thesis
    using subagent_blocks_iff_it_asks [of demo_seams MacLan 0 0 1] by blast
qed

end
