(* ===== verification/Registry.thy ===== *)
theory Registry
  imports Router Seams
begin

text \<open>
  The tool registry of \<open>crates/mahi-tooling\<close>: the tool abstraction and its stream builders
  (\<open>tool.rs\<close>), registration, mounting, listing and dispatch (\<open>registry.rs\<close>), connectors
  (\<open>connector.rs\<close>) and the adapter for the tools of an MCP server (\<open>mcp/adapter.rs\<close>,
  \<open>mcp/mod.rs\<close>).

  A tool runs on a world \<open>'w\<close> and gives its stream of events. A cancellation token is asked once
  per poll of a stream, as in the router. \<open>serde\<close> deserialisation of a tool's arguments is a
  parameter of the tools that use it.
\<close>

section \<open>tool.rs\<close>

record 'w tool =
  tl_descriptor :: tool_descriptor
  tl_run :: "json \<Rightarrow> cancel_token \<Rightarrow> 'w \<Rightarrow> tool_event_stream \<times> 'w"

definition ok_result :: "json \<Rightarrow> tool_event_stream" where
  "ok_result output = [Inr (ToolResult output False)]"

definition tool_error_stream :: "string \<Rightarrow> bool \<Rightarrow> tool_event_stream" where
  "tool_error_stream message retryable = [Inr (ToolEventError message retryable)]"

definition contract_error_stream :: "contract_error \<Rightarrow> tool_event_stream" where
  "contract_error_stream e = [Inl e]"

definition tool_parse_args :: "(json \<Rightarrow> string + 'a) \<Rightarrow> json \<Rightarrow> string + 'a" where
  "tool_parse_args from_value args =
     (case from_value args of
        Inl e \<Rightarrow> Inl (''input schema validation failed: '' @ e)
      | Inr a \<Rightarrow> Inr a)"

section \<open>connector.rs\<close>

record 'w connector =
  cn_id :: string
  cn_display_name :: string
  cn_tools :: "tool_descriptor list"
  cn_invoke :: "string \<Rightarrow> json \<Rightarrow> cancel_token \<Rightarrow> 'w \<Rightarrow> tool_event_stream \<times> 'w"

definition connector_tool :: "tool_descriptor \<Rightarrow> 'w connector \<Rightarrow> 'w tool" where
  "connector_tool d c = \<lparr>tl_descriptor = d, tl_run = (\<lambda>args. cn_invoke c (td_id d) args)\<rparr>"

definition echo_descriptor :: tool_descriptor where
  "echo_descriptor =
     \<lparr>td_id = ''echo.say'', td_display_name = ''Echo'', td_category = Connector,
      td_available_in_modes = [OnDevice, MacLan, MacRemote, Hosted], td_required_permissions = [],
      td_input_schema = json_obj
        [(''type'', JStr ''object''),
         (''properties'', json_obj [(''message'', json_obj [(''type'', JStr ''string'')])]),
         (''required'', JArr [JStr ''message''])],
      td_output_schema = json_obj
        [(''type'', JStr ''object''),
         (''properties'', json_obj [(''echo'', json_obj [(''type'', JStr ''string'')])])],
      td_requires_approval = False, td_destructive_level = Low\<rparr>"

definition echo_invoke ::
  "(json \<Rightarrow> string + string) \<Rightarrow> string \<Rightarrow> json \<Rightarrow> cancel_token \<Rightarrow> 'w \<Rightarrow> tool_event_stream \<times> 'w" where
  "echo_invoke echo_args tool_id args cancel w =
     (if tool_id = ''echo.say''
      then (case tool_parse_args echo_args args of
              Inr message \<Rightarrow> (ok_result (json_obj [(''echo'', JStr message)]), w)
            | Inl msg \<Rightarrow> (tool_error_stream msg False, w))
      else (tool_error_stream (''echo connector has no tool `'' @ tool_id @ ''`'') False, w))"

definition echo_connector :: "(json \<Rightarrow> string + string) \<Rightarrow> 'w connector" where
  "echo_connector echo_args =
     \<lparr>cn_id = ''echo'', cn_display_name = ''Echo (example connector)'', cn_tools = [echo_descriptor],
      cn_invoke = echo_invoke echo_args\<rparr>"

section \<open>registry.rs\<close>

record 'w tool_registry =
  rg_tools :: "(string, 'w tool) btree_map"
  rg_connectors :: "'w connector list"

definition registry_empty :: "'w tool_registry" where
  "registry_empty = \<lparr>rg_tools = [], rg_connectors = []\<rparr>"

definition contains_tool :: "'w tool_registry \<Rightarrow> string \<Rightarrow> bool" where
  "contains_tool r i = (map_of (rg_tools r) i \<noteq> None)"

definition register_tool ::
  "'w tool \<Rightarrow> 'w tool_registry \<Rightarrow> (contract_error + unit) \<times> 'w tool_registry" where
  "register_tool t r =
     (let i = td_id (tl_descriptor t)
      in if contains_tool r i
         then (Inl (OtherErr (''tool `'' @ i @ ''` is already registered'')), r)
         else (Inr (), r\<lparr>rg_tools := bt_insert i t (rg_tools r)\<rparr>))"

text \<open>The \<open>for\<close> loop of \<open>register(..)?\<close> calls: it stops at the first error.\<close>

fun register_all ::
  "'w tool list \<Rightarrow> 'w tool_registry \<Rightarrow> (contract_error + unit) \<times> 'w tool_registry" where
  "register_all [] r = (Inr (), r)"
| "register_all (t # ts) r =
     (case register_tool t r of
        (Inl e, r') \<Rightarrow> (Inl e, r')
      | (Inr _, r') \<Rightarrow> register_all ts r')"

definition mount_connector ::
  "'w connector \<Rightarrow> 'w tool_registry \<Rightarrow> (contract_error + unit) \<times> 'w tool_registry" where
  "mount_connector c r =
     (case find (\<lambda>d. contains_tool r (td_id d)) (cn_tools c) of
        Some d \<Rightarrow>
          (Inl (OtherErr (''connector `'' @ cn_id c @ ''` contributes tool `'' @ td_id d @
             ''` which is already registered'')), r)
      | None \<Rightarrow>
          (case register_all (map (\<lambda>d. connector_tool d c) (cn_tools c)) r of
             (Inl e, r') \<Rightarrow> (Inl e, r')
           | (Inr _, r') \<Rightarrow> (Inr (), r'\<lparr>rg_connectors := rg_connectors r' @ [c]\<rparr>)))"

definition connector_ids :: "'w tool_registry \<Rightarrow> string list" where
  "connector_ids r = map cn_id (rg_connectors r)"

definition describe :: "compute_mode \<Rightarrow> 'w tool_registry \<Rightarrow> tool_descriptor list" where
  "describe mode r = filter (\<lambda>d. mode \<in> set (td_available_in_modes d)) (map (tl_descriptor \<circ> snd) (rg_tools r))"

text \<open>\<open>with_cancellation\<close>, from the \<open>k\<close>-th poll on.\<close>

fun with_cancellation :: "cancel_token \<Rightarrow> nat \<Rightarrow> tool_event_stream \<Rightarrow> tool_event_stream" where
  "with_cancellation cancel k [] = (if cancel k then [Inr ToolCancelled] else [])"
| "with_cancellation cancel k (item # inner) =
     (if cancel k then [Inr ToolCancelled] else item # with_cancellation cancel (Suc k) inner)"

text \<open>The lookup and the mode check of \<open>invoke\<close>: the tool that will run.\<close>

definition dispatch :: "'w tool_registry \<Rightarrow> string \<Rightarrow> compute_mode \<Rightarrow> contract_error + 'w tool" where
  "dispatch r i mode =
     (case map_of (rg_tools r) i of
        None \<Rightarrow> Inl (ToolErr (ToolNotFound i))
      | Some t \<Rightarrow>
          if mode \<notin> set (td_available_in_modes (tl_descriptor t))
          then Inl (ToolErr (UnavailableInMode i mode)) else Inr t)"

definition invoke ::
  "'w tool_registry \<Rightarrow> tool_invocation \<Rightarrow> cancel_token \<Rightarrow> 'w \<Rightarrow> (contract_error + tool_event_stream) \<times> 'w" where
  "invoke r iv cancel w =
     (case dispatch r (ti_tool_id iv) (ti_compute_mode iv) of
        Inl e \<Rightarrow> (Inl e, w)
      | Inr t \<Rightarrow>
          (case tl_run t (ti_args iv) cancel w of
             (stream, w') \<Rightarrow> (Inr (with_cancellation cancel 0 stream), w')))"

section \<open>mcp/mod.rs, mcp/adapter.rs\<close>

definition mcp_tool_id :: "string \<Rightarrow> string \<Rightarrow> string" where
  "mcp_tool_id server t = ''mcp__'' @ server @ ''__'' @ t"

record tool_info =
  inf_name :: string
  inf_description :: "string option"
  inf_input_schema :: json

datatype mcp_error =
    McpSpawn string string
  | McpIo string
  | McpProtocol string
  | McpRpc int string
  | McpTimeout string nat
  | McpClosed
  | McpToolFailed string string
  | McpConfig string

fun mcp_retryable :: "mcp_error \<Rightarrow> bool" where
  "mcp_retryable (McpIo e) = True"
| "mcp_retryable (McpTimeout m t) = True"
| "mcp_retryable McpClosed = True"
| "mcp_retryable _ = False"

text \<open>A connected server: its name, the tools it advertised, \<open>call_tool\<close>, and how errors print.\<close>

record 'w mcp_server =
  ms_name :: string
  ms_tools :: "tool_info list"
  ms_call :: "string \<Rightarrow> json \<Rightarrow> 'w \<Rightarrow> (mcp_error + string) \<times> 'w"
  ms_show :: "mcp_error \<Rightarrow> string"

definition MCP_MODES :: "compute_mode list" where
  "MCP_MODES = [MacLan, MacRemote]"

definition mcp_display_name :: "string \<Rightarrow> tool_info \<Rightarrow> string" where
  "mcp_display_name server t =
     (case inf_description t of
        Some desc \<Rightarrow>
          if desc \<noteq> [] then (case str_lines desc of l # _ \<Rightarrow> l | [] \<Rightarrow> inf_name t)
          else server @ '': '' @ inf_name t
      | None \<Rightarrow> server @ '': '' @ inf_name t)"

definition mcp_descriptor :: "string \<Rightarrow> tool_info \<Rightarrow> tool_descriptor" where
  "mcp_descriptor server t =
     \<lparr>td_id = mcp_tool_id server (inf_name t), td_display_name = mcp_display_name server t,
      td_category = Connector, td_available_in_modes = MCP_MODES,
      td_required_permissions = [''mcp:'' @ server], td_input_schema = inf_input_schema t,
      td_output_schema = json_obj
        [(''type'', JStr ''object''),
         (''properties'', json_obj [(''content'', json_obj [(''type'', JStr ''string'')])])],
      td_requires_approval = True, td_destructive_level = High\<rparr>"

definition mcp_run ::
  "'w mcp_server \<Rightarrow> string \<Rightarrow> json \<Rightarrow> cancel_token \<Rightarrow> 'w \<Rightarrow> tool_event_stream \<times> 'w" where
  "mcp_run c remote_name args cancel w =
     (let arguments = (if args = JNull then json_obj [] else args)
      in if cancel 0 then ([Inr ToolCancelled], w)
         else case ms_call c remote_name arguments w of
                (Inr txt, w') \<Rightarrow> ([Inr (ToolResult (json_obj [(''content'', JStr txt)]) False)], w')
              | (Inl err, w') \<Rightarrow> ([Inr (ToolEventError (ms_show c err) (mcp_retryable err))], w'))"

definition mcp_tool :: "'w mcp_server \<Rightarrow> tool_info \<Rightarrow> 'w tool" where
  "mcp_tool c t = \<lparr>tl_descriptor = mcp_descriptor (ms_name c) t, tl_run = mcp_run c (inf_name t)\<rparr>"

definition attach_mcp_server ::
  "'w mcp_server \<Rightarrow> 'w tool_registry \<Rightarrow> (contract_error + string list) \<times> 'w tool_registry" where
  "attach_mcp_server c r =
     (let ids = map (\<lambda>t. mcp_tool_id (ms_name c) (inf_name t)) (ms_tools c)
      in case find (contains_tool r) ids of
           Some i \<Rightarrow>
             (Inl (OtherErr (''MCP server `'' @ ms_name c @ ''` contributes tool `'' @ i @
                ''` which is already registered'')), r)
         | None \<Rightarrow>
             (case register_all (map (mcp_tool c) (ms_tools c)) r of
                (Inl e, r') \<Rightarrow> (Inl e, r')
              | (Inr _, r') \<Rightarrow> (Inr ids, r')))"

text \<open>\<open>mount_mcp_servers_from_config\<close>: connecting is a parameter (it spawns the process); a server
  that fails to start or to attach is skipped.\<close>

fun mount_servers ::
  "('cfg \<Rightarrow> 'w mcp_server option) \<Rightarrow> 'cfg list \<Rightarrow> 'w tool_registry \<Rightarrow> string list \<times> 'w tool_registry" where
  "mount_servers connect [] r = ([], r)"
| "mount_servers connect (cfg # cfgs) r =
     (case connect cfg of
        None \<Rightarrow> mount_servers connect cfgs r
      | Some c \<Rightarrow>
          (case attach_mcp_server c r of
             (Inl _, r') \<Rightarrow> mount_servers connect cfgs r'
           | (Inr ids, r') \<Rightarrow>
               (case mount_servers connect cfgs r' of (all_ids, r'') \<Rightarrow> (ids @ all_ids, r''))))"

section \<open>The contract of a tool registry\<close>

text \<open>
  What the agent core relies on when it gates a call by the descriptor that \<open>describe\<close>
  returned: ids are unique there, and the tool that runs under an id is the one described.
\<close>

locale tool_contract =
  fixes listed :: "compute_mode \<Rightarrow> 's \<Rightarrow> tool_descriptor list"
    and pick :: "'s \<Rightarrow> string \<Rightarrow> compute_mode \<Rightarrow> contract_error + 't"
    and about :: "'t \<Rightarrow> tool_descriptor"
    and wf :: "'s \<Rightarrow> bool"
  assumes listed_distinct: "wf s \<Longrightarrow> distinct (map td_id (listed m s))"
    and picked_listed: "wf s \<Longrightarrow> pick s i m = Inr t \<Longrightarrow> about t \<in> set (listed m s) \<and> td_id (about t) = i"
    and listed_picked: "wf s \<Longrightarrow> d \<in> set (listed m s) \<Longrightarrow> \<exists>t. pick s (td_id d) m = Inr t"
    and pick_mode: "wf s \<Longrightarrow> pick s i m = Inr t \<Longrightarrow> pick s i m' = Inr t' \<Longrightarrow> t' = t"
begin

lemma gate_is_exact:
  assumes "wf s"
  shows "find (\<lambda>d. td_id d = i) (listed m s) = Some d \<longleftrightarrow> (\<exists>t. pick s i m = Inr t \<and> about t = d)"
proof
  assume f: "find (\<lambda>d. td_id d = i) (listed m s) = Some d"
  then have d: "d \<in> set (listed m s)" "td_id d = i"
    by (auto simp: find_Some_iff)
  with listed_picked [OF assms d(1)] obtain t where t: "pick s i m = Inr t"
    by auto
  with picked_listed [OF assms t] d listed_distinct [OF assms, of m] have "about t = d"
    by (auto simp: distinct_map dest: inj_onD)
  with t show "\<exists>t. pick s i m = Inr t \<and> about t = d"
    by blast
next
  assume "\<exists>t. pick s i m = Inr t \<and> about t = d"
  then have d: "d \<in> set (listed m s)" "td_id d = i"
    using picked_listed [OF assms] by auto
  then have "find (\<lambda>d. td_id d = i) (listed m s) \<noteq> None"
    by (auto simp: find_None_iff)
  then obtain d' where d': "find (\<lambda>d. td_id d = i) (listed m s) = Some d'"
    by blast
  then have "d' \<in> set (listed m s)" "td_id d' = i"
    by (auto simp: find_Some_iff)
  with d listed_distinct [OF assms, of m] have "d' = d"
    by (auto simp: distinct_map dest: inj_onD)
  with d' show "find (\<lambda>d. td_id d = i) (listed m s) = Some d"
    by simp
qed

text \<open>A mode handoff between listing and dispatch does not put another tool behind the id.\<close>

lemma gate_survives_handoff:
  assumes "wf s" and "find (\<lambda>d. td_id d = i) (listed m s) = Some d" and "pick s i m' = Inr t"
  shows "about t = d"
proof -
  from assms(1,2) gate_is_exact obtain t' where "pick s i m = Inr t'" "about t' = d"
    by blast
  with pick_mode [OF assms(1) this(1) assms(3)] show ?thesis
    by simp
qed

end

definition tools_ok :: "'w tool_registry \<Rightarrow> bool" where
  "tools_ok r \<longleftrightarrow> bt_ok (rg_tools r) \<and> (\<forall>(i, t) \<in> set (rg_tools r). td_id (tl_descriptor t) = i)"

lemma map_of_tools:
  "tools_ok r \<Longrightarrow> map_of (rg_tools r) i = Some t \<Longrightarrow> td_id (tl_descriptor t) = i"
  by (auto simp: tools_ok_def dest: map_of_SomeD)

lemma map_of_tools_iff:
  "tools_ok r \<Longrightarrow> map_of (rg_tools r) i = Some t \<longleftrightarrow> (i, t) \<in> set (rg_tools r)"
  by (simp add: tools_ok_def bt_ok_distinct)

lemma registry_empty_ok: "tools_ok registry_empty"
  by (simp add: tools_ok_def registry_empty_def)

interpretation tools: tool_contract describe dispatch tl_descriptor tools_ok
proof
  fix m m' i d and s :: "'a tool_registry" and t t' :: "'a tool"
  assume ok: "tools_ok s"
  have "map td_id (map (tl_descriptor \<circ> snd) (rg_tools s)) = map fst (rg_tools s)"
    using ok by (auto simp: tools_ok_def)
  then have "distinct (map td_id (map (tl_descriptor \<circ> snd) (rg_tools s)))"
    using ok by (simp only: tools_ok_def bt_ok_distinct)
  then show "distinct (map td_id (describe m s))"
    unfolding describe_def by (rule distinct_map_filter)
  show "dispatch s i m = Inr t \<Longrightarrow> tl_descriptor t \<in> set (describe m s) \<and> td_id (tl_descriptor t) = i"
    using ok by (force simp: dispatch_def describe_def map_of_tools_iff map_of_tools
        split: option.splits if_splits)
  show "d \<in> set (describe m s) \<Longrightarrow> \<exists>t. dispatch s (td_id d) m = Inr t"
    using ok by (force simp: dispatch_def describe_def map_of_tools_iff [symmetric] map_of_tools
        split: option.splits)
  show "dispatch s i m = Inr t \<Longrightarrow> dispatch s i m' = Inr t' \<Longrightarrow> t' = t"
    by (auto simp: dispatch_def split: option.splits if_splits)
qed

section \<open>Registering\<close>

lemma set_bt_insert: "e \<in> set (bt_insert k v m) \<Longrightarrow> e = (k, v) \<or> e \<in> set m"
  by (induction m) (auto split: if_splits)

lemma register_tool_ok: "tools_ok r \<Longrightarrow> tools_ok (snd (register_tool t r))"
  by (auto simp: tools_ok_def register_tool_def Let_def bt_ok_insert dest: set_bt_insert)

lemma register_all_ok: "tools_ok r \<Longrightarrow> tools_ok (snd (register_all ts r))"
proof (induction ts arbitrary: r)
  case (Cons t ts)
  obtain res r' where reg: "register_tool t r = (res, r')" by fastforce
  with register_tool_ok [of r t] Cons.prems have "tools_ok r'" by simp
  with reg Cons.IH [of r'] show ?case by (cases res) simp_all
qed simp

lemma register_all_new:
  assumes "tools_ok r" and "distinct (map (td_id \<circ> tl_descriptor) ts)"
    and "\<forall>t \<in> set ts. \<not> contains_tool r (td_id (tl_descriptor t))"
  shows "\<exists>r'. register_all ts r = (Inr (), r') \<and> rg_connectors r' = rg_connectors r \<and>
    map_of (rg_tools r') = map_of (rg_tools r) ++ map_of (map (\<lambda>t. (td_id (tl_descriptor t), t)) ts)"
  using assms
proof (induction ts arbitrary: r)
  case (Cons t ts)
  let ?i = "td_id (tl_descriptor t)"
  let ?r = "r\<lparr>rg_tools := bt_insert ?i t (rg_tools r)\<rparr>"
  have reg: "register_tool t r = (Inr (), ?r)"
    using Cons.prems(3) by (simp add: register_tool_def)
  have m: "map_of (rg_tools ?r) = (map_of (rg_tools r))(?i \<mapsto> t)"
    using Cons.prems(1) by (simp add: map_of_bt_insert tools_ok_def)
  have "tools_ok ?r"
    using register_tool_ok [OF Cons.prems(1), of t] by (simp add: reg)
  moreover have "\<forall>u \<in> set ts. \<not> contains_tool ?r (td_id (tl_descriptor u))"
  proof
    fix u
    assume u: "u \<in> set ts"
    then have "td_id (tl_descriptor u) \<noteq> ?i" "\<not> contains_tool r (td_id (tl_descriptor u))"
      using Cons.prems(2,3) by (auto simp: image_iff)
    then show "\<not> contains_tool ?r (td_id (tl_descriptor u))"
      unfolding contains_tool_def m by simp
  qed
  ultimately obtain r' where r': "register_all ts ?r = (Inr (), r')" "rg_connectors r' = rg_connectors r"
    "map_of (rg_tools r') = map_of (rg_tools ?r) ++ map_of (map (\<lambda>t. (td_id (tl_descriptor t), t)) ts)"
    using Cons.IH [of ?r] Cons.prems(2) by auto
  have "?i \<notin> dom (map_of (map (\<lambda>t. (td_id (tl_descriptor t), t)) ts))"
    using Cons.prems(2) by (auto simp: dom_map_of_conv_image_fst)
  then have "map_of (rg_tools r') =
      map_of (rg_tools r) ++ map_of (map (\<lambda>t. (td_id (tl_descriptor t), t)) (t # ts))"
    unfolding r'(3) m by (auto simp: map_add_def fun_eq_iff split: option.splits)
  with r'(1,2) show ?case
    by (intro exI [of _ r']) (simp only: register_all.simps reg prod.case sum.case)
qed simp

lemma register_tool_Inr:
  "register_tool t r = (Inr x, r') \<Longrightarrow>
     \<not> contains_tool r (td_id (tl_descriptor t)) \<and>
     r' = r\<lparr>rg_tools := bt_insert (td_id (tl_descriptor t)) t (rg_tools r)\<rparr>"
  by (auto simp: register_tool_def Let_def split: if_splits)

text \<open>When the loop succeeds, no id was there before or twice.\<close>

lemma register_all_Inr:
  assumes "register_all ts r = (Inr x, r')" and "tools_ok r"
  shows "distinct (map (td_id \<circ> tl_descriptor) ts) \<and>
    (\<forall>t \<in> set ts. \<not> contains_tool r (td_id (tl_descriptor t)))"
  using assms
proof (induction ts arbitrary: r)
  case (Cons t ts)
  from Cons.prems(1) obtain y r1 where r1: "register_tool t r = (Inr y, r1)" "register_all ts r1 = (Inr x, r')"
    by (auto split: prod.splits sum.splits)
  have ok: "tools_ok r1"
    using register_tool_ok [OF Cons.prems(2), of t] r1(1) by simp
  have m: "map_of (rg_tools r1) = (map_of (rg_tools r))(td_id (tl_descriptor t) \<mapsto> t)"
    using register_tool_Inr [OF r1(1)] Cons.prems(2) by (simp add: map_of_bt_insert tools_ok_def)
  have "td_id (tl_descriptor u) \<noteq> td_id (tl_descriptor t) \<and> \<not> contains_tool r (td_id (tl_descriptor u))"
    if "u \<in> set ts" for u
    using Cons.IH [OF r1(2) ok] that by (auto simp: contains_tool_def m split: if_splits)
  with Cons.IH [OF r1(2) ok] register_tool_Inr [OF r1(1), THEN conjunct1] show ?case
    by (fastforce simp: image_iff)
qed simp

lemma find_registered:
  "distinct (map (td_id \<circ> tl_descriptor) ts) \<Longrightarrow> t \<in> set ts \<Longrightarrow>
     map_of (map (\<lambda>t. (td_id (tl_descriptor t), t)) ts) (td_id (tl_descriptor t)) = Some t"
  by (rule map_of_is_SomeI) (auto simp: comp_def)

section \<open>Cancellation\<close>

lemma with_cancellation_never:
  "(\<forall>k \<le> length s. \<not> c (j + k)) \<Longrightarrow> with_cancellation c j s = s"
proof (induction s arbitrary: j)
  case (Cons x s)
  from Cons.prems have "\<not> c j" "\<forall>k \<le> length s. \<not> c (Suc j + k)"
    by (auto dest: spec [of _ 0] spec [of _ "Suc _"])
  with Cons.IH [of "Suc j"] show ?case by simp
qed simp

lemma with_cancellation_at:
  "n \<le> length s \<Longrightarrow> c (j + n) \<Longrightarrow> (\<forall>k < n. \<not> c (j + k)) \<Longrightarrow>
     with_cancellation c j s = take n s @ [Inr ToolCancelled]"
proof (induction s arbitrary: j n)
  case (Cons x s)
  show ?case
  proof (cases n)
    case (Suc k)
    with Cons.prems have "\<not> c j" "\<forall>i < k. \<not> c (Suc j + i)"
      by (auto dest: spec [of _ 0] spec [of _ "Suc _"])
    with Suc Cons.IH [of k "Suc j"] Cons.prems show ?thesis by simp
  qed (use Cons.prems in simp)
qed simp

lemma invoke_runs:
  "dispatch r (ti_tool_id iv) (ti_compute_mode iv) = Inr t \<Longrightarrow>
     tl_run t (ti_args iv) c w = (stream, w') \<Longrightarrow> invoke r iv c w = (Inr (with_cancellation c 0 stream), w')"
  by (simp add: invoke_def)

section \<open>Properties\<close>

text \<open>C34: the registry offers exactly what it will run. In a well-formed registry a descriptor is
  listed for a mode, under an id, exactly when that id is registered with a tool that has this
  descriptor and is available in the mode; ids are listed once, in order. Invoking a listed id
  runs that tool and no other, on the arguments of the invocation: the world is left as the tool
  leaves it, and the stream is the tool's own, whole if the token is never cancelled, and else
  the events before the first cancelled poll and one \<open>Cancelled\<close>. Any other invocation fails, with
  \<open>NotFound\<close> for an unknown id and \<open>UnavailableInMode\<close> for a known one, and runs nothing. A tool
  that was registered with success is the one that runs under its id.\<close>

theorem registry_offers_what_it_runs:
  assumes "tools_ok r"
  shows "(find (\<lambda>d. td_id d = i) (describe m r) = Some d \<longleftrightarrow>
      (\<exists>t. map_of (rg_tools r) i = Some t \<and> tl_descriptor t = d \<and> m \<in> set (td_available_in_modes d))) \<and>
    sorted_wrt (<) (map td_id (describe m r)) \<and>
    (\<forall>t stream w'. map_of (rg_tools r) (ti_tool_id iv) = Some t \<longrightarrow>
       tl_descriptor t \<in> set (describe (ti_compute_mode iv) r) \<longrightarrow>
       tl_run t (ti_args iv) c w = (stream, w') \<longrightarrow>
       (\<exists>evs. invoke r iv c w = (Inr evs, w') \<and>
          ((\<forall>k \<le> length stream. \<not> c k) \<longrightarrow> evs = stream) \<and>
          (\<forall>n \<le> length stream. c n \<and> (\<forall>k < n. \<not> c k) \<longrightarrow> evs = take n stream @ [Inr ToolCancelled]))) \<and>
    (ti_tool_id iv \<notin> td_id ` set (describe (ti_compute_mode iv) r) \<longrightarrow>
       invoke r iv c w =
         (Inl (if contains_tool r (ti_tool_id iv)
               then ToolErr (UnavailableInMode (ti_tool_id iv) (ti_compute_mode iv))
               else ToolErr (ToolNotFound (ti_tool_id iv))), w)) \<and>
    (\<forall>t r'. register_tool t r = (Inr (), r') \<longrightarrow>
       tools_ok r' \<and> map_of (rg_tools r') = (map_of (rg_tools r))(td_id (tl_descriptor t) \<mapsto> t))"
proof (intro conjI allI impI)
  have pick: "dispatch r i m = Inr t \<longleftrightarrow>
      map_of (rg_tools r) i = Some t \<and> m \<in> set (td_available_in_modes (tl_descriptor t))" for i m t
    by (auto simp: dispatch_def split: option.splits)
  show "find (\<lambda>d. td_id d = i) (describe m r) = Some d \<longleftrightarrow>
      (\<exists>t. map_of (rg_tools r) i = Some t \<and> tl_descriptor t = d \<and> m \<in> set (td_available_in_modes d))"
    using tools.gate_is_exact [OF assms, of i m d] by (auto simp: pick)
  have "map td_id (map (tl_descriptor \<circ> snd) (rg_tools r)) = map fst (rg_tools r)"
    using assms by (auto simp: tools_ok_def)
  then have "sorted_wrt (<) (map td_id (map (tl_descriptor \<circ> snd) (rg_tools r)))"
    using assms by (simp only: tools_ok_def bt_ok_def)
  then have "sorted_wrt (\<lambda>x y. td_id x < td_id y) (map (tl_descriptor \<circ> snd) (rg_tools r))"
    by (simp only: sorted_wrt_map [of "(<)" td_id])
  from sorted_wrt_filter [OF this] show "sorted_wrt (<) (map td_id (describe m r))"
    by (simp only: sorted_wrt_map [of "(<)" td_id] describe_def)
  fix t stream w'
  assume t: "map_of (rg_tools r) (ti_tool_id iv) = Some t" "tl_run t (ti_args iv) c w = (stream, w')"
    and "tl_descriptor t \<in> set (describe (ti_compute_mode iv) r)"
  then have "dispatch r (ti_tool_id iv) (ti_compute_mode iv) = Inr t"
    by (auto simp: pick describe_def)
  with t(2) have "invoke r iv c w = (Inr (with_cancellation c 0 stream), w')"
    by (rule invoke_runs [rotated])
  then show "\<exists>evs. invoke r iv c w = (Inr evs, w') \<and>
      ((\<forall>k \<le> length stream. \<not> c k) \<longrightarrow> evs = stream) \<and>
      (\<forall>n \<le> length stream. c n \<and> (\<forall>k < n. \<not> c k) \<longrightarrow> evs = take n stream @ [Inr ToolCancelled])"
    using with_cancellation_never [of stream c 0] with_cancellation_at [of _ stream c 0] by simp
next
  assume "ti_tool_id iv \<notin> td_id ` set (describe (ti_compute_mode iv) r)"
  then have "\<forall>t. dispatch r (ti_tool_id iv) (ti_compute_mode iv) \<noteq> Inr t"
    using tools.picked_listed [OF assms] by (metis image_eqI)
  then show "invoke r iv c w =
      (Inl (if contains_tool r (ti_tool_id iv)
            then ToolErr (UnavailableInMode (ti_tool_id iv) (ti_compute_mode iv))
            else ToolErr (ToolNotFound (ti_tool_id iv))), w)"
    by (auto simp: invoke_def dispatch_def contains_tool_def split: option.splits if_splits)
next
  fix t r'
  assume reg: "register_tool t r = (Inr (), r')"
  then show "tools_ok r'"
    using register_tool_ok [OF assms, of t] by simp
  show "map_of (rg_tools r') = (map_of (rg_tools r))(td_id (tl_descriptor t) \<mapsto> t)"
    using register_tool_Inr [OF reg] assms by (simp add: map_of_bt_insert tools_ok_def)
qed

text \<open>A registry with the example connector mounted, for the witnesses.\<close>

definition demo_connector :: "unit connector" where
  "demo_connector = echo_connector (\<lambda>j. case json_get j ''message'' of Some (JStr m) \<Rightarrow> Inr m | _ \<Rightarrow> Inl ''no message'')"

definition demo_registry :: "unit tool_registry" where
  "demo_registry = snd (mount_connector demo_connector registry_empty)"

lemma demo_registry_tools:
  "rg_tools demo_registry = [(''echo.say'', connector_tool echo_descriptor demo_connector)]"
  by (simp add: demo_registry_def mount_connector_def demo_connector_def echo_connector_def
      echo_descriptor_def connector_tool_def register_tool_def contains_tool_def registry_empty_def)

lemma demo_registry_wf: "tools_ok demo_registry"
  by (simp add: tools_ok_def demo_registry_tools bt_ok_def connector_tool_def echo_descriptor_def)

text \<open>The demo invocation says hello; its token is cancelled from the second poll on.\<close>

definition demo_echo_call :: tool_invocation where
  "demo_echo_call =
     \<lparr>ti_invocation_id = 1, ti_tool_id = ''echo.say'', ti_args = json_obj [(''message'', JStr ''kia ora'')],
      ti_session_id = 0, ti_conversation_id = 0, ti_message_id = 0, ti_compute_mode = Hosted, ti_trace_id = 0,
      ti_stream = False\<rparr>"

theorem registry_offers_what_it_runs_witness:
  "find (\<lambda>d. td_id d = ''echo.say'') (describe Hosted demo_registry) = Some echo_descriptor \<and>
   invoke demo_registry demo_echo_call (\<lambda>k. 1 \<le> k) () =
     (Inr [Inr (ToolResult (json_obj [(''echo'', JStr ''kia ora'')]) False), Inr ToolCancelled], ()) \<and>
   invoke demo_registry (demo_echo_call\<lparr>ti_tool_id := ''x''\<rparr>) (\<lambda>k. False) () = (Inl (ToolErr (ToolNotFound ''x'')), ())"
proof -
  let ?t = "connector_tool echo_descriptor demo_connector"
  have m: "map_of (rg_tools demo_registry) ''echo.say'' = Some ?t" "tl_descriptor ?t = echo_descriptor"
    by (simp_all add: demo_registry_tools connector_tool_def)
  have d: "describe Hosted demo_registry = [echo_descriptor]" "td_id echo_descriptor = ''echo.say''"
    by (simp_all add: describe_def demo_registry_tools connector_tool_def echo_descriptor_def)
  have run: "tl_run ?t (ti_args demo_echo_call) (\<lambda>k. 1 \<le> k) () =
      ([Inr (ToolResult (json_obj [(''echo'', JStr ''kia ora'')]) False)], ())"
    by (simp add: connector_tool_def demo_connector_def echo_connector_def echo_invoke_def d(2) demo_echo_call_def
        tool_parse_args_def ok_result_def json_obj_def)
  have "find (\<lambda>d. td_id d = ''echo.say'') (describe Hosted demo_registry) = Some echo_descriptor"
    by (simp add: d)
  moreover have "invoke demo_registry demo_echo_call (\<lambda>k. 1 \<le> k) () =
     (Inr [Inr (ToolResult (json_obj [(''echo'', JStr ''kia ora'')]) False), Inr ToolCancelled], ())"
    using registry_offers_what_it_runs [OF demo_registry_wf, of "''echo.say''" Hosted echo_descriptor
        demo_echo_call "\<lambda>k. 1 \<le> k" "()"] m d run by (auto simp: demo_echo_call_def)
  moreover have "invoke demo_registry (demo_echo_call\<lparr>ti_tool_id := ''x''\<rparr>) (\<lambda>k. False) () =
      (Inl (ToolErr (ToolNotFound ''x'')), ())"
    using registry_offers_what_it_runs [OF demo_registry_wf, of "''echo.say''" Hosted echo_descriptor
        "demo_echo_call\<lparr>ti_tool_id := ''x''\<rparr>" "\<lambda>k. False" "()"] d
    by (simp add: demo_echo_call_def contains_tool_def demo_registry_tools)
  ultimately show ?thesis
    by blast
qed

text \<open>Mounting a connector is all or nothing, when its own ids are distinct: it succeeds exactly
  when none of its ids is taken, and then each of its tools is registered, everything else is as
  before and the connector is listed last; otherwise the registry is unchanged.\<close>

theorem mount_connector_all_or_nothing:
  assumes "tools_ok r" and "distinct (map td_id (cn_tools c))" and "mount_connector c r = (res, r')"
  shows "(is_ok res \<longleftrightarrow> (\<forall>d \<in> set (cn_tools c). \<not> contains_tool r (td_id d))) \<and>
    (\<not> is_ok res \<longrightarrow> r' = r) \<and>
    (is_ok res \<longrightarrow> tools_ok r' \<and> connector_ids r' = connector_ids r @ [cn_id c] \<and>
       (\<forall>d \<in> set (cn_tools c). map_of (rg_tools r') (td_id d) = Some (connector_tool d c)) \<and>
       (\<forall>i. i \<notin> td_id ` set (cn_tools c) \<longrightarrow> map_of (rg_tools r') i = map_of (rg_tools r) i))"
proof (cases "find (\<lambda>d. contains_tool r (td_id d)) (cn_tools c)")
  case (Some d)
  then have "d \<in> set (cn_tools c)" "contains_tool r (td_id d)"
    by (auto simp: find_Some_iff)
  with Some assms(3) show ?thesis
    by (auto simp: mount_connector_def)
next
  case None
  let ?ts = "map (\<lambda>d. connector_tool d c) (cn_tools c)"
  have new: "\<forall>d \<in> set (cn_tools c). \<not> contains_tool r (td_id d)"
    using None by (auto simp: find_None_iff)
  have dist: "distinct (map (td_id \<circ> tl_descriptor) ?ts)"
    using assms(2) by (simp add: comp_def connector_tool_def)
  have "\<forall>t \<in> set ?ts. \<not> contains_tool r (td_id (tl_descriptor t))"
    using new by (auto simp: connector_tool_def)
  from register_all_new [OF assms(1) dist this] obtain r1 where r1: "register_all ?ts r = (Inr (), r1)"
    "rg_connectors r1 = rg_connectors r"
    "map_of (rg_tools r1) = map_of (rg_tools r) ++ map_of (map (\<lambda>t. (td_id (tl_descriptor t), t)) ?ts)"
    by blast
  have "tools_ok r1"
    using register_all_ok [OF assms(1), of ?ts] r1(1) by simp
  moreover have "map_of (rg_tools r1) (td_id d) = Some (connector_tool d c)" if "d \<in> set (cn_tools c)" for d
    using find_registered [OF dist, of "connector_tool d c"] that
    by (simp add: r1(3) map_add_def connector_tool_def)
  moreover have "map_of (rg_tools r1) i = map_of (rg_tools r) i" if "i \<notin> td_id ` set (cn_tools c)" for i
  proof -
    have "i \<notin> dom (map_of (map (\<lambda>t. (td_id (tl_descriptor t), t)) ?ts))"
      using that by (auto simp: dom_map_of_conv_image_fst connector_tool_def)
    then show ?thesis
      by (simp add: r1(3) map_add_dom_app_simps)
  qed
  moreover have "res = Inr ()" "r' = r1\<lparr>rg_connectors := rg_connectors r1 @ [c]\<rparr>"
    using assms(3) None r1(1) by (simp_all add: mount_connector_def)
  ultimately show ?thesis
    using new by (simp add: r1(2) connector_ids_def tools_ok_def)
qed

theorem mount_connector_all_or_nothing_witness:
  "connector_ids demo_registry = [''echo''] \<and>
   fst (mount_connector demo_connector registry_empty) = Inr () \<and>
   \<not> is_ok (fst (mount_connector demo_connector demo_registry)) \<and>
   snd (mount_connector demo_connector demo_registry) = demo_registry"
proof -
  have d: "distinct (map td_id (cn_tools demo_connector))" "cn_tools demo_connector = [echo_descriptor]"
      "cn_id demo_connector = ''echo''"
    by (simp_all add: demo_connector_def echo_connector_def)
  have c: "contains_tool demo_registry (td_id echo_descriptor)" "\<not> contains_tool registry_empty (td_id echo_descriptor)"
    by (simp_all add: contains_tool_def demo_registry_tools registry_empty_def echo_descriptor_def)
  show ?thesis
    using mount_connector_all_or_nothing [OF registry_empty_ok d(1) prod.collapse [symmetric]]
      mount_connector_all_or_nothing [OF demo_registry_wf d(1) prod.collapse [symmetric]] c d(2,3)
    by (auto simp: demo_registry_def connector_ids_def registry_empty_def is_ok_iff)
qed

text \<open>A connector that lists an id twice is half mounted. Mounting it fails, yet its first tools
  stay registered while the connector itself is not recorded.\<close>

theorem duplicate_ids_half_mount:
  assumes "tools_ok r" and "cn_tools c = d # d' # ds" and "td_id d' = td_id d"
    and "\<forall>d \<in> set (cn_tools c). \<not> contains_tool r (td_id d)"
  shows "\<exists>r'. mount_connector c r =
      (Inl (OtherErr (''tool `'' @ td_id d @ ''` is already registered'')), r') \<and>
    dispatch r' (td_id d) m = (if m \<in> set (td_available_in_modes d) then Inr (connector_tool d c)
      else Inl (ToolErr (UnavailableInMode (td_id d) m))) \<and>
    connector_ids r' = connector_ids r"
proof -
  let ?r = "r\<lparr>rg_tools := bt_insert (td_id d) (connector_tool d c) (rg_tools r)\<rparr>"
  have m: "map_of (rg_tools ?r) = (map_of (rg_tools r))(td_id d \<mapsto> connector_tool d c)"
    using assms(1) by (simp add: map_of_bt_insert tools_ok_def)
  have "find (\<lambda>d. contains_tool r (td_id d)) (cn_tools c) = None"
    using assms(4) by (simp add: find_None_iff)
  moreover have "register_tool (connector_tool d c) r = (Inr (), ?r)"
    using assms(2,4) by (simp add: register_tool_def connector_tool_def Let_def)
  moreover have "register_tool (connector_tool d' c) ?r =
      (Inl (OtherErr (''tool `'' @ td_id d @ ''` is already registered'')), ?r)"
    unfolding register_tool_def contains_tool_def m using assms(3) by (simp add: connector_tool_def Let_def)
  ultimately have "mount_connector c r =
      (Inl (OtherErr (''tool `'' @ td_id d @ ''` is already registered'')), ?r)"
    by (simp add: mount_connector_def assms(2))
  moreover have "dispatch ?r (td_id d) m = (if m \<in> set (td_available_in_modes d) then Inr (connector_tool d c)
      else Inl (ToolErr (UnavailableInMode (td_id d) m)))"
    unfolding dispatch_def m by (simp add: connector_tool_def)
  ultimately show ?thesis
    by (simp add: connector_ids_def)
qed

theorem duplicate_ids_half_mount_witness:
  "let c = demo_connector\<lparr>cn_tools := [echo_descriptor, echo_descriptor]\<rparr>;
       r = snd (mount_connector c registry_empty)
   in \<not> is_ok (fst (mount_connector c registry_empty)) \<and> is_ok (dispatch r ''echo.say'' OnDevice) \<and> connector_ids r = []"
proof -
  let ?c = "demo_connector\<lparr>cn_tools := [echo_descriptor, echo_descriptor]\<rparr>"
  have "\<forall>d \<in> set (cn_tools ?c). \<not> contains_tool registry_empty (td_id d)"
    by (simp add: contains_tool_def registry_empty_def)
  from duplicate_ids_half_mount [of registry_empty ?c echo_descriptor echo_descriptor "[]" OnDevice, OF registry_empty_ok _ refl this] show ?thesis
    by (auto simp: Let_def echo_descriptor_def connector_ids_def registry_empty_def)
qed

text \<open>Cancelling ends a tool's stream at once, with one \<open>Cancelled\<close> as its last event. The events
  before it are those the tool had produced; a stream that is never cancelled is untouched.\<close>

theorem cancellation_ends_stream:
  "((\<forall>k \<le> length s. \<not> c k) \<longrightarrow> with_cancellation c 0 s = s) \<and>
   (n \<le> length s \<longrightarrow> c n \<longrightarrow> (\<forall>k < n. \<not> c k) \<longrightarrow>
      with_cancellation c 0 s = take n s @ [Inr ToolCancelled])"
  using with_cancellation_never [of s c 0] with_cancellation_at [of n s c 0] by simp

theorem cancellation_ends_stream_witness:
  "with_cancellation (\<lambda>k. 1 \<le> k) 0 [Inr (ToolChunk ''a''), Inr (ToolChunk ''b'')] =
     [Inr (ToolChunk ''a''), Inr ToolCancelled]"
  using cancellation_ends_stream [of "[Inr (ToolChunk ''a''), Inr (ToolChunk ''b'')]" "\<lambda>k. 1 \<le> k" 1] by simp

text \<open>The tools of an MCP server are always gated. After a server is attached, every id it
  reported is registered with a descriptor that requires approval, is marked as highly
  destructive and is offered only where a Mac runs tools; no tool that was there is replaced.\<close>

theorem mcp_tools_gated:
  assumes "tools_ok r" and "attach_mcp_server c r = (Inr ids, r')"
  shows "(\<forall>i \<in> set ids. \<exists>t. map_of (rg_tools r') i = Some t \<and> td_requires_approval (tl_descriptor t) \<and>
      td_destructive_level (tl_descriptor t) = High \<and>
      set (td_available_in_modes (tl_descriptor t)) = {MacLan, MacRemote}) \<and>
    (\<forall>i t. map_of (rg_tools r) i = Some t \<longrightarrow> map_of (rg_tools r') i = Some t) \<and> tools_ok r'"
proof -
  let ?ts = "map (mcp_tool c) (ms_tools c)"
  from assms(2) have reg: "register_all ?ts r = (Inr (), r')"
      and ids: "ids = map (\<lambda>t. mcp_tool_id (ms_name c) (inf_name t)) (ms_tools c)"
    by (auto simp: attach_mcp_server_def Let_def split: option.splits prod.splits sum.splits)
  note new = register_all_Inr [OF reg assms(1)]
  from register_all_new [OF assms(1)] new reg have m: "map_of (rg_tools r') =
      map_of (rg_tools r) ++ map_of (map (\<lambda>t. (td_id (tl_descriptor t), t)) ?ts)"
    by fastforce
  have "map_of (rg_tools r') (mcp_tool_id (ms_name c) (inf_name t)) = Some (mcp_tool c t)"
    if "t \<in> set (ms_tools c)" for t
    using find_registered [of ?ts "mcp_tool c t"] new that
    by (simp add: m map_add_def mcp_tool_def mcp_descriptor_def)
  moreover have "map_of (rg_tools r') i = Some t" if "map_of (rg_tools r) i = Some t" for i t
  proof -
    have "i \<notin> dom (map_of (map (\<lambda>t. (td_id (tl_descriptor t), t)) ?ts))"
      using new that by (auto simp: dom_map_of_conv_image_fst contains_tool_def)
    with that show ?thesis
      by (simp add: m map_add_dom_app_simps)
  qed
  moreover have "tools_ok r'"
    using register_all_ok [OF assms(1), of ?ts] reg by simp
  ultimately show ?thesis
    by (auto simp: ids mcp_tool_def mcp_descriptor_def MCP_MODES_def)
qed

theorem mcp_tools_gated_witness:
  "let c = \<lparr>ms_name = ''fs'', ms_tools = [\<lparr>inf_name = ''rm'', inf_description = None, inf_input_schema = JNull\<rparr>],
        ms_call = \<lambda>n j w. (Inr [], w), ms_show = \<lambda>e. []\<rparr>
   in \<exists>r' t. attach_mcp_server c demo_registry = (Inr [''mcp__fs__rm''], r') \<and>
        map_of (rg_tools r') ''mcp__fs__rm'' = Some t \<and> td_requires_approval (tl_descriptor t)"
proof -
  let ?c = "\<lparr>ms_name = ''fs'', ms_tools = [\<lparr>inf_name = ''rm'', inf_description = None, inf_input_schema = JNull\<rparr>],
      ms_call = \<lambda>n j w. (Inr [], w), ms_show = \<lambda>e. []\<rparr> :: unit mcp_server"
  obtain r' where r': "attach_mcp_server ?c demo_registry = (Inr [''mcp__fs__rm''], r')"
    by (simp add: attach_mcp_server_def mcp_tool_id_def contains_tool_def demo_registry_tools register_tool_def
        mcp_tool_def mcp_descriptor_def Let_def)
  from mcp_tools_gated [OF demo_registry_wf r'] r' show ?thesis
    by auto
qed

end
