(* ===== verification/Builtins.thy ===== *)
theory Builtins
  imports Registry
begin

text \<open>
  The descriptors of the built-in tools (\<open>crates/mahi-tooling/src/tools\<close>) and the registry that
  holds them, \<open>ToolRegistry::with_builtins_scoped\<close>. What a tool does is a parameter here, by the
  name of its type: the file, web and computer-use tools have theories of their own.
\<close>

section \<open>Modes and schemas\<close>

definition FILE_MODES :: "compute_mode list" where
  "FILE_MODES = [OnDevice, MacLan, MacRemote]"

definition SHELL_MODES :: "compute_mode list" where
  "SHELL_MODES = [MacLan, MacRemote]"

definition APPLE_SCRIPT_MODES :: "compute_mode list" where
  "APPLE_SCRIPT_MODES = [MacLan, MacRemote]"

definition RUN_CODE_MODES :: "compute_mode list" where
  "RUN_CODE_MODES = [MacLan, MacRemote]"

definition WEB_MODES :: "compute_mode list" where
  "WEB_MODES = [MacLan, MacRemote, Hosted]"

definition COMPUTER_MODES :: "compute_mode list" where
  "COMPUTER_MODES = [MacLan, MacRemote]"

definition observe_permissions :: "string list" where
  "observe_permissions = [''computer.observe'']"

definition input_permissions :: "string list" where
  "input_permissions = [''computer.input'']"

definition path_schema_property :: json where
  "path_schema_property = json_obj
     [(''type'', JStr ''string''),
      (''description'', JStr ''Path relative to the allowed root (absolute paths must stay inside it)'')]"

section \<open>Descriptors\<close>

definition file_read_descriptor :: tool_descriptor where
  "file_read_descriptor =
     \<lparr>td_id = ''file_read'', td_display_name = ''Read File'', td_category = BuiltIn,
      td_available_in_modes = FILE_MODES, td_required_permissions = [''fs.read''],
      td_input_schema = json_obj
      [(''type'', JStr ''object''),
       (''properties'', json_obj
          [(''path'', path_schema_property),
           (''max_bytes'', json_obj
              [(''type'', JStr ''integer''),
               (''description'', JStr ''Optional cap on returned bytes'')])]),
       (''required'', JArr [JStr ''path''])],
      td_output_schema = json_obj
      [(''type'', JStr ''object''),
       (''properties'', json_obj
          [(''path'', json_obj
              [(''type'', JStr ''string'')]),
           (''content'', json_obj
              [(''type'', JStr ''string'')]),
           (''bytes'', json_obj
              [(''type'', JStr ''integer'')])])],
      td_requires_approval = False, td_destructive_level = Low\<rparr>"

definition file_write_descriptor :: tool_descriptor where
  "file_write_descriptor =
     \<lparr>td_id = ''file_write'', td_display_name = ''Write File'', td_category = BuiltIn,
      td_available_in_modes = FILE_MODES, td_required_permissions = [''fs.write''],
      td_input_schema = json_obj
      [(''type'', JStr ''object''),
       (''properties'', json_obj
          [(''path'', path_schema_property),
           (''content'', json_obj
              [(''type'', JStr ''string'')]),
           (''create_dirs'', json_obj
              [(''type'', JStr ''boolean''),
               (''default'', JBool True)])]),
       (''required'', JArr [JStr ''path'', JStr ''content''])],
      td_output_schema = json_obj
      [(''type'', JStr ''object''),
       (''properties'', json_obj
          [(''path'', json_obj
              [(''type'', JStr ''string'')]),
           (''bytes_written'', json_obj
              [(''type'', JStr ''integer'')])])],
      td_requires_approval = True, td_destructive_level = High\<rparr>"

definition file_edit_descriptor :: tool_descriptor where
  "file_edit_descriptor =
     \<lparr>td_id = ''file_edit'', td_display_name = ''Edit File'', td_category = BuiltIn,
      td_available_in_modes = FILE_MODES, td_required_permissions = [''fs.write''],
      td_input_schema = json_obj
      [(''type'', JStr ''object''),
       (''properties'', json_obj
          [(''path'', path_schema_property),
           (''old_string'', json_obj
              [(''type'', JStr ''string'')]),
           (''new_string'', json_obj
              [(''type'', JStr ''string'')]),
           (''replace_all'', json_obj
              [(''type'', JStr ''boolean''),
               (''default'', JBool False)])]),
       (''required'', JArr [JStr ''path'', JStr ''old_string'', JStr ''new_string''])],
      td_output_schema = json_obj
      [(''type'', JStr ''object''),
       (''properties'', json_obj
          [(''path'', json_obj
              [(''type'', JStr ''string'')]),
           (''replacements'', json_obj
              [(''type'', JStr ''integer'')])])],
      td_requires_approval = True, td_destructive_level = High\<rparr>"

definition file_search_descriptor :: tool_descriptor where
  "file_search_descriptor =
     \<lparr>td_id = ''file_search'', td_display_name = ''Search Files'', td_category = BuiltIn,
      td_available_in_modes = FILE_MODES, td_required_permissions = [''fs.read''],
      td_input_schema = json_obj
      [(''type'', JStr ''object''),
       (''properties'', json_obj
          [(''query'', json_obj
              [(''type'', JStr ''string''),
               (''description'', JStr ''Substring matched against file names and UTF-8 file contents'')]),
           (''path'', path_schema_property),
           (''max_results'', json_obj
              [(''type'', JStr ''integer''),
               (''default'', JInt 50)])]),
       (''required'', JArr [JStr ''query''])],
      td_output_schema = json_obj
      [(''type'', JStr ''object''),
       (''properties'', json_obj
          [(''matches'', json_obj
              [(''type'', JStr ''array''),
               (''items'', json_obj
                  [(''type'', JStr ''object''),
                   (''properties'', json_obj
                      [(''path'', json_obj
                          [(''type'', JStr ''string'')]),
                       (''line'', json_obj
                          [(''type'', JArr [JStr ''integer'', JStr ''null''])]),
                       (''text'', json_obj
                          [(''type'', JArr [JStr ''string'', JStr ''null''])])])])])])],
      td_requires_approval = False, td_destructive_level = Low\<rparr>"

definition shell_exec_descriptor :: tool_descriptor where
  "shell_exec_descriptor =
     \<lparr>td_id = ''shell_exec'', td_display_name = ''Run Shell Command'', td_category = BuiltIn,
      td_available_in_modes = SHELL_MODES, td_required_permissions = [''shell.exec''],
      td_input_schema = json_obj
      [(''type'', JStr ''object''),
       (''properties'', json_obj
          [(''command'', json_obj
              [(''type'', JStr ''string''),
               (''description'', JStr ''Command line, executed with sh -c'')]),
           (''cwd'', json_obj
              [(''type'', JStr ''string''),
               (''description'', JStr ''Working directory inside the allowed root'')]),
           (''timeout_ms'', json_obj
              [(''type'', JStr ''integer''),
               (''default'', JInt 120000)])]),
       (''required'', JArr [JStr ''command''])],
      td_output_schema = json_obj
      [(''type'', JStr ''object''),
       (''properties'', json_obj
          [(''exit_code'', json_obj
              [(''type'', JArr [JStr ''integer'', JStr ''null''])]),
           (''success'', json_obj
              [(''type'', JStr ''boolean'')])])],
      td_requires_approval = True, td_destructive_level = Critical\<rparr>"

definition apple_script_descriptor :: tool_descriptor where
  "apple_script_descriptor =
     \<lparr>td_id = ''apple_script'', td_display_name = ''Automate Mac Apps (AppleScript)'', td_category = BuiltIn,
      td_available_in_modes = APPLE_SCRIPT_MODES, td_required_permissions = [''automation.applescript''],
      td_input_schema = json_obj
      [(''type'', JStr ''object''),
       (''description'', JStr (''Control macOS apps precisely with AppleScript or JXA, run via osascript: open/quit apps, manipulate windows, read and set values, click menu items, send keystrokes to a named app, and query Finder, Safari, Mail, Notes, or Calendar. Deterministic and far more reliable than screenshot-and-click '' @ utf8 [0xE2, 0x80, 0x94] @ '' prefer this over ui_click/ui_type whenever the target app is scriptable. The script'' @ [CHR 0x27] @ ''s return value and output are captured as stdout, script errors as stderr.'')),
       (''properties'', json_obj
          [(''script'', json_obj
              [(''type'', JStr ''string''),
               (''description'', JStr (''The AppleScript (or JXA) source to run, e.g. `tell application '' @ [CHR 0x22] @ ''Safari'' @ [CHR 0x22] @ '' to get URL of front document`. Multi-line scripts are supported.''))]),
           (''language'', json_obj
              [(''type'', JStr ''string''),
               (''enum'', JArr [JStr ''applescript'', JStr ''javascript'']),
               (''default'', JStr ''applescript''),
               (''description'', JStr (''Scripting language: '' @ [CHR 0x22] @ ''applescript'' @ [CHR 0x22] @ '' (default) or '' @ [CHR 0x22] @ ''javascript'' @ [CHR 0x22] @ '' for JXA (JavaScript for Automation).''))])]),
       (''required'', JArr [JStr ''script''])],
      td_output_schema = json_obj
      [(''type'', JStr ''object''),
       (''properties'', json_obj
          [(''stdout'', json_obj
              [(''type'', JStr ''string''),
               (''description'', JStr ''Script result/output (capped at 100 KB)'')]),
           (''stderr'', json_obj
              [(''type'', JStr ''string''),
               (''description'', JStr ''osascript errors and warnings (capped at 100 KB)'')]),
           (''exit_code'', json_obj
              [(''type'', JArr [JStr ''integer'', JStr ''null''])]),
           (''success'', json_obj
              [(''type'', JStr ''boolean'')])])],
      td_requires_approval = True, td_destructive_level = High\<rparr>"

definition run_code_descriptor :: tool_descriptor where
  "run_code_descriptor =
     \<lparr>td_id = ''run_code'', td_display_name = ''Run Code Snippet'', td_category = BuiltIn,
      td_available_in_modes = RUN_CODE_MODES, td_required_permissions = [''shell.exec''],
      td_input_schema = json_obj
      [(''type'', JStr ''object''),
       (''description'', JStr (''Run a Python, Bash, JavaScript (Node.js), or Ruby snippet and get its stdout, stderr, and exit code '' @ utf8 [0xE2, 0x80, 0x94] @ '' use for computation, data wrangling, file/system tasks, and quick scripts where a real interpreter beats chaining shell utilities. Print whatever you want returned.'')),
       (''properties'', json_obj
          [(''language'', json_obj
              [(''type'', JStr ''string''),
               (''enum'', JArr [JStr ''python'', JStr ''bash'', JStr ''javascript'', JStr ''ruby'']),
               (''description'', JStr (''Interpreter: python '' @ utf8 [0xE2, 0x86, 0x92] @ '' python3, bash '' @ utf8 [0xE2, 0x86, 0x92] @ '' bash, javascript '' @ utf8 [0xE2, 0x86, 0x92] @ '' node, ruby '' @ utf8 [0xE2, 0x86, 0x92] @ '' ruby.''))]),
           (''code'', json_obj
              [(''type'', JStr ''string''),
               (''description'', JStr ''Source code to execute. Emit results on stdout (print / echo / console.log / puts).'')]),
           (''timeout_ms'', json_obj
              [(''type'', JStr ''integer''),
               (''default'', JInt 120000),
               (''description'', JStr ''Kill the interpreter after this many milliseconds.'')])]),
       (''required'', JArr [JStr ''language'', JStr ''code''])],
      td_output_schema = json_obj
      [(''type'', JStr ''object''),
       (''properties'', json_obj
          [(''stdout'', json_obj
              [(''type'', JStr ''string''),
               (''description'', JStr ''Captured stdout (capped at 100 KB)'')]),
           (''stderr'', json_obj
              [(''type'', JStr ''string''),
               (''description'', JStr ''Captured stderr (capped at 100 KB)'')]),
           (''exit_code'', json_obj
              [(''type'', JArr [JStr ''integer'', JStr ''null''])]),
           (''success'', json_obj
              [(''type'', JStr ''boolean'')])])],
      td_requires_approval = True, td_destructive_level = High\<rparr>"

definition web_fetch_descriptor :: tool_descriptor where
  "web_fetch_descriptor =
     \<lparr>td_id = ''web_fetch'', td_display_name = ''Fetch Web Page'', td_category = BuiltIn,
      td_available_in_modes = WEB_MODES, td_required_permissions = [''net.fetch''],
      td_input_schema = json_obj
      [(''type'', JStr ''object''),
       (''properties'', json_obj
          [(''url'', json_obj
              [(''type'', JStr ''string''),
               (''description'', JStr ''http(s) URL to fetch'')])]),
       (''required'', JArr [JStr ''url''])],
      td_output_schema = json_obj
      [(''type'', JStr ''object''),
       (''properties'', json_obj
          [(''url'', json_obj
              [(''type'', JStr ''string'')]),
           (''status'', json_obj
              [(''type'', JStr ''integer'')]),
           (''title'', json_obj
              [(''type'', JArr [JStr ''string'', JStr ''null''])]),
           (''text'', json_obj
              [(''type'', JStr ''string'')])])],
      td_requires_approval = False, td_destructive_level = Low\<rparr>"

definition web_search_descriptor :: tool_descriptor where
  "web_search_descriptor =
     \<lparr>td_id = ''web_search'', td_display_name = ''Web Search'', td_category = BuiltIn,
      td_available_in_modes = WEB_MODES, td_required_permissions = [''net.search''],
      td_input_schema = json_obj
      [(''type'', JStr ''object''),
       (''properties'', json_obj
          [(''query'', json_obj
              [(''type'', JStr ''string'')]),
           (''max_results'', json_obj
              [(''type'', JStr ''integer''),
               (''default'', JInt 10)])]),
       (''required'', JArr [JStr ''query''])],
      td_output_schema = json_obj
      [(''type'', JStr ''object''),
       (''properties'', json_obj
          [(''query'', json_obj
              [(''type'', JStr ''string'')]),
           (''results'', json_obj
              [(''type'', JStr ''array''),
               (''items'', json_obj
                  [(''type'', JStr ''object''),
                   (''properties'', json_obj
                      [(''url'', json_obj
                          [(''type'', JStr ''string'')]),
                       (''title'', json_obj
                          [(''type'', JStr ''string'')]),
                       (''snippet'', json_obj
                          [(''type'', JArr [JStr ''string'', JStr ''null''])])])])])])],
      td_requires_approval = False, td_destructive_level = Low\<rparr>"

definition screen_capture_descriptor :: tool_descriptor where
  "screen_capture_descriptor =
     \<lparr>td_id = ''screen_capture'', td_display_name = ''Capture Screen'', td_category = ComputerUse,
      td_available_in_modes = COMPUTER_MODES, td_required_permissions = observe_permissions,
      td_input_schema = json_obj
      [(''type'', JStr ''object''),
       (''properties'', json_obj [])],
      td_output_schema = json_obj
      [(''type'', JStr ''object''),
       (''properties'', json_obj
          [(''width'', json_obj
              [(''type'', JStr ''integer'')]),
           (''height'', json_obj
              [(''type'', JStr ''integer'')]),
           (''description'', json_obj
              [(''type'', JStr ''string'')]),
           (''image_hex'', json_obj
              [(''type'', JStr ''string'')])])],
      td_requires_approval = False, td_destructive_level = Low\<rparr>"

definition ui_describe_descriptor :: tool_descriptor where
  "ui_describe_descriptor =
     \<lparr>td_id = ''ui_describe'', td_display_name = ''Describe UI'', td_category = ComputerUse,
      td_available_in_modes = COMPUTER_MODES, td_required_permissions = observe_permissions,
      td_input_schema = json_obj
      [(''type'', JStr ''object''),
       (''properties'', json_obj [])],
      td_output_schema = json_obj
      [(''type'', JStr ''object''),
       (''properties'', json_obj
          [(''elements'', json_obj
              [(''type'', JStr ''array''),
               (''items'', json_obj
                  [(''type'', JStr ''object''),
                   (''properties'', json_obj
                      [(''role'', json_obj
                          [(''type'', JStr ''string'')]),
                       (''label'', json_obj
                          [(''type'', JArr [JStr ''string'', JStr ''null''])]),
                       (''bounds'', json_obj
                          [(''type'', JStr ''object'')]),
                       (''focused'', json_obj
                          [(''type'', JStr ''boolean'')])])])])])],
      td_requires_approval = False, td_destructive_level = Low\<rparr>"

definition ui_click_descriptor :: tool_descriptor where
  "ui_click_descriptor =
     \<lparr>td_id = ''ui_click'', td_display_name = ''Click'', td_category = ComputerUse,
      td_available_in_modes = COMPUTER_MODES, td_required_permissions = input_permissions,
      td_input_schema = json_obj
      [(''type'', JStr ''object''),
       (''properties'', json_obj
          [(''x'', json_obj
              [(''type'', JStr ''integer'')]),
           (''y'', json_obj
              [(''type'', JStr ''integer'')]),
           (''button'', json_obj
              [(''type'', JStr ''string''),
               (''enum'', JArr [JStr ''left'', JStr ''right'', JStr ''middle'']),
               (''default'', JStr ''left'')])]),
       (''required'', JArr [JStr ''x'', JStr ''y''])],
      td_output_schema = json_obj
      [(''type'', JStr ''object''),
       (''properties'', json_obj
          [(''clicked'', json_obj
              [(''type'', JStr ''boolean'')])])],
      td_requires_approval = True, td_destructive_level = High\<rparr>"

definition ui_type_descriptor :: tool_descriptor where
  "ui_type_descriptor =
     \<lparr>td_id = ''ui_type'', td_display_name = ''Type Text'', td_category = ComputerUse,
      td_available_in_modes = COMPUTER_MODES, td_required_permissions = input_permissions,
      td_input_schema = json_obj
      [(''type'', JStr ''object''),
       (''properties'', json_obj
          [(''text'', json_obj
              [(''type'', JStr ''string'')])]),
       (''required'', JArr [JStr ''text''])],
      td_output_schema = json_obj
      [(''type'', JStr ''object''),
       (''properties'', json_obj
          [(''typed_chars'', json_obj
              [(''type'', JStr ''integer'')])])],
      td_requires_approval = True, td_destructive_level = High\<rparr>"

definition ui_scroll_descriptor :: tool_descriptor where
  "ui_scroll_descriptor =
     \<lparr>td_id = ''ui_scroll'', td_display_name = ''Scroll'', td_category = ComputerUse,
      td_available_in_modes = COMPUTER_MODES, td_required_permissions = input_permissions,
      td_input_schema = json_obj
      [(''type'', JStr ''object''),
       (''properties'', json_obj
          [(''dx'', json_obj
              [(''type'', JStr ''integer''),
               (''description'', JStr ''Horizontal delta (positive = right)'')]),
           (''dy'', json_obj
              [(''type'', JStr ''integer''),
               (''description'', JStr ''Vertical delta (positive = down)'')])]),
       (''required'', JArr [JStr ''dx'', JStr ''dy''])],
      td_output_schema = json_obj
      [(''type'', JStr ''object''),
       (''properties'', json_obj
          [(''scrolled'', json_obj
              [(''type'', JStr ''boolean'')])])],
      td_requires_approval = False, td_destructive_level = Low\<rparr>"

definition ui_key_descriptor :: tool_descriptor where
  "ui_key_descriptor =
     \<lparr>td_id = ''ui_key'', td_display_name = ''Press Keys'', td_category = ComputerUse,
      td_available_in_modes = COMPUTER_MODES, td_required_permissions = input_permissions,
      td_input_schema = json_obj
      [(''type'', JStr ''object''),
       (''properties'', json_obj
          [(''combo'', json_obj
              [(''type'', JStr ''string''),
               (''description'', JStr ''Key combo like cmd+s, enter, ctrl+shift+t'')])]),
       (''required'', JArr [JStr ''combo''])],
      td_output_schema = json_obj
      [(''type'', JStr ''object''),
       (''properties'', json_obj
          [(''pressed'', json_obj
              [(''type'', JStr ''boolean'')])])],
      td_requires_approval = True, td_destructive_level = High\<rparr>"

section \<open>The registry of built-ins\<close>

definition builtin_descriptors :: "tool_descriptor list" where
  "builtin_descriptors =
     [file_read_descriptor, file_write_descriptor, file_edit_descriptor, file_search_descriptor,
      shell_exec_descriptor, apple_script_descriptor, run_code_descriptor, web_fetch_descriptor,
      web_search_descriptor, screen_capture_descriptor, ui_describe_descriptor, ui_click_descriptor,
      ui_type_descriptor, ui_scroll_descriptor, ui_key_descriptor]"

text \<open>\<open>None\<close> where the code panics: the \<open>expect\<close> after each registration.\<close>

definition with_builtins_scoped ::
  "(tool_descriptor \<Rightarrow> json \<Rightarrow> cancel_token \<Rightarrow> 'w \<Rightarrow> tool_event_stream \<times> 'w) \<Rightarrow> 'w tool_registry option" where
  "with_builtins_scoped run =
     (case register_all (map (\<lambda>d. \<lparr>tl_descriptor = d, tl_run = run d\<rparr>) builtin_descriptors) registry_empty of
        (Inr _, r) \<Rightarrow> Some r
      | (Inl _, _) \<Rightarrow> None)"

lemmas builtin_defs = builtin_descriptors_def file_read_descriptor_def file_write_descriptor_def
  file_edit_descriptor_def file_search_descriptor_def shell_exec_descriptor_def
  apple_script_descriptor_def run_code_descriptor_def web_fetch_descriptor_def
  web_search_descriptor_def screen_capture_descriptor_def ui_describe_descriptor_def
  ui_click_descriptor_def ui_type_descriptor_def ui_scroll_descriptor_def ui_key_descriptor_def

lemmas mode_defs = FILE_MODES_def SHELL_MODES_def APPLE_SCRIPT_MODES_def RUN_CODE_MODES_def
  WEB_MODES_def COMPUTER_MODES_def

lemma builtin_ids:
  "map td_id builtin_descriptors =
     [''file_read'', ''file_write'', ''file_edit'', ''file_search'', ''shell_exec'', ''apple_script'',
      ''run_code'', ''web_fetch'', ''web_search'', ''screen_capture'', ''ui_describe'', ''ui_click'',
      ''ui_type'', ''ui_scroll'', ''ui_key'']"
  by (simp add: builtin_defs)

lemma builtin_gates:
  "list_all (\<lambda>d. td_requires_approval d \<longleftrightarrow> td_destructive_level d \<noteq> Low) builtin_descriptors"
  by (simp add: builtin_defs)

lemma builtin_modes:
  "list_all (\<lambda>d. Hosted \<in> set (td_available_in_modes d) \<longrightarrow> td_id d \<in> {''web_fetch'', ''web_search''}) builtin_descriptors"
  "list_all (\<lambda>d. OnDevice \<in> set (td_available_in_modes d) \<longrightarrow>
     td_id d \<in> {''file_read'', ''file_write'', ''file_edit'', ''file_search''}) builtin_descriptors"
  by (simp_all add: builtin_defs mode_defs)

section \<open>Properties\<close>

text \<open>The built-in registry is built without a panic and gates what it must. The fifteen ids are
  distinct, so every registration succeeds; a tool is registered exactly for each descriptor;
  those that require approval are exactly those not of low destructive level, namely writing and
  editing files, shell, AppleScript, code, click, type and key; and cloud compute is offered
  nothing but the two web tools.\<close>

theorem builtins_registered_and_gated:
  "\<exists>r. with_builtins_scoped run = Some r \<and> tools_ok r \<and>
     (\<forall>d \<in> set builtin_descriptors. map_of (rg_tools r) (td_id d) = Some \<lparr>tl_descriptor = d, tl_run = run d\<rparr>) \<and>
     (\<forall>m d. d \<in> set (describe m r) \<longrightarrow> d \<in> set builtin_descriptors) \<and>
     {td_id d | d. d \<in> set builtin_descriptors \<and> td_requires_approval d} =
       {''file_write'', ''file_edit'', ''shell_exec'', ''apple_script'', ''run_code'', ''ui_click'', ''ui_type'', ''ui_key''} \<and>
     (\<forall>d \<in> set builtin_descriptors. td_requires_approval d \<longleftrightarrow> td_destructive_level d \<noteq> Low) \<and>
     td_id ` set (describe Hosted r) \<subseteq> {''web_fetch'', ''web_search''}"
proof -
  let ?ts = "map (\<lambda>d. \<lparr>tl_descriptor = d, tl_run = run d\<rparr>) builtin_descriptors"
  have ids: "map (td_id \<circ> tl_descriptor) ?ts = map td_id builtin_descriptors"
    by simp
  then have dist: "distinct (map (td_id \<circ> tl_descriptor) ?ts)"
    unfolding ids builtin_ids by simp
  from register_all_new [OF registry_empty_ok dist] obtain r where r: "register_all ?ts registry_empty = (Inr (), r)"
    "map_of (rg_tools r) = map_of (map (\<lambda>t. (td_id (tl_descriptor t), t)) ?ts)"
    by (auto simp: contains_tool_def registry_empty_def)
  have ok: "tools_ok r"
    using register_all_ok [OF registry_empty_ok, of ?ts] r(1) by simp
  have reg: "map_of (rg_tools r) (td_id d) = Some \<lparr>tl_descriptor = d, tl_run = run d\<rparr>"
    if "d \<in> set builtin_descriptors" for d
    using find_registered [OF dist, of "\<lparr>tl_descriptor = d, tl_run = run d\<rparr>"] that by (simp add: r(2))
  have listed: "d \<in> set builtin_descriptors" if d: "d \<in> set (describe m r)" for m d
  proof -
    from d obtain i t where t: "(i, t) \<in> set (rg_tools r)" "d = tl_descriptor t"
      by (auto simp: describe_def)
    then have "map_of (rg_tools r) i = Some t"
      using ok by (simp add: map_of_tools_iff)
    then have "t \<in> set ?ts"
      unfolding r(2) by (auto dest!: map_of_SomeD)
    with t(2) show ?thesis by auto
  qed
  have "td_id ` set (describe Hosted r) \<subseteq> {''web_fetch'', ''web_search''}"
    using listed [of _ Hosted] builtin_modes(1) by (fastforce simp: list_all_iff describe_def)
  moreover have "{td_id d | d. d \<in> set builtin_descriptors \<and> td_requires_approval d} =
      set (map td_id (filter td_requires_approval builtin_descriptors))"
    by auto
  moreover have "map td_id (filter td_requires_approval builtin_descriptors) =
      [''file_write'', ''file_edit'', ''shell_exec'', ''apple_script'', ''run_code'', ''ui_click'', ''ui_type'', ''ui_key'']"
    by (simp add: builtin_defs)
  moreover have "with_builtins_scoped run = Some r"
    by (simp add: with_builtins_scoped_def r(1))
  ultimately show ?thesis
    using ok reg listed builtin_gates by (intro exI [of _ r] conjI) (auto simp: list_all_iff)
qed

theorem builtins_registered_and_gated_witness:
  "\<exists>r t. with_builtins_scoped (\<lambda>d j c (w :: unit). ([], w)) = Some r \<and>
     map_of (rg_tools r) ''shell_exec'' = Some t \<and> td_requires_approval (tl_descriptor t)"
proof -
  obtain r where r: "with_builtins_scoped (\<lambda>d j c (w :: unit). ([], w)) = Some r"
    "\<forall>d \<in> set builtin_descriptors.
       map_of (rg_tools r) (td_id d) = Some \<lparr>tl_descriptor = d, tl_run = \<lambda>j c w. ([], w)\<rparr>"
    using builtins_registered_and_gated [of "\<lambda>d j c (w :: unit). ([], w)"] by (elim exE conjE)
  have "shell_exec_descriptor \<in> set builtin_descriptors" "td_id shell_exec_descriptor = ''shell_exec''"
      "td_requires_approval shell_exec_descriptor"
    by (simp_all add: builtin_descriptors_def shell_exec_descriptor_def)
  with r(1) bspec [OF r(2), of shell_exec_descriptor] show ?thesis
    by simp
qed

end
