(* ===== verification/Computer_Use.thy ===== *)
theory Computer_Use
  imports Registry Engine_Values
begin

text \<open>
  Computer use: the controller hook of \<open>crates/mahi-tooling/src/computer.rs\<close>, its mock, and the
  six tools of \<open>tools/computer_use.rs\<close> that drive it.

  A controller is a record of operations on a world; the macOS implementation is outside the
  Rust sources. The deserialisers of the tools' arguments are parameters, as in the registry.
\<close>

section \<open>computer.rs\<close>

type_synonym i32 = "32 word"

record screenshot =
  shot_bytes :: bytes
  shot_width :: u32
  shot_height :: u32
  shot_description :: string

record ui_bounds =
  bd_x :: i32
  bd_y :: i32
  bd_width :: u32
  bd_height :: u32

record ui_element =
  el_role :: string
  el_label :: "string option"
  el_bounds :: ui_bounds
  el_focused :: bool

datatype mouse_button = LeftButton | RightButton | MiddleButton

type_synonym ('w, 'a) ctl = "'w \<Rightarrow> (contract_error + 'a) \<times> 'w"

record 'w controller =
  ct_screenshot :: "('w, screenshot) ctl"
  ct_describe_ui :: "('w, ui_element list) ctl"
  ct_click :: "i32 \<Rightarrow> i32 \<Rightarrow> mouse_button \<Rightarrow> ('w, unit) ctl"
  ct_move_mouse :: "i32 \<Rightarrow> i32 \<Rightarrow> ('w, unit) ctl"
  ct_type_text :: "string \<Rightarrow> ('w, unit) ctl"
  ct_scroll :: "i32 \<Rightarrow> i32 \<Rightarrow> ('w, unit) ctl"
  ct_key :: "string \<Rightarrow> ('w, unit) ctl"
  ct_is_sensitive_context :: "'w \<Rightarrow> bool \<times> 'w"

datatype controller_action =
    ActScreenshot
  | ActDescribeUi
  | ActClick i32 i32 mouse_button
  | ActMoveMouse i32 i32
  | ActTypeText string
  | ActScroll i32 i32
  | ActKey string

record mock =
  mk_actions :: "controller_action list"
  mk_sensitive :: bool
  mk_elements :: "ui_element list"

definition mock_new :: mock where
  "mock_new = \<lparr>mk_actions = [], mk_sensitive = False, mk_elements = []\<rparr>"

definition set_sensitive :: "bool \<Rightarrow> mock \<Rightarrow> mock" where
  "set_sensitive b m = m\<lparr>mk_sensitive := b\<rparr>"

definition set_elements :: "ui_element list \<Rightarrow> mock \<Rightarrow> mock" where
  "set_elements es m = m\<lparr>mk_elements := es\<rparr>"

definition mock_log :: "controller_action \<Rightarrow> mock \<Rightarrow> mock" where
  "mock_log a m = m\<lparr>mk_actions := mk_actions m @ [a]\<rparr>"

definition mock_screenshot :: screenshot where
  "mock_screenshot =
     \<lparr>shot_bytes = [0x89, 0x50, 0x4E, 0x47, 0x0D, 0x0A, 0x1A, 0x0A], shot_width = 1280, shot_height = 800,
      shot_description = ''mock screen: empty desktop''\<rparr>"

definition mock_controller :: "mock controller" where
  "mock_controller =
     \<lparr>ct_screenshot = (\<lambda>m. (Inr mock_screenshot, mock_log ActScreenshot m)),
      ct_describe_ui = (\<lambda>m. (Inr (mk_elements m), mock_log ActDescribeUi m)),
      ct_click = (\<lambda>x y b m. (Inr (), mock_log (ActClick x y b) m)),
      ct_move_mouse = (\<lambda>x y m. (Inr (), mock_log (ActMoveMouse x y) m)),
      ct_type_text = (\<lambda>t m. (Inr (), mock_log (ActTypeText t) m)),
      ct_scroll = (\<lambda>dx dy m. (Inr (), mock_log (ActScroll dx dy) m)),
      ct_key = (\<lambda>k m. (Inr (), mock_log (ActKey k) m)),
      ct_is_sensitive_context = (\<lambda>m. (mk_sensitive m, m))\<rparr>"

section \<open>tools/computer_use.rs\<close>

definition SENSITIVE_REFUSAL :: string where
  "SENSITIVE_REFUSAL = ''refused: the focused context appears to be a login or payment '' @
     ''screen; automated input is blocked and the user must act directly''"

definition hex_encode :: "bytes \<Rightarrow> string" where
  "hex_encode bs = concat (map hex_byte bs)"

definition refuse_if_sensitive :: "'w controller \<Rightarrow> 'w \<Rightarrow> tool_event_stream option \<times> 'w" where
  "refuse_if_sensitive c w =
     (case ct_is_sensitive_context c w of
        (s, w') \<Rightarrow> (if s then Some (tool_error_stream SENSITIVE_REFUSAL False) else None, w'))"

definition controller_failure :: "(uuid \<Rightarrow> string) \<Rightarrow> string \<Rightarrow> contract_error \<Rightarrow> tool_event_stream" where
  "controller_failure u action err =
     [Inr (ToolEventError (''computer controller failed to '' @ action @ '': '' @ show_error u err) True)]"

definition screen_capture_run :: "(uuid \<Rightarrow> string) \<Rightarrow> 'w controller \<Rightarrow> 'w \<Rightarrow> tool_event_stream \<times> 'w" where
  "screen_capture_run u c w =
     (case ct_screenshot c w of
        (Inr shot, w') \<Rightarrow>
          (ok_result (json_obj
             [(''width'', JInt (uint (shot_width shot))), (''height'', JInt (uint (shot_height shot))),
              (''description'', JStr (shot_description shot)),
              (''image_hex'', JStr (hex_encode (shot_bytes shot)))]), w')
      | (Inl e, w') \<Rightarrow> (controller_failure u ''capture the screen'' e, w'))"

definition ui_describe_run ::
  "(uuid \<Rightarrow> string) \<Rightarrow> (ui_element list \<Rightarrow> string + json) \<Rightarrow> 'w controller \<Rightarrow> 'w \<Rightarrow> tool_event_stream \<times> 'w" where
  "ui_describe_run u to_value c w =
     (case ct_describe_ui c w of
        (Inr elements, w') \<Rightarrow>
          (case to_value elements of
             Inr v \<Rightarrow> (ok_result (json_obj [(''elements'', v)]), w')
           | Inl e \<Rightarrow> (tool_error_stream (''failed to serialize UI elements: '' @ e) False, w'))
      | (Inl e, w') \<Rightarrow> (controller_failure u ''describe the UI'' e, w'))"

fun button_name :: "mouse_button \<Rightarrow> string" where
  "button_name LeftButton = ''left''"
| "button_name RightButton = ''right''"
| "button_name MiddleButton = ''middle''"

definition ui_click_run ::
  "(uuid \<Rightarrow> string) \<Rightarrow> (json \<Rightarrow> string + i32 \<times> i32 \<times> mouse_button) \<Rightarrow> 'w controller \<Rightarrow> json \<Rightarrow> 'w \<Rightarrow>
     tool_event_stream \<times> 'w" where
  "ui_click_run u from_value c args w =
     (case tool_parse_args from_value args of
        Inl msg \<Rightarrow> (tool_error_stream msg False, w)
      | Inr (x, y, button) \<Rightarrow>
          (case refuse_if_sensitive c w of
             (Some refusal, w1) \<Rightarrow> (refusal, w1)
           | (None, w1) \<Rightarrow>
               (case ct_click c x y button w1 of
                  (Inr _, w2) \<Rightarrow>
                    (ok_result (json_obj [(''clicked'', JBool True), (''x'', JInt (sint x)), (''y'', JInt (sint y)),
                       (''button'', JStr (button_name button))]), w2)
                | (Inl e, w2) \<Rightarrow> (controller_failure u ''click'' e, w2))))"

definition ui_type_run ::
  "(uuid \<Rightarrow> string) \<Rightarrow> (json \<Rightarrow> string + string) \<Rightarrow> 'w controller \<Rightarrow> json \<Rightarrow> 'w \<Rightarrow> tool_event_stream \<times> 'w" where
  "ui_type_run u from_value c args w =
     (case tool_parse_args from_value args of
        Inl msg \<Rightarrow> (tool_error_stream msg False, w)
      | Inr t \<Rightarrow>
          (case refuse_if_sensitive c w of
             (Some refusal, w1) \<Rightarrow> (refusal, w1)
           | (None, w1) \<Rightarrow>
               let typed_chars = length (str_chars t)
               in case ct_type_text c t w1 of
                    (Inr _, w2) \<Rightarrow> (ok_result (json_obj [(''typed_chars'', JInt (int typed_chars))]), w2)
                  | (Inl e, w2) \<Rightarrow> (controller_failure u ''type text'' e, w2)))"

definition ui_scroll_run ::
  "(uuid \<Rightarrow> string) \<Rightarrow> (json \<Rightarrow> string + i32 \<times> i32) \<Rightarrow> 'w controller \<Rightarrow> json \<Rightarrow> 'w \<Rightarrow> tool_event_stream \<times> 'w" where
  "ui_scroll_run u from_value c args w =
     (case tool_parse_args from_value args of
        Inl msg \<Rightarrow> (tool_error_stream msg False, w)
      | Inr (dx, dy) \<Rightarrow>
          (case ct_scroll c dx dy w of
             (Inr _, w1) \<Rightarrow>
               (ok_result (json_obj [(''scrolled'', JBool True), (''dx'', JInt (sint dx)), (''dy'', JInt (sint dy))]), w1)
           | (Inl e, w1) \<Rightarrow> (controller_failure u ''scroll'' e, w1)))"

definition ui_key_run ::
  "(uuid \<Rightarrow> string) \<Rightarrow> (json \<Rightarrow> string + string) \<Rightarrow> 'w controller \<Rightarrow> json \<Rightarrow> 'w \<Rightarrow> tool_event_stream \<times> 'w" where
  "ui_key_run u from_value c args w =
     (case tool_parse_args from_value args of
        Inl msg \<Rightarrow> (tool_error_stream msg False, w)
      | Inr combo \<Rightarrow>
          if str_trim combo = [] then (tool_error_stream ''combo must not be empty'' False, w)
          else case refuse_if_sensitive c w of
                 (Some refusal, w1) \<Rightarrow> (refusal, w1)
               | (None, w1) \<Rightarrow>
                   (case ct_key c combo w1 of
                      (Inr _, w2) \<Rightarrow> (ok_result (json_obj [(''pressed'', JBool True), (''combo'', JStr combo)]), w2)
                    | (Inl e, w2) \<Rightarrow> (controller_failure u ''press keys'' e, w2)))"

section \<open>Properties\<close>

lemmas input_runs = ui_click_run_def ui_type_run_def ui_key_run_def refuse_if_sensitive_def

text \<open>C35: automated input never reaches a login or payment screen. When the controller reports a
  sensitive context, click, type and key answer with an error that is not retryable, and the
  controller is asked nothing but that one question: its world afterwards is the one that the
  question left, or the one before when the arguments were already refused.\<close>

theorem sensitive_context_never_driven:
  assumes "ct_is_sensitive_context c w = (True, w1)"
    and "act \<in> {ui_click_run u de c, ui_type_run u de' c, ui_key_run u de' c}"
  shows "\<exists>msg. fst (act args w) = tool_error_stream msg False \<and> snd (act args w) \<in> {w, w1}"
  using assms by (auto simp: input_runs split: sum.splits)

theorem sensitive_context_never_driven_witness:
  "let m = set_sensitive True mock_new; p = ui_type_run (\<lambda>_. []) (\<lambda>j. Inr ''secret'') mock_controller JNull m
   in mk_actions (snd p) = [] \<and> (\<exists>msg. fst p = tool_error_stream msg False)"
  using sensitive_context_never_driven [of mock_controller "set_sensitive True mock_new" "set_sensitive True mock_new"
      "ui_type_run (\<lambda>_. []) (\<lambda>j. Inr ''secret'') mock_controller" "\<lambda>_. []" "\<lambda>j. Inl []" "\<lambda>j. Inr ''secret''" JNull]
  by (auto simp: Let_def mock_controller_def set_sensitive_def mock_new_def)

text \<open>On the mock controller each input tool performs exactly the action it was asked for. Outside a
  sensitive context, with arguments that parse, the recorded actions grow by that one action.\<close>

theorem mock_input_performed_once:
  assumes "\<not> mk_sensitive m"
  shows "(de args = Inr (x, y, b) \<longrightarrow>
      snd (ui_click_run u de mock_controller args m) = mock_log (ActClick x y b) m) \<and>
    (de' args = Inr t \<longrightarrow> snd (ui_type_run u de' mock_controller args m) = mock_log (ActTypeText t) m) \<and>
    (de' args = Inr t \<longrightarrow> str_trim t \<noteq> [] \<longrightarrow>
      snd (ui_key_run u de' mock_controller args m) = mock_log (ActKey t) m)"
  using assms by (simp add: input_runs tool_parse_args_def mock_controller_def)

theorem mock_input_performed_once_witness:
  "mk_actions (snd (ui_click_run (\<lambda>_. []) (\<lambda>j. Inr (1, 2, LeftButton)) mock_controller JNull mock_new)) =
     [ActClick 1 2 LeftButton]"
  using mock_input_performed_once [of mock_new "\<lambda>j. Inr (1, 2, LeftButton)" JNull 1 2 LeftButton "\<lambda>_. []"]
  by (simp add: mock_new_def mock_log_def)

text \<open>A captured screen reaches a vision model intact. The result of \<open>screen_capture\<close>, stored as a
  tool result for a model that can see, carries an image block with exactly the captured bytes
  (unless there are none), and the text of the result has no image bytes.\<close>

theorem screenshot_reaches_vision_model:
  assumes "ct_screenshot c w = (Inr shot, w')" and "shot_bytes shot \<noteq> []"
    and "screen_capture_run u c w = ([Inr (ToolResult out False)], w'')"
  shows "\<exists>text_out. tool_result_blocks base64 True cid out =
      [ToolResultBlock cid text_out, ImageBlock ''image/png'' (base64 (shot_bytes shot))] \<and>
    json_get text_out ''image_hex'' = None \<and>
    json_get text_out ''description'' = Some (JStr (shot_description shot))"
proof -
  let ?h = "hex_encode (shot_bytes shot)"
  have h: "decode_hex ?h = Some (shot_bytes shot)"
    by (simp add: hex_encode_def decode_hex_def decode_pairs_hex length_hex)
  have ne: "?h \<noteq> []"
    using assms(2) by (cases "shot_bytes shot") (simp_all add: hex_encode_def hex_byte_def)
  have out: "out = json_obj
      [(''width'', JInt (uint (shot_width shot))), (''height'', JInt (uint (shot_height shot))),
       (''description'', JStr (shot_description shot)), (''image_hex'', JStr ?h)]"
    using assms(1,3) by (simp add: screen_capture_run_def ok_result_def)
  show ?thesis
    using ne h assms(2) by (simp add: out tool_result_blocks_def screenshot_image_block_def json_obj_def bt_remove_def)
qed

theorem screenshot_reaches_vision_model_witness:
  "\<exists>out m. screen_capture_run (\<lambda>_. []) mock_controller mock_new = ([Inr (ToolResult out False)], m) \<and>
     (\<exists>t. tool_result_blocks (\<lambda>b. replicate (length b) CHR ''x'') True ''c1'' out =
        [ToolResultBlock ''c1'' t, ImageBlock ''image/png'' ''xxxxxxxx''])"
proof -
  obtain out m where r: "screen_capture_run (\<lambda>_. []) mock_controller mock_new = ([Inr (ToolResult out False)], m)"
    by (simp add: screen_capture_run_def mock_controller_def ok_result_def)
  have shot: "ct_screenshot mock_controller mock_new = (Inr mock_screenshot, mock_log ActScreenshot mock_new)"
    by (simp add: mock_controller_def)
  have "shot_bytes mock_screenshot \<noteq> []"
    by (simp add: mock_screenshot_def)
  from screenshot_reaches_vision_model [OF shot this r, of "\<lambda>b. replicate (length b) CHR ''x''" "''c1''"] r show ?thesis
    by (auto simp: mock_screenshot_def numeral_eq_Suc)
qed

end
