(* ===== verification/File_Scope.thy ===== *)
theory File_Scope
  imports Registry
begin

text \<open>
  The sandbox of the file and shell tools: \<open>normalize\<close> and \<open>FileScope\<close> of
  \<open>crates/mahi-tooling/src/tools/file.rs\<close>, over a file system with symbolic links.

  A path is the list of its components as \<open>Path::components\<close> gives them. The file system is a map
  from absolute locations (the names from the root down) to nodes; looking a path up follows
  symbolic links, at most \<open>MAX_SYMLINKS\<close> of them, as the kernel does.
\<close>

section \<open>Paths\<close>

datatype component = RootDir | CurDir | ParentDir | Normal string

type_synonym path = "component list"

fun split_slash :: "string \<Rightarrow> string list" where
  "split_slash [] = [[]]"
| "split_slash (c # s) =
     (if c = CHR ''/'' then [] # split_slash s
      else (case split_slash s of [] \<Rightarrow> [[c]] | l # ls \<Rightarrow> (c # l) # ls))"

text \<open>\<open>Path::components\<close>: repeated slashes and inner \<open>.\<close> components disappear.\<close>

definition name_component :: "string \<Rightarrow> component list" where
  "name_component s =
     (if s = [] \<or> s = ''.'' then [] else if s = ''..'' then [ParentDir] else [Normal s])"

definition path_of :: "string \<Rightarrow> path" where
  "path_of s =
     (if s \<noteq> [] \<and> hd s = CHR ''/'' then [RootDir]
      else if hd (split_slash s) = ''.'' then [CurDir] else []) @
     concat (map name_component (split_slash s))"

definition is_absolute :: "path \<Rightarrow> bool" where
  "is_absolute p = (p \<noteq> [] \<and> hd p = RootDir)"

definition path_join :: "path \<Rightarrow> path \<Rightarrow> path" where
  "path_join p q = (if is_absolute q then q else p @ q)"

text \<open>\<open>PathBuf::pop\<close> and \<open>PathBuf::push\<close> of one component, on paths without \<open>.\<close> and \<open>..\<close>.\<close>

definition path_pop :: "path \<Rightarrow> path" where
  "path_pop p = (if p = [] \<or> p = [RootDir] then p else butlast p)"

definition normalize :: "path \<Rightarrow> path" where
  "normalize p =
     fold (\<lambda>c out. case c of
             ParentDir \<Rightarrow> path_pop out
           | CurDir \<Rightarrow> out
           | RootDir \<Rightarrow> [RootDir]
           | Normal n \<Rightarrow> out @ [Normal n]) p []"

definition starts_with :: "path \<Rightarrow> path \<Rightarrow> bool" where
  "starts_with p q = (take (length q) p = q)"

definition abs_path :: "string list \<Rightarrow> path" where
  "abs_path l = RootDir # map Normal l"

definition display :: "path \<Rightarrow> string" where
  "display p =
     (if is_absolute p then ''/'' else []) @
     str_join ''/'' (concat (map (\<lambda>c. case c of Normal n \<Rightarrow> [n] | ParentDir \<Rightarrow> [''..''] | CurDir \<Rightarrow> [''.'']
        | RootDir \<Rightarrow> []) p))"

section \<open>File system\<close>

datatype node = FileNode string | DirNode | LinkNode path

type_synonym fs = "string list \<Rightarrow> node option"

definition MAX_SYMLINKS :: nat where
  "MAX_SYMLINKS = 40"

text \<open>Following a path from a directory; \<open>n\<close> links may still be followed.\<close>

function walk :: "fs \<Rightarrow> nat \<Rightarrow> string list \<Rightarrow> path \<Rightarrow> string list option" where
  "walk F n cur [] = Some cur"
| "walk F n cur (RootDir # cs) = walk F n [] cs"
| "walk F n cur (CurDir # cs) = walk F n cur cs"
| "walk F n cur (ParentDir # cs) = walk F n (butlast cur) cs"
| "walk F n cur (Normal c # cs) =
     (case F (cur @ [c]) of
        None \<Rightarrow> None
      | Some DirNode \<Rightarrow> walk F n (cur @ [c]) cs
      | Some (FileNode s) \<Rightarrow> if cs = [] then Some (cur @ [c]) else None
      | Some (LinkNode t) \<Rightarrow> (case n of 0 \<Rightarrow> None | Suc k \<Rightarrow> walk F k cur (t @ cs)))"
  by pat_completeness auto
termination
  by (relation "measures [\<lambda>(F, n, cur, cs). n, \<lambda>(F, n, cur, cs). length cs]") auto

definition canonicalize :: "fs \<Rightarrow> path \<Rightarrow> string list option" where
  "canonicalize F p = walk F MAX_SYMLINKS [] p"

definition path_exists :: "fs \<Rightarrow> path \<Rightarrow> bool" where
  "path_exists F p = (canonicalize F p \<noteq> None)"

section \<open>FileScope\<close>

record file_scope =
  fsc_root :: path

definition scope_new :: "fs \<Rightarrow> path \<Rightarrow> path \<Rightarrow> file_scope" where
  "scope_new F cwd raw =
     (let abs = (if is_absolute raw then raw else path_join cwd raw)
      in \<lparr>fsc_root = (case canonicalize F abs of Some l \<Rightarrow> abs_path l | None \<Rightarrow> normalize abs)\<rparr>)"

definition resolve :: "fs \<Rightarrow> file_scope \<Rightarrow> string \<Rightarrow> contract_error + path" where
  "resolve F sc raw =
     (let p = path_of raw;
          joined = (if is_absolute p then p else path_join (fsc_root sc) p);
          normalized = normalize joined
      in if \<not> starts_with normalized (fsc_root sc) then Inl (ToolErr SandboxViolation)
         else if path_exists F normalized
         then (case canonicalize F normalized of
                 None \<Rightarrow> Inl (ToolErr (ToolExecution (''failed to canonicalize '' @ display normalized)))
               | Some l \<Rightarrow>
                   if \<not> starts_with (abs_path l) (fsc_root sc) then Inl (ToolErr SandboxViolation)
                   else Inr (abs_path l))
         else Inr normalized)"

section \<open>Canonical locations\<close>

text \<open>A location reached by a walk: every directory on the way is one, and there is no link.\<close>

definition canonical :: "fs \<Rightarrow> string list \<Rightarrow> bool" where
  "canonical F l \<longleftrightarrow>
     (\<forall>k. 0 < k \<longrightarrow> k < length l \<longrightarrow> F (take k l) = Some DirNode) \<and>
     (l \<noteq> [] \<longrightarrow> (\<exists>s. F l = Some (FileNode s)) \<or> F l = Some DirNode)"

definition dirs_to :: "fs \<Rightarrow> string list \<Rightarrow> bool" where
  "dirs_to F l \<longleftrightarrow> (\<forall>k. 0 < k \<longrightarrow> k \<le> length l \<longrightarrow> F (take k l) = Some DirNode)"

lemma dirs_to_Nil [simp]: "dirs_to F []"
  by (simp add: dirs_to_def)

lemma dirs_to_snoc: "dirs_to F l \<Longrightarrow> F (l @ [c]) = Some DirNode \<Longrightarrow> dirs_to F (l @ [c])"
  by (auto simp: dirs_to_def take_append le_Suc_eq)

lemma dirs_to_butlast: "dirs_to F l \<Longrightarrow> dirs_to F (butlast l)"
  by (auto simp: dirs_to_def take_butlast)

lemma dirs_to_canonical: "dirs_to F l \<Longrightarrow> canonical F l"
  by (auto simp: dirs_to_def canonical_def)

lemma walk_canonical: "walk F n cur p = Some l \<Longrightarrow> dirs_to F cur \<Longrightarrow> canonical F l"
proof (induction F n cur p rule: walk.induct)
  case (5 F n cur c cs)
  show ?case
  proof (cases "F (cur @ [c])")
    case (Some nd)
    show ?thesis
    proof (cases nd)
      case (FileNode s)
      with 5 Some show ?thesis
        by (auto simp: canonical_def dirs_to_def take_append split: if_splits)
    next
      case DirNode
      with 5 Some show ?thesis
        by (auto intro: dirs_to_snoc)
    next
      case (LinkNode t)
      with 5 Some show ?thesis
        by (cases n) auto
    qed
  qed (use 5 in simp)
qed (auto simp: dirs_to_canonical dirs_to_butlast)

text \<open>Walking a canonical location leads to itself, through no link.\<close>

lemma walk_self:
  "canonical F (cur @ l) \<Longrightarrow> walk F n cur (map Normal l) = Some (cur @ l)"
proof (induction l arbitrary: cur)
  case (Cons c l)
  have "F (cur @ [c]) = Some DirNode \<or> l = [] \<and> (\<exists>s. F (cur @ [c]) = Some (FileNode s))"
  proof (cases l)
    case Nil
    with Cons.prems show ?thesis by (auto simp: canonical_def)
  next
    case (Cons d l')
    with Cons.prems [unfolded canonical_def, THEN conjunct1, rule_format, of "Suc (length cur)"] show ?thesis
      by simp
  qed
  with Cons.IH [of "cur @ [c]"] Cons.prems show ?case
    by auto
qed simp

lemma canonicalize_self: "canonical F l \<Longrightarrow> canonicalize F (abs_path l) = Some l"
  using walk_self [of F "[]" l] by (simp add: canonicalize_def abs_path_def)

lemma canonicalize_canonical: "canonicalize F p = Some l \<Longrightarrow> canonical F l"
  by (auto simp: canonicalize_def intro: walk_canonical)

section \<open>Normal paths\<close>

definition plain :: "path \<Rightarrow> bool" where
  "plain p \<longleftrightarrow> (\<exists>l. p = abs_path l)"

lemma plain_pop: "plain p \<Longrightarrow> plain (path_pop p)"
  by (auto simp: plain_def path_pop_def abs_path_def map_butlast)
    (metis butlast.simps(2) list.simps(8) map_butlast)

lemma normalize_plain_fold:
  "plain out \<Longrightarrow> plain (fold (\<lambda>c out. case c of
             ParentDir \<Rightarrow> path_pop out
           | CurDir \<Rightarrow> out
           | RootDir \<Rightarrow> [RootDir]
           | Normal n \<Rightarrow> out @ [Normal n]) p out)"
proof (induction p arbitrary: out)
  case (Cons c p)
  have "plain (case c of ParentDir \<Rightarrow> path_pop out | CurDir \<Rightarrow> out | RootDir \<Rightarrow> [RootDir]
      | Normal n \<Rightarrow> out @ [Normal n])"
  proof (cases c)
    case (Normal n)
    from Cons.prems obtain l where "out = abs_path l"
      by (auto simp: plain_def)
    then have "out @ [Normal n] = abs_path (l @ [n])"
      by (simp add: abs_path_def)
    with Normal show ?thesis by (auto simp: plain_def)
  qed (use Cons.prems plain_pop [of out] in \<open>auto simp: plain_def abs_path_def\<close>)
  with Cons.IH show ?case by simp
qed simp

lemma normalize_absolute: "is_absolute p \<Longrightarrow> plain (normalize p)"
proof -
  assume "is_absolute p"
  then obtain q where "p = RootDir # q"
    by (cases p) (auto simp: is_absolute_def)
  moreover have "plain [RootDir]"
    by (auto simp: plain_def abs_path_def)
  ultimately show ?thesis
    using normalize_plain_fold [of "[RootDir]" q] by (simp add: normalize_def)
qed

lemma scope_root_plain: "is_absolute cwd \<Longrightarrow> plain (fsc_root (scope_new F cwd raw))"
  by (auto simp: scope_new_def Let_def plain_def path_join_def is_absolute_def
      intro!: normalize_absolute [unfolded plain_def] split: option.splits)

lemma plain_absolute: "plain p \<Longrightarrow> is_absolute p"
  by (auto simp: plain_def abs_path_def is_absolute_def)

lemma joined_absolute: "is_absolute r \<Longrightarrow> is_absolute (if is_absolute p then p else path_join r p)"
  by (auto simp: path_join_def is_absolute_def)

lemma resolve_confined:
  assumes "is_absolute cwd" and "sc = scope_new F0 cwd dir" and "resolve F sc raw = Inr p"
  shows "starts_with p (fsc_root sc) \<and> (\<exists>names. p = abs_path names) \<and>
    (\<forall>l. canonicalize F p = Some l \<longrightarrow> p = abs_path l \<and> starts_with (abs_path l) (fsc_root sc))"
proof -
  let ?p = "normalize (if is_absolute (path_of raw) then path_of raw else path_join (fsc_root sc) (path_of raw))"
  have plain: "plain ?p"
    using normalize_absolute joined_absolute plain_absolute scope_root_plain [OF assms(1)] assms(2) by blast
  have p: "starts_with ?p (fsc_root sc)" "p = (case canonicalize F ?p of Some l \<Rightarrow> abs_path l | None \<Rightarrow> ?p)"
    "\<And>l. canonicalize F ?p = Some l \<Longrightarrow> starts_with (abs_path l) (fsc_root sc)"
    using assms(3) by (auto simp: resolve_def Let_def path_exists_def split: if_splits option.splits)
  show ?thesis
  proof (cases "canonicalize F ?p")
    case None
    then have "p = ?p" using p(2) by simp
    with None plain p(1) show ?thesis by (simp add: plain_def)
  next
    case (Some l)
    then have "p = abs_path l" using p(2) by simp
    with p(3) [OF Some] canonicalize_self [OF canonicalize_canonical [OF Some]] show ?thesis by auto
  qed
qed

section \<open>Properties\<close>

text \<open>C22: a path the scope accepts is inside the root, by name and, when it exists, in fact. An accepted
  path starts with the root; if it leads anywhere, it is the canonical location itself and
  lies under the root, so reading it cannot leave the sandbox through a symbolic link. A path
  that leaves the root by its \<open>..\<close> components, or that exists and leads outside, is refused as a
  sandbox violation.\<close>

theorem accepted_path_confined:
  assumes "is_absolute cwd" and "sc = scope_new F0 cwd dir"
  shows "(\<forall>p. resolve F sc raw = Inr p \<longrightarrow>
      starts_with p (fsc_root sc) \<and> (\<exists>names. p = abs_path names) \<and>
      (\<forall>l. canonicalize F p = Some l \<longrightarrow> p = abs_path l \<and> starts_with (abs_path l) (fsc_root sc))) \<and>
    (\<forall>p l. p = normalize (if is_absolute (path_of raw) then path_of raw else path_join (fsc_root sc) (path_of raw)) \<longrightarrow>
      \<not> starts_with p (fsc_root sc) \<or> (canonicalize F p = Some l \<and> \<not> starts_with (abs_path l) (fsc_root sc)) \<longrightarrow>
      resolve F sc raw = Inl (ToolErr SandboxViolation))"
proof (intro conjI allI impI)
  fix p l
  assume "p = normalize (if is_absolute (path_of raw) then path_of raw else path_join (fsc_root sc) (path_of raw))"
    and "\<not> starts_with p (fsc_root sc) \<or> (canonicalize F p = Some l \<and> \<not> starts_with (abs_path l) (fsc_root sc))"
  then show "resolve F sc raw = Inl (ToolErr SandboxViolation)"
    by (auto simp: resolve_def Let_def path_exists_def)
qed (use resolve_confined [OF assms] in blast)+

text \<open>A directory with a link out of it, for the witnesses: \<open>/w\<close> is the root, \<open>/w/out\<close> leads to
  \<open>/etc\<close>.\<close>

definition demo_fs :: fs where
  "demo_fs = [[''w''] \<mapsto> DirNode, [''w'', ''out''] \<mapsto> LinkNode [RootDir, Normal ''etc''],
     [''w'', ''a''] \<mapsto> FileNode ''hello'', [''etc''] \<mapsto> DirNode, [''etc'', ''passwd''] \<mapsto> FileNode ''root'']"

definition demo_scope :: file_scope where
  "demo_scope = scope_new demo_fs [RootDir] [RootDir, Normal ''w'']"

lemma demo_scope_root: "fsc_root demo_scope = [RootDir, Normal ''w'']"
  by (simp add: demo_scope_def scope_new_def is_absolute_def canonicalize_def demo_fs_def abs_path_def MAX_SYMLINKS_def)

lemmas resolve_eval = resolve_def Let_def path_of_def name_component_def is_absolute_def path_join_def
  normalize_def path_pop_def starts_with_def path_exists_def canonicalize_def MAX_SYMLINKS_def numeral_eq_Suc
  abs_path_def

theorem accepted_path_confined_witness:
  "resolve demo_fs demo_scope ''b/../a'' = Inr (abs_path [''w'', ''a'']) \<and>
   starts_with (abs_path [''w'', ''a'']) (fsc_root demo_scope) \<and>
   resolve demo_fs demo_scope ''out/passwd'' = Inl (ToolErr SandboxViolation)"
proof -
  have c: "is_absolute [RootDir]"
    by (simp add: is_absolute_def)
  have r: "resolve demo_fs demo_scope ''b/../a'' = Inr (abs_path [''w'', ''a''])"
    by (simp add: resolve_eval demo_scope_root demo_fs_def)
  let ?p = "normalize (if is_absolute (path_of ''out/passwd'') then path_of ''out/passwd''
      else path_join (fsc_root demo_scope) (path_of ''out/passwd''))"
  have "canonicalize demo_fs ?p = Some [''etc'', ''passwd'']"
    by (simp add: resolve_eval demo_scope_root demo_fs_def)
  moreover have "\<not> starts_with (abs_path [''etc'', ''passwd'']) (fsc_root demo_scope)"
    by (simp add: starts_with_def abs_path_def demo_scope_root)
  ultimately show ?thesis
    using accepted_path_confined [OF c demo_scope_def, of demo_fs "''b/../a''"]
      accepted_path_confined [OF c demo_scope_def, of demo_fs "''out/passwd''"] r by blast
qed

end
