(* ===== verification/File_Tools.thy ===== *)
theory File_Tools
  imports File_Scope Pairing
begin

text \<open>
  The file tools of \<open>crates/mahi-tooling/src/tools/file.rs\<close>: \<open>file_read\<close>, \<open>file_write\<close>,
  \<open>file_edit\<close> and \<open>file_search\<close>, as functions on the file system.

  The parsed arguments are records; the parsing itself is \<open>serde\<close> and a parameter. The text of an
  I/O error is the operating system's: a parameter \<open>os\<close>, by the operation that failed. Directory
  entries are listed in an order the file system chooses, the parameter \<open>ls\<close>.
\<close>

section \<open>Reading and writing files\<close>

definition byte :: "char \<Rightarrow> nat" where
  "byte c = of_char c"

definition cont :: "char \<Rightarrow> bool" where
  "cont c = (0x80 \<le> byte c \<and> byte c \<le> 0xBF)"

text \<open>\<open>str::from_utf8\<close>: no overlong forms, no surrogates, nothing above U+10FFFF.\<close>

fun valid_utf8 :: "string \<Rightarrow> bool" where
  "valid_utf8 [] = True"
| "valid_utf8 (a # s) =
     (if byte a < 0x80 then valid_utf8 s
      else if 0xC2 \<le> byte a \<and> byte a \<le> 0xDF
      then (case s of b # t \<Rightarrow> cont b \<and> valid_utf8 t | _ \<Rightarrow> False)
      else if 0xE0 \<le> byte a \<and> byte a \<le> 0xEF
      then (case s of
              b # c # t \<Rightarrow>
                cont b \<and> cont c \<and> (byte a = 0xE0 \<longrightarrow> 0xA0 \<le> byte b) \<and> (byte a = 0xED \<longrightarrow> byte b \<le> 0x9F) \<and> valid_utf8 t
            | _ \<Rightarrow> False)
      else if 0xF0 \<le> byte a \<and> byte a \<le> 0xF4
      then (case s of
              b # c # d # t \<Rightarrow>
                cont b \<and> cont c \<and> cont d \<and> (byte a = 0xF0 \<longrightarrow> 0x90 \<le> byte b) \<and> (byte a = 0xF4 \<longrightarrow> byte b \<le> 0x8F) \<and>
                valid_utf8 t
            | _ \<Rightarrow> False)
      else False)"

text \<open>\<open>read_to_string\<close>; the location \<open>[]\<close> is the root directory.\<close>

definition read_to_string :: "fs \<Rightarrow> path \<Rightarrow> string option" where
  "read_to_string F p =
     (case canonicalize F p of
        Some l \<Rightarrow>
          if l = [] then None
          else (case F l of Some (FileNode s) \<Rightarrow> if valid_utf8 s then Some s else None | _ \<Rightarrow> None)
      | None \<Rightarrow> None)"

text \<open>Where opening a path for writing leads: an existing file, or a new name in an existing
  directory, following links also in the last place.\<close>

function open_target :: "fs \<Rightarrow> nat \<Rightarrow> string list \<Rightarrow> path \<Rightarrow> string list option" where
  "open_target F n cur [] = None"
| "open_target F n cur (RootDir # cs) = open_target F n [] cs"
| "open_target F n cur (CurDir # cs) = open_target F n cur cs"
| "open_target F n cur (ParentDir # cs) = open_target F n (butlast cur) cs"
| "open_target F n cur (Normal c # cs) =
     (case F (cur @ [c]) of
        None \<Rightarrow> if cs = [] then Some (cur @ [c]) else None
      | Some DirNode \<Rightarrow> open_target F n (cur @ [c]) cs
      | Some (FileNode s) \<Rightarrow> if cs = [] then Some (cur @ [c]) else None
      | Some (LinkNode t) \<Rightarrow> (case n of 0 \<Rightarrow> None | Suc k \<Rightarrow> open_target F k cur (t @ cs)))"
  by pat_completeness auto
termination
  by (relation "measures [\<lambda>(F, n, cur, cs). n, \<lambda>(F, n, cur, cs). length cs]") auto

definition fs_write :: "fs \<Rightarrow> path \<Rightarrow> string \<Rightarrow> fs option" where
  "fs_write F p s = map_option (\<lambda>l. F(l \<mapsto> FileNode s)) (open_target F MAX_SYMLINKS [] p)"

text \<open>\<open>create_dir_all\<close> of a path without \<open>.\<close> and \<open>..\<close>: missing directories are made, existing ones and
  links to directories are passed.\<close>

fun make_dirs :: "fs \<Rightarrow> string list \<Rightarrow> path \<Rightarrow> fs option" where
  "make_dirs F cur [] = Some F"
| "make_dirs F cur (Normal c # cs) =
     (case F (cur @ [c]) of
        None \<Rightarrow> make_dirs (F(cur @ [c] \<mapsto> DirNode)) (cur @ [c]) cs
      | Some DirNode \<Rightarrow> make_dirs F (cur @ [c]) cs
      | Some (FileNode s) \<Rightarrow> None
      | Some (LinkNode t) \<Rightarrow>
          (case walk F MAX_SYMLINKS cur t of
             Some l \<Rightarrow> if l = [] \<or> F l = Some DirNode then make_dirs F l cs else None
           | None \<Rightarrow> None))"
| "make_dirs F cur (_ # cs) = make_dirs F cur cs"

definition path_parent :: "path \<Rightarrow> path option" where
  "path_parent p = (if p = [] \<or> p = [RootDir] then None else Some (butlast p))"

section \<open>Strings\<close>

text \<open>The first occurrence of a pattern: what is before it and what is after.\<close>

fun find_sub :: "string \<Rightarrow> string \<Rightarrow> (string \<times> string) option" where
  "find_sub p [] = (if p = [] then Some ([], []) else None)"
| "find_sub p (c # s) =
     (if take (length p) (c # s) = p then Some ([], drop (length p) (c # s))
      else map_option (\<lambda>(a, b). (c # a, b)) (find_sub p s))"

lemma find_sub_Some: "find_sub p s = Some (a, b) \<Longrightarrow> s = a @ p @ b"
proof (induction s arbitrary: a)
  case (Cons c s)
  show ?case
  proof (cases "take (length p) (c # s) = p")
    case True
    with Cons.prems append_take_drop_id [of "length p" "c # s"] show ?thesis
      by auto
  next
    case False
    with Cons show ?thesis by auto
  qed
qed (auto split: if_splits)

lemma find_sub_None: "find_sub p s = None \<longleftrightarrow> \<not> str_contains s p"
proof (induction s)
  case (Cons c s)
  then show ?case by (auto split: option.splits)
qed auto

text \<open>\<open>matches(..).count()\<close> and \<open>replace\<close>, for a pattern that is not empty.\<close>

function match_count :: "string \<Rightarrow> string \<Rightarrow> nat" where
  "match_count p s =
     (if p = [] then 0
      else case find_sub p s of None \<Rightarrow> 0 | Some (a, b) \<Rightarrow> Suc (match_count p b))"
  by pat_completeness auto
termination
  by (relation "measure (\<lambda>(p, s). length s)") (auto dest!: find_sub_Some [OF sym] find_sub_Some)

function replace_all :: "string \<Rightarrow> string \<Rightarrow> string \<Rightarrow> string" where
  "replace_all p q s =
     (if p = [] then s
      else case find_sub p s of None \<Rightarrow> s | Some (a, b) \<Rightarrow> a @ q @ replace_all p q b)"
  by pat_completeness auto
termination
  by (relation "measure (\<lambda>(p, q, s). length s)") (auto dest!: find_sub_Some [OF sym] find_sub_Some)

declare match_count.simps [simp del] replace_all.simps [simp del]

definition replace_first :: "string \<Rightarrow> string \<Rightarrow> string \<Rightarrow> string" where
  "replace_first p q s = (case find_sub p s of None \<Rightarrow> s | Some (a, b) \<Rightarrow> a @ q @ b)"

text \<open>\<open>is_char_boundary\<close>, and the loop that moves a cut back to one.\<close>

definition is_char_boundary :: "string \<Rightarrow> nat \<Rightarrow> bool" where
  "is_char_boundary s i = (i = 0 \<or> i = length s \<or> i < length s \<and> \<not> is_continuation (s ! i))"

fun floor_boundary :: "string \<Rightarrow> nat \<Rightarrow> nat" where
  "floor_boundary s 0 = 0"
| "floor_boundary s (Suc n) = (if is_char_boundary s (Suc n) then Suc n else floor_boundary s n)"

definition truncate_at :: "nat \<Rightarrow> string \<Rightarrow> string" where
  "truncate_at cap s = (if cap < length s then take (floor_boundary s cap) s else s)"

section \<open>The tools\<close>

definition MAX_READ_BYTES :: nat where
  "MAX_READ_BYTES = 256 * 1024"

record file_read_args =
  fr_path :: string
  fr_max_bytes :: "usize option"

definition file_read_run :: "(string \<Rightarrow> string) \<Rightarrow> file_scope \<Rightarrow> fs \<Rightarrow> string + file_read_args \<Rightarrow> tool_event_stream" where
  "file_read_run os sc F parsed =
     (case parsed of
        Inl msg \<Rightarrow> tool_error_stream msg False
      | Inr args \<Rightarrow>
          (case resolve F sc (fr_path args) of
             Inl e \<Rightarrow> contract_error_stream e
           | Inr p \<Rightarrow>
               (case read_to_string F p of
                  None \<Rightarrow> tool_error_stream (''failed to read '' @ display p @ '': '' @ os ''read'') False
                | Some content \<Rightarrow>
                    let cap = (case fr_max_bytes args of Some n \<Rightarrow> unat n | None \<Rightarrow> MAX_READ_BYTES);
                        body = truncate_at cap content
                    in [Inr (ToolResult (json_obj
                          [(''path'', JStr (display p)), (''content'', JStr body), (''bytes'', JInt (int (length body)))])
                          (cap < length content))])))"

record file_write_args =
  fw_path :: string
  fw_content :: string
  fw_create_dirs :: bool

definition create_parents :: "fs \<Rightarrow> path \<Rightarrow> bool \<Rightarrow> fs option" where
  "create_parents F p create_dirs =
     (if create_dirs
      then (case path_parent p of Some parent \<Rightarrow> make_dirs F [] parent | None \<Rightarrow> Some F)
      else Some F)"

definition file_write_run ::
  "(string \<Rightarrow> string) \<Rightarrow> file_scope \<Rightarrow> string + file_write_args \<Rightarrow> fs \<Rightarrow> tool_event_stream \<times> fs" where
  "file_write_run os sc parsed F =
     (case parsed of
        Inl msg \<Rightarrow> (tool_error_stream msg False, F)
      | Inr args \<Rightarrow>
          (case resolve F sc (fw_path args) of
             Inl e \<Rightarrow> (contract_error_stream e, F)
           | Inr p \<Rightarrow>
               (case create_parents F p (fw_create_dirs args) of
                  None \<Rightarrow>
                    (tool_error_stream (''failed to create parent dirs for '' @ display p @ '': '' @ os ''mkdir'') False, F)
                | Some F1 \<Rightarrow>
                    (case fs_write F1 p (fw_content args) of
                       None \<Rightarrow> (tool_error_stream (''failed to write '' @ display p @ '': '' @ os ''write'') False, F1)
                     | Some F2 \<Rightarrow>
                         (ok_result (json_obj [(''path'', JStr (display p)),
                            (''bytes_written'', JInt (int (length (fw_content args))))]), F2)))))"

record file_edit_args =
  fe_path :: string
  fe_old_string :: string
  fe_new_string :: string
  fe_replace_all :: bool

definition file_edit_run ::
  "(string \<Rightarrow> string) \<Rightarrow> file_scope \<Rightarrow> string + file_edit_args \<Rightarrow> fs \<Rightarrow> tool_event_stream \<times> fs" where
  "file_edit_run os sc parsed F =
     (case parsed of
        Inl msg \<Rightarrow> (tool_error_stream msg False, F)
      | Inr args \<Rightarrow>
          if fe_old_string args = [] then (tool_error_stream ''old_string must not be empty'' False, F)
          else if fe_old_string args = fe_new_string args
          then (tool_error_stream ''old_string and new_string are identical'' False, F)
          else case resolve F sc (fe_path args) of
                 Inl e \<Rightarrow> (contract_error_stream e, F)
               | Inr p \<Rightarrow>
                   (case read_to_string F p of
                      None \<Rightarrow> (tool_error_stream (''failed to read '' @ display p @ '': '' @ os ''read'') False, F)
                    | Some content \<Rightarrow>
                        let occurrences = match_count (fe_old_string args) content
                        in if occurrences = 0
                           then (tool_error_stream (''old_string not found in '' @ display p) False, F)
                           else if 1 < occurrences \<and> \<not> fe_replace_all args
                           then (tool_error_stream (''old_string matches '' @ decimal occurrences @ '' times in '' @
                                   display p @ ''; pass replace_all=true or a more specific old_string'') False, F)
                           else let (updated, replacements) =
                                  (if fe_replace_all args
                                   then (replace_all (fe_old_string args) (fe_new_string args) content, occurrences)
                                   else (replace_first (fe_old_string args) (fe_new_string args) content, 1))
                                in case fs_write F p updated of
                                     None \<Rightarrow> (tool_error_stream (''failed to write '' @ display p @ '': '' @ os ''write'') False, F)
                                   | Some F' \<Rightarrow>
                                       (ok_result (json_obj [(''path'', JStr (display p)),
                                          (''replacements'', JInt (int replacements))]), F')))"

section \<open>Where reads and writes land\<close>

lemma open_target_node: "open_target F n cur p = Some l \<Longrightarrow> F l = None \<or> (\<exists>s. F l = Some (FileNode s))"
  by (induction F n cur p rule: open_target.induct)
    (auto split: option.splits node.splits nat.splits if_splits)

lemma open_target_nonempty: "open_target F n cur p = Some l \<Longrightarrow> l \<noteq> []"
  by (induction F n cur p rule: open_target.induct)
    (auto split: option.splits node.splits nat.splits if_splits)

text \<open>A directory cannot be written to.\<close>

lemma open_target_dir:
  assumes "canonical F l" and "l = [] \<or> F l = Some DirNode"
  shows "open_target F n [] (abs_path l) = None"
proof -
  have "open_target F n cur (map Normal l) = None"
    if "canonical F (cur @ l)" "l = [] \<or> F (cur @ l) = Some DirNode" for cur
    using that
  proof (induction l arbitrary: cur)
    case (Cons c l)
    have "F (cur @ [c]) = Some DirNode"
    proof (cases l)
      case Nil
      with Cons.prems show ?thesis by simp
    next
      case (Cons d l')
      with Cons.prems(1) [unfolded canonical_def, THEN conjunct1, rule_format, of "Suc (length cur)"] show ?thesis
        by simp
    qed
    with Cons.IH [of "cur @ [c]"] Cons.prems show ?case by auto
  qed simp
  from this [of "[]"] assms show ?thesis
    by (simp add: abs_path_def)
qed

text \<open>What was written through a path is found through it again.\<close>

lemma walk_after_write:
  "open_target F n cur p = Some l \<Longrightarrow> walk (F(l \<mapsto> FileNode s)) n cur p = Some l"
proof (induction F n cur p rule: open_target.induct)
  case (5 F n cur c cs)
  have l: "F l = None \<or> (\<exists>s. F l = Some (FileNode s))"
    using open_target_node [OF 5(3)] .
  show ?case
  proof (cases "F (cur @ [c])")
    case None
    with 5 show ?thesis by (auto split: if_splits)
  next
    case (Some nd)
    show ?thesis
    proof (cases nd)
      case (FileNode t)
      with 5 Some show ?thesis by (auto split: if_splits)
    next
      case DirNode
      with Some l have "cur @ [c] \<noteq> l" by auto
      with 5 Some DirNode show ?thesis by simp
    next
      case (LinkNode t)
      with Some l have "cur @ [c] \<noteq> l" by auto
      with 5 Some LinkNode show ?thesis by (cases n) auto
    qed
  qed
qed auto

lemma walk_overwrite:
  "walk F n cur p = Some l \<Longrightarrow> F l = Some (FileNode t) \<Longrightarrow> walk (F(l \<mapsto> FileNode s)) n cur p = Some l"
proof (induction F n cur p rule: walk.induct)
  case (5 F n cur c cs)
  then show ?case
    by (cases "cur @ [c] = l") (auto split: option.splits node.splits nat.splits if_splits)
qed auto

lemma open_target_self:
  assumes "canonical F (cur @ l)" and "F (cur @ l) = Some (FileNode s)" and "l \<noteq> []"
  shows "open_target F n cur (map Normal l) = Some (cur @ l)"
  using assms
proof (induction l arbitrary: cur)
  case (Cons c l)
  show ?case
  proof (cases l)
    case Nil
    with Cons.prems show ?thesis by simp
  next
    case (Cons d l')
    then have "F (cur @ [c]) = Some DirNode"
      using Cons.prems(1) [unfolded canonical_def, THEN conjunct1, rule_format, of "Suc (length cur)"]
      by simp
    with Cons Cons.IH [of "cur @ [c]"] Cons.prems show ?thesis by simp
  qed
qed simp

lemma make_dirs_self:
  "(\<And>k. 0 < k \<Longrightarrow> k \<le> length l \<Longrightarrow> F (cur @ take k l) = Some DirNode) \<Longrightarrow> make_dirs F cur (map Normal l) = Some F"
proof (induction l arbitrary: cur)
  case (Cons c l)
  have "F (cur @ [c]) = Some DirNode"
    using Cons.prems [of 1] by simp
  moreover have "make_dirs F (cur @ [c]) (map Normal l) = Some F"
    by (rule Cons.IH) (use Cons.prems [of "Suc _"] in simp)
  ultimately show ?case by simp
qed simp

lemma make_dirs_canonical:
  assumes "canonical F l" and "l \<noteq> []"
  shows "make_dirs F [] (abs_path (butlast l)) = Some F"
proof -
  have "make_dirs F [] (map Normal (butlast l)) = Some F"
    by (rule make_dirs_self) (use assms in \<open>auto simp: canonical_def take_butlast\<close>)
  then show ?thesis by (simp add: abs_path_def)
qed

lemma read_to_string_Some:
  "read_to_string F p = Some s \<longleftrightarrow> (\<exists>l. canonicalize F p = Some l \<and> l \<noteq> [] \<and> F l = Some (FileNode s) \<and> valid_utf8 s)"
  by (auto simp: read_to_string_def split: option.splits node.splits if_splits)

text \<open>A file that is read through an accepted path: its location is that path, inside the root.\<close>

lemma resolved_file:
  assumes "resolve F sc raw = Inr p" and "read_to_string F p = Some s"
  shows "\<exists>l. p = abs_path l \<and> l \<noteq> [] \<and> canonical F l \<and> F l = Some (FileNode s) \<and>
    starts_with (abs_path l) (fsc_root sc)"
proof -
  from assms(2) obtain l where l: "canonicalize F p = Some l" "F l = Some (FileNode s)" "l \<noteq> []"
    by (auto simp: read_to_string_Some)
  let ?n = "normalize (if is_absolute (path_of raw) then path_of raw else path_join (fsc_root sc) (path_of raw))"
  from assms(1) obtain l' where l': "p = abs_path l'" "canonicalize F ?n = Some l'"
      "starts_with (abs_path l') (fsc_root sc)"
    using l(1) by (auto simp: resolve_def Let_def path_exists_def split: if_splits option.splits)
  have c: "canonical F l'"
    using l'(2) by (rule canonicalize_canonical)
  then have "l' = l"
    using canonicalize_self [OF c] l(1) l'(1) by simp
  then show ?thesis
    using c l l' by blast
qed

section \<open>Cuts\<close>

lemma floor_boundary:
  "n \<le> length s \<Longrightarrow> floor_boundary s n \<le> n \<and> is_char_boundary s (floor_boundary s n) \<and>
     (\<forall>k. floor_boundary s n < k \<longrightarrow> k \<le> n \<longrightarrow> \<not> is_char_boundary s k)"
proof (induction n)
  case 0
  show ?case by (simp add: is_char_boundary_def)
next
  case (Suc n)
  then show ?case by (auto simp: le_Suc_eq)
qed

lemma truncate_at_spec:
  "\<exists>rest. s = truncate_at cap s @ rest \<and> length (truncate_at cap s) \<le> cap \<and>
     is_char_boundary s (length (truncate_at cap s)) \<and> (length s \<le> cap \<longrightarrow> rest = [])"
proof (cases "cap < length s")
  case True
  let ?k = "floor_boundary s cap"
  have "length (take ?k s) = ?k"
    using floor_boundary [of cap s] True by simp
  then show ?thesis
    using True floor_boundary [of cap s]
    by (intro exI [of _ "drop ?k s"]) (simp add: truncate_at_def)
qed (simp add: truncate_at_def is_char_boundary_def)

section \<open>Occurrences\<close>

lemma match_count_0: "p \<noteq> [] \<Longrightarrow> match_count p s = 0 \<longleftrightarrow> \<not> str_contains s p"
  by (subst match_count.simps) (auto simp: find_sub_None [symmetric] split: option.splits prod.splits)

text \<open>\<open>replace\<close> cuts the text at the occurrences that \<open>matches\<close> counts and joins the parts with the
  new string.\<close>

lemma replace_all_join:
  "p \<noteq> [] \<Longrightarrow> \<exists>parts. length parts = Suc (match_count p s) \<and> s = str_join p parts \<and>
     replace_all p q s = str_join q parts"
proof (induction p s rule: match_count.induct)
  case (1 p s)
  show ?case
  proof (cases "find_sub p s")
    case None
    then have "match_count p s = 0" "replace_all p q s = s"
      by (subst match_count.simps replace_all.simps; simp)+
    then show ?thesis by (intro exI [of _ "[s]"]) simp
  next
    case (Some ab)
    then obtain a b where ab: "find_sub p s = Some (a, b)" by (cases ab) auto
    from 1(1) [OF 1(2) ab] 1(2) obtain parts where parts: "length parts = Suc (match_count p b)"
      "b = str_join p parts" "replace_all p q b = str_join q parts"
      by blast
    have join: "str_join u (a # parts) = a @ u @ str_join u parts" for u
      using parts(1) by (cases parts) simp_all
    have "match_count p s = Suc (match_count p b)" "replace_all p q s = a @ q @ replace_all p q b"
      using 1(2) ab by (subst match_count.simps replace_all.simps; simp)+
    then show ?thesis
      using parts find_sub_Some [OF ab] by (intro exI [of _ "a # parts"]) (simp add: join)
  qed
qed

lemma replace_first_unique:
  assumes "p \<noteq> []" and "match_count p s = 1"
  shows "\<exists>a b. s = a @ p @ b \<and> replace_first p q s = a @ q @ b \<and> \<not> str_contains b p"
proof -
  from assms obtain a b where ab: "find_sub p s = Some (a, b)" "match_count p b = 0"
    by (subst (asm) match_count.simps) (auto split: option.splits prod.splits)
  with find_sub_Some [OF ab(1)] match_count_0 [OF assms(1), of b] show ?thesis
    by (auto simp: replace_first_def)
qed

section \<open>Properties\<close>

lemmas demo_eval = resolve_eval demo_scope_root demo_fs_def read_to_string_def display_def byte_def Let_def

text \<open>\<open>file_read\<close> returns the file, or its longest readable beginning, and only of a file inside the
  root. A result is the beginning of a file whose real location is under the root; it fits the
  cap, ends between characters, is marked as truncated exactly when the file is larger than the
  cap, and is the whole file otherwise.\<close>

theorem file_read_result:
  assumes "file_read_run os sc F (Inr args) = [Inr (ToolResult out truncated)]"
    and "cap = (case fr_max_bytes args of Some n \<Rightarrow> unat n | None \<Rightarrow> MAX_READ_BYTES)"
  shows "\<exists>l s body rest. F l = Some (FileNode s) \<and> starts_with (abs_path l) (fsc_root sc) \<and>
    json_get out ''content'' = Some (JStr body) \<and> s = body @ rest \<and> length body \<le> cap \<and>
    is_char_boundary s (length body) \<and> truncated = (cap < length s) \<and> (\<not> truncated \<longrightarrow> body = s)"
proof -
  from assms obtain p s where p: "resolve F sc (fr_path args) = Inr p" "read_to_string F p = Some s"
    and out: "out = json_obj [(''path'', JStr (display p)), (''content'', JStr (truncate_at cap s)),
        (''bytes'', JInt (int (length (truncate_at cap s))))]" "truncated = (cap < length s)"
    by (auto simp: file_read_run_def tool_error_stream_def contract_error_stream_def Let_def
        split: sum.splits option.splits)
  from resolved_file [OF p] truncate_at_spec [of s cap] obtain l rest where
    "F l = Some (FileNode s)" "starts_with (abs_path l) (fsc_root sc)"
    "s = truncate_at cap s @ rest" "length (truncate_at cap s) \<le> cap"
    "is_char_boundary s (length (truncate_at cap s))" "length s \<le> cap \<longrightarrow> rest = []"
    by blast
  with out show ?thesis
    by (intro exI [of _ l] exI [of _ s] exI [of _ "truncate_at cap s"] exI [of _ rest])
      (auto simp: json_obj_def)
qed

text \<open>C23: an edit changes one file, inside the root, and only the occurrences it reports. When an edit
  succeeds, the file system differs at one location under the root; its text was parts joined by
  the old string and is now the same parts joined by the new one, with as many joints as the
  result reports; without \<open>replace_all\<close> that is one, and the old string did not occur elsewhere.\<close>

theorem file_edit_result:
  assumes "file_edit_run os sc (Inr args) F = ([Inr (ToolResult out tr)], F')"
  shows "\<exists>l s s' parts. F l = Some (FileNode s) \<and> F' = F(l \<mapsto> FileNode s') \<and>
    starts_with (abs_path l) (fsc_root sc) \<and> s = str_join (fe_old_string args) parts \<and>
    s' = str_join (fe_new_string args) parts \<and>
    json_get out ''replacements'' = Some (JInt (int (length parts) - 1)) \<and> 2 \<le> length parts \<and>
    (\<not> fe_replace_all args \<longrightarrow> length parts = 2 \<and> \<not> str_contains (parts ! 1) (fe_old_string args))"
proof -
  let ?old = "fe_old_string args" and ?new = "fe_new_string args"
  from assms obtain p s where p: "resolve F sc (fe_path args) = Inr p" "read_to_string F p = Some s"
    and old: "?old \<noteq> []"
    and cnt: "match_count ?old s \<noteq> 0" "1 < match_count ?old s \<longrightarrow> fe_replace_all args"
    and upd: "fs_write F p (if fe_replace_all args then replace_all ?old ?new s else replace_first ?old ?new s) = Some F'"
    and out: "out = json_obj [(''path'', JStr (display p)),
        (''replacements'', JInt (int (if fe_replace_all args then match_count ?old s else 1)))]"
    by (auto simp: file_edit_run_def tool_error_stream_def contract_error_stream_def ok_result_def Let_def
        split: sum.splits option.splits if_splits)
  from resolved_file [OF p] obtain l where l: "p = abs_path l" "l \<noteq> []" "canonical F l" "F l = Some (FileNode s)"
      "starts_with (abs_path l) (fsc_root sc)"
    by blast
  have "open_target F MAX_SYMLINKS [] p = Some l"
    using open_target_self [of F "[]" l s] l by (simp add: abs_path_def)
  with upd have F': "F' = F(l \<mapsto> FileNode (if fe_replace_all args then replace_all ?old ?new s else replace_first ?old ?new s))"
    by (simp add: fs_write_def)
  show ?thesis
  proof (cases "fe_replace_all args")
    case True
    from replace_all_join [OF old, of s ?new] obtain parts where "length parts = Suc (match_count ?old s)"
      "s = str_join ?old parts" "replace_all ?old ?new s = str_join ?new parts"
      by blast
    with True F' l cnt out show ?thesis
      by (intro exI [of _ l] exI [of _ s] exI [of _ "replace_all ?old ?new s"] exI [of _ parts])
        (auto simp: json_obj_def)
  next
    case False
    with cnt have one: "match_count ?old s = 1" by simp
    from replace_first_unique [OF old one, of ?new] obtain a b where
      "s = a @ ?old @ b" "replace_first ?old ?new s = a @ ?new @ b" "\<not> str_contains b ?old"
      by blast
    with False F' l out show ?thesis
      by (intro exI [of _ l] exI [of _ s] exI [of _ "replace_first ?old ?new s"] exI [of _ "[a, b]"])
        (auto simp: json_obj_def)
  qed
qed

text \<open>What is written reads back. After a successful \<open>file_write\<close> of text that fits the read cap, a
  \<open>file_read\<close> of the same path returns that text, or is refused as a sandbox violation because the
  write went outside the root.\<close>

theorem written_file_reads_back:
  assumes "file_write_run os sc (Inr args) F = ([Inr (ToolResult out tr)], F')"
    and "valid_utf8 (fw_content args)" and "length (fw_content args) \<le> MAX_READ_BYTES"
  shows "file_read_run os sc F' (Inr \<lparr>fr_path = fw_path args, fr_max_bytes = None\<rparr>) =
      contract_error_stream (ToolErr SandboxViolation) \<or>
    (\<exists>out'. file_read_run os sc F' (Inr \<lparr>fr_path = fw_path args, fr_max_bytes = None\<rparr>) =
       [Inr (ToolResult out' False)] \<and> json_get out' ''content'' = Some (JStr (fw_content args)))"
proof -
  let ?s = "fw_content args"
  let ?n = "normalize (if is_absolute (path_of (fw_path args)) then path_of (fw_path args)
      else path_join (fsc_root sc) (path_of (fw_path args)))"
  from assms(1) obtain p F1 where p: "resolve F sc (fw_path args) = Inr p"
    and F1': "create_parents F p (fw_create_dirs args) = Some F1"
    and w: "fs_write F1 p ?s = Some F'"
    by (auto simp: file_write_run_def tool_error_stream_def contract_error_stream_def ok_result_def
        split: sum.splits option.splits)
  from F1' have F1: "F1 = F \<or> (\<exists>parent. path_parent p = Some parent \<and> make_dirs F [] parent = Some F1)"
    by (auto simp: create_parents_def split: if_splits option.splits)
  from w obtain l where l: "open_target F1 MAX_SYMLINKS [] p = Some l" "F' = F1(l \<mapsto> FileNode ?s)"
    by (auto simp: fs_write_def)
  have here: "starts_with ?n (fsc_root sc)"
    using p by (auto simp: resolve_def Let_def split: if_splits)
  have "canonicalize F' ?n = Some l"
  proof (cases "canonicalize F ?n")
    case None
    then have "p = ?n"
      using p by (auto simp: resolve_def Let_def path_exists_def split: if_splits)
    with walk_after_write [OF l(1), of ?s] l(2) show ?thesis
      by (simp add: canonicalize_def)
  next
    case (Some l')
    then have pl: "p = abs_path l'"
      using p by (auto simp: resolve_def Let_def path_exists_def split: if_splits)
    have c: "canonical F l'"
      using Some by (rule canonicalize_canonical)
    have "F1 = F"
    proof (cases "l' = []")
      case True
      with F1 pl show ?thesis by (auto simp: path_parent_def abs_path_def)
    next
      case False
      then have "path_parent p = Some (abs_path (butlast l'))"
        by (simp add: pl path_parent_def abs_path_def map_butlast)
      with F1 make_dirs_canonical [OF c False] show ?thesis by auto
    qed
    moreover have "l' \<noteq> [] \<and> (\<exists>t. F l' = Some (FileNode t))"
      using l(1) c \<open>F1 = F\<close> open_target_dir [of F l' MAX_SYMLINKS] by (auto simp: pl canonical_def)
    then obtain t where t: "l' \<noteq> []" "F l' = Some (FileNode t)"
      by blast
    have "l = l'"
      using open_target_self [of F "[]" l' t] c t l(1) \<open>F1 = F\<close> by (simp add: pl abs_path_def)
    ultimately show ?thesis
      using walk_overwrite [of F MAX_SYMLINKS "[]" ?n l' t ?s] Some t l(2) by (simp add: canonicalize_def)
  qed
  then have can: "canonicalize F' ?n = Some l" "canonical F' l"
    by (simp_all add: canonicalize_canonical)
  have "l \<noteq> []"
    using open_target_nonempty [OF l(1)] .
  with can l(2) assms(2) have "read_to_string F' (abs_path l) = Some ?s"
    by (simp add: read_to_string_def canonicalize_self)
  moreover have "resolve F' sc (fw_path args) =
      (if starts_with (abs_path l) (fsc_root sc) then Inr (abs_path l) else Inl (ToolErr SandboxViolation))"
    using here can(1) by (simp add: resolve_def Let_def path_exists_def)
  ultimately show ?thesis
    using assms(3) by (auto simp: file_read_run_def truncate_at_def json_obj_def Let_def)
qed


theorem file_read_result_witness:
  "\<exists>l s body rest. demo_fs l = Some (FileNode s) \<and> starts_with (abs_path l) (fsc_root demo_scope) \<and>
    json_get (json_obj [(''path'', JStr ''/w/a''), (''content'', JStr ''hel''), (''bytes'', JInt 3)]) ''content'' =
      Some (JStr body) \<and> s = body @ rest \<and> length body \<le> 3 \<and>
    is_char_boundary s (length body) \<and> True = (3 < length s) \<and> (\<not> True \<longrightarrow> body = s)"
proof -
  have "resolve demo_fs demo_scope ''a'' = Inr (abs_path [''w'', ''a''])"
    "read_to_string demo_fs (abs_path [''w'', ''a'']) = Some ''hello''"
    "display (abs_path [''w'', ''a'']) = ''/w/a''" "truncate_at 3 ''hello'' = ''hel''"
    by (simp_all add: demo_eval truncate_at_def is_char_boundary_def is_continuation_def)
  then have "file_read_run (\<lambda>_. []) demo_scope demo_fs (Inr \<lparr>fr_path = ''a'', fr_max_bytes = Some 3\<rparr>) =
      [Inr (ToolResult (json_obj [(''path'', JStr ''/w/a''), (''content'', JStr ''hel''), (''bytes'', JInt 3)]) True)]"
    by (simp add: file_read_run_def Let_def)
  from file_read_result [OF this, of 3] show ?thesis by simp
qed

theorem file_edit_result_witness:
  "\<exists>l s s' parts. demo_fs l = Some (FileNode s) \<and>
    demo_fs([''w'', ''a''] \<mapsto> FileNode ''heLLo'') = demo_fs(l \<mapsto> FileNode s') \<and>
    starts_with (abs_path l) (fsc_root demo_scope) \<and> s = str_join ''l'' parts \<and> s' = str_join ''L'' parts \<and>
    json_get (json_obj [(''path'', JStr ''/w/a''), (''replacements'', JInt 2)]) ''replacements'' =
      Some (JInt (int (length parts) - 1)) \<and> 2 \<le> length parts \<and>
    (\<not> True \<longrightarrow> length parts = 2 \<and> \<not> str_contains (parts ! 1) ''l'')"
proof -
  have "match_count ''l'' ''hello'' = 2" "replace_all ''l'' ''L'' ''hello'' = ''heLLo''"
    by (simp_all add: match_count.simps replace_all.simps)
  then have "file_edit_run (\<lambda>_. []) demo_scope
      (Inr \<lparr>fe_path = ''a'', fe_old_string = ''l'', fe_new_string = ''L'', fe_replace_all = True\<rparr>) demo_fs =
      ([Inr (ToolResult (json_obj [(''path'', JStr ''/w/a''), (''replacements'', JInt 2)]) False)],
       demo_fs([''w'', ''a''] \<mapsto> FileNode ''heLLo''))"
    by (simp add: file_edit_run_def demo_eval fs_write_def ok_result_def)
  from file_edit_result [OF this] show ?thesis by simp
qed

theorem written_file_reads_back_witness:
  "let os = (\<lambda>_. []); F' = demo_fs([''w'', ''b''] \<mapsto> FileNode ''new''); r = Inr \<lparr>fr_path = ''b'', fr_max_bytes = None\<rparr>
   in file_read_run os demo_scope F' r = contract_error_stream (ToolErr SandboxViolation) \<or>
      (\<exists>out'. file_read_run os demo_scope F' r = [Inr (ToolResult out' False)] \<and>
         json_get out' ''content'' = Some (JStr ''new''))"
proof -
  have w: "file_write_run (\<lambda>_. []) demo_scope (Inr \<lparr>fw_path = ''b'', fw_content = ''new'', fw_create_dirs = True\<rparr>) demo_fs =
      ([Inr (ToolResult (json_obj [(''path'', JStr ''/w/b''), (''bytes_written'', JInt 3)]) False)],
       demo_fs([''w'', ''b''] \<mapsto> FileNode ''new''))"
    by (simp add: file_write_run_def create_parents_def path_parent_def demo_eval fs_write_def ok_result_def)
  from written_file_reads_back [OF w] show ?thesis
    by (simp add: byte_def MAX_READ_BYTES_def)
qed

text \<open>A new file can be written outside the root. With a symbolic link in the root that leads to a
  directory outside, \<open>file_write\<close> of a name that does not exist yet below the link is accepted and
  creates the file in the directory outside: only paths that already exist are canonicalized.\<close>

theorem new_file_escapes_through_link:
  "file_write_run os demo_scope (Inr \<lparr>fw_path = ''out/new'', fw_content = s, fw_create_dirs = True\<rparr>) demo_fs =
     (ok_result (json_obj [(''path'', JStr ''/w/out/new''), (''bytes_written'', JInt (int (length s)))]),
      demo_fs([''etc'', ''new''] \<mapsto> FileNode s)) \<and>
   \<not> starts_with (abs_path [''etc'', ''new'']) (fsc_root demo_scope)"
  by (simp add: file_write_run_def create_parents_def path_parent_def demo_eval fs_write_def)

end
