(* ===== verification/File_Search.thy ===== *)
theory File_Search
  imports File_Tools
begin

text \<open>
  \<open>file_search\<close> and \<open>search_tree\<close> of \<open>crates/mahi-tooling/src/tools/file.rs\<close>: a bounded walk of the
  directory tree that matches a query against file names and lines.

  The order in which a directory lists its names is the file system's: the parameter \<open>ls\<close>. File
  names are UTF-8, so \<open>to_string_lossy\<close> is the name. The stack is kept top first.
\<close>

section \<open>The walk\<close>

definition MAX_SEARCH_FILE_BYTES :: nat where
  "MAX_SEARCH_FILE_BYTES = 1024 * 1024"

definition MAX_SEARCH_VISITED :: nat where
  "MAX_SEARCH_VISITED = 10000"

record search_state =
  ss_matches :: "json list"
  ss_stack :: "path list"
  ss_visited :: nat

definition search_match :: "path \<Rightarrow> nat option \<Rightarrow> string option \<Rightarrow> json" where
  "search_match p line preview =
     json_obj [(''path'', JStr (display p)),
       (''line'', case line of Some n \<Rightarrow> JInt (int n) | None \<Rightarrow> JNull),
       (''text'', case preview of Some t \<Rightarrow> JStr t | None \<Rightarrow> JNull)]"

text \<open>In the loops, \<open>Inl\<close> is the early return of the matches so far.\<close>

fun scan_lines :: "string \<Rightarrow> nat \<Rightarrow> path \<Rightarrow> nat \<Rightarrow> string list \<Rightarrow> json list \<Rightarrow> json list + json list" where
  "scan_lines query max_results p idx [] found = Inr found"
| "scan_lines query max_results p idx (line # lines) found =
     (if str_contains line query
      then let found' = found @ [search_match p (Some (idx + 1)) (Some (take_chars 200 line))]
           in if max_results \<le> length found' then Inl found'
              else scan_lines query max_results p (Suc idx) lines found'
      else scan_lines query max_results p (Suc idx) lines found)"

definition scan_entry ::
  "fs \<Rightarrow> string \<Rightarrow> nat \<Rightarrow> path \<Rightarrow> string list \<Rightarrow> string \<Rightarrow> search_state \<Rightarrow> json list + search_state" where
  "scan_entry F query max_results dir l name st =
     (if max_results \<le> length (ss_matches st) \<or> MAX_SEARCH_VISITED \<le> ss_visited st then Inl (ss_matches st)
      else let st = st\<lparr>ss_visited := ss_visited st + 1\<rparr>; p = dir @ [Normal name]
           in case F (l @ [name]) of
                None \<Rightarrow> Inr st
              | Some (LinkNode t) \<Rightarrow> Inr st
              | Some DirNode \<Rightarrow> Inr (st\<lparr>ss_stack := p # ss_stack st\<rparr>)
              | Some (FileNode s) \<Rightarrow>
                  let named = str_contains name query;
                      found = ss_matches st @ (if named then [search_match p None None] else [])
                  in if named \<and> max_results \<le> length found then Inl found
                     else if \<not> length s \<le> MAX_SEARCH_FILE_BYTES then Inr (st\<lparr>ss_matches := found\<rparr>)
                     else case read_to_string F p of
                            None \<Rightarrow> Inr (st\<lparr>ss_matches := found\<rparr>)
                          | Some content \<Rightarrow>
                              (case scan_lines query max_results p 0 (str_lines content) found of
                                 Inl found' \<Rightarrow> Inl found'
                               | Inr found' \<Rightarrow> Inr (st\<lparr>ss_matches := found'\<rparr>)))"

fun scan_entries ::
  "fs \<Rightarrow> string \<Rightarrow> nat \<Rightarrow> path \<Rightarrow> string list \<Rightarrow> string list \<Rightarrow> search_state \<Rightarrow> json list + search_state" where
  "scan_entries F query max_results dir l [] st = Inr st"
| "scan_entries F query max_results dir l (name # names) st =
     (case scan_entry F query max_results dir l name st of
        Inl found \<Rightarrow> Inl found
      | Inr st' \<Rightarrow> scan_entries F query max_results dir l names st')"

definition read_dir :: "(string list \<Rightarrow> string list) \<Rightarrow> fs \<Rightarrow> path \<Rightarrow> (string list \<times> string list) option" where
  "read_dir ls F dir =
     (case canonicalize F dir of
        Some l \<Rightarrow> if l = [] \<or> F l = Some DirNode then Some (l, ls l) else None
      | None \<Rightarrow> None)"

text \<open>Every directory pushed has been visited, and at most \<open>MAX_SEARCH_VISITED\<close> entries are: the
  stack and the visits left shrink together.\<close>

definition search_fuel :: "search_state \<Rightarrow> nat" where
  "search_fuel st = length (ss_stack st) + (MAX_SEARCH_VISITED - ss_visited st)"

lemma scan_entry_fuel: "scan_entry F q mx dir l c st = Inr st' \<Longrightarrow> search_fuel st' \<le> search_fuel st"
  by (auto simp: scan_entry_def search_fuel_def Let_def
      split: if_splits option.splits node.splits sum.splits)

lemma scan_entries_fuel: "scan_entries F q mx dir l cs st = Inr st' \<Longrightarrow> search_fuel st' \<le> search_fuel st"
proof (induction cs arbitrary: st)
  case (Cons c cs)
  then show ?case
    by (auto split: sum.splits dest!: scan_entry_fuel intro: order_trans)
qed simp

function tree_loop ::
  "(string list \<Rightarrow> string list) \<Rightarrow> fs \<Rightarrow> string \<Rightarrow> nat \<Rightarrow> search_state \<Rightarrow> json list \<times> bool" where
  "tree_loop ls F query max_results st =
     (case ss_stack st of
        [] \<Rightarrow> (ss_matches st, False)
      | dir # stack \<Rightarrow>
          (case read_dir ls F dir of
             None \<Rightarrow> tree_loop ls F query max_results (st\<lparr>ss_stack := stack\<rparr>)
           | Some (l, names) \<Rightarrow>
               (case scan_entries F query max_results dir l names (st\<lparr>ss_stack := stack\<rparr>) of
                  Inl found \<Rightarrow> (found, True)
                | Inr st' \<Rightarrow> tree_loop ls F query max_results st')))"
  by pat_completeness auto
termination
  by (relation "measure (\<lambda>(ls, F, q, mx, st). search_fuel st)")
    (auto dest!: scan_entries_fuel simp: search_fuel_def)

declare tree_loop.simps [simp del]

definition search_tree ::
  "(string list \<Rightarrow> string list) \<Rightarrow> fs \<Rightarrow> path \<Rightarrow> string \<Rightarrow> nat \<Rightarrow> json list \<times> bool" where
  "search_tree ls F start query max_results =
     tree_loop ls F query max_results \<lparr>ss_matches = [], ss_stack = [start], ss_visited = 0\<rparr>"

record file_search_args =
  fq_query :: string
  fq_path :: "string option"
  fq_max_results :: "usize option"

text \<open>The blocking task that runs the walk does not panic, so joining it succeeds.\<close>

definition file_search_run ::
  "(string list \<Rightarrow> string list) \<Rightarrow> file_scope \<Rightarrow> fs \<Rightarrow> string + file_search_args \<Rightarrow> tool_event_stream" where
  "file_search_run ls sc F parsed =
     (case parsed of
        Inl msg \<Rightarrow> tool_error_stream msg False
      | Inr args \<Rightarrow>
          if fq_query args = [] then tool_error_stream ''query must not be empty'' False
          else case (case fq_path args of Some p \<Rightarrow> resolve F sc p | None \<Rightarrow> Inr (fsc_root sc)) of
                 Inl e \<Rightarrow> contract_error_stream e
               | Inr start \<Rightarrow>
                   let max_results = max (case fq_max_results args of Some n \<Rightarrow> unat n | None \<Rightarrow> 50) 1;
                       (found, truncated) = search_tree ls F start (fq_query args) max_results
                   in [Inr (ToolResult (json_obj [(''matches'', JArr found)]) truncated)])"

section \<open>What a file contributes\<close>

definition line_hits :: "string \<Rightarrow> path \<Rightarrow> nat \<Rightarrow> string list \<Rightarrow> json list" where
  "line_hits query p idx lines =
     map (\<lambda>(i, line). search_match p (Some (i + 1)) (Some (take_chars 200 line)))
       (filter (\<lambda>(i, line). str_contains line query) (enumerate idx lines))"

definition file_hits :: "string \<Rightarrow> path \<Rightarrow> string \<Rightarrow> string \<Rightarrow> json list" where
  "file_hits query p name s =
     (if str_contains name query then [search_match p None None] else []) @
     (if length s \<le> MAX_SEARCH_FILE_BYTES \<and> valid_utf8 s then line_hits query p 0 (str_lines s) else [])"

text \<open>Appending hits stops at the limit.\<close>

definition capped :: "nat \<Rightarrow> (json list \<Rightarrow> 'a) \<Rightarrow> json list \<Rightarrow> json list + 'a" where
  "capped mx f found = (if mx \<le> length found then Inl (take mx found) else Inr (f found))"

lemma scan_lines_hits:
  "length found < mx \<Longrightarrow> scan_lines q mx p i ls found = capped mx (\<lambda>x. x) (found @ line_hits q p i ls)"
proof (induction ls arbitrary: i found)
  case (Cons l ls)
  show ?case
  proof (cases "str_contains l q \<and> mx \<le> Suc (length found)")
    case True
    with Cons.prems have "mx = Suc (length found)" by simp
    with True show ?thesis
      by (simp add: capped_def line_hits_def Let_def)
  next
    case False
    with Cons.prems Cons.IH [of found "Suc i"] Cons.IH [of "found @ _" "Suc i"] show ?thesis
      by (auto simp: line_hits_def Let_def)
  qed
qed (simp add: capped_def line_hits_def)

lemma scan_entry_file:
  assumes "length (ss_matches st) < mx" and "ss_visited st < MAX_SEARCH_VISITED"
    and "F (l @ [c]) = Some (FileNode s)" and "canonicalize F (dir @ [Normal c]) = Some (l @ [c])"
  shows "scan_entry F q mx dir l c st =
    capped mx (\<lambda>x. st\<lparr>ss_visited := ss_visited st + 1, ss_matches := x\<rparr>)
      (ss_matches st @ file_hits q (dir @ [Normal c]) c s)"
proof -
  have "read_to_string F (dir @ [Normal c]) = (if valid_utf8 s then Some s else None)"
    using assms(3,4) by (simp add: read_to_string_def)
  moreover have "str_contains c q \<Longrightarrow> mx \<le> Suc (length (ss_matches st)) \<Longrightarrow> mx = Suc (length (ss_matches st))"
    using assms(1) by simp
  ultimately show ?thesis
    using assms(1-3)
    by (auto simp: scan_entry_def file_hits_def Let_def scan_lines_hits capped_def take_Cons')
qed


section \<open>What the tree contains\<close>

text \<open>A walk that ends in a directory goes on from there.\<close>

lemma walk_append:
  "walk F n cur p = Some l \<Longrightarrow> F l = Some DirNode \<or> l = [] \<Longrightarrow> \<exists>m. walk F n cur (p @ q) = walk F m l q"
proof (induction F n cur p rule: walk.induct)
  case (5 F n cur c cs)
  then show ?case
    by (fastforce split: option.splits node.splits nat.splits if_splits)
qed auto

lemma walk_dirs: "dirs_to F (l @ r) \<Longrightarrow> walk F m l (map Normal r @ q) = walk F m (l @ r) q"
proof (induction r arbitrary: l)
  case (Cons d r)
  from Cons.prems have "F (l @ [d]) = Some DirNode"
    unfolding dirs_to_def by (elim allE [of _ "Suc (length l)"]) simp
  with Cons.IH [of "l @ [d]"] Cons.prems show ?case by simp
qed simp

definition file_at :: "fs \<Rightarrow> string list \<Rightarrow> string list \<Rightarrow> string \<Rightarrow> bool" where
  "file_at F l0 t s \<longleftrightarrow> t \<noteq> [] \<and> dirs_to F (l0 @ butlast t) \<and> F (l0 @ t) = Some (FileNode s)"

definition tree_hits :: "fs \<Rightarrow> path \<Rightarrow> string list \<Rightarrow> string \<Rightarrow> json set" where
  "tree_hits F start l0 query =
     {m. \<exists>t s. file_at F l0 t s \<and> m \<in> set (file_hits query (start @ map Normal t) (last t) s)}"


text \<open>The walk is at a directory below the start, and every file below the start has been reported,
  or is below a directory still to be searched, or below one of the names \<open>cs\<close> of the directory \<open>rd\<close>.\<close>

definition search_inv ::
  "fs \<Rightarrow> path \<Rightarrow> string list \<Rightarrow> string \<Rightarrow> nat \<Rightarrow> string list \<Rightarrow> string list \<Rightarrow> search_state \<Rightarrow> bool" where
  "search_inv F start l0 q mx rd cs st \<longleftrightarrow>
     length (ss_matches st) < mx \<and> set (ss_matches st) \<subseteq> tree_hits F start l0 q \<and>
     (\<forall>d\<in>set (ss_stack st). \<exists>r. d = start @ map Normal r \<and> dirs_to F (l0 @ r)) \<and>
     (\<forall>t s. file_at F l0 t s \<longrightarrow>
        set (file_hits q (start @ map Normal t) (last t) s) \<subseteq> set (ss_matches st) \<or>
        (\<exists>r u. t = r @ u \<and> u \<noteq> [] \<and> start @ map Normal r \<in> set (ss_stack st)) \<or>
        (\<exists>c u. c \<in> set cs \<and> t = rd @ c # u))"

lemma canonicalize_below:
  assumes "canonicalize F start = Some l0" and "dirs_to F (l0 @ r)"
  shows "canonicalize F (start @ map Normal r) = Some (l0 @ r)"
    and "F (l0 @ r @ [c]) = Some (FileNode s) \<Longrightarrow> canonicalize F (start @ map Normal r @ [Normal c]) = Some (l0 @ r @ [c])"
proof -
  have "F l0 = Some DirNode \<or> l0 = []"
    using assms(2) unfolding dirs_to_def by (elim allE [of _ "length l0"]) auto
  then have *: "\<exists>m. canonicalize F (start @ map Normal r @ q) = walk F m (l0 @ r) q" for q
    using walk_append [of F MAX_SYMLINKS "[]" start l0 "map Normal r @ q"] assms
    by (auto simp: canonicalize_def walk_dirs)
  show "canonicalize F (start @ map Normal r) = Some (l0 @ r)"
    using * [of "[]"] by auto
  show "canonicalize F (start @ map Normal r @ [Normal c]) = Some (l0 @ r @ [c])"
    if "F (l0 @ r @ [c]) = Some (FileNode s)"
    using * [of "[Normal c]"] that by auto
qed

lemma below_dir:
  assumes "file_at F l0 (rd @ c # u) s" and "u \<noteq> []"
  shows "F (l0 @ rd @ [c]) = Some DirNode"
  using assms unfolding file_at_def dirs_to_def
  by (elim conjE allE [of _ "length l0 + length rd + 1"]) (cases u, auto simp: butlast_append)

lemma search_inv_covers:
  "search_inv F start l0 q mx rd cs st \<Longrightarrow> file_at F l0 t s \<Longrightarrow>
     set (file_hits q (start @ map Normal t) (last t) s) \<subseteq> set (ss_matches st) \<or>
     (\<exists>r u. t = r @ u \<and> u \<noteq> [] \<and> start @ map Normal r \<in> set (ss_stack st)) \<or>
     (\<exists>c u. c \<in> set cs \<and> t = rd @ c # u)"
  by (simp add: search_inv_def)

lemma search_inv_step:
  assumes inv: "search_inv F start l0 q mx rd (c # cs) st"
    and "length (ss_matches st') < mx" and found: "set (ss_matches st') \<subseteq> tree_hits F start l0 q"
    and stack: "\<And>d. d \<in> set (ss_stack st') \<Longrightarrow>
      d \<in> set (ss_stack st) \<or> (\<exists>r. d = start @ map Normal r \<and> dirs_to F (l0 @ r))"
    and mono: "set (ss_matches st) \<subseteq> set (ss_matches st')" "set (ss_stack st) \<subseteq> set (ss_stack st')"
    and new: "\<And>u s. file_at F l0 (rd @ c # u) s \<Longrightarrow>
      set (file_hits q (start @ map Normal (rd @ c # u)) (last (rd @ c # u)) s) \<subseteq> set (ss_matches st') \<or>
      u \<noteq> [] \<and> start @ map Normal (rd @ [c]) \<in> set (ss_stack st')"
  shows "search_inv F start l0 q mx rd cs st'"
proof -
  have "set (file_hits q (start @ map Normal t) (last t) s) \<subseteq> set (ss_matches st') \<or>
        (\<exists>r u. t = r @ u \<and> u \<noteq> [] \<and> start @ map Normal r \<in> set (ss_stack st')) \<or>
        (\<exists>c u. c \<in> set cs \<and> t = rd @ c # u)" if t: "file_at F l0 t s" for t s
  proof (cases "\<exists>u. t = rd @ c # u")
    case True
    then obtain u where u: "t = (rd @ [c]) @ u" by auto
    with new [of u s] t have "set (file_hits q (start @ map Normal t) (last t) s) \<subseteq> set (ss_matches st') \<or>
        u \<noteq> [] \<and> start @ map Normal (rd @ [c]) \<in> set (ss_stack st')"
      by simp
    with u show ?thesis by blast
  next
    case False
    from search_inv_covers [OF inv t] show ?thesis
    proof (elim disjE)
      assume "\<exists>d u. d \<in> set (c # cs) \<and> t = rd @ d # u"
      with False show ?thesis by auto
    qed (use mono in blast)+
  qed
  moreover have "\<forall>d\<in>set (ss_stack st'). \<exists>r. d = start @ map Normal r \<and> dirs_to F (l0 @ r)"
    using stack inv unfolding search_inv_def by blast
  ultimately show ?thesis
    using assms(2) found unfolding search_inv_def by blast
qed

lemma scan_entry_inv:
  assumes inv: "search_inv F start l0 q mx rd (c # cs) st"
    and start: "canonicalize F start = Some l0" and rd: "dirs_to F (l0 @ rd)"
  shows "case scan_entry F q mx (start @ map Normal rd) (l0 @ rd) c st of
      Inl found \<Rightarrow> length found \<le> mx \<and> set found \<subseteq> tree_hits F start l0 q
    | Inr st' \<Rightarrow> search_inv F start l0 q mx rd cs st'"
proof -
  let ?p = "start @ map Normal (rd @ [c])"
  have len: "length (ss_matches st) < mx" and old: "set (ss_matches st) \<subseteq> tree_hits F start l0 q"
    using inv by (simp_all add: search_inv_def)
  show ?thesis
  proof (cases "MAX_SEARCH_VISITED \<le> ss_visited st")
    case True
    with len old show ?thesis by (simp add: scan_entry_def)
  next
    case visits: False
    have below: "F (l0 @ rd @ [c]) = Some DirNode \<or> u = [] \<and> F (l0 @ rd @ [c]) = Some (FileNode s)"
      if "file_at F l0 (rd @ c # u) s" for u s
      using that below_dir [OF that] by (cases u) (auto simp: file_at_def)
    consider (regular) s where "F (l0 @ rd @ [c]) = Some (FileNode s)"
      | (dir) "F (l0 @ rd @ [c]) = Some DirNode"
      | (other) "F (l0 @ rd @ [c]) \<noteq> Some DirNode" "\<And>s. F (l0 @ rd @ [c]) \<noteq> Some (FileNode s)"
      by blast
    then show ?thesis
    proof cases
      case regular
      then have "file_at F l0 (rd @ [c]) s"
        using rd by (simp add: file_at_def)
      then have hits: "set (file_hits q ?p c s) \<subseteq> tree_hits F start l0 q"
        by (fastforce simp: tree_hits_def)
      let ?found = "ss_matches st @ file_hits q ?p c s"
      have scan: "scan_entry F q mx (start @ map Normal rd) (l0 @ rd) c st =
          capped mx (\<lambda>x. st\<lparr>ss_visited := ss_visited st + 1, ss_matches := x\<rparr>) ?found"
        using scan_entry_file [of st mx F "l0 @ rd" c s "start @ map Normal rd" q] len visits regular
          canonicalize_below(2) [OF start rd regular] by simp
      have only: "u = [] \<and> s' = s" if "file_at F l0 (rd @ c # u) s'" for u s'
        using below [OF that] regular by simp
      have "search_inv F start l0 q mx rd cs (st\<lparr>ss_visited := ss_visited st + 1, ss_matches := ?found\<rparr>)"
        if "length ?found < mx"
        by (rule search_inv_step [OF inv]) (use that old hits in \<open>auto dest!: only\<close>)
      moreover have "set (take mx ?found) \<subseteq> tree_hits F start l0 q"
        using old hits by (fastforce dest: in_set_takeD)
      ultimately show ?thesis
        using len by (auto simp: scan capped_def)
    next
      case dir
      have "search_inv F start l0 q mx rd cs
          (st\<lparr>ss_visited := ss_visited st + 1, ss_stack := ?p # ss_stack st\<rparr>)"
        by (rule search_inv_step [OF inv])
          (use len old dir dirs_to_snoc [OF rd, of c] below in \<open>auto simp: file_at_def\<close>)
      then show ?thesis
        using len visits dir by (simp add: scan_entry_def Let_def)
    next
      case other
      have "search_inv F start l0 q mx rd cs (st\<lparr>ss_visited := ss_visited st + 1\<rparr>)"
        by (rule search_inv_step [OF inv]) (use len old below other in auto)
      then show ?thesis
        using len visits other by (auto simp: scan_entry_def Let_def split: option.split node.split)
    qed
  qed
qed

lemma scan_entries_inv:
  assumes "search_inv F start l0 q mx rd cs st"
    and "canonicalize F start = Some l0" and "dirs_to F (l0 @ rd)"
  shows "case scan_entries F q mx (start @ map Normal rd) (l0 @ rd) cs st of
      Inl found \<Rightarrow> length found \<le> mx \<and> set found \<subseteq> tree_hits F start l0 q
    | Inr st' \<Rightarrow> search_inv F start l0 q mx rd [] st'"
  using assms(1)
proof (induction cs arbitrary: st)
  case (Cons c cs)
  show ?case
  proof (cases "scan_entry F q mx (start @ map Normal rd) (l0 @ rd) c st")
    case (Inr st')
    with scan_entry_inv [OF Cons.prems assms(2,3)] have "search_inv F start l0 q mx rd cs st'" by simp
    with Cons.IH [of st'] Inr show ?thesis by simp
  qed (use scan_entry_inv [OF Cons.prems assms(2,3)] in simp)
qed simp


text \<open>What the file system promises of a listing: each name of the directory is in it.\<close>

definition lists_all :: "(string list \<Rightarrow> string list) \<Rightarrow> fs \<Rightarrow> bool" where
  "lists_all ls F \<longleftrightarrow> (\<forall>l c. F (l @ [c]) \<noteq> None \<longrightarrow> c \<in> set (ls l))"

lemma search_inv_pop:
  assumes inv: "search_inv F start l0 q mx [] [] st" and ls: "lists_all ls F"
    and stack: "ss_stack st = (start @ map Normal r) # stack"
  shows "search_inv F start l0 q mx r (ls (l0 @ r)) (st\<lparr>ss_stack := stack\<rparr>)"
proof -
  have inj: "start @ map Normal r' = start @ map Normal r \<Longrightarrow> r' = r" for r'
    by (simp add: map_injective inj_def)
  have "c \<in> set (ls (l0 @ r))" if "file_at F l0 (r @ c # u) s" for c u s
    using ls that below_dir [OF that] by (cases "u = []") (auto simp: lists_all_def file_at_def)
  then have "set (file_hits q (start @ map Normal t) (last t) s) \<subseteq> set (ss_matches st) \<or>
      (\<exists>r u. t = r @ u \<and> u \<noteq> [] \<and> start @ map Normal r \<in> set stack) \<or>
      (\<exists>c u. c \<in> set (ls (l0 @ r)) \<and> t = r @ c # u)" if "file_at F l0 t s" for t s
    using search_inv_covers [OF inv that] that stack inj by (fastforce simp: neq_Nil_conv)
  with inv stack show ?thesis
    by (auto simp: search_inv_def)
qed

lemma tree_loop_inv:
  assumes "search_inv F start l0 q mx [] [] st" and "canonicalize F start = Some l0" and "lists_all ls F"
    and "tree_loop ls F q mx st = (found, truncated)"
  shows "length found \<le> mx \<and> set found \<subseteq> tree_hits F start l0 q \<and>
    (\<not> truncated \<longrightarrow> set found = tree_hits F start l0 q)"
  using assms
proof (induction ls F q mx st rule: tree_loop.induct)
  case (1 ls F q mx st)
  have inv: "search_inv F start l0 q mx [] [] st" by (rule 1(3))
  show ?case
  proof (cases "ss_stack st")
    case Nil
    then have "tree_hits F start l0 q \<subseteq> set (ss_matches st)"
      using inv by (fastforce simp: search_inv_def tree_hits_def)
    with inv Nil 1(6) show ?thesis
      by (subst (asm) tree_loop.simps) (auto simp: search_inv_def)
  next
    case (Cons dir stack)
    then obtain r where r: "dir = start @ map Normal r" "dirs_to F (l0 @ r)"
      using inv by (auto simp: search_inv_def)
    from canonicalize_below(1) [OF 1(4) r(2)]
    have rdir: "read_dir ls F dir = Some (l0 @ r, ls (l0 @ r))"
      using r unfolding read_dir_def dirs_to_def by (auto elim!: allE [of _ "length (l0 @ r)"])
    have "search_inv F start l0 q mx r (ls (l0 @ r)) (st\<lparr>ss_stack := stack\<rparr>)"
      using search_inv_pop [OF inv 1(5)] Cons r(1) by blast
    note entries = scan_entries_inv [OF this 1(4) r(2)]
    show ?thesis
    proof (cases "scan_entries F q mx dir (l0 @ r) (ls (l0 @ r)) (st\<lparr>ss_stack := stack\<rparr>)")
      case (Inl ms)
      with entries 1(6) Cons rdir r(1) show ?thesis
        by (subst (asm) tree_loop.simps) simp
    next
      case (Inr st')
      with entries r(1) have "search_inv F start l0 q mx r [] st'" by simp
      then have "search_inv F start l0 q mx [] [] st'"
        by (simp add: search_inv_def)
      moreover have "tree_loop ls F q mx st' = (found, truncated)"
        using 1(6) Cons rdir Inr by (subst (asm) tree_loop.simps) simp
      ultimately show ?thesis
        using 1(2) [OF Cons rdir _ Inr] 1(4,5) by blast
    qed
  qed
qed


section \<open>Properties\<close>

text \<open>C24: a search returns, and finds exactly what is there. For every directory the scope accepts,
  \<open>file_search\<close> answers with at most the number of matches asked for, each of them the name or a
  line of a regular file below the directory, reached through directories only (no symbolic link
  is followed); unless the answer is marked truncated, it holds every such match.\<close>

theorem file_search_exact:
  assumes "fq_query args \<noteq> []"
    and "(case fq_path args of Some p \<Rightarrow> resolve F sc p | None \<Rightarrow> Inr (fsc_root sc)) = Inr start"
    and "canonicalize F start = Some l0" and "l0 = [] \<or> F l0 = Some DirNode" and "lists_all ls F"
  shows "\<exists>found truncated.
    file_search_run ls sc F (Inr args) = [Inr (ToolResult (json_obj [(''matches'', JArr found)]) truncated)] \<and>
    length found \<le> max (case fq_max_results args of Some n \<Rightarrow> unat n | None \<Rightarrow> 50) 1 \<and>
    set found \<subseteq> tree_hits F start l0 (fq_query args) \<and>
    (\<not> truncated \<longrightarrow> set found = tree_hits F start l0 (fq_query args))"
proof -
  let ?mx = "max (case fq_max_results args of Some n \<Rightarrow> unat n | None \<Rightarrow> 50) 1"
  obtain found truncated where r: "search_tree ls F start (fq_query args) ?mx = (found, truncated)"
    by (cases "search_tree ls F start (fq_query args) ?mx") blast
  have "dirs_to F l0"
    using canonicalize_canonical [OF assms(3)] assms(4) by (auto simp: canonical_def dirs_to_def le_less)
  then have "search_inv F start l0 (fq_query args) ?mx [] [] \<lparr>ss_matches = [], ss_stack = [start], ss_visited = 0\<rparr>"
    by (auto simp: search_inv_def file_at_def)
  from tree_loop_inv [OF this assms(3,5) r [unfolded search_tree_def]] r assms(1,2) show ?thesis
    by (intro exI [of _ found] exI [of _ truncated]) (simp add: file_search_run_def Let_def)
qed

definition demo_ls :: "string list \<Rightarrow> string list" where
  "demo_ls l = (if l = [] then [''w'', ''etc''] else if l = [''w''] then [''out'', ''a'']
     else if l = [''etc''] then [''passwd''] else [])"

theorem file_search_exact_witness:
  "\<exists>found truncated.
    file_search_run demo_ls demo_scope demo_fs (Inr \<lparr>fq_query = ''ell'', fq_path = None, fq_max_results = None\<rparr>) =
      [Inr (ToolResult (json_obj [(''matches'', JArr found)]) truncated)] \<and>
    length found \<le> 50 \<and> set found \<subseteq> tree_hits demo_fs [RootDir, Normal ''w''] [''w''] ''ell'' \<and>
    (\<not> truncated \<longrightarrow> set found = tree_hits demo_fs [RootDir, Normal ''w''] [''w''] ''ell'')"
proof -
  have "lists_all demo_ls demo_fs"
    by (auto simp: lists_all_def demo_ls_def demo_fs_def append_eq_Cons_conv split: if_splits)
  moreover have "canonicalize demo_fs [RootDir, Normal ''w''] = Some [''w'']"
    by (simp add: canonicalize_def demo_fs_def)
  ultimately show ?thesis
    using file_search_exact [where args = "\<lparr>fq_query = ''ell'', fq_path = None, fq_max_results = None\<rparr>"
        and F = demo_fs and sc = demo_scope and start = "[RootDir, Normal ''w'']" and ?l0.0 = "[''w'']" and ls = demo_ls]
    by (simp add: demo_scope_root demo_fs_def)
qed

end
