(* ===== verification/Hosted_Stream.thy ===== *)
theory Hosted_Stream
  imports Router Pairing Engine_Values
begin

text \<open>
  The streams of the hosted providers: \<open>crates/mahi-compute/src/hosted/sse.rs\<close>, \<open>mod.rs\<close>, and the
  parsers of \<open>anthropic.rs\<close> and \<open>openai.rs\<close>.

  The server-sent events come from the crate \<open>eventsource-stream\<close>: an item is an event, its type
  and its data, or the text of a stream error. Parsing JSON is the parameter \<open>from_str\<close>, which
  gives the value or the text of the error. The trait \<open>SseChunkParser\<close> is a record of its three
  methods, and what both parsers promise of them is the locale \<open>sse_contract\<close>.
\<close>

section \<open>sse.rs\<close>

type_synonym sse_item = "string + string \<times> string"

record 'p sse_chunk_parser =
  sp_mode :: "'p \<Rightarrow> compute_mode"
  sp_done :: "'p \<Rightarrow> bool"
  sp_handle_event :: "'p \<Rightarrow> string \<Rightarrow> string \<Rightarrow> inference_stream \<times> 'p"

text \<open>
  The body of the stream from the \<open>k\<close>-th poll of the events on: the chunks, whether the parser
  came to its end, and the poll at which the body ended.
\<close>

fun sse_body ::
  "'p sse_chunk_parser \<Rightarrow> cancel_token \<Rightarrow> nat \<Rightarrow> 'p \<Rightarrow> sse_item list \<Rightarrow> inference_stream \<times> bool \<times> nat" where
  "sse_body P cancel k p [] = ([], False, k)"
| "sse_body P cancel k p (item # events) =
     (if cancel k \<or> sp_done P p then ([], False, k)
      else case (case item of
                   Inr (event, data) \<Rightarrow> sp_handle_event P p event data
                 | Inl err \<Rightarrow> ([Inl (InferenceErr (ProviderError (''SSE stream error: '' @ err) True))], p)) of
             (out, p') \<Rightarrow>
               (case sse_body P cancel (Suc k) p' events of
                  (out', finished, k') \<Rightarrow> (out @ out', sp_done P p' \<or> finished, k')))"

text \<open>The tail looks at the token once more, after the body has ended.\<close>

definition chunks_from_events ::
  "'p sse_chunk_parser \<Rightarrow> sse_item list \<Rightarrow> 'p \<Rightarrow> cancel_token \<Rightarrow> inference_stream" where
  "chunks_from_events P events p cancel =
     (case sse_body P cancel 0 p events of
        (out, finished, k) \<Rightarrow>
          out @ (if cancel (Suc k) \<and> \<not> finished then [Inr (chunk_finish FrCancelled (sp_mode P p))] else []))"

section \<open>mod.rs\<close>

definition transport_error :: "string \<Rightarrow> bool \<Rightarrow> bool \<Rightarrow> contract_error" where
  "transport_error err is_timeout is_connect =
     InferenceErr (ProviderError (''transport error: '' @ err) (is_timeout \<or> is_connect))"

definition http_error :: "(nat \<Rightarrow> string) \<Rightarrow> string \<Rightarrow> nat \<Rightarrow> string \<Rightarrow> contract_error" where
  "http_error show_status provider status body =
     InferenceErr (ProviderError (provider @ '' HTTP '' @ show_status status @ '': '' @ body)
       (500 \<le> status \<and> status < 600 \<or> status = 429))"

section \<open>What both parsers build\<close>

text \<open>The chunk both parsers build for a fragment of a tool call.\<close>

definition chunk_tool_call :: "string \<Rightarrow> string \<Rightarrow> string \<Rightarrow> compute_mode \<Rightarrow> inference_chunk" where
  "chunk_tool_call call_id tool_id args_delta mode =
     \<lparr>ch_delta = None,
      ch_tool_call_delta = Some \<lparr>tcd_call_id = call_id, tcd_tool_id = tool_id, tcd_args_delta = args_delta\<rparr>,
      ch_thinking_delta = None, ch_finish_reason = None, ch_active_mode = mode, ch_latency_hint_ms = None\<rparr>"

definition malformed :: "string \<Rightarrow> contract_error" where
  "malformed err = InferenceErr (ProviderError (''malformed SSE JSON: '' @ err) False)"

record tool_identity =
  ident_call_id :: string
  ident_tool_id :: string

definition identity_default :: tool_identity where
  "identity_default = \<lparr>ident_call_id = [], ident_tool_id = []\<rparr>"

section \<open>anthropic.rs\<close>

definition map_stop_reason :: "string \<Rightarrow> finish_reason" where
  "map_stop_reason reason =
     (if reason \<in> {''end_turn'', ''stop_sequence'', ''pause_turn''} then FrStop
      else if reason = ''max_tokens'' then FrMaxTokens
      else if reason = ''tool_use'' then FrToolCall
      else if reason = ''refusal'' then FrError
      else FrStop)"

record anthropic_parser =
  ap_mode :: compute_mode
  ap_done :: bool
  ap_stop_reason :: "finish_reason option"
  ap_tool_blocks :: "u64 \<Rightarrow> tool_identity option"

definition anthropic_parser_new :: "compute_mode \<Rightarrow> anthropic_parser" where
  "anthropic_parser_new mode =
     \<lparr>ap_mode = mode, ap_done = False, ap_stop_reason = None, ap_tool_blocks = Map.empty\<rparr>"

definition content_block_start :: "json \<Rightarrow> anthropic_parser \<Rightarrow> anthropic_parser" where
  "content_block_start v p =
     (let block = json_at v ''content_block''
      in if json_as_str (json_at block ''type'') = Some ''tool_use''
         then let index = unwrap_or 0 (json_as_u64 (json_at v ''index''));
                  call_id = (case json_as_str (json_at block ''id'') of
                     Some i \<Rightarrow> if i \<noteq> [] then i else ''toolu_'' @ decimal (unat index)
                   | None \<Rightarrow> ''toolu_'' @ decimal (unat index))
              in p\<lparr>ap_tool_blocks := (ap_tool_blocks p)(index \<mapsto>
                   \<lparr>ident_call_id = call_id,
                    ident_tool_id = unwrap_or [] (json_as_str (json_at block ''name''))\<rparr>)\<rparr>
         else p)"

definition content_block_delta :: "json \<Rightarrow> anthropic_parser \<Rightarrow> inference_stream" where
  "content_block_delta v p =
     (let delta = json_at v ''delta''; kind = json_as_str (json_at delta ''type'')
      in if kind = Some ''text_delta''
         then let t = unwrap_or [] (json_as_str (json_at delta ''text''))
              in if t = [] then [] else [Inr (chunk_text t (ap_mode p))]
         else if kind = Some ''input_json_delta''
         then let index = unwrap_or 0 (json_as_u64 (json_at v ''index''));
                  identity = unwrap_or identity_default (ap_tool_blocks p index)
              in [Inr (chunk_tool_call (ident_call_id identity) (ident_tool_id identity)
                    (unwrap_or [] (json_as_str (json_at delta ''partial_json''))) (ap_mode p))]
         else if kind = Some ''thinking_delta''
         then let t = unwrap_or [] (json_as_str (json_at delta ''thinking''))
              in if t = [] then []
                 else [Inr (chunk_thinking \<lparr>thd_text = t, thd_signature = None\<rparr> (ap_mode p))]
         else if kind = Some ''signature_delta''
         then let sig = unwrap_or [] (json_as_str (json_at delta ''signature''))
              in if sig = [] then []
                 else [Inr (chunk_thinking \<lparr>thd_text = [], thd_signature = Some sig\<rparr> (ap_mode p))]
         else [])"

definition anthropic_event ::
  "string \<Rightarrow> string \<Rightarrow> json \<Rightarrow> anthropic_parser \<Rightarrow> inference_stream \<times> anthropic_parser" where
  "anthropic_event event_type data v p =
     (if event_type = ''content_block_start'' then ([], content_block_start v p)
      else if event_type = ''content_block_delta'' then (content_block_delta v p, p)
      else if event_type = ''message_delta''
      then ([], case json_as_str (json_at (json_at v ''delta'') ''stop_reason'') of
                  Some reason \<Rightarrow> p\<lparr>ap_stop_reason := Some (map_stop_reason reason)\<rparr>
                | None \<Rightarrow> p)
      else if event_type = ''message_stop''
      then ([Inr (chunk_finish (unwrap_or FrStop (ap_stop_reason p)) (ap_mode p))], p\<lparr>ap_done := True\<rparr>)
      else if event_type = ''error''
      then let kind = unwrap_or ''unknown'' (json_as_str (json_at (json_at v ''error'') ''type''));
               msg = unwrap_or data (json_as_str (json_at (json_at v ''error'') ''message''))
           in ([Inl (InferenceErr (ProviderError (''anthropic stream error ('' @ kind @ ''): '' @ msg)
                 (kind = ''overloaded_error'' \<or> kind = ''api_error'')))], p\<lparr>ap_done := True\<rparr>)
      else ([], p))"

definition anthropic_handle ::
  "(string \<Rightarrow> string + json) \<Rightarrow> anthropic_parser \<Rightarrow> string \<Rightarrow> string \<Rightarrow> inference_stream \<times> anthropic_parser" where
  "anthropic_handle from_str p event_type data =
     (if ap_done p then ([], p)
      else case from_str (str_trim data) of
             Inr v \<Rightarrow> anthropic_event event_type data v p
           | Inl err \<Rightarrow>
               if str_trim data = [] then anthropic_event event_type data JNull p
               else ([Inl (malformed err)], p))"

definition anthropic_sse :: "(string \<Rightarrow> string + json) \<Rightarrow> anthropic_parser sse_chunk_parser" where
  "anthropic_sse from_str =
     \<lparr>sp_mode = ap_mode, sp_done = ap_done, sp_handle_event = anthropic_handle from_str\<rparr>"

section \<open>openai.rs\<close>

definition map_finish_reason :: "string \<Rightarrow> finish_reason" where
  "map_finish_reason reason =
     (if reason = ''stop'' then FrStop
      else if reason = ''length'' then FrMaxTokens
      else if reason = ''tool_calls'' then FrToolCall
      else if reason = ''content_filter'' then FrError
      else FrStop)"

record openai_parser =
  op_mode :: compute_mode
  op_done :: bool
  op_finish_emitted :: bool
  op_tool_calls :: "u64 \<Rightarrow> tool_identity option"

definition openai_parser_new :: "compute_mode \<Rightarrow> openai_parser" where
  "openai_parser_new mode =
     \<lparr>op_mode = mode, op_done = False, op_finish_emitted = False, op_tool_calls = Map.empty\<rparr>"

definition openai_call :: "json \<Rightarrow> openai_parser \<Rightarrow> inference_chunk \<times> openai_parser" where
  "openai_call c p =
     (let index = unwrap_or 0 (json_as_u64 (json_at c ''index''));
          identity = unwrap_or \<lparr>ident_call_id = ''call_'' @ decimal (unat index), ident_tool_id = []\<rparr>
            (op_tool_calls p index);
          identity = (case json_as_str (json_at c ''id'') of
             Some i \<Rightarrow> identity\<lparr>ident_call_id := i\<rparr> | None \<Rightarrow> identity);
          identity = (case json_as_str (json_at (json_at c ''function'') ''name'') of
             Some n \<Rightarrow> identity\<lparr>ident_tool_id := n\<rparr> | None \<Rightarrow> identity);
          args_delta = unwrap_or [] (json_as_str (json_at (json_at c ''function'') ''arguments''))
      in (chunk_tool_call (ident_call_id identity) (ident_tool_id identity) args_delta (op_mode p),
          p\<lparr>op_tool_calls := (op_tool_calls p)(index \<mapsto> identity)\<rparr>))"

fun openai_calls :: "json list \<Rightarrow> openai_parser \<Rightarrow> inference_stream \<times> openai_parser" where
  "openai_calls [] p = ([], p)"
| "openai_calls (c # cs) p =
     (case openai_call c p of (chunk, p1) \<Rightarrow> (case openai_calls cs p1 of (out, p2) \<Rightarrow> (Inr chunk # out, p2)))"

definition openai_value :: "json \<Rightarrow> openai_parser \<Rightarrow> inference_stream \<times> openai_parser" where
  "openai_value v p =
     (let choice = json_nth (json_at v ''choices'') 0;
          delta = json_at choice ''delta'';
          texts = (case json_as_str (json_at delta ''content'') of
             Some t \<Rightarrow> if t \<noteq> [] then [Inr (chunk_text t (op_mode p))] else [] | None \<Rightarrow> []);
          (calls, p1) = (case json_as_array (json_at delta ''tool_calls'') of
             Some cs \<Rightarrow> openai_calls cs p | None \<Rightarrow> ([], p))
      in case json_as_str (json_at choice ''finish_reason'') of
           Some reason \<Rightarrow>
             (texts @ calls @ [Inr (chunk_finish (map_finish_reason reason) (op_mode p))], p1\<lparr>op_finish_emitted := True\<rparr>)
         | None \<Rightarrow> (texts @ calls, p1))"

definition openai_handle_data ::
  "(string \<Rightarrow> string + json) \<Rightarrow> openai_parser \<Rightarrow> string \<Rightarrow> inference_stream \<times> openai_parser" where
  "openai_handle_data from_str p raw =
     (if op_done p then ([], p)
      else let data = str_trim raw
           in if data = [] then ([], p)
              else if data = ''[DONE]''
              then (if op_finish_emitted p then [] else [Inr (chunk_finish FrStop (op_mode p))],
                    p\<lparr>op_done := True, op_finish_emitted := True\<rparr>)
              else case from_str data of
                     Inl err \<Rightarrow> ([Inl (malformed err)], p)
                   | Inr v \<Rightarrow> openai_value v p)"

definition openai_sse :: "(string \<Rightarrow> string + json) \<Rightarrow> openai_parser sse_chunk_parser" where
  "openai_sse from_str =
     \<lparr>sp_mode = op_mode, sp_done = op_done,
      sp_handle_event = (\<lambda>p event_type data. openai_handle_data from_str p data)\<rparr>"


section \<open>The parser contract\<close>

text \<open>A stream tells its reader that it is over by a finish chunk or an error.\<close>

definition closing :: "inference_stream \<Rightarrow> bool" where
  "closing st \<longleftrightarrow> (\<exists>x\<in>set st. case x of Inl e \<Rightarrow> True | Inr c \<Rightarrow> ch_finish_reason c \<noteq> None)"

definition tells_cancelled :: "inference_stream \<Rightarrow> bool" where
  "tells_cancelled st \<longleftrightarrow> (\<exists>c. Inr c \<in> set st \<and> ch_finish_reason c = Some FrCancelled)"

lemma stream_append [simp]:
  "closing (a @ b) \<longleftrightarrow> closing a \<or> closing b"
  "tells_cancelled (a @ b) \<longleftrightarrow> tells_cancelled a \<or> tells_cancelled b"
  "chunk_modes (a @ b) = chunk_modes a \<union> chunk_modes b"
  by (auto simp: closing_def tells_cancelled_def chunk_modes_def)

lemma stream_items [simp]:
  "closing []  \<longleftrightarrow> False" "\<not> tells_cancelled []" "chunk_modes [] = {}"
  "closing (Inl e # st)" "tells_cancelled (Inl e # st) = tells_cancelled st" "chunk_modes (Inl e # st) = chunk_modes st"
  "closing (Inr c # st) \<longleftrightarrow> ch_finish_reason c \<noteq> None \<or> closing st"
  "tells_cancelled (Inr c # st) \<longleftrightarrow> ch_finish_reason c = Some FrCancelled \<or> tells_cancelled st"
  "chunk_modes (Inr c # st) = insert (ch_active_mode c) (chunk_modes st)"
  by (auto simp: closing_def tells_cancelled_def chunk_modes_def)

locale sse_contract =
  fixes P :: "'p sse_chunk_parser" and told :: "'p \<Rightarrow> bool" and inv :: "'p \<Rightarrow> bool"
  assumes mode_kept: "sp_handle_event P p e d = (out, p') \<Longrightarrow> sp_mode P p' = sp_mode P p"
    and stamped: "sp_handle_event P p e d = (out, p') \<Longrightarrow> chunk_modes out \<subseteq> {sp_mode P p}"
    and told_by: "sp_handle_event P p e d = (out, p') \<Longrightarrow> told p' \<Longrightarrow> told p \<or> closing out"
    and done_told: "sp_handle_event P p e d = (out, p') \<Longrightarrow> sp_done P p' \<Longrightarrow> sp_done P p \<or> told p'"
    and inv_kept: "sp_handle_event P p e d = (out, p') \<Longrightarrow> inv p \<Longrightarrow> inv p'"
    and never_says_cancelled: "sp_handle_event P p e d = (out, p') \<Longrightarrow> inv p \<Longrightarrow> \<not> tells_cancelled out"
begin

text \<open>One item of the event stream, as the loop takes it.\<close>

definition item_step :: "'p \<Rightarrow> sse_item \<Rightarrow> inference_stream \<times> 'p" where
  "item_step p item =
     (case item of
        Inr (event, data) \<Rightarrow> sp_handle_event P p event data
      | Inl err \<Rightarrow> ([Inl (InferenceErr (ProviderError (''SSE stream error: '' @ err) True))], p))"

lemma body_Cons:
  "sse_body P cancel k p (item # events) =
     (if cancel k \<or> sp_done P p then ([], False, k)
      else case item_step p item of (out, p') \<Rightarrow>
        (case sse_body P cancel (Suc k) p' events of
           (out', finished, k') \<Rightarrow> (out @ out', sp_done P p' \<or> finished, k')))"
  by (simp add: item_step_def)

declare sse_body.simps(2) [simp del]

lemma item_step_laws:
  assumes "item_step p item = (out, p')"
  shows "sp_mode P p' = sp_mode P p" and "chunk_modes out \<subseteq> {sp_mode P p}"
    and "inv p \<Longrightarrow> inv p' \<and> \<not> tells_cancelled out"
    and "told p' \<Longrightarrow> told p \<or> closing out" and "sp_done P p' \<Longrightarrow> sp_done P p \<or> told p'"
  using assms mode_kept stamped told_by done_told inv_kept never_says_cancelled
  by (fastforce simp: item_step_def split: sum.splits prod.splits)+

lemma body_laws:
  "sse_body P cancel k p events = (out, finished, k') \<Longrightarrow>
     chunk_modes out \<subseteq> {sp_mode P p} \<and> (inv p \<longrightarrow> \<not> tells_cancelled out) \<and> (finished \<longrightarrow> told p \<or> closing out)"
proof (induction events arbitrary: k p out finished k')
  case (Cons item events)
  show ?case
  proof (cases "cancel k \<or> sp_done P p")
    case True
    with Cons.prems show ?thesis by (auto simp: body_Cons)
  next
    case False
    obtain out1 p1 where s: "item_step p item = (out1, p1)" by fastforce
    obtain out2 f2 k2 where b: "sse_body P cancel (Suc k) p1 events = (out2, f2, k2)"
      by (cases "sse_body P cancel (Suc k) p1 events") auto
    from Cons.prems False s b have "out = out1 @ out2" "finished = (sp_done P p1 \<or> f2)"
      by (auto simp: body_Cons)
    with Cons.IH [OF b] item_step_laws [OF s] False show ?thesis by auto
  qed
qed simp

lemma body_done: "sp_done P p \<Longrightarrow> \<exists>k'. sse_body P cancel k p events = ([], False, k')"
  by (cases events) (auto simp: body_Cons)

text \<open>Once the parser has come to its end, later events change nothing.\<close>

lemma body_ignores_rest:
  "sse_body P cancel k p xs = (out, True, k') \<Longrightarrow> \<exists>k''. sse_body P cancel k p (xs @ ys) = (out, True, k'')"
proof (induction xs arbitrary: k p out k')
  case (Cons item xs)
  then have go: "\<not> (cancel k \<or> sp_done P p)" by (auto simp: body_Cons split: if_splits)
  obtain out1 p1 where s: "item_step p item = (out1, p1)" by fastforce
  obtain out2 f2 k2 where b: "sse_body P cancel (Suc k) p1 xs = (out2, f2, k2)"
    by (cases "sse_body P cancel (Suc k) p1 xs") auto
  from Cons.prems go s b have o: "out = out1 @ out2" "sp_done P p1 \<or> f2"
    by (auto simp: body_Cons)
  show ?case
  proof (cases "sp_done P p1")
    case True
    with body_done [of p1 cancel "Suc k" xs] body_done [of p1 cancel "Suc k" "xs @ ys"] b o go s show ?thesis
      by (auto simp: body_Cons)
  next
    case False
    with Cons.IH [of "Suc k" p1 out2 k2] b o go s show ?thesis
      by (auto simp: body_Cons)
  qed
qed simp

lemma body_reaches_end:
  assumes "\<And>p. sp_done P (snd (item_step p stop))" and "\<not> sp_done P p" and "\<forall>j\<le>length xs. \<not> cancel (k + j)"
  shows "\<exists>out k'. sse_body P cancel k p (xs @ [stop]) = (out, True, k')"
  using assms(2,3)
proof (induction xs arbitrary: k p)
  case Nil
  with assms(1) [of p] show ?case by (auto simp: body_Cons split: prod.splits)
next
  case (Cons item xs)
  obtain out1 p1 where s: "item_step p item = (out1, p1)" by fastforce
  have "\<not> cancel k" using Cons.prems(2) by (auto dest: spec [of _ 0])
  moreover have "\<forall>j\<le>length xs. \<not> cancel (Suc k + j)"
    using Cons.prems(2) by (auto dest: spec [of _ "Suc _"])
  ultimately show ?case
    using Cons.IH [of p1 "Suc k"] Cons.prems(1) s
    by (cases "sp_done P p1"; cases "sse_body P cancel (Suc k) p1 (xs @ [stop])") (auto simp: body_Cons)
qed

lemma stream_terminated:
  assumes "\<And>p. sp_done P (snd (item_step p stop))" and "\<not> sp_done P p" and "\<not> told p" and "inv p"
    and "\<forall>j\<le>length xs. \<not> cancel j"
  shows "closing (chunks_from_events P (xs @ stop # ys) p cancel) \<and>
    \<not> tells_cancelled (chunks_from_events P (xs @ stop # ys) p cancel) \<and>
    chunks_from_events P (xs @ stop # ys) p cancel = chunks_from_events P (xs @ [stop]) p cancel"
proof -
  from body_reaches_end [OF assms(1,2), of xs cancel 0] assms(5) obtain out k' where
    b: "sse_body P cancel 0 p (xs @ [stop]) = (out, True, k')"
    by auto
  from body_ignores_rest [OF b, of ys] obtain k'' where "sse_body P cancel 0 p (xs @ stop # ys) = (out, True, k'')"
    by auto
  with b body_laws [OF b] assms(3,4) show ?thesis
    by (simp add: chunks_from_events_def)
qed

lemma body_cut:
  assumes "\<forall>j<n. \<not> cancel (k + j)" and "cancel (k + n)" and "n \<le> length events"
    and "sse_body P (\<lambda>_. False) k p (take n events) = (out, finished, k1)"
  shows "\<exists>k'. sse_body P cancel k p events = (out, finished, k') \<and> (sp_done P p \<or> finished \<or> k' = k + n)"
  using assms
proof (induction events arbitrary: n k p out finished k1)
  case (Cons item events)
  show ?case
  proof (cases "n = 0 \<or> sp_done P p")
    case True
    with Cons.prems show ?thesis
      by (cases n) (auto simp: body_Cons dest: spec [of _ 0])
  next
    case False
    then obtain m where n: "n = Suc m" by (cases n) auto
    obtain out1 p1 where s: "item_step p item = (out1, p1)" by fastforce
    obtain out2 f2 k2 where b: "sse_body P (\<lambda>_. False) (Suc k) p1 (take m events) = (out2, f2, k2)"
      by (cases "sse_body P (\<lambda>_. False) (Suc k) p1 (take m events)") auto
    have "\<not> cancel k" "\<forall>j<m. \<not> cancel (Suc k + j)" "cancel (Suc k + m)"
      using Cons.prems(1,2) n by (auto dest: spec [of _ 0] spec [of _ "Suc _"])
    with Cons.IH [OF _ _ _ b] Cons.prems(3,4) s b n False show ?thesis
      by (auto simp: body_Cons)
  qed
qed simp

lemma stream_cancelled:
  assumes "\<forall>j<n. \<not> cancel j" and "cancel n" and "cancel (Suc n)" and "n \<le> length events" and "\<not> sp_done P p"
    and "sse_body P (\<lambda>_. False) 0 p (take n events) = (out, finished, k1)"
  shows "chunks_from_events P events p cancel =
    out @ (if finished then [] else [Inr (chunk_finish FrCancelled (sp_mode P p))])"
  using body_cut [of n cancel 0 events p out finished k1] assms by (auto simp: chunks_from_events_def)

lemma stream_modes: "chunk_modes (chunks_from_events P events p cancel) \<subseteq> {sp_mode P p}"
  using body_laws [of cancel 0 p events]
  by (auto simp: chunks_from_events_def chunk_finish_def split: prod.splits)

end


section \<open>Both parsers keep the contract\<close>

lemma content_block_delta_laws:
  "chunk_modes (content_block_delta v p) \<subseteq> {ap_mode p}" "\<not> tells_cancelled (content_block_delta v p)"
  by (auto simp: content_block_delta_def Let_def chunk_text_def chunk_tool_call_def chunk_thinking_def)

lemma map_stop_reason_not_cancelled: "map_stop_reason r \<noteq> FrCancelled" "map_finish_reason r \<noteq> FrCancelled"
  by (auto simp: map_stop_reason_def map_finish_reason_def)

lemma content_block_start_fields [simp]:
  "ap_mode (content_block_start v p) = ap_mode p" "ap_done (content_block_start v p) = ap_done p"
  "ap_stop_reason (content_block_start v p) = ap_stop_reason p"
  by (auto simp: content_block_start_def Let_def)

interpretation anthropic: sse_contract "anthropic_sse from_str" ap_done
  "\<lambda>p. ap_stop_reason p \<noteq> Some FrCancelled" for from_str
proof unfold_locales
  fix p e d out p'
  assume "sp_handle_event (anthropic_sse from_str) p e d = (out, p')"
  then have h: "anthropic_handle from_str p e d = (out, p')" by (simp add: anthropic_sse_def)
  have ev: "ap_mode p' = ap_mode p \<and> chunk_modes out \<subseteq> {ap_mode p} \<and> (ap_done p' \<longrightarrow> ap_done p \<or> closing out) \<and>
      (ap_stop_reason p \<noteq> Some FrCancelled \<longrightarrow> ap_stop_reason p' \<noteq> Some FrCancelled \<and> \<not> tells_cancelled out)"
    if "anthropic_event e d v p = (out, p')" for v
    using that map_stop_reason_not_cancelled content_block_delta_laws [of v p]
    by (cases "ap_stop_reason p")
      (auto simp: anthropic_event_def Let_def chunk_finish_def split: if_splits option.splits)
  have all: "ap_mode p' = ap_mode p \<and> chunk_modes out \<subseteq> {ap_mode p} \<and> (ap_done p' \<longrightarrow> ap_done p \<or> closing out) \<and>
      (ap_stop_reason p \<noteq> Some FrCancelled \<longrightarrow> ap_stop_reason p' \<noteq> Some FrCancelled \<and> \<not> tells_cancelled out)"
    using h ev by (auto simp: anthropic_handle_def split: if_splits sum.splits)
  show "sp_mode (anthropic_sse from_str) p' = sp_mode (anthropic_sse from_str) p"
    "chunk_modes out \<subseteq> {sp_mode (anthropic_sse from_str) p}"
    "ap_done p' \<Longrightarrow> ap_done p \<or> closing out"
    "sp_done (anthropic_sse from_str) p' \<Longrightarrow> sp_done (anthropic_sse from_str) p \<or> ap_done p'"
    "ap_stop_reason p \<noteq> Some FrCancelled \<Longrightarrow> ap_stop_reason p' \<noteq> Some FrCancelled"
    "ap_stop_reason p \<noteq> Some FrCancelled \<Longrightarrow> \<not> tells_cancelled out"
    using all by (simp_all add: anthropic_sse_def)
qed

lemma openai_calls_laws:
  "openai_calls cs p = (out, p') \<Longrightarrow> op_mode p' = op_mode p \<and> op_done p' = op_done p \<and>
     op_finish_emitted p' = op_finish_emitted p \<and> chunk_modes out \<subseteq> {op_mode p} \<and> \<not> tells_cancelled out"
proof (induction cs arbitrary: p out)
  case (Cons c cs)
  obtain chunk p1 where c: "openai_call c p = (chunk, p1)" by fastforce
  then have "op_mode p1 = op_mode p" "op_done p1 = op_done p" "op_finish_emitted p1 = op_finish_emitted p"
    "ch_active_mode chunk = op_mode p" "ch_finish_reason chunk = None"
    by (auto simp: openai_call_def Let_def chunk_tool_call_def)
  with Cons.IH [of p1] Cons.prems c show ?case by (auto split: prod.splits)
qed simp

interpretation openai: sse_contract "openai_sse from_str" op_finish_emitted "\<lambda>_. True" for from_str
proof unfold_locales
  fix p e d out p'
  assume "sp_handle_event (openai_sse from_str) p e d = (out, p')"
  then have h: "openai_handle_data from_str p d = (out, p')" by (simp add: openai_sse_def)
  have ev: "op_mode p' = op_mode p \<and> op_done p' = op_done p \<and> chunk_modes out \<subseteq> {op_mode p} \<and>
      (op_finish_emitted p' \<longrightarrow> op_finish_emitted p \<or> closing out) \<and> \<not> tells_cancelled out"
    if "openai_value v p = (out, p')" for v
    using that map_stop_reason_not_cancelled
    by (auto simp: openai_value_def Let_def chunk_finish_def chunk_text_def
        split: prod.splits option.splits if_splits dest!: openai_calls_laws)
  have all: "op_mode p' = op_mode p \<and> chunk_modes out \<subseteq> {op_mode p} \<and> \<not> tells_cancelled out \<and>
      (op_finish_emitted p' \<longrightarrow> op_finish_emitted p \<or> closing out) \<and> (op_done p' \<longrightarrow> op_done p \<or> op_finish_emitted p')"
    using h ev by (auto simp: openai_handle_data_def Let_def chunk_finish_def split: if_splits sum.splits)
  show "sp_mode (openai_sse from_str) p' = sp_mode (openai_sse from_str) p"
    "chunk_modes out \<subseteq> {sp_mode (openai_sse from_str) p}"
    "op_finish_emitted p' \<Longrightarrow> op_finish_emitted p \<or> closing out"
    "sp_done (openai_sse from_str) p' \<Longrightarrow> sp_done (openai_sse from_str) p \<or> op_finish_emitted p'"
    "\<not> tells_cancelled out"
    using all by (simp_all add: openai_sse_def)
qed


lemma sse_fields [simp]:
  "sp_done (anthropic_sse from_str) = ap_done" "sp_handle_event (anthropic_sse from_str) = anthropic_handle from_str"
  "sp_mode (anthropic_sse from_str) = ap_mode" "sp_done (openai_sse from_str) = op_done"
  "sp_handle_event (openai_sse from_str) p e d = openai_handle_data from_str p d"
  "sp_mode (openai_sse from_str) = op_mode"
  by (simp_all add: anthropic_sse_def openai_sse_def)

lemma parser_new_fields [simp]:
  "ap_mode (anthropic_parser_new m) = m" "\<not> ap_done (anthropic_parser_new m)"
  "ap_stop_reason (anthropic_parser_new m) = None"
  "op_mode (openai_parser_new m) = m" "\<not> op_done (openai_parser_new m)" "\<not> op_finish_emitted (openai_parser_new m)"
  by (simp_all add: anthropic_parser_new_def openai_parser_new_def)

section \<open>Properties\<close>

text \<open>A hosted stream that the server ends properly tells so, and ends there. Whatever came before, once
  \<open>message_stop\<close> or \<open>[DONE]\<close> has been read before any cancellation, the stream holds a finish
  chunk or an error, says nothing of a cancellation even if it comes later, and no later event
  changes it; every chunk carries the provider's mode.\<close>

theorem hosted_stream_terminated:
  assumes "\<forall>j\<le>length xs. \<not> cancel j" and "from_str (str_trim d) = Inr v" and "str_trim d' = ''[DONE]''"
  shows "let st = (\<lambda>ys. chunks_from_events (anthropic_sse from_str) (xs @ Inr (''message_stop'', d) # ys)
            (anthropic_parser_new mode) cancel);
          st' = (\<lambda>ys. chunks_from_events (openai_sse from_str) (xs @ Inr (e, d') # ys) (openai_parser_new mode) cancel)
      in (closing (st ys) \<and> \<not> tells_cancelled (st ys) \<and> st ys = st [] \<and> chunk_modes (st ys) \<subseteq> {mode}) \<and>
         (closing (st' ys) \<and> \<not> tells_cancelled (st' ys) \<and> st' ys = st' [] \<and> chunk_modes (st' ys) \<subseteq> {mode})"
proof -
  have "sp_done (anthropic_sse from_str) (snd (anthropic.item_step from_str p (Inr (''message_stop'', d))))" for p
    using assms(2) by (auto simp: anthropic.item_step_def anthropic_handle_def anthropic_event_def)
  note a = anthropic.stream_terminated [OF this, of "anthropic_parser_new mode" xs cancel ys, simplified, OF assms(1)]
  have "sp_done (openai_sse from_str) (snd (openai.item_step from_str p (Inr (e, d'))))" for p
    using assms(3) by (auto simp: openai.item_step_def openai_handle_data_def Let_def)
  note o = openai.stream_terminated [OF this, of "openai_parser_new mode" xs cancel ys, simplified, OF assms(1)]
  show ?thesis
    unfolding Let_def using a o
    by (intro conjI anthropic.stream_modes [of from_str _ "anthropic_parser_new mode", simplified]
        openai.stream_modes [of from_str _ "openai_parser_new mode", simplified]) blast+
qed

theorem hosted_stream_terminated_witness:
  "let st = chunks_from_events (anthropic_sse (\<lambda>_. Inr JNull)) [Inl ''x'', Inr (''message_stop'', ''{}'')]
        (anthropic_parser_new Hosted) (\<lambda>k. 2 \<le> k)
   in closing st \<and> \<not> tells_cancelled st \<and> chunk_modes st \<subseteq> {Hosted}"
proof -
  have "str_trim ''[DONE]'' = ''[DONE]''"
    by (simp add: str_trim_eval)
  from hosted_stream_terminated [of "[Inl ''x'']" "\<lambda>k. 2 \<le> k" "\<lambda>_. Inr JNull" "''{}''" JNull "''[DONE]''" Hosted "[]", OF _ _ this]
  show ?thesis by (simp add: Let_def)
qed

text \<open>Cancelling a hosted stream cuts it at once. If the token fires before the \<open>n\<close>-th event is read,
  the stream is what the first \<open>n\<close> events gave, followed by one \<open>Cancelled\<close> chunk unless the
  server had already ended it.\<close>

theorem hosted_stream_cancelled:
  assumes "\<forall>j<n. \<not> cancel j" and "\<forall>j\<ge>n. cancel j" and "n \<le> length events"
    and "P = anthropic_sse from_str" and "p = anthropic_parser_new mode"
    and "Q = openai_sse from_str" and "q = openai_parser_new mode"
  shows "(case sse_body P never_cancelled 0 p (take n events) of (out, finished, k) \<Rightarrow>
      chunks_from_events P events p cancel =
        out @ (if finished then [] else [Inr (chunk_finish FrCancelled mode)])) \<and>
    (case sse_body Q never_cancelled 0 q (take n events) of (out, finished, k) \<Rightarrow>
      chunks_from_events Q events q cancel =
        out @ (if finished then [] else [Inr (chunk_finish FrCancelled mode)]))"
proof -
  have never: "never_cancelled = (\<lambda>_. False)"
    by (simp add: never_cancelled_def fun_eq_iff)
  show ?thesis
    using anthropic.stream_cancelled [of n cancel events from_str p] openai.stream_cancelled [of n cancel events from_str q] assms
    by (auto simp: never anthropic_parser_new_def openai_parser_new_def split: prod.split)
qed

theorem hosted_stream_cancelled_witness:
  "chunks_from_events (anthropic_sse (\<lambda>_. Inr JNull)) [Inl ''x'', Inr (''ping'', ''{}'')] (anthropic_parser_new Hosted)
     (\<lambda>k. 1 \<le> k) =
   [Inl (InferenceErr (ProviderError ''SSE stream error: x'' True)), Inr (chunk_finish FrCancelled Hosted)]"
proof -
  have "sse_body (anthropic_sse (\<lambda>_. Inr JNull)) never_cancelled 0 (anthropic_parser_new Hosted) [Inl ''x''] =
      ([Inl (InferenceErr (ProviderError ''SSE stream error: x'' True))], False, 1)"
    by (simp add: sse_body.simps(2) never_cancelled_def anthropic_parser_new_def)
  with hosted_stream_cancelled [of 1 "\<lambda>k. 1 \<le> k" "[Inl ''x'', Inr (''ping'', ''{}'')]" _ "\<lambda>_. Inr JNull" _ Hosted, OF _ _ _ refl refl refl refl]
  show ?thesis by simp
qed

end
