(* ===== verification/Hosted_Calls.thy ===== *)
theory Hosted_Calls
  imports Hosted_Stream
begin

text \<open>
  Tool calls from a hosted model to the engine: the events of a model's tool calls in the two wire
  formats that \<open>hosted/anthropic.rs\<close> and \<open>hosted/openai.rs\<close> parse, and the calls that
  \<open>consume_inference\<close> of \<open>engine.rs\<close> puts together from the chunks.
\<close>

section \<open>Tool calls on the wire\<close>

text \<open>
  What a model says about its tool calls: it opens a call under an index, and sends pieces of the
  arguments of an open call; several calls may be interleaved.
\<close>

datatype call_edit = OpenCall u64 string string | Piece u64 string

fun edits_ok :: "u64 set \<Rightarrow> call_edit list \<Rightarrow> bool" where
  "edits_ok seen [] = True"
| "edits_ok seen (OpenCall i c t # es) = (i \<notin> seen \<and> edits_ok (insert i seen) es)"
| "edits_ok seen (Piece i s # es) = (i \<in> seen \<and> edits_ok seen es)"

definition opened :: "call_edit list \<Rightarrow> (u64 \<times> string \<times> string) list" where
  "opened es = List.map_filter (\<lambda>e. case e of OpenCall i c t \<Rightarrow> Some (i, c, t) | Piece i s \<Rightarrow> None) es"

definition pieces :: "u64 \<Rightarrow> call_edit list \<Rightarrow> string list" where
  "pieces i es = List.map_filter (\<lambda>e. case e of Piece j s \<Rightarrow> if j = i then Some s else None | OpenCall j c t \<Rightarrow> None) es"

text \<open>The two wire formats of an edit: the event type and the JSON of its data.\<close>

fun anthropic_wire :: "call_edit \<Rightarrow> string \<times> json" where
  "anthropic_wire (OpenCall i c t) = (''content_block_start'', json_obj [(''index'', JInt (uint i)),
     (''content_block'', json_obj [(''type'', JStr ''tool_use''), (''id'', JStr c), (''name'', JStr t)])])"
| "anthropic_wire (Piece i s) = (''content_block_delta'', json_obj [(''index'', JInt (uint i)),
     (''delta'', json_obj [(''type'', JStr ''input_json_delta''), (''partial_json'', JStr s)])])"

fun openai_wire_call :: "call_edit \<Rightarrow> json" where
  "openai_wire_call (OpenCall i c t) = json_obj [(''index'', JInt (uint i)), (''id'', JStr c),
     (''function'', json_obj [(''name'', JStr t), (''arguments'', JStr [])])]"
| "openai_wire_call (Piece i s) = json_obj [(''index'', JInt (uint i)), (''function'', json_obj [(''arguments'', JStr s)])]"

definition openai_wire :: "call_edit \<Rightarrow> string \<times> json" where
  "openai_wire e = (''message'', json_obj [(''choices'', JArr [json_obj [(''delta'',
     json_obj [(''tool_calls'', JArr [openai_wire_call e])])]])])"

definition sent :: "(json \<Rightarrow> string) \<Rightarrow> (call_edit \<Rightarrow> string \<times> json) \<Rightarrow> call_edit \<Rightarrow> sse_item" where
  "sent to_str wire e = Inr (fst (wire e), to_str (snd (wire e)))"

text \<open>What \<open>serde_json\<close> promises: the data of these events parse back.\<close>

definition decodes :: "(string \<Rightarrow> string + json) \<Rightarrow> (json \<Rightarrow> string) \<Rightarrow> json \<Rightarrow> bool" where
  "decodes from_str to_str j \<longleftrightarrow> from_str (str_trim (to_str j)) = Inr j \<and> str_trim (to_str j) \<notin> {[], ''[DONE]''}"

lemma json_as_u64_uint [simp]: "json_as_u64 (JInt (uint (i :: u64))) = Some i"
  using uint_lt2p [of i] by simp

declare json_as_u64.simps(1) [simp del]

text \<open>The fragment that an edit becomes, given the calls opened so far.\<close>

definition fragment :: "(u64 \<Rightarrow> tool_identity option) \<Rightarrow> u64 \<Rightarrow> string \<Rightarrow> tool_call_delta" where
  "fragment m i s = (case m i of
     Some d \<Rightarrow> \<lparr>tcd_call_id = ident_call_id d, tcd_tool_id = ident_tool_id d, tcd_args_delta = s\<rparr>
   | None \<Rightarrow> \<lparr>tcd_call_id = [], tcd_tool_id = [], tcd_args_delta = s\<rparr>)"

definition known :: "(u64 \<times> string \<times> string) list \<Rightarrow> u64 \<Rightarrow> tool_identity option" where
  "known os i = map_option (\<lambda>(c, t). \<lparr>ident_call_id = c, ident_tool_id = t\<rparr>) (map_of os i)"

lemma anthropic_handle_wire:
  assumes "decodes from_str to_str (snd (anthropic_wire e))" and "\<not> ap_done p"
    and "\<And>i c t. e = OpenCall i c t \<Longrightarrow> c \<noteq> []" and "\<And>i s. e = Piece i s \<Longrightarrow> ap_tool_blocks p i \<noteq> None"
  shows "anthropic_handle from_str p (fst (anthropic_wire e)) (to_str (snd (anthropic_wire e))) =
    (case e of
       OpenCall i c t \<Rightarrow> ([], p\<lparr>ap_tool_blocks := (ap_tool_blocks p)(i \<mapsto> \<lparr>ident_call_id = c, ident_tool_id = t\<rparr>)\<rparr>)
     | Piece i s \<Rightarrow> ([Inr (chunk_text [] (ap_mode p) \<lparr>ch_delta := None,
         ch_tool_call_delta := Some (fragment (ap_tool_blocks p) i s)\<rparr>)], p))"
  using assms
  by (cases e) (auto simp: anthropic_handle_def decodes_def anthropic_event_def content_block_start_def
      content_block_delta_def json_at_def json_obj_def Let_def fragment_def chunk_tool_call_def chunk_text_def
      split: option.splits)

lemma identity_update: "(d :: tool_identity)\<lparr>ident_call_id := c, ident_tool_id := t\<rparr> = \<lparr>ident_call_id = c, ident_tool_id = t\<rparr>"
  by (cases d) simp

lemma openai_handle_wire:
  assumes "decodes from_str to_str (snd (openai_wire e))" and "\<not> op_done p"
    and "\<And>i s. e = Piece i s \<Longrightarrow> op_tool_calls p i \<noteq> None"
  shows "openai_handle_data from_str p (to_str (snd (openai_wire e))) =
    (case e of
       OpenCall i c t \<Rightarrow>
         let m = (op_tool_calls p)(i \<mapsto> \<lparr>ident_call_id = c, ident_tool_id = t\<rparr>)
         in ([Inr (chunk_text [] (op_mode p) \<lparr>ch_delta := None, ch_tool_call_delta := Some (fragment m i [])\<rparr>)],
             p\<lparr>op_tool_calls := m\<rparr>)
     | Piece i s \<Rightarrow> ([Inr (chunk_text [] (op_mode p) \<lparr>ch_delta := None,
         ch_tool_call_delta := Some (fragment (op_tool_calls p) i s)\<rparr>)], p))"
  using assms
  by (cases e) (auto simp: openai_handle_data_def decodes_def openai_wire_def openai_value_def openai_call_def
      json_at_def json_obj_def Let_def fragment_def chunk_tool_call_def chunk_text_def map_upd_triv
      identity_update split: option.splits)


text \<open>How the engine puts the fragments together again.\<close>

lemma fold_calls_after: "fold calls_after chunks cs = accumulate (deltas chunks) cs"
proof (induction chunks arbitrary: cs)
  case (Cons c chunks)
  then show ?case
    by (simp add: calls_after_accumulate deltas_Cons [of c chunks] accumulate_append)
qed (simp add: deltas_def accumulate_def List.map_filter_def)

definition triple_of :: "pending_tool_call \<Rightarrow> string \<times> string \<times> string" where
  "triple_of c = (pc_call_id c, pc_tool_id c, pc_args_raw c)"

lemma tool_of_same: "ds \<noteq> [] \<Longrightarrow> t \<noteq> [] \<Longrightarrow> (\<And>d. d \<in> set ds \<Longrightarrow> tcd_tool_id d = t) \<Longrightarrow> tool_of ds = t"
  by (cases ds) (auto simp: tool_of_def)

text \<open>The elements of a list in the order of their first occurrence.\<close>

fun first_order :: "'a list \<Rightarrow> 'a list" where
  "first_order [] = []"
| "first_order (x # xs) = x # removeAll x (first_order xs)"

lemma first_order_remdups: "first_order xs = rev (remdups (rev xs))"
proof (induction xs)
  case (Cons x xs)
  have "remdups (ys @ [x]) = removeAll x (remdups ys) @ [x]" for ys
    by (induction ys) auto
  moreover have "rev (removeAll x ys) = removeAll x (rev ys)" for ys
    by (simp add: removeAll_filter_not_eq rev_filter)
  ultimately show ?case
    using Cons by simp
qed simp

lemma set_first_order [simp]: "set (first_order xs) = set xs"
  by (simp add: first_order_remdups)

lemma first_order_map: "inj_on f (set xs) \<Longrightarrow> first_order (map f xs) = map f (first_order xs)"
proof (induction xs)
  case (Cons x xs)
  then have "removeAll (f x) (map f (first_order xs)) = map f (removeAll x (first_order xs))"
    by (subst map_removeAll_inj_on) (auto simp: inj_on_def)
  with Cons show ?case by simp
qed simp

lemma accumulate_fragments:
  fixes ps :: "(u64 \<times> string) list"
  assumes M: "\<And>i. i \<in> fst ` set ps \<Longrightarrow> M i = Some (D i) \<and> ident_tool_id (D i) \<noteq> []"
    and inj: "inj_on (ident_call_id \<circ> D) (fst ` set ps)"
  shows "map triple_of (accumulate (map (\<lambda>(i, s). fragment M i s) ps) []) =
    map (\<lambda>i. (ident_call_id (D i), ident_tool_id (D i), concat (map snd (filter (\<lambda>p. fst p = i) ps))))
      (first_order (map fst ps))"
    (is "map triple_of ?cs = map ?call ?is")
proof -
  let ?ds = "map (\<lambda>(i, s). fragment M i s) ps"
  have frag: "fragment M i s = \<lparr>tcd_call_id = ident_call_id (D i), tcd_tool_id = ident_tool_id (D i), tcd_args_delta = s\<rparr>"
    if "i \<in> fst ` set ps" for i s
    using M [OF that] by (simp add: fragment_def)
  have "map tcd_call_id ?ds = map (ident_call_id \<circ> D) (map fst ps)"
    using frag by (force simp: comp_def)
  moreover have "first_order (map (ident_call_id \<circ> D) (map fst ps)) = map (ident_call_id \<circ> D) ?is"
    by (rule first_order_map) (use inj in simp)
  ultimately have ids: "map pc_call_id ?cs = map (ident_call_id \<circ> D) ?is"
    by (simp only: accumulate_ids flip: first_order_remdups)
  have call: "triple_of c = ?call i"
    if c: "c \<in> set ?cs" and i: "i \<in> fst ` set ps" "pc_call_id c = ident_call_id (D i)" for c i
  proof -
    have "(tcd_call_id (fragment M (fst p) (snd p)) = ident_call_id (D i)) = (fst p = i)" if "p \<in> set ps" for p
      using inj_onD [OF inj, of "fst p" i] that i(1) by (auto simp: frag)
    then have "filter (\<lambda>p. tcd_call_id (fragment M (fst p) (snd p)) = ident_call_id (D i)) ps = filter (\<lambda>p. fst p = i) ps"
      by (intro filter_cong refl) blast
    then have of: "deltas_of (ident_call_id (D i)) ?ds = map (\<lambda>(j, s). fragment M j s) (filter (\<lambda>p. fst p = i) ps)"
      by (simp add: deltas_of_def filter_map comp_def split_beta)
    have "tool_of (deltas_of (ident_call_id (D i)) ?ds) = ident_tool_id (D i)"
      unfolding of by (intro tool_of_same) (use i M frag [OF i(1)] in \<open>auto simp: filter_empty_conv\<close>)
    moreover have "concat (map tcd_args_delta (deltas_of (ident_call_id (D i)) ?ds)) =
        concat (map snd (filter (\<lambda>p. fst p = i) ps))"
      unfolding of using frag [OF i(1)] by (auto simp: comp_def split_beta intro!: arg_cong [of _ _ concat])
    ultimately show ?thesis
      using accumulate_assembled [OF c] i(2) by (simp add: assembled_def triple_of_def)
  qed
  have len: "length ?cs = length ?is"
    using arg_cong [OF ids, of length] by simp
  show ?thesis
  proof (rule nth_equalityI)
    fix k
    assume "k < length (map triple_of ?cs)"
    then have k: "k < length ?cs" "k < length ?is"
      using len by simp_all
    have "?is ! k \<in> fst ` set ps"
      using nth_mem [OF k(2)] by simp
    moreover have "pc_call_id (?cs ! k) = ident_call_id (D (?is ! k))"
      using arg_cong [OF ids, of "\<lambda>xs. xs ! k"] k by simp
    ultimately show "map triple_of ?cs ! k = map ?call ?is ! k"
      using call [OF nth_mem [OF k(1)]] k by simp
  qed (use len in simp)
qed

definition pieces_in :: "call_edit list \<Rightarrow> (u64 \<times> string) list" where
  "pieces_in es = List.map_filter (\<lambda>e. case e of Piece i s \<Rightarrow> Some (i, s) | OpenCall i c t \<Rightarrow> None) es"

text \<open>On the OpenAI wire the opening event is a fragment too, with no arguments.\<close>

definition fragments_in :: "call_edit list \<Rightarrow> (u64 \<times> string) list" where
  "fragments_in es = map (\<lambda>e. case e of Piece i s \<Rightarrow> (i, s) | OpenCall i c t \<Rightarrow> (i, [])) es"

lemma edits_simps [simp]:
  "opened [] = []" "opened (OpenCall i c t # es) = (i, c, t) # opened es" "opened (Piece i s # es) = opened es"
  "pieces_in [] = []" "pieces_in (OpenCall i c t # es) = pieces_in es" "pieces_in (Piece i s # es) = (i, s) # pieces_in es"
  by (simp_all add: opened_def pieces_in_def List.map_filter_def)

lemma pieces_filter:
  "map snd (filter (\<lambda>p. fst p = i) (pieces_in es)) = pieces i es"
  "concat (map snd (filter (\<lambda>p. fst p = i) (fragments_in es))) = concat (pieces i es)"
  by (induction es) (auto simp: pieces_in_def fragments_in_def pieces_def List.map_filter_def split: call_edit.splits)

lemma edits_ok_opened: "edits_ok seen es \<Longrightarrow> distinct (map fst (opened es)) \<and> fst ` set (opened es) \<inter> seen = {}"
  by (induction seen es rule: edits_ok.induct) auto

lemma edits_ok_pieces:
  "edits_ok seen es \<Longrightarrow> fst ` set (pieces_in es) \<subseteq> seen \<union> fst ` set (opened es)"
  "edits_ok seen es \<Longrightarrow> fst ` set (fragments_in es) \<subseteq> seen \<union> fst ` set (opened es)"
  by (induction seen es rule: edits_ok.induct) (auto simp: fragments_in_def)

lemma fragments_opened:
  "edits_ok seen es \<Longrightarrow> filter (\<lambda>i. i \<notin> seen) (first_order (map fst (fragments_in es))) = map fst (opened es)"
proof (induction seen es rule: edits_ok.induct)
  case (2 seen i c t es)
  have "filter (\<lambda>j. j \<notin> seen) (removeAll i xs) = filter (\<lambda>j. j \<notin> insert i seen) xs" for xs
    by (induction xs) auto
  with 2 show ?case
    by (simp add: fragments_in_def)
next
  case (3 seen i s es)
  have "filter (\<lambda>j. j \<notin> seen) (removeAll i xs) = filter (\<lambda>j. j \<notin> seen) xs" for xs
    using 3(2) by (induction xs) auto
  with 3 show ?case
    by (simp add: fragments_in_def)
qed (simp add: fragments_in_def)

lemma known_Cons: "known ((i, c, t) # os) = (known os)(i \<mapsto> \<lparr>ident_call_id = c, ident_tool_id = t\<rparr>)"
  by (auto simp: known_def)

lemma dom_known: "dom (known os) = fst ` set os"
  by (intro set_eqI) (simp add: known_def domIff map_of_eq_None_iff)

lemma map_add_new: "i \<notin> dom m \<Longrightarrow> (f(i \<mapsto> d)) ++ m = f ++ m(i \<mapsto> d)"
  by (auto simp: map_add_def split: option.splits)

lemma body_sent:
  assumes "\<not> sp_done P p" and "sp_handle_event P p (fst (wire e)) (to_str (snd (wire e))) = (out, p')"
    and "sse_body P (\<lambda>_. False) (Suc k) p' (map (sent to_str wire) es) = (out', f, k')"
  shows "sse_body P (\<lambda>_. False) k p (map (sent to_str wire) (e # es)) = (out @ out', sp_done P p' \<or> f, k')"
  using assms by (simp add: sent_def sse_body.simps(2))

lemma anthropic_run:
  assumes "edits_ok (dom (ap_tool_blocks p)) es" and "\<not> ap_done p"
    and "\<forall>(i, c, t)\<in>set (opened es). c \<noteq> []" and "\<forall>e\<in>set es. decodes from_str to_str (snd (anthropic_wire e))"
  shows "\<exists>chunks k'. sse_body (anthropic_sse from_str) (\<lambda>_. False) k p (map (sent to_str anthropic_wire) es) =
      (map Inr chunks, False, k') \<and>
    deltas chunks = map (\<lambda>(i, s). fragment (known (opened es) ++ ap_tool_blocks p) i s) (pieces_in es)"
  using assms
proof (induction es arbitrary: p k)
  case Nil
  show ?case by (simp add: deltas_def List.map_filter_def)
next
  case (Cons e es)
  note step = anthropic_handle_wire [of from_str to_str e p]
  show ?case
  proof (cases e)
    case (OpenCall i c t)
    let ?d = "\<lparr>ident_call_id = c, ident_tool_id = t\<rparr>"
    let ?p = "p\<lparr>ap_tool_blocks := (ap_tool_blocks p)(i \<mapsto> ?d)\<rparr>"
    have "i \<notin> dom (ap_tool_blocks p)" using Cons.prems(1) OpenCall by simp
    then have M: "known (opened (e # es)) ++ ap_tool_blocks p = known (opened es) ++ ap_tool_blocks ?p"
      by (simp add: OpenCall known_Cons map_add_new)
    have h: "anthropic_handle from_str p (fst (anthropic_wire e)) (to_str (snd (anthropic_wire e))) = ([], ?p)"
      using step Cons.prems OpenCall by simp
    have "edits_ok (dom (ap_tool_blocks ?p)) es" "\<not> ap_done ?p" "\<forall>(i, c, t)\<in>set (opened es). c \<noteq> []"
      "\<forall>e\<in>set es. decodes from_str to_str (snd (anthropic_wire e))"
      using Cons.prems OpenCall by simp_all
    note Cons.IH [OF this, of "Suc k"]
    then obtain chunks k' where
      b: "sse_body (anthropic_sse from_str) (\<lambda>_. False) (Suc k) ?p (map (sent to_str anthropic_wire) es) = (map Inr chunks, False, k')"
      and d: "deltas chunks = map (\<lambda>(i, s). fragment (known (opened es) ++ ap_tool_blocks ?p) i s) (pieces_in es)"
      by blast
    have "pieces_in (e # es) = pieces_in es" using OpenCall by simp
    moreover have "sse_body (anthropic_sse from_str) (\<lambda>_. False) k p (map (sent to_str anthropic_wire) (e # es)) =
        (map Inr chunks, False, k')"
      using body_sent [of "anthropic_sse from_str" p anthropic_wire e to_str, OF _ _ b] h Cons.prems(2) by simp
    ultimately show ?thesis
      unfolding M using d by (intro exI [of _ chunks] exI [of _ k'] conjI) (assumption | simp only:)+
  next
    case (Piece i s)
    let ?c = "chunk_text [] (ap_mode p) \<lparr>ch_delta := None, ch_tool_call_delta := Some (fragment (ap_tool_blocks p) i s)\<rparr>"
    have i: "ap_tool_blocks p i \<noteq> None" using Cons.prems(1) Piece by auto
    have h: "anthropic_handle from_str p (fst (anthropic_wire e)) (to_str (snd (anthropic_wire e))) = ([Inr ?c], p)"
      using step Cons.prems Piece i by simp
    from Cons.IH [of p "Suc k"] Cons.prems Piece obtain chunks k' where
      b: "sse_body (anthropic_sse from_str) (\<lambda>_. False) (Suc k) p (map (sent to_str anthropic_wire) es) = (map Inr chunks, False, k')"
      and d: "deltas chunks = map (\<lambda>(i, s). fragment (known (opened es) ++ ap_tool_blocks p) i s) (pieces_in es)"
      by auto
    have "fragment (known (opened es) ++ ap_tool_blocks p) i s = fragment (ap_tool_blocks p) i s"
      using i by (auto simp: fragment_def)
    then have "deltas (?c # chunks) = map (\<lambda>(i, s). fragment (known (opened es) ++ ap_tool_blocks p) i s) (pieces_in (e # es))"
      using d Piece by (simp add: deltas_Cons [of ?c chunks]) (simp add: deltas_def List.map_filter_def)
    moreover have "sse_body (anthropic_sse from_str) (\<lambda>_. False) k p (map (sent to_str anthropic_wire) (e # es)) =
        (map Inr (?c # chunks), False, k')"
      using body_sent [of "anthropic_sse from_str" p anthropic_wire e to_str, OF _ _ b] h Cons.prems(2) by simp
    ultimately show ?thesis
      using Piece by (intro exI [of _ "?c # chunks"] exI [of _ k'] conjI) simp_all
  qed
qed

lemma openai_run:
  assumes "edits_ok (dom (op_tool_calls p)) es" and "\<not> op_done p"
    and "\<forall>e\<in>set es. decodes from_str to_str (snd (openai_wire e))"
  shows "\<exists>chunks k'. sse_body (openai_sse from_str) (\<lambda>_. False) k p (map (sent to_str openai_wire) es) =
      (map Inr chunks, False, k') \<and>
    deltas chunks = map (\<lambda>(i, s). fragment (known (opened es) ++ op_tool_calls p) i s) (fragments_in es)"
  using assms
proof (induction es arbitrary: p k)
  case Nil
  show ?case by (simp add: deltas_def List.map_filter_def fragments_in_def)
next
  case (Cons e es)
  obtain i s where iss: "(case e of Piece i s \<Rightarrow> (i, s) | OpenCall i c t \<Rightarrow> (i, [])) = (i, s)" by fastforce
  define m where "m = (case e of OpenCall i c t \<Rightarrow> (op_tool_calls p)(i \<mapsto> \<lparr>ident_call_id = c, ident_tool_id = t\<rparr>)
    | Piece i s \<Rightarrow> op_tool_calls p)"
  let ?p = "p\<lparr>op_tool_calls := m\<rparr>"
  let ?c = "chunk_text [] (op_mode p) \<lparr>ch_delta := None, ch_tool_call_delta := Some (fragment m i s)\<rparr>"
  have M: "known (opened (e # es)) ++ op_tool_calls p = known (opened es) ++ m"
  proof (cases e)
    case (OpenCall j c t)
    with Cons.prems(1) have "j \<notin> dom (op_tool_calls p)" by simp
    with OpenCall show ?thesis by (simp add: m_def known_Cons map_add_new)
  qed (simp add: m_def)
  have mi: "m i \<noteq> None"
    using Cons.prems(1) iss by (cases e) (auto simp: m_def)
  have h: "openai_handle_data from_str p (to_str (snd (openai_wire e))) = ([Inr ?c], ?p)"
    using openai_handle_wire [of from_str to_str e p] Cons.prems iss
    by (cases e) (auto simp: m_def Let_def)
  have "edits_ok (dom (op_tool_calls ?p)) es" "\<not> op_done ?p" "\<forall>e\<in>set es. decodes from_str to_str (snd (openai_wire e))"
    using Cons.prems by (cases e; simp add: m_def)+
  note Cons.IH [OF this, of "Suc k"]
  then obtain chunks k' where
    b: "sse_body (openai_sse from_str) (\<lambda>_. False) (Suc k) ?p (map (sent to_str openai_wire) es) = (map Inr chunks, False, k')"
    and d: "deltas chunks = map (\<lambda>(i, s). fragment (known (opened es) ++ m) i s) (fragments_in es)"
    by auto
  have "fragment (known (opened es) ++ m) i s = fragment m i s"
    using mi by (auto simp: fragment_def)
  then have "deltas (?c # chunks) = map (\<lambda>(i, s). fragment (known (opened es) ++ m) i s) (fragments_in (e # es))"
    using d iss by (simp add: deltas_Cons [of ?c chunks]) (simp add: deltas_def List.map_filter_def fragments_in_def)
  moreover have "sse_body (openai_sse from_str) (\<lambda>_. False) k p (map (sent to_str openai_wire) (e # es)) =
      (map Inr (?c # chunks), False, k')"
    using body_sent [of "openai_sse from_str" p openai_wire e to_str, OF _ _ b] h Cons.prems(2) by simp
  ultimately show ?case
    unfolding M by (intro exI [of _ "?c # chunks"] exI [of _ k'] conjI)
qed

lemma known_inj:
  assumes "distinct (map (fst \<circ> snd) os)" and "known os i = Some d" and "known os j = Some e"
    and "ident_call_id d = ident_call_id e"
  shows "i = j"
proof -
  from assms(2,3) have "(i, ident_call_id d, ident_tool_id d) \<in> set os" "(j, ident_call_id e, ident_tool_id e) \<in> set os"
    by (auto simp: known_def dest!: map_of_SomeD)
  with assms(1,4) have "(i, ident_call_id d, ident_tool_id d) = (j, ident_call_id e, ident_tool_id e)"
    by (intro inj_onD [of "fst \<circ> snd" "set os"]) (auto simp: distinct_map)
  then show ?thesis by simp
qed


text \<open>The call a model made under an index: its id, its tool and all its pieces.\<close>

definition called :: "call_edit list \<Rightarrow> u64 \<Rightarrow> string \<times> string \<times> string" where
  "called es i = (fst (the (map_of (opened es) i)), snd (the (map_of (opened es) i)), concat (pieces i es))"

lemma called_opened:
  "edits_ok {} es \<Longrightarrow> map (called es) (map fst (opened es)) = map (\<lambda>(i, c, t). (c, t, concat (pieces i es))) (opened es)"
  using edits_ok_opened [of "{}" es] by (auto simp: called_def)

lemma accumulate_called:
  assumes "edits_ok {} es" and "\<forall>(i, c, t)\<in>set (opened es). c \<noteq> [] \<and> t \<noteq> []"
    and "distinct (map (fst \<circ> snd) (opened es))" and "fst ` set ps \<subseteq> fst ` set (opened es)"
    and "\<And>i. concat (map snd (filter (\<lambda>p. fst p = i) ps)) = concat (pieces i es)"
  shows "map triple_of (accumulate (map (\<lambda>(i, s). fragment (known (opened es)) i s) ps) []) =
    map (called es) (first_order (map fst ps))"
proof -
  let ?M = "known (opened es)"
  let ?D = "\<lambda>i. the (?M i)"
  have M: "?M i = Some (?D i) \<and> ident_tool_id (?D i) \<noteq> []" if "i \<in> fst ` set ps" for i
  proof -
    from that assms(4) obtain d where d: "?M i = Some d"
      using dom_known [of "opened es"] by blast
    then have "(i, ident_call_id d, ident_tool_id d) \<in> set (opened es)"
      by (auto simp: known_def dest!: map_of_SomeD)
    with d assms(2) show ?thesis by auto
  qed
  have inj: "inj_on (ident_call_id \<circ> ?D) (fst ` set ps)"
  proof (rule inj_onI)
    fix i j
    assume "i \<in> fst ` set ps" "j \<in> fst ` set ps" "(ident_call_id \<circ> ?D) i = (ident_call_id \<circ> ?D) j"
    with known_inj [OF assms(3), of i "?D i" j "?D j"] M show "i = j"
      by simp
  qed
  have "called es i = (ident_call_id (?D i), ident_tool_id (?D i), concat (map snd (filter (\<lambda>p. fst p = i) ps)))"
    if i: "i \<in> fst ` set ps" for i
  proof -
    obtain c t where "map_of (opened es) i = Some (c, t)"
      using subsetD [OF assms(4) i] map_of_eq_None_iff [of "opened es" i] by (cases "map_of (opened es) i") auto
    then show ?thesis
      by (simp add: called_def known_def assms(5))
  qed
  then have "map (called es) (first_order (map fst ps)) =
      map (\<lambda>i. (ident_call_id (?D i), ident_tool_id (?D i), concat (map snd (filter (\<lambda>p. fst p = i) ps))))
        (first_order (map fst ps))"
    by (intro map_cong refl) simp
  then show ?thesis
    using accumulate_fragments [of ps ?M ?D, OF M inj] by (simp only:)
qed

section \<open>Properties\<close>

text \<open>C25: tool calls survive the wire. A model opens each call once, under an index and with an id
  of its own and a tool name, both not empty, before it sends pieces of its arguments; the data of
  the events parse back. Then, whatever the interleaving of the calls, the engine puts together
  the calls the model made, each with its id, its tool and the concatenation of its pieces: on the
  OpenAI wire all of them, in the order they were opened; on the Anthropic wire those that got at
  least one piece of their input, in the order of their first pieces.\<close>

theorem tool_calls_survive_the_wire:
  assumes "edits_ok {} es" and "\<forall>(i, c, t)\<in>set (opened es). c \<noteq> [] \<and> t \<noteq> []"
    and "distinct (map (fst \<circ> snd) (opened es))"
    and "\<forall>e\<in>set es. decodes from_str to_str (snd (anthropic_wire e)) \<and> decodes from_str to_str (snd (openai_wire e))"
  shows "\<exists>a b. chunks_from_events (anthropic_sse from_str) (map (sent to_str anthropic_wire) es)
        (anthropic_parser_new mode) never_cancelled = map Inr a \<and>
      map triple_of (fold calls_after a []) = map (called es) (first_order (map fst (pieces_in es))) \<and>
      chunks_from_events (openai_sse from_str) (map (sent to_str openai_wire) es)
        (openai_parser_new mode) never_cancelled = map Inr b \<and>
      map triple_of (fold calls_after b []) =
        map (\<lambda>(i, c, t). (c, t, concat (pieces i es))) (opened es)"
proof -
  have ids: "\<forall>(i, c, t)\<in>set (opened es). c \<noteq> []"
    using assms(2) by blast
  from anthropic_run [of "anthropic_parser_new mode" es from_str to_str 0, OF _ _ ids] assms(1,4) obtain a ka where
    a: "sse_body (anthropic_sse from_str) (\<lambda>_. False) 0 (anthropic_parser_new mode) (map (sent to_str anthropic_wire) es) =
      (map Inr a, False, ka)" "deltas a = map (\<lambda>(i, s). fragment (known (opened es)) i s) (pieces_in es)"
    by (auto simp: anthropic_parser_new_def)
  from openai_run [of "openai_parser_new mode" es from_str to_str 0] assms(1,4) obtain b kb where
    b: "sse_body (openai_sse from_str) (\<lambda>_. False) 0 (openai_parser_new mode) (map (sent to_str openai_wire) es) =
      (map Inr b, False, kb)" "deltas b = map (\<lambda>(i, s). fragment (known (opened es)) i s) (fragments_in es)"
    by (auto simp: openai_parser_new_def)
  have ta: "map triple_of (fold calls_after a []) = map (called es) (first_order (map fst (pieces_in es)))"
    unfolding fold_calls_after a(2)
    by (rule accumulate_called [OF assms(1-3)])
      (use edits_ok_pieces(1) [OF assms(1)] in \<open>simp_all add: pieces_filter\<close>)
  have "map triple_of (fold calls_after b []) = map (called es) (first_order (map fst (fragments_in es)))"
    unfolding fold_calls_after b(2)
    by (rule accumulate_called [OF assms(1-3)])
      (use edits_ok_pieces(2) [OF assms(1)] in \<open>simp_all add: pieces_filter\<close>)
  also have "first_order (map fst (fragments_in es)) = map fst (opened es)"
    using fragments_opened [OF assms(1)] by simp
  finally have tb: "map triple_of (fold calls_after b []) = map (\<lambda>(i, c, t). (c, t, concat (pieces i es))) (opened es)"
    by (simp only: called_opened [OF assms(1)])
  have never: "never_cancelled = (\<lambda>_. False)"
    by (simp add: never_cancelled_def fun_eq_iff)
  show ?thesis
    by (rule exI [of _ a], rule exI [of _ b], intro conjI ta tb)
      (simp_all add: chunks_from_events_def never a(1) b(1))
qed

text \<open>A call without input is lost on the Anthropic wire: the event that opens it becomes no chunk, so
  that a round whose only call has no piece ends as if the model had stopped.\<close>

theorem anthropic_call_without_input_lost:
  assumes "decodes from_str to_str (snd (anthropic_wire (OpenCall i c t)))" and "c \<noteq> []"
  shows "chunks_from_events (anthropic_sse from_str) [sent to_str anthropic_wire (OpenCall i c t)]
      (anthropic_parser_new mode) never_cancelled = [] \<and>
    round_end FrToolCall (fold calls_after [] []) th = RoundFinished FrStop"
proof -
  have "\<exists>chunks k'. sse_body (anthropic_sse from_str) (\<lambda>_. False) 0 (anthropic_parser_new mode)
      (map (sent to_str anthropic_wire) [OpenCall i c t]) = (map Inr chunks, False, k') \<and> deltas chunks = []"
    using anthropic_run [of "anthropic_parser_new mode" "[OpenCall i c t]" from_str to_str 0] assms
    by (simp add: anthropic_parser_new_def)
  moreover have "anthropic_handle from_str (anthropic_parser_new mode) (fst (anthropic_wire (OpenCall i c t)))
      (to_str (snd (anthropic_wire (OpenCall i c t)))) = ([], (anthropic_parser_new mode)
        \<lparr>ap_tool_blocks := (ap_tool_blocks (anthropic_parser_new mode))(i \<mapsto> \<lparr>ident_call_id = c, ident_tool_id = t\<rparr>)\<rparr>)"
    using anthropic_handle_wire [OF assms(1), of "anthropic_parser_new mode"] assms(2)
    by (simp add: anthropic_parser_new_def)
  ultimately show ?thesis
    by (simp add: chunks_from_events_def sent_def sse_body.simps(2) round_end_def anthropic_parser_new_def
        never_cancelled_def)
qed

text \<open>Two interleaved calls, and a codec that knows their events.\<close>

definition demo_edits :: "call_edit list" where
  "demo_edits = [OpenCall 0 ''c0'' ''read'', OpenCall 1 ''c1'' ''write'', Piece 1 ''{'', Piece 0 ''{}'', Piece 1 ''}'']"

definition demo_events :: "json list" where
  "demo_events = map (snd \<circ> anthropic_wire) demo_edits @ map (snd \<circ> openai_wire) demo_edits"

definition demo_to_str :: "json \<Rightarrow> string" where
  "demo_to_str j = [char_of (65 + length (takeWhile (\<lambda>x. x \<noteq> j) demo_events))]"

definition demo_from_str :: "string \<Rightarrow> string + json" where
  "demo_from_str s = (case s of [c] \<Rightarrow>
     if of_char c - 65 < length demo_events then Inr (demo_events ! (of_char c - 65)) else Inl [] | _ \<Rightarrow> Inl [])"

lemma demo_decodes:
  assumes "j \<in> set demo_events"
  shows "decodes demo_from_str demo_to_str j"
proof -
  let ?n = "length (takeWhile (\<lambda>x. x \<noteq> j) demo_events)"
  from split_list_first [OF assms] obtain ys zs where ys: "demo_events = ys @ j # zs" "j \<notin> set ys" by blast
  then have "takeWhile (\<lambda>x. x \<noteq> j) (ys @ j # zs) = ys"
    by (subst takeWhile_append2) auto
  then have n: "?n < length demo_events" "demo_events ! ?n = j"
    by (simp_all add: ys(1))
  have "length demo_events = 10"
    by (simp add: demo_events_def demo_edits_def)
  with n(1) have "?n < 10" by simp
  then have c: "of_char (char_of (65 + ?n) :: char) = 65 + ?n"
    by simp
  have "\<not> is_whitespace [char_of (65 + ?n)]"
  proof
    assume "is_whitespace [char_of (65 + ?n)]"
    then have "(of_char (char_of (65 + ?n) :: char) :: nat) \<in> {9, 10, 11, 12, 13, 32}"
      by (auto simp: is_whitespace_def white_space_def utf8_def)
    with c \<open>?n < 10\<close> show False by auto
  qed
  then have "str_trim (demo_to_str j) = demo_to_str j"
    by (simp add: str_trim_def demo_to_str_def)
  with n c show ?thesis
    by (simp add: decodes_def demo_from_str_def demo_to_str_def)
qed

theorem tool_calls_survive_the_wire_witness:
  "\<exists>a b. chunks_from_events (anthropic_sse demo_from_str) (map (sent demo_to_str anthropic_wire) demo_edits)
        (anthropic_parser_new Hosted) never_cancelled = map Inr a \<and>
      map triple_of (fold calls_after a []) = [(''c1'', ''write'', ''{}''), (''c0'', ''read'', ''{}'')] \<and>
      chunks_from_events (openai_sse demo_from_str) (map (sent demo_to_str openai_wire) demo_edits)
        (openai_parser_new Hosted) never_cancelled = map Inr b \<and>
      map triple_of (fold calls_after b []) = [(''c0'', ''read'', ''{}''), (''c1'', ''write'', ''{}'')]"
proof -
  have ok: "edits_ok {} demo_edits" "\<forall>(i, c, t)\<in>set (opened demo_edits). c \<noteq> [] \<and> t \<noteq> []"
    "distinct (map (fst \<circ> snd) (opened demo_edits))"
    by (simp_all add: demo_edits_def)
  have "\<forall>e\<in>set demo_edits. decodes demo_from_str demo_to_str (snd (anthropic_wire e)) \<and>
      decodes demo_from_str demo_to_str (snd (openai_wire e))"
    by (auto intro!: demo_decodes simp: demo_events_def)
  note law = tool_calls_survive_the_wire [OF ok this, of Hosted]
  have "map (called demo_edits) (first_order (map fst (pieces_in demo_edits))) =
      [(''c1'', ''write'', ''{}''), (''c0'', ''read'', ''{}'')]"
    "map (\<lambda>(i, c, t). (c, t, concat (pieces i demo_edits))) (opened demo_edits) =
      [(''c0'', ''read'', ''{}''), (''c1'', ''write'', ''{}'')]"
    by (simp_all add: demo_edits_def called_def pieces_def List.map_filter_def)
  with law show ?thesis
    by simp
qed

end
