(* ===== verification/Hosted_Requests.thy ===== *)
theory Hosted_Requests
  imports Hosted_Stream
begin

text \<open>
  The requests of the hosted providers: \<open>request_body\<close> and the \<open>InferenceProvider\<close> instances of
  \<open>crates/mahi-compute/src/hosted/anthropic.rs\<close> and \<open>openai.rs\<close>.

  \<open>to_str\<close> is the text of a JSON value (\<open>serde_json\<close>). An HTTP exchange is the parameter \<open>post\<close>: it
  takes the URL, the headers and the body, and gives a transport failure (its text, whether it is
  a timeout, whether it is a connection failure) or a response (the status, the body as text, the
  body as server-sent events).
\<close>

section \<open>Shared helpers\<close>

definition saturating_add :: "'a::len word \<Rightarrow> 'a word \<Rightarrow> 'a word" where
  "saturating_add a b = (if unat a + unat b < 2 ^ LENGTH('a) then a + b else - 1)"

lemma unat_saturating_add:
  fixes a b :: "'a::len word"
  shows "unat (saturating_add a b) = min (unat a + unat b) (2 ^ LENGTH('a) - 1)"
  by (auto simp: saturating_add_def unat_word_ariths unat_minus_one_word min_def)

text \<open>\<open>f32\<close> to JSON: a number that is not finite becomes \<open>null\<close>.\<close>

definition json_of_f32 :: "f32 \<Rightarrow> json" where
  "json_of_f32 x = (case x of Fin r \<Rightarrow> JFloat x | _ \<Rightarrow> JNull)"

definition json_of_u32 :: "u32 \<Rightarrow> json" where
  "json_of_u32 n = JInt (uint n)"

fun tool_output_to_string :: "(json \<Rightarrow> string) \<Rightarrow> json \<Rightarrow> string" where
  "tool_output_to_string to_str (JStr s) = s"
| "tool_output_to_string to_str other = to_str other"

definition text_part :: "string \<Rightarrow> json" where
  "text_part t = json_obj [(''type'', JStr ''text''), (''text'', JStr t)]"

definition role_message :: "string \<Rightarrow> json \<Rightarrow> json" where
  "role_message role content = json_obj [(''role'', JStr role), (''content'', content)]"

text \<open>The user turn of both formats: a string, or parts when there are images.\<close>

definition user_message :: "json list \<Rightarrow> string \<Rightarrow> json" where
  "user_message images t =
     (if images = [] then role_message ''user'' (JStr t)
      else role_message ''user'' (JArr ((if t \<noteq> [] then [text_part t] else []) @ images)))"

section \<open>anthropic.rs\<close>

definition ANTHROPIC_MAX_TOKENS :: u32 where
  "ANTHROPIC_MAX_TOKENS = 1024"

fun anthropic_image_block :: "content_block \<Rightarrow> json option" where
  "anthropic_image_block (ImageBlock media_type data) = Some (json_obj [(''type'', JStr ''image''),
     (''source'', json_obj [(''type'', JStr ''base64''), (''media_type'', JStr media_type), (''data'', JStr data)])])"
| "anthropic_image_block _ = None"

definition anthropic_image_blocks :: "message \<Rightarrow> json list" where
  "anthropic_image_blocks m = List.map_filter anthropic_image_block (msg_content m)"

fun anthropic_thinking_block :: "content_block \<Rightarrow> json option" where
  "anthropic_thinking_block (ThinkingBlock thinking signature) =
     Some (json_obj [(''type'', JStr ''thinking''), (''thinking'', JStr thinking), (''signature'', JStr signature)])"
| "anthropic_thinking_block _ = None"

fun anthropic_assistant_block :: "content_block \<Rightarrow> json option" where
  "anthropic_assistant_block (TextBlock t) = (if t \<noteq> [] then Some (text_part t) else None)"
| "anthropic_assistant_block (ToolCallBlock call_id tool_id args) =
     Some (json_obj [(''type'', JStr ''tool_use''), (''id'', JStr call_id), (''name'', JStr tool_id), (''input'', args)])"
| "anthropic_assistant_block _ = None"

fun anthropic_result_block :: "(json \<Rightarrow> string) \<Rightarrow> content_block \<Rightarrow> json option" where
  "anthropic_result_block to_str (ToolResultBlock call_id output) =
     Some (json_obj [(''type'', JStr ''tool_result''), (''tool_use_id'', JStr call_id),
       (''content'', JStr (tool_output_to_string to_str output))])"
| "anthropic_result_block to_str _ = None"

fun is_tool_call :: "content_block \<Rightarrow> bool" where
  "is_tool_call (ToolCallBlock call_id tool_id args) = True"
| "is_tool_call _ = False"

fun is_thinking :: "content_block \<Rightarrow> bool" where
  "is_thinking (ThinkingBlock thinking signature) = True"
| "is_thinking _ = False"

definition anthropic_assistant :: "message \<Rightarrow> json" where
  "anthropic_assistant m =
     (let blocks = List.map_filter anthropic_thinking_block (msg_content m) @
            List.map_filter anthropic_assistant_block (msg_content m);
          has_tool_use = (\<exists>b\<in>set (msg_content m). is_tool_call b)
      in role_message ''assistant''
           (if blocks = [] then JStr (text_content m)
            else if has_tool_use \<or> 1 < length blocks then JArr blocks
            else JStr (text_content m)))"

definition anthropic_tool :: "(json \<Rightarrow> string) \<Rightarrow> message \<Rightarrow> json" where
  "anthropic_tool to_str m =
     (let content = List.map_filter (anthropic_result_block to_str) (msg_content m) @ anthropic_image_blocks m
      in role_message ''user'' (if content = [] then JStr (text_content m) else JArr content))"

definition anthropic_push ::
  "(json \<Rightarrow> string) \<Rightarrow> message \<Rightarrow> string list \<times> json list \<Rightarrow> string list \<times> json list" where
  "anthropic_push to_str m s =
     (case msg_role m of
        System \<Rightarrow> (fst s @ [text_content m], snd s)
      | Assistant \<Rightarrow> (fst s, snd s @ [anthropic_assistant m])
      | Tool \<Rightarrow> (fst s, snd s @ [anthropic_tool to_str m])
      | User \<Rightarrow> (fst s, snd s @ [user_message (anthropic_image_blocks m) (text_content m)]))"

definition unreplayable_tool_turn :: "message list \<Rightarrow> bool" where
  "unreplayable_tool_turn ms =
     (\<exists>m\<in>set ms. msg_role m = Assistant \<and> (\<exists>b\<in>set (msg_content m). is_tool_call b) \<and>
        \<not> (\<exists>b\<in>set (msg_content m). is_thinking b))"

definition anthropic_tool_spec :: "tool_spec \<Rightarrow> json" where
  "anthropic_tool_spec t = json_obj [(''name'', JStr (ts_id t)), (''description'', JStr (ts_description t)),
     (''input_schema'', ts_input_schema t)]"

definition anthropic_request_body :: "(json \<Rightarrow> string) \<Rightarrow> string \<Rightarrow> inference_request \<Rightarrow> json" where
  "anthropic_request_body to_str model req =
     (let (system_parts, messages) = fold (anthropic_push to_str) (req_messages req) ([], []);
          body = json_obj [(''model'', JStr model), (''messages'', JArr messages),
            (''max_tokens'', json_of_u32 (unwrap_or ANTHROPIC_MAX_TOKENS (req_max_tokens req))), (''stream'', JBool True)];
          body = (if system_parts \<noteq> [] then json_insert ''system'' (JStr (str_join [CHR 0x0A] system_parts)) body else body);
          thinking = (if unreplayable_tool_turn (req_messages req) then None else req_thinking req);
          body = (case thinking of
             Some th \<Rightarrow>
               let budget = max (budget_tokens th) 1024;
                   most = max (unwrap_or ANTHROPIC_MAX_TOKENS (req_max_tokens req)) (saturating_add budget ANTHROPIC_MAX_TOKENS)
               in json_insert ''thinking'' (json_obj [(''type'', JStr ''enabled''), (''budget_tokens'', json_of_u32 budget)])
                    (json_insert ''max_tokens'' (json_of_u32 most) body)
           | None \<Rightarrow>
               (case req_temperature req of
                  Some t \<Rightarrow> json_insert ''temperature'' (json_of_f32 t) body
                | None \<Rightarrow> body))
      in case req_tools req of
           Some tools \<Rightarrow> json_insert ''tools'' (JArr (map anthropic_tool_spec tools)) body
         | None \<Rightarrow> body)"

section \<open>openai.rs\<close>

fun openai_image_block :: "content_block \<Rightarrow> json option" where
  "openai_image_block (ImageBlock media_type data) = Some (json_obj [(''type'', JStr ''image_url''),
     (''image_url'', json_obj [(''url'', JStr (''data:'' @ media_type @ '';base64,'' @ data))])])"
| "openai_image_block _ = None"

definition openai_image_blocks :: "message \<Rightarrow> json list" where
  "openai_image_blocks m = List.map_filter openai_image_block (msg_content m)"

fun openai_tool_call :: "(json \<Rightarrow> string) \<Rightarrow> content_block \<Rightarrow> json option" where
  "openai_tool_call to_str (ToolCallBlock call_id tool_id args) =
     Some (json_obj [(''id'', JStr call_id), (''type'', JStr ''function''),
       (''function'', json_obj [(''name'', JStr tool_id), (''arguments'', JStr (to_str args))])])"
| "openai_tool_call to_str _ = None"

fun openai_tool_result :: "(json \<Rightarrow> string) \<Rightarrow> content_block \<Rightarrow> json option" where
  "openai_tool_result to_str (ToolResultBlock call_id output) =
     Some (json_obj [(''role'', JStr ''tool''), (''tool_call_id'', JStr call_id),
       (''content'', JStr (tool_output_to_string to_str output))])"
| "openai_tool_result to_str _ = None"

definition openai_assistant :: "(json \<Rightarrow> string) \<Rightarrow> message \<Rightarrow> json" where
  "openai_assistant to_str m =
     (let tool_calls = List.map_filter (openai_tool_call to_str) (msg_content m);
          t = text_content m;
          msg = json_insert ''content'' (if t = [] \<and> tool_calls \<noteq> [] then JNull else JStr t)
            (json_obj [(''role'', JStr ''assistant'')])
      in if tool_calls \<noteq> [] then json_insert ''tool_calls'' (JArr tool_calls) msg else msg)"

definition openai_tool :: "(json \<Rightarrow> string) \<Rightarrow> message \<Rightarrow> json list" where
  "openai_tool to_str m =
     (let results = List.map_filter (openai_tool_result to_str) (msg_content m);
          images = openai_image_blocks m;
          shots = (if images \<noteq> []
            then [role_message ''user'' (JArr (text_part ''Screenshot from the tool result above:'' # images))] else [])
      in results @ shots @
         (if results = [] \<and> shots = [] then [role_message ''user'' (JStr (text_content m))] else []))"

definition openai_push :: "(json \<Rightarrow> string) \<Rightarrow> message \<Rightarrow> json list \<Rightarrow> json list" where
  "openai_push to_str m messages =
     messages @ (case msg_role m of
        System \<Rightarrow> [role_message ''system'' (JStr (text_content m))]
      | User \<Rightarrow> [user_message (openai_image_blocks m) (text_content m)]
      | Assistant \<Rightarrow> [openai_assistant to_str m]
      | Tool \<Rightarrow> openai_tool to_str m)"

definition openai_tool_spec :: "tool_spec \<Rightarrow> json" where
  "openai_tool_spec t = json_obj [(''type'', JStr ''function''), (''function'',
     json_obj [(''name'', JStr (ts_id t)), (''description'', JStr (ts_description t)), (''parameters'', ts_input_schema t)])]"

definition openai_request_body :: "(json \<Rightarrow> string) \<Rightarrow> string \<Rightarrow> inference_request \<Rightarrow> json" where
  "openai_request_body to_str model req =
     (let body = json_obj [(''model'', JStr model), (''messages'', JArr (fold (openai_push to_str) (req_messages req) [])),
            (''stream'', JBool True)];
          body = (case req_max_tokens req of Some n \<Rightarrow> json_insert ''max_tokens'' (json_of_u32 n) body | None \<Rightarrow> body);
          body = (case req_temperature req of Some t \<Rightarrow> json_insert ''temperature'' (json_of_f32 t) body | None \<Rightarrow> body);
          body = (case req_tools req of
             None \<Rightarrow> (case req_thinking req of
                        Some th \<Rightarrow> json_insert ''reasoning_effort'' (JStr (reasoning_effort th)) body
                      | None \<Rightarrow> body)
           | Some tools \<Rightarrow> body)
      in case req_tools req of
           Some tools \<Rightarrow> json_insert ''tools'' (JArr (map openai_tool_spec tools)) body
         | None \<Rightarrow> body)"

section \<open>The providers\<close>

datatype http_outcome =
    TransportFailure string bool bool
  | Response nat string "sse_item list"

type_synonym http_post = "string \<Rightarrow> (string \<times> string) list \<Rightarrow> json \<Rightarrow> http_outcome"

text \<open>What the code outside gives: the exchange, JSON, and how a status code prints.\<close>

record http_env =
  he_post :: http_post
  he_to_str :: "json \<Rightarrow> string"
  he_from_str :: "string \<Rightarrow> string + json"
  he_show_status :: "nat \<Rightarrow> string"

definition hosted_can_handle :: "capability_set \<Rightarrow> inference_request \<Rightarrow> can_handle_result" where
  "hosted_can_handle offered req =
     (if satisfied_by (req_required_caps req) offered then chr_yes
      else \<lparr>chr_capable = False, chr_missing_caps = missing_from (req_required_caps req) offered,
            chr_escalation_hint = None\<rparr>)"

definition hosted_stream ::
  "http_env \<Rightarrow> string \<Rightarrow> 'p sse_chunk_parser \<Rightarrow> 'p \<Rightarrow> cancel_token \<Rightarrow> http_outcome \<Rightarrow> contract_error + inference_stream" where
  "hosted_stream E provider P p cancel outcome =
     (case outcome of
        TransportFailure err is_timeout is_connect \<Rightarrow> Inl (transport_error err is_timeout is_connect)
      | Response status detail events \<Rightarrow>
          if \<not> (200 \<le> status \<and> status < 300) then Inl (http_error (he_show_status E) provider status detail)
          else Inr (chunks_from_events P events p cancel))"

definition ANTHROPIC_MESSAGES_URL :: string where
  "ANTHROPIC_MESSAGES_URL = ''https://api.anthropic.com/v1/messages''"

definition ANTHROPIC_VERSION :: string where
  "ANTHROPIC_VERSION = ''2023-06-01''"

record anthropic_provider =
  an_api_key :: string
  an_model :: string

definition DEFAULT_MODEL :: string where
  "DEFAULT_MODEL = ''claude-fable-5''"

definition anthropic_new :: "string \<Rightarrow> anthropic_provider" where
  "anthropic_new api_key = \<lparr>an_api_key = api_key, an_model = DEFAULT_MODEL\<rparr>"

definition anthropic_with_model :: "string \<Rightarrow> string \<Rightarrow> anthropic_provider" where
  "anthropic_with_model api_key model = \<lparr>an_api_key = api_key, an_model = model\<rparr>"

definition anthropic_descriptor :: "anthropic_provider \<Rightarrow> model_descriptor" where
  "anthropic_descriptor a =
     \<lparr>md_id = an_model a, md_display_name = ''Hosted (Anthropic): '' @ an_model a, md_context_window = 200000,
      md_capabilities = \<lparr>cap_vision = True, cap_tool_calling = True, cap_min_context_window = 200000,
        cap_code_gen = True, cap_thinking = True\<rparr>,
      md_limitations = [], md_size_bytes = None, md_quantization = None, md_source = SrcHosted ''anthropic'',
      md_perf_profile = \<lparr>ttft_ms = 700, tok_per_sec = Fin 70\<rparr>\<rparr>"

definition anthropic_can_handle :: "anthropic_provider \<Rightarrow> inference_request \<Rightarrow> can_handle_result" where
  "anthropic_can_handle a req = hosted_can_handle (md_capabilities (anthropic_descriptor a)) req"

definition anthropic_generate ::
  "http_env \<Rightarrow> anthropic_provider \<Rightarrow> inference_request \<Rightarrow> cancel_token \<Rightarrow> contract_error + inference_stream" where
  "anthropic_generate E a req cancel =
     hosted_stream E ''anthropic'' (anthropic_sse (he_from_str E)) (anthropic_parser_new Hosted) cancel
       (he_post E ANTHROPIC_MESSAGES_URL
          [(''x-api-key'', an_api_key a), (''anthropic-version'', ANTHROPIC_VERSION)]
          (anthropic_request_body (he_to_str E) (an_model a) req))"

record openai_provider =
  oa_base_url :: string
  oa_api_key :: string
  oa_model :: string
  oa_mode :: compute_mode

definition openai_new :: "string \<Rightarrow> string \<Rightarrow> string \<Rightarrow> openai_provider" where
  "openai_new base_url api_key model =
     \<lparr>oa_base_url = base_url, oa_api_key = api_key, oa_model = model, oa_mode = Hosted\<rparr>"

definition with_mode :: "compute_mode \<Rightarrow> openai_provider \<Rightarrow> openai_provider" where
  "with_mode mode o' = o'\<lparr>oa_mode := mode\<rparr>"

definition trim_end_slashes :: "string \<Rightarrow> string" where
  "trim_end_slashes s = rev (dropWhile (\<lambda>c. c = CHR ''/'') (rev s))"

definition chat_completions_url :: "openai_provider \<Rightarrow> string" where
  "chat_completions_url o' = trim_end_slashes (oa_base_url o') @ ''/v1/chat/completions''"

definition openai_descriptor :: "openai_provider \<Rightarrow> model_descriptor" where
  "openai_descriptor o' =
     \<lparr>md_id = oa_model o', md_display_name = ''Hosted (OpenAI-compat): '' @ oa_model o', md_context_window = 128000,
      md_capabilities = \<lparr>cap_vision = True, cap_tool_calling = True, cap_min_context_window = 128000,
        cap_code_gen = True, cap_thinking = True\<rparr>,
      md_limitations = [], md_size_bytes = None, md_quantization = None, md_source = SrcHosted ''openai-compat'',
      md_perf_profile = \<lparr>ttft_ms = 600, tok_per_sec = Fin 80\<rparr>\<rparr>"

definition openai_can_handle :: "openai_provider \<Rightarrow> inference_request \<Rightarrow> can_handle_result" where
  "openai_can_handle o' req = hosted_can_handle (md_capabilities (openai_descriptor o')) req"

definition openai_generate ::
  "http_env \<Rightarrow> openai_provider \<Rightarrow> inference_request \<Rightarrow> cancel_token \<Rightarrow> contract_error + inference_stream" where
  "openai_generate E o' req cancel =
     hosted_stream E ''openai-compat'' (openai_sse (he_from_str E)) (openai_parser_new (oa_mode o')) cancel
       (he_post E (chat_completions_url o') [(''authorization'', ''Bearer '' @ oa_api_key o')]
          (openai_request_body (he_to_str E) (oa_model o') req))"


section \<open>Reading a request back\<close>

text \<open>What a server finds in a request: its messages, the structured parts of a message, and in them
  the tool calls and tool results.\<close>

definition wire_messages :: "json \<Rightarrow> json list" where
  "wire_messages body = unwrap_or [] (json_as_array (json_at body ''messages''))"

definition wire_parts :: "json \<Rightarrow> json list" where
  "wire_parts msg = unwrap_or [] (json_as_array (json_at msg ''content''))"

definition typed_part :: "string \<Rightarrow> (json \<Rightarrow> 'a) \<Rightarrow> json \<Rightarrow> 'a option" where
  "typed_part t f p = (if json_at p ''type'' = JStr t then Some (f p) else None)"

definition anthropic_tool_uses :: "json \<Rightarrow> (json \<times> json \<times> json) list" where
  "anthropic_tool_uses body = concat (map (\<lambda>m. List.map_filter
     (typed_part ''tool_use'' (\<lambda>p. (json_at p ''id'', json_at p ''name'', json_at p ''input''))) (wire_parts m)) (wire_messages body))"

definition anthropic_tool_results :: "json \<Rightarrow> (json \<times> json) list" where
  "anthropic_tool_results body = concat (map (\<lambda>m. List.map_filter
     (typed_part ''tool_result'' (\<lambda>p. (json_at p ''tool_use_id'', json_at p ''content''))) (wire_parts m)) (wire_messages body))"

definition openai_tool_uses :: "json \<Rightarrow> (json \<times> json \<times> json) list" where
  "openai_tool_uses body = concat (map (\<lambda>m. map (\<lambda>c. (json_at c ''id'', json_at (json_at c ''function'') ''name'',
     json_at (json_at c ''function'') ''arguments'')) (unwrap_or [] (json_as_array (json_at m ''tool_calls'')))) (wire_messages body))"

definition openai_tool_results :: "json \<Rightarrow> (json \<times> json) list" where
  "openai_tool_results body = List.map_filter (\<lambda>m. if json_at m ''role'' = JStr ''tool''
     then Some (json_at m ''tool_call_id'', json_at m ''content'') else None) (wire_messages body)"

text \<open>What the conversation holds: the calls of its assistant turns and the results of its tool turns.\<close>

fun call_of :: "content_block \<Rightarrow> (string \<times> string \<times> json) option" where
  "call_of (ToolCallBlock c t args) = Some (c, t, args)"
| "call_of _ = None"

fun result_of :: "content_block \<Rightarrow> (string \<times> json) option" where
  "result_of (ToolResultBlock c out) = Some (c, out)"
| "result_of _ = None"

definition history_calls :: "message list \<Rightarrow> (string \<times> string \<times> json) list" where
  "history_calls ms = concat (map (\<lambda>m. if msg_role m = Assistant then List.map_filter call_of (msg_content m) else []) ms)"

definition history_results :: "message list \<Rightarrow> (string \<times> json) list" where
  "history_results ms = concat (map (\<lambda>m. if msg_role m = Tool then List.map_filter result_of (msg_content m) else []) ms)"

lemma map_filter_Nil [simp]: "List.map_filter f [] = []"
  by (simp add: List.map_filter_def)

lemma map_filter_Cons: "List.map_filter f (x # xs) = (case f x of Some y \<Rightarrow> y # List.map_filter f xs | None \<Rightarrow> List.map_filter f xs)"
  by (simp add: List.map_filter_def split: option.splits)

lemma map_filter_append [simp]: "List.map_filter f (xs @ ys) = List.map_filter f xs @ List.map_filter f ys"
  by (simp add: List.map_filter_def)

lemma in_map_filter: "y \<in> set (List.map_filter f xs) \<longleftrightarrow> (\<exists>x\<in>set xs. f x = Some y)"
  by (induction xs) (auto simp: map_filter_Cons split: option.splits)

lemma map_filter_None: "(\<And>x. x \<in> set xs \<Longrightarrow> f x = None) \<Longrightarrow> List.map_filter f xs = []"
  by (induction xs) (auto simp: map_filter_Cons)

lemma map_filter_map_filter:
  "List.map_filter f (List.map_filter g xs) = List.map_filter (\<lambda>x. Option.bind (g x) f) xs"
  by (induction xs) (auto simp: map_filter_Cons split: option.splits)

lemma map_map_filter: "map h (List.map_filter g xs) = List.map_filter (\<lambda>x. map_option h (g x)) xs"
  by (induction xs) (auto simp: map_filter_Cons split: option.splits)

lemma map_filter_cong_fun: "(\<And>x. f x = g x) \<Longrightarrow> List.map_filter f xs = List.map_filter g xs"
  by (induction xs) (auto simp: map_filter_Cons split: option.splits)

definition anthropic_message :: "(json \<Rightarrow> string) \<Rightarrow> message \<Rightarrow> json list" where
  "anthropic_message to_str m = snd (anthropic_push to_str m ([], []))"

lemma anthropic_fold:
  "fold (anthropic_push to_str) ms s =
     (fst s @ map text_content (filter (\<lambda>m. msg_role m = System) ms), snd s @ concat (map (anthropic_message to_str) ms))"
  by (induction ms arbitrary: s) (auto simp: anthropic_push_def anthropic_message_def split: message_role.splits)

lemma openai_fold: "fold (openai_push to_str) ms js = js @ concat (map (\<lambda>m. openai_push to_str m []) ms)"
  by (induction ms arbitrary: js) (auto simp: openai_push_def)

lemmas json_eval = json_at_def json_obj_def json_of_u32_def Let_def

lemma anthropic_wire_messages:
  "wire_messages (anthropic_request_body to_str model req) = concat (map (anthropic_message to_str) (req_messages req))"
  unfolding anthropic_request_body_def anthropic_fold wire_messages_def
  by (cases "req_tools req"; cases "req_temperature req"; cases "req_thinking req") (auto simp: json_eval)

lemma openai_wire_messages:
  "wire_messages (openai_request_body to_str model req) = concat (map (\<lambda>m. openai_push to_str m []) (req_messages req))"
  unfolding openai_request_body_def openai_fold wire_messages_def
  by (cases "req_tools req"; cases "req_temperature req"; cases "req_thinking req"; cases "req_max_tokens req")
    (auto simp: json_eval)


lemma part_types:
  "typed_part ''tool_use'' f (text_part t) = None" "typed_part ''tool_result'' f (text_part t) = None"
  by (simp_all add: typed_part_def text_part_def json_eval)

lemma image_parts:
  "Option.bind (anthropic_image_block b) (typed_part ''tool_use'' f) = None"
  "Option.bind (anthropic_image_block b) (typed_part ''tool_result'' f) = None"
  by (cases b; simp add: typed_part_def json_eval)+

lemma anthropic_parts:
  "Option.bind (anthropic_thinking_block b) (typed_part ''tool_use'' f) = None"
  "Option.bind (anthropic_thinking_block b) (typed_part ''tool_result'' f) = None"
  "Option.bind (anthropic_assistant_block b) (typed_part ''tool_result'' f) = None"
  "Option.bind (anthropic_assistant_block b) (typed_part ''tool_use'' (\<lambda>p. (json_at p ''id'', json_at p ''name'', json_at p ''input''))) =
     map_option (\<lambda>(c, t, args). (JStr c, JStr t, args)) (call_of b)"
  "Option.bind (anthropic_result_block to_str b) (typed_part ''tool_use'' f) = None"
  "Option.bind (anthropic_result_block to_str b) (typed_part ''tool_result'' (\<lambda>p. (json_at p ''tool_use_id'', json_at p ''content''))) =
     map_option (\<lambda>(c, out). (JStr c, JStr (tool_output_to_string to_str out))) (result_of b)"
  by (cases b; simp add: typed_part_def text_part_def json_eval)+

lemma wire_parts_role_message [simp]: "wire_parts (role_message r c) = unwrap_or [] (json_as_array c)"
  by (simp add: wire_parts_def role_message_def json_eval)

lemma no_call_no_use: "\<not> (\<exists>b\<in>set bs. is_tool_call b) \<Longrightarrow> List.map_filter (\<lambda>b. map_option h (call_of b)) bs = []"
proof (rule map_filter_None)
  fix b assume "\<not> (\<exists>b\<in>set bs. is_tool_call b)" and "b \<in> set bs"
  then have "\<not> is_tool_call b" by blast
  then show "map_option h (call_of b) = None" by (cases b) simp_all
qed

lemma no_block_no_use:
  "List.map_filter anthropic_assistant_block bs = [] \<Longrightarrow> List.map_filter (\<lambda>b. map_option h (call_of b)) bs = []"
proof (induction bs)
  case (Cons b bs)
  then show ?case by (cases b) (auto simp: map_filter_Cons split: if_splits)
qed simp

lemma no_block_no_result:
  "List.map_filter (anthropic_result_block to_str) bs = [] \<Longrightarrow> List.map_filter (\<lambda>b. map_option h (result_of b)) bs = []"
proof (induction bs)
  case (Cons b bs)
  then show ?case by (cases b) (auto simp: map_filter_Cons)
qed simp

lemma anthropic_message_uses:
  "concat (map (\<lambda>j. List.map_filter (typed_part ''tool_use'' (\<lambda>p. (json_at p ''id'', json_at p ''name'', json_at p ''input'')))
       (wire_parts j)) (anthropic_message to_str m)) =
     map (\<lambda>(c, t, args). (JStr c, JStr t, args))
       (if msg_role m = Assistant then List.map_filter call_of (msg_content m) else [])"
  by (cases "msg_role m")
    (auto simp: anthropic_message_def anthropic_push_def user_message_def anthropic_assistant_def anthropic_tool_def
      anthropic_image_blocks_def Let_def map_filter_map_filter map_map_filter image_parts anthropic_parts part_types
      map_filter_Cons map_filter_None no_call_no_use no_block_no_use)

lemma anthropic_message_results:
  "concat (map (\<lambda>j. List.map_filter (typed_part ''tool_result'' (\<lambda>p. (json_at p ''tool_use_id'', json_at p ''content'')))
       (wire_parts j)) (anthropic_message to_str m)) =
     map (\<lambda>(c, out). (JStr c, JStr (tool_output_to_string to_str out)))
       (if msg_role m = Tool then List.map_filter result_of (msg_content m) else [])"
  by (cases "msg_role m")
    (auto simp: anthropic_message_def anthropic_push_def user_message_def anthropic_assistant_def anthropic_tool_def
      anthropic_image_blocks_def Let_def map_filter_map_filter map_map_filter image_parts anthropic_parts part_types
      map_filter_Cons map_filter_None no_block_no_result)


lemma openai_results_only:
  "List.map_filter (\<lambda>j. if json_at j ''role'' = JStr ''tool'' then Some (json_at j ''tool_call_id'', json_at j ''content'') else None)
     (List.map_filter (openai_tool_result to_str) bs) =
     map (\<lambda>(c, out). (JStr c, JStr (tool_output_to_string to_str out))) (List.map_filter result_of bs)"
proof (induction bs)
  case (Cons b bs)
  then show ?case by (cases b) (auto simp: map_filter_Cons json_eval)
qed simp

lemma role_message_role [simp]: "json_at (role_message r c) ''role'' = JStr r" "json_at (role_message r c) ''tool_calls'' = JNull"
  by (simp_all add: role_message_def json_eval)

lemma openai_assistant_role [simp]: "json_at (openai_assistant to_str m) ''role'' = JStr ''assistant''"
  by (simp add: openai_assistant_def json_eval)

lemma openai_message_results:
  "List.map_filter (\<lambda>j. if json_at j ''role'' = JStr ''tool'' then Some (json_at j ''tool_call_id'', json_at j ''content'') else None)
     (openai_push to_str m []) =
     map (\<lambda>(c, out). (JStr c, JStr (tool_output_to_string to_str out)))
       (if msg_role m = Tool then List.map_filter result_of (msg_content m) else [])"
  using openai_results_only [of to_str "msg_content m"]
  by (cases "msg_role m") (auto simp: openai_push_def openai_tool_def user_message_def Let_def map_filter_Cons)

lemma openai_calls_only:
  "map (\<lambda>c. (json_at c ''id'', json_at (json_at c ''function'') ''name'', json_at (json_at c ''function'') ''arguments''))
     (List.map_filter (openai_tool_call to_str) bs) =
     map (\<lambda>(c, t, args). (JStr c, JStr t, JStr (to_str args))) (List.map_filter call_of bs)"
proof (induction bs)
  case (Cons b bs)
  then show ?case by (cases b) (auto simp: map_filter_Cons json_eval)
qed simp

lemma result_no_calls: "openai_tool_result to_str b = Some j \<Longrightarrow> json_at j ''tool_calls'' = JNull"
  by (cases b) (auto simp: json_eval)

lemma openai_message_uses:
  "concat (map (\<lambda>j. map (\<lambda>c. (json_at c ''id'', json_at (json_at c ''function'') ''name'',
       json_at (json_at c ''function'') ''arguments'')) (unwrap_or [] (json_as_array (json_at j ''tool_calls''))))
       (openai_push to_str m [])) =
     map (\<lambda>(c, t, args). (JStr c, JStr t, JStr (to_str args)))
       (if msg_role m = Assistant then List.map_filter call_of (msg_content m) else [])"
proof (cases "msg_role m")
  case Assistant
  have "unwrap_or [] (json_as_array (json_at (openai_assistant to_str m) ''tool_calls'')) =
      List.map_filter (openai_tool_call to_str) (msg_content m)"
    by (auto simp: openai_assistant_def json_eval)
  with Assistant openai_calls_only [of to_str "msg_content m"] show ?thesis
    by (simp add: openai_push_def)
next
  case Tool
  have "json_as_array (json_at j ''tool_calls'') = None" if "j \<in> set (openai_push to_str m [])" for j
    using that Tool
    by (auto simp: openai_push_def openai_tool_def Let_def in_map_filter split: if_splits dest!: result_no_calls)
  with Tool show ?thesis by (auto simp: concat_eq_Nil_conv)
qed (auto simp: openai_push_def user_message_def)


lemma map_filter_concat: "List.map_filter f (concat xss) = concat (map (List.map_filter f) xss)"
  by (induction xss) auto

lemma concat_map_concat: "concat (map f (concat (map g xs))) = concat (map (\<lambda>x. concat (map f (g x))) xs)"
  by (induction xs) auto

lemma history_map:
  "map h (history_calls ms) =
     concat (map (\<lambda>m. map h (if msg_role m = Assistant then List.map_filter call_of (msg_content m) else [])) ms)"
  "map k (history_results ms) =
     concat (map (\<lambda>m. map k (if msg_role m = Tool then List.map_filter result_of (msg_content m) else [])) ms)"
  by (simp_all add: history_calls_def history_results_def map_concat comp_def)

section \<open>Both providers keep the provider contract\<close>

lemma hosted_stream_contract:
  "hosted_stream E name P p cancel out = Inl e \<Longrightarrow> \<not> routing_error e"
  "hosted_stream E name P p cancel out = Inr st \<Longrightarrow> \<exists>events. st = chunks_from_events P events p cancel"
  by (auto simp: hosted_stream_def transport_error_def http_error_def routing_error_def
      split: http_outcome.splits if_splits)

interpretation anthropic_hosted: inference_provider anthropic_can_handle "anthropic_generate E" "\<lambda>_. True" for E
proof unfold_locales
  fix p req c st
  assume "anthropic_generate E p req c = Inr st"
  from hosted_stream_contract(2) [OF this [unfolded anthropic_generate_def]] show "\<exists>m. chunk_modes st \<subseteq> {m}"
    using anthropic.stream_modes by metis
qed (auto simp: anthropic_generate_def dest: hosted_stream_contract(1))

interpretation openai_hosted: inference_provider openai_can_handle "openai_generate E" "\<lambda>_. True" for E
proof unfold_locales
  fix p req c st
  assume "openai_generate E p req c = Inr st"
  from hosted_stream_contract(2) [OF this [unfolded openai_generate_def]] show "\<exists>m. chunk_modes st \<subseteq> {m}"
    using openai.stream_modes by metis
qed (auto simp: openai_generate_def dest: hosted_stream_contract(1))

section \<open>Properties\<close>

text \<open>C26: the model sees the whole tool dialogue, in order. In the request of either hosted provider the
  tool calls are exactly those of the assistant turns of the history and the tool results exactly
  those of its tool turns, with their ids, in the order of the conversation.\<close>

theorem request_keeps_tool_dialogue:
  "let a = anthropic_request_body to_str model req; o' = openai_request_body to_str model req; h = req_messages req
   in anthropic_tool_uses a = map (\<lambda>(c, t, args). (JStr c, JStr t, args)) (history_calls h) \<and>
      anthropic_tool_results a =
        map (\<lambda>(c, out). (JStr c, JStr (tool_output_to_string to_str out))) (history_results h) \<and>
      openai_tool_uses o' = map (\<lambda>(c, t, args). (JStr c, JStr t, JStr (to_str args))) (history_calls h) \<and>
      openai_tool_results o' =
        map (\<lambda>(c, out). (JStr c, JStr (tool_output_to_string to_str out))) (history_results h)"
  by (simp add: Let_def anthropic_tool_uses_def anthropic_tool_results_def openai_tool_uses_def openai_tool_results_def
      anthropic_wire_messages openai_wire_messages concat_map_concat anthropic_message_uses anthropic_message_results
      openai_message_uses openai_message_results map_filter_concat history_map comp_def)

text \<open>Extended thinking is asked for only when the history can be replayed, and leaves room for an answer.
  The Anthropic request enables thinking exactly when it was asked for and every assistant turn with a
  tool call carries its thinking block; the budget is then at least 1024 and the token limit above it,
  except at the very top of the 32-bit range, where both saturate; no temperature is sent with it.\<close>

theorem thinking_leaves_room:
  assumes "body = anthropic_request_body to_str model req"
  shows "(json_get body ''thinking'' \<noteq> None \<longleftrightarrow>
      req_thinking req \<noteq> None \<and> \<not> unreplayable_tool_turn (req_messages req)) \<and>
    (\<forall>th. json_get body ''thinking'' = Some th \<longrightarrow>
      json_get body ''temperature'' = None \<and>
      (\<exists>budget most :: u32. json_get th ''budget_tokens'' = Some (JInt (uint budget)) \<and>
         json_get body ''max_tokens'' = Some (JInt (uint most)) \<and> 1024 \<le> budget \<and>
         (budget < most \<longleftrightarrow> unat budget < 2 ^ 32 - 1)))"
proof -
  let ?d = "unwrap_or ANTHROPIC_MAX_TOKENS (req_max_tokens req)"
  have room: "b < max ?d (saturating_add b ANTHROPIC_MAX_TOKENS) \<longleftrightarrow> unat b < 2 ^ 32 - 1" for b :: u32
  proof -
    have "unat ?d < 2 ^ 32" "unat b < 2 ^ 32"
      using unsigned_less [of ?d, where 'a = nat] unsigned_less [of b, where 'a = nat] by simp_all
    then show ?thesis
      by (auto simp: word_less_nat_alt unat_saturating_add ANTHROPIC_MAX_TOKENS_def max_def word_le_nat_alt)
  qed
  have least: "1024 \<le> max b (1024 :: u32)" for b by simp
  let ?th = "if unreplayable_tool_turn (req_messages req) then None else req_thinking req"
  show ?thesis
  proof (cases ?th)
    case None
    then have "json_get body ''thinking'' = None"
      unfolding assms anthropic_request_body_def anthropic_fold
      by (cases "req_tools req"; cases "req_temperature req") (simp_all add: json_eval)
    with None show ?thesis by (auto split: if_splits)
  next
    case (Some th)
    let ?b = "max (budget_tokens th) 1024"
    let ?m = "max ?d (saturating_add ?b ANTHROPIC_MAX_TOKENS)"
    from Some have "json_get body ''thinking'' = Some (json_obj [(''type'', JStr ''enabled''), (''budget_tokens'', json_of_u32 ?b)])"
        "json_get body ''temperature'' = None" "json_get body ''max_tokens'' = Some (JInt (uint ?m))"
      unfolding assms anthropic_request_body_def anthropic_fold
      by (cases "req_tools req"; simp add: json_eval)+
    moreover have "json_get (json_obj [(''type'', JStr ''enabled''), (''budget_tokens'', json_of_u32 ?b)]) ''budget_tokens'' =
        Some (JInt (uint ?b))"
      by (simp add: json_eval)
    ultimately have "\<exists>part. json_get body ''thinking'' = Some part \<and> json_get body ''temperature'' = None \<and>
        (\<exists>budget most :: u32. json_get part ''budget_tokens'' = Some (JInt (uint budget)) \<and>
         json_get body ''max_tokens'' = Some (JInt (uint most)) \<and> 1024 \<le> budget \<and>
         (budget < most \<longleftrightarrow> unat budget < 2 ^ 32 - 1))"
      using room [of ?b] least [of "budget_tokens th"] by blast
    with Some show ?thesis by (metis option.distinct(1) option.inject)
  qed
qed


theorem thinking_leaves_room_witness:
  "let req = (request_from_messages 0 [])\<lparr>req_thinking := Some thinking_enabled\<rparr>;
       body = anthropic_request_body (\<lambda>_. []) ''m'' req
   in json_get body ''thinking'' \<noteq> None \<and> json_get body ''temperature'' = None"
proof -
  let ?req = "(request_from_messages 0 [])\<lparr>req_thinking := Some thinking_enabled\<rparr>"
  note t = thinking_leaves_room [OF refl, of "\<lambda>_. []" "''m''" ?req]
  have "\<not> unreplayable_tool_turn (req_messages ?req)"
    by (simp add: unreplayable_tool_turn_def request_from_messages_def)
  with t have "json_get (anthropic_request_body (\<lambda>_. []) ''m'' ?req) ''thinking'' \<noteq> None" by simp
  with t show ?thesis
    unfolding Let_def by blast
qed

end
