(* ===== verification/Web_Tools.thy ===== *)
theory Web_Tools
  imports File_Tools Instances
begin

text \<open>
  The web tools of \<open>crates/mahi-tooling/src/tools/web.rs\<close>: the parsing helpers, the events of a
  fetched page and of a search, and the two tools.

  The HTTP layer is a parameter, and an optional one: \<open>None\<close> is the build without the feature
  \<open>net\<close>. Arguments are parsed by \<open>serde\<close>, also a parameter.
\<close>

section \<open>Pages\<close>

definition MAX_BODY_BYTES :: nat where
  "MAX_BODY_BYTES = 256 * 1024"

text \<open>\<open>str::find\<close>: the position of the first occurrence.\<close>

definition str_find :: "string \<Rightarrow> string \<Rightarrow> nat option" where
  "str_find s p = map_option (\<lambda>(a, b). length a) (find_sub p s)"

definition str_starts_with :: "string \<Rightarrow> string \<Rightarrow> bool" where
  "str_starts_with s p = (take (length p) s = p)"

lemma str_find_Some: "str_find s p = Some j \<Longrightarrow> j + length p \<le> length s \<and> take (length p) (drop j s) = p"
  by (auto simp: str_find_def dest!: find_sub_Some)

definition utf8_len :: "char \<Rightarrow> nat" where
  "utf8_len first_byte =
     (let b = byte first_byte
      in if b < 0x80 then 1
         else if b div 32 = 6 then 2
         else if b div 16 = 14 then 3
         else if b div 8 = 30 then 4
         else 1)"

lemma utf8_len_pos: "0 < utf8_len c"
  by (simp add: utf8_len_def Let_def)

text \<open>\<open>html.get(i..i + n)\<close> at the front of the rest of the page.\<close>

definition str_get :: "string \<Rightarrow> nat \<Rightarrow> string option" where
  "str_get s n = (if n \<le> length s \<and> is_char_boundary s n \<and> (s = [] \<or> \<not> is_continuation (hd s)) then Some (take n s) else None)"

lemma tag_advances:
  assumes "h = CHR ''<'' # t" and "str_find (ascii_lower h) (CHR ''<'' # CHR ''/'' # p) = Some j"
    and "str_starts_with (ascii_lower h) (CHR ''<'' # c # q)" and "c \<noteq> CHR ''/''"
  shows "length (drop j h) < length h"
proof -
  from str_find_Some [OF assms(2)] assms(3,4) have "j \<noteq> 0"
    by (intro notI) (cases t; auto simp: assms(1) str_starts_with_def ascii_lower_def)
  then show ?thesis by (simp add: assms(1))
qed

text \<open>The loop over the page: the text between tags, a space for a tag, nothing for scripts and styles.\<close>

function strip_loop :: "string \<Rightarrow> string" where
  "strip_loop [] = []"
| "strip_loop (c # t) =
     (let h = c # t; lower = ascii_lower h
      in if c = CHR ''<''
         then if str_starts_with lower ''<script''
              then (case str_find lower ''</script'' of Some j \<Rightarrow> strip_loop (drop j h) | None \<Rightarrow> [])
              else if str_starts_with lower ''<style''
              then (case str_find lower ''</style'' of Some j \<Rightarrow> strip_loop (drop j h) | None \<Rightarrow> [])
              else CHR '' '' # (case str_find h ''>'' of Some j \<Rightarrow> strip_loop (drop (j + 1) h) | None \<Rightarrow> [])
         else (case str_get h (utf8_len c) of Some s \<Rightarrow> s | None \<Rightarrow> []) @ strip_loop (drop (utf8_len c) h))"
  by pat_completeness auto
termination
proof (relation "measure length"; (simp; fail)?)
  fix c t h lower j
  assume "h = c # t" "lower = ascii_lower h" "c = CHR ''<''" "str_starts_with lower ''<script''"
    "str_find lower ''</script'' = Some j"
  then show "(drop j h, c # t) \<in> measure length"
    using tag_advances [of h t "''script''" j "CHR ''s''" "''cript''"] by simp
next
  fix c t h lower j
  assume "h = c # t" "lower = ascii_lower h" "c = CHR ''<''" "str_starts_with lower ''<style''"
    "str_find lower ''</style'' = Some j"
  then show "(drop j h, c # t) \<in> measure length"
    using tag_advances [of h t "''style''" j "CHR ''s''" "''tyle''"] by simp
qed (use utf8_len_pos in auto)


declare strip_loop.simps(2) [simp del]

text \<open>White space runs become one space, none at the start.\<close>

fun collapse :: "bool \<Rightarrow> string list \<Rightarrow> string" where
  "collapse last_was_space [] = []"
| "collapse last_was_space (ch # chars) =
     (if is_whitespace ch then (if last_was_space then [] else '' '') @ collapse True chars
      else ch @ collapse False chars)"

definition strip_tags :: "string \<Rightarrow> string" where
  "strip_tags html = str_trim (collapse True (str_chars (strip_loop html)))"

definition extract_title :: "string \<Rightarrow> string option" where
  "extract_title html =
     (let lower = ascii_lower html
      in case str_find lower ''<title'' of
           None \<Rightarrow> None
         | Some op \<Rightarrow>
             (case str_find (drop op lower) ''>'' of
                None \<Rightarrow> None
              | Some g \<Rightarrow>
                  let gt = g + op + 1
                  in case str_find (drop gt lower) ''</title'' of
                       None \<Rightarrow> None
                     | Some cl \<Rightarrow>
                         let title = str_trim (take cl (drop gt html))
                         in if title = [] then None else Some title))"

section \<open>Search results\<close>

record search_hit =
  sh_url :: string
  sh_title :: string
  sh_snippet :: "string option"

text \<open>\<open>text.split(" - ").next()\<close>.\<close>

definition before_dash :: "string \<Rightarrow> string" where
  "before_dash t = (case find_sub '' - '' t of Some (a, b) \<Rightarrow> a | None \<Rightarrow> t)"

definition topic_hit :: "json \<Rightarrow> search_hit option" where
  "topic_hit topic =
     (case member_str topic ''FirstURL'' of
        None \<Rightarrow> None
      | Some url \<Rightarrow>
          let t = (case member_str topic ''Text'' of Some t \<Rightarrow> t | None \<Rightarrow> url)
          in Some \<lparr>sh_url = url, sh_title = before_dash t, sh_snippet = Some t\<rparr>)"

lemma member_array_size: "member_array j k = Some vs \<Longrightarrow> size_list size vs < size j"
proof -
  assume "member_array j k = Some vs"
  then obtain m where m: "j = JObj m" "map_of m k = Some (JArr vs)"
    by (cases j) (auto simp: member_array_def elim: json_as_array.elims split: Option.bind_splits)
  then have "(k, JArr vs) \<in> set m" by (simp add: map_of_SomeD)
  then have "size (JArr vs) \<le> size_list (size_prod (\<lambda>_. 0) size) m"
    by (induction m) auto
  then show ?thesis by (simp add: m(1))
qed

function collect :: "nat \<Rightarrow> json list \<Rightarrow> search_hit list \<Rightarrow> search_hit list" where
  "collect most [] hits = hits"
| "collect most (topic # topics) hits =
     (if most \<le> length hits then hits
      else case member_array topic ''Topics'' of
             Some nested \<Rightarrow> collect most topics (collect most nested hits)
           | None \<Rightarrow>
               (case topic_hit topic of
                  None \<Rightarrow> collect most topics hits
                | Some hit \<Rightarrow> collect most topics (hits @ [hit])))"
  by pat_completeness auto
termination
  by (relation "measure (\<lambda>(most, topics, hits). size_list size topics)") (auto dest: member_array_size)

definition abstract_hit :: "json \<Rightarrow> search_hit list" where
  "abstract_hit body =
     (let abstract_url = (case member_str body ''AbstractURL'' of Some u \<Rightarrow> u | None \<Rightarrow> [])
      in if abstract_url = [] then []
         else [\<lparr>sh_url = abstract_url,
                sh_title = (case member_str body ''Heading'' of Some h \<Rightarrow> h | None \<Rightarrow> abstract_url),
                sh_snippet = (case member_str body ''AbstractText'' of
                   Some t \<Rightarrow> if t = [] then None else Some t | None \<Rightarrow> None)\<rparr>])"

definition parse_search_response :: "json \<Rightarrow> nat \<Rightarrow> search_hit list" where
  "parse_search_response body most =
     take most (case member_array body ''RelatedTopics'' of
        Some topics \<Rightarrow> collect most topics (abstract_hit body) | None \<Rightarrow> abstract_hit body)"

section \<open>Requests\<close>

definition validate_url :: "string \<Rightarrow> string + unit" where
  "validate_url url =
     (if str_starts_with url ''http://'' \<or> str_starts_with url ''https://'' then Inr ()
      else Inl (''unsupported URL (must be http:// or https://): '' @ url))"

definition unreserved :: "char \<Rightarrow> bool" where
  "unreserved c =
     (65 \<le> byte c \<and> byte c \<le> 90 \<or> 97 \<le> byte c \<and> byte c \<le> 122 \<or> 48 \<le> byte c \<and> byte c \<le> 57 \<or>
      c \<in> {CHR ''-'', CHR ''_'', CHR ''.'', CHR ''~''})"

definition hex_upper :: "nat \<Rightarrow> char" where
  "hex_upper d = (if d < 10 then char_of (48 + d) else char_of (55 + d))"

definition urlencode_byte :: "char \<Rightarrow> string" where
  "urlencode_byte c =
     (if unreserved c then [c]
      else if c = CHR '' '' then ''+''
      else [CHR ''%'', hex_upper (byte c div 16), hex_upper (byte c mod 16)])"

definition urlencode :: "string \<Rightarrow> string" where
  "urlencode value = concat (map urlencode_byte value)"

section \<open>The tools\<close>

definition json_opt_str :: "string option \<Rightarrow> json" where
  "json_opt_str x = (case x of Some s \<Rightarrow> JStr s | None \<Rightarrow> JNull)"

definition fetch_events :: "string \<Rightarrow> nat \<Rightarrow> string \<Rightarrow> tool_event list" where
  "fetch_events url status html =
     (let title = extract_title html;
          t = strip_tags html;
          truncated = (MAX_BODY_BYTES < length t);
          body = truncate_at MAX_BODY_BYTES t;
          excerpt = take_chars 200 body
      in [ToolCitation url title (Some excerpt),
          ToolResult (json_obj [(''url'', JStr url), (''status'', JInt (int status)), (''title'', json_opt_str title),
            (''text'', JStr body)]) truncated])"

definition hit_json :: "search_hit \<Rightarrow> json" where
  "hit_json h = json_obj [(''url'', JStr (sh_url h)), (''title'', JStr (sh_title h)), (''snippet'', json_opt_str (sh_snippet h))]"

definition search_events :: "string \<Rightarrow> search_hit list \<Rightarrow> tool_event list" where
  "search_events query hits =
     map (\<lambda>h. ToolCitation (sh_url h) (Some (sh_title h)) (sh_snippet h)) hits @
     [ToolResult (json_obj [(''query'', JStr query), (''results'', JArr (map hit_json hits))]) False]"

definition NET_DISABLED_MSG :: string where
  "NET_DISABLED_MSG = ''mahi-tooling was built without the `net` feature; web tools are unavailable''"

type_synonym http_get = "string \<Rightarrow> string + nat \<times> string"

definition web_fetch_run :: "http_get option \<Rightarrow> string + string \<Rightarrow> tool_event_stream" where
  "web_fetch_run net parsed =
     (case parsed of
        Inl msg \<Rightarrow> tool_error_stream msg False
      | Inr url \<Rightarrow>
          (case validate_url url of
             Inl msg \<Rightarrow> tool_error_stream msg False
           | Inr _ \<Rightarrow>
               (case net of
                  None \<Rightarrow> tool_error_stream NET_DISABLED_MSG False
                | Some get_text \<Rightarrow>
                    (case get_text url of
                       Inr (status, body) \<Rightarrow> map Inr (fetch_events url status body)
                     | Inl msg \<Rightarrow> tool_error_stream msg True))))"

definition get_json :: "(string \<Rightarrow> string + json) \<Rightarrow> http_get \<Rightarrow> string \<Rightarrow> string + json" where
  "get_json from_str get_text url =
     (case get_text url of
        Inl msg \<Rightarrow> Inl msg
      | Inr (status, body) \<Rightarrow>
          (case from_str body of Inr v \<Rightarrow> Inr v | Inl e \<Rightarrow> Inl (''non-JSON response from '' @ url @ '': '' @ e)))"

definition web_search_run ::
  "(string \<Rightarrow> string + json) \<Rightarrow> http_get option \<Rightarrow> string + string \<times> usize option \<Rightarrow> tool_event_stream" where
  "web_search_run from_str net parsed =
     (case parsed of
        Inl msg \<Rightarrow> tool_error_stream msg False
      | Inr (query, max_results) \<Rightarrow>
          if str_trim query = [] then tool_error_stream ''query must not be empty'' False
          else case net of
                 None \<Rightarrow> tool_error_stream NET_DISABLED_MSG False
               | Some get_text \<Rightarrow>
                   let most = min (max (case max_results of Some n \<Rightarrow> unat n | None \<Rightarrow> 10) 1) 25;
                       url = ''https://api.duckduckgo.com/?q='' @ urlencode query @ ''&format=json&no_html=1&no_redirect=1''
                   in case get_json from_str get_text url of
                        Inr body \<Rightarrow> map Inr (search_events query (parse_search_response body most))
                      | Inl msg \<Rightarrow> tool_error_stream msg True)"


section \<open>Laws of the search response\<close>

text \<open>All hits of a response, without a limit: nested topics in place.\<close>

function topic_hits :: "json list \<Rightarrow> search_hit list" where
  "topic_hits [] = []"
| "topic_hits (topic # topics) =
     (case member_array topic ''Topics'' of
        Some nested \<Rightarrow> topic_hits nested
      | None \<Rightarrow> (case topic_hit topic of None \<Rightarrow> [] | Some hit \<Rightarrow> [hit])) @ topic_hits topics"
  by pat_completeness auto
termination
  by (relation "measure (size_list size)") (auto dest: member_array_size)

lemma take_append_cong:
  assumes "take n xs = take n ys"
  shows "take n (xs @ zs) = take n (ys @ zs)"
proof -
  have "min (length xs) n = min (length ys) n"
    using arg_cong [OF assms, of length] by simp
  then have "n - length xs = n - length ys" by arith
  with assms show ?thesis by simp
qed

lemma collect_take: "take most (collect most topics hits) = take most (hits @ topic_hits topics)"
proof (induction most topics hits rule: collect.induct)
  case (2 most topic topics hits)
  show ?case
  proof (cases "most \<le> length hits")
    case False
    show ?thesis
    proof (cases "member_array topic ''Topics''")
      case (Some nested)
      have "take most (collect most topics (collect most nested hits)) =
          take most (collect most nested hits @ topic_hits topics)"
        using 2 Some False by simp
      also have "\<dots> = take most ((hits @ topic_hits nested) @ topic_hits topics)"
        by (rule take_append_cong) (use 2 Some False in simp)
      finally show ?thesis using Some False by simp
    next
      case None
      then show ?thesis
        using 2 False by (auto simp: take_Cons' split: option.splits)
    qed
  qed simp
qed simp

section \<open>Laws of percent encoding\<close>

definition hex_value :: "char \<Rightarrow> nat" where
  "hex_value c = (if byte c < 58 then byte c - 48 else byte c - 55)"

fun url_decode :: "string \<Rightarrow> string" where
  "url_decode [] = []"
| "url_decode (c # s) =
     (if c = CHR ''+'' then CHR '' '' # url_decode s
      else if c = CHR ''%'' then (case s of h # l # t \<Rightarrow> char_of (hex_value h * 16 + hex_value l) # url_decode t | _ \<Rightarrow> [])
      else c # url_decode s)"

lemma hex_value_upper: "d < 16 \<Longrightarrow> hex_value (hex_upper d) = d"
  by (auto simp: hex_value_def hex_upper_def byte_def)

lemma unreserved_plain: "unreserved c \<Longrightarrow> c \<noteq> CHR ''+'' \<and> c \<noteq> CHR ''%''"
  by (auto simp: unreserved_def byte_def)

lemma byte_less: "byte c < 256"
  using nat_of_char_less_256 [of c] by (simp add: byte_def)

lemma url_decode_byte: "url_decode (urlencode_byte c @ s) = c # url_decode s"
proof -
  have "byte c div 16 * 16 + byte c mod 16 = byte c" by simp
  moreover have "byte c div 16 < 16" "byte c mod 16 < 16"
    using byte_less [of c] by (auto simp: less_mult_imp_div_less)
  ultimately show ?thesis
    using unreserved_plain [of c] by (auto simp: urlencode_byte_def hex_value_upper byte_def)
qed

lemma url_decode_encode: "url_decode (urlencode s) = s"
  by (induction s) (simp_all add: urlencode_def url_decode_byte)


section \<open>Laws of the page text\<close>

lemma utf8_len_ranges:
  "byte c < 0x80 \<Longrightarrow> utf8_len c = Suc 0"
  "0xC2 \<le> byte c \<Longrightarrow> byte c \<le> 0xDF \<Longrightarrow> utf8_len c = Suc (Suc 0)"
  "0xE0 \<le> byte c \<Longrightarrow> byte c \<le> 0xEF \<Longrightarrow> utf8_len c = Suc (Suc (Suc 0))"
  "0xF0 \<le> byte c \<Longrightarrow> byte c \<le> 0xF4 \<Longrightarrow> utf8_len c = Suc (Suc (Suc (Suc 0)))"
proof -
  assume "0xC2 \<le> byte c" "byte c \<le> 0xDF"
  moreover from this have "byte c div 32 = 6" by (intro div_nat_eqI) simp_all
  ultimately show "utf8_len c = Suc (Suc 0)" by (simp add: utf8_len_def Let_def)
next
  assume "0xE0 \<le> byte c" "byte c \<le> 0xEF"
  moreover from this have "byte c div 32 = 7" "byte c div 16 = 14" by (intro div_nat_eqI; simp)+
  ultimately show "utf8_len c = Suc (Suc (Suc 0))" by (simp add: utf8_len_def Let_def)
next
  assume "0xF0 \<le> byte c" "byte c \<le> 0xF4"
  moreover from this have "byte c div 32 = 7" "byte c div 16 = 15" "byte c div 8 = 30" by (intro div_nat_eqI; simp)+
  ultimately show "utf8_len c = Suc (Suc (Suc (Suc 0)))" by (simp add: utf8_len_def Let_def)
qed (simp add: utf8_len_def)

lemma valid_cases:
  assumes "valid_utf8 (c # t)"
  obtains (one) "utf8_len c = Suc 0" "byte c < 0x80" "valid_utf8 t"
    | (two) b u where "utf8_len c = Suc (Suc 0)" "t = b # u" "cont b" "valid_utf8 u"
    | (three) b d u where "utf8_len c = Suc (Suc (Suc 0))" "t = b # d # u" "cont b" "cont d" "valid_utf8 u"
    | (four) b d e u where "utf8_len c = Suc (Suc (Suc (Suc 0)))" "t = b # d # e # u" "cont b" "cont d" "cont e" "valid_utf8 u"
proof -
  consider "byte c < 0x80" | "0xC2 \<le> byte c" "byte c \<le> 0xDF" | "0xE0 \<le> byte c" "byte c \<le> 0xEF"
    | "0xF0 \<le> byte c" "byte c \<le> 0xF4"
    using assms by (auto split: if_splits)
  then show ?thesis
  proof cases
    case 1
    with assms one utf8_len_ranges show ?thesis by simp
  next
    case 2
    with assms two utf8_len_ranges show ?thesis by (auto split: list.splits)
  next
    case 3
    with assms three utf8_len_ranges show ?thesis by (auto split: list.splits)
  next
    case 4
    with assms four utf8_len_ranges show ?thesis by (auto split: list.splits)
  qed
qed

declare valid_utf8.simps(2) [simp del]

lemma valid_lead:
  assumes "valid_utf8 (c # t)"
  shows "valid_utf8 (drop (utf8_len c) (c # t))" and "x \<in> set (take (utf8_len c) (c # t)) \<Longrightarrow> x = c \<or> cont x"
  using assms by (cases rule: valid_cases; auto)+

lemma valid_suffix: "valid_utf8 (a @ b) \<Longrightarrow> b = [] \<or> \<not> cont (hd b) \<Longrightarrow> valid_utf8 b"
proof (induction "length a" arbitrary: a rule: less_induct)
  case less
  have IH: "valid_utf8 b" if "valid_utf8 (v @ b)" "length v < length a" for v
    using less.hyps [OF that(2,1) less.prems(2)] .
  show ?case
  proof (cases a)
    case (Cons c t)
    with less.prems have "valid_utf8 (c # t @ b)" by simp
    then show ?thesis
    proof (cases rule: valid_cases)
      case one
      with Cons show ?thesis by (intro IH [of t]) simp_all
    next
      case (two x u)
      then consider "b = x # u" | v where "t = x # v" "v @ b = u"
        by (auto simp: append_eq_Cons_conv)
      then show ?thesis
        using two less.prems(2) Cons by cases (auto intro: IH)
    next
      case (three x y u)
      then consider "b = x # y # u" | "b = y # u" | v where "t = x # y # v" "v @ b = u"
        by (auto simp: append_eq_Cons_conv)
      then show ?thesis
        using three less.prems(2) Cons by cases (auto intro: IH)
    next
      case (four x y z u)
      then consider "b = x # y # z # u" | "b = y # z # u" | "b = z # u" | v where "t = x # y # z # v" "v @ b = u"
        by (auto simp: append_eq_Cons_conv)
      then show ?thesis
        using four less.prems(2) Cons by cases (auto intro: IH)
    qed
  qed (use less.prems in simp)
qed


lemma ascii_lower_lt: "ascii_lower [c] = [CHR ''<''] \<longleftrightarrow> c = CHR ''<''"
proof
  assume "ascii_lower [c] = [CHR ''<'']"
  then have "(if 65 \<le> byte c \<and> byte c \<le> 90 then char_of (byte c + 32) else c) = CHR ''<''"
    by (auto simp: ascii_lower_def byte_def split: if_splits)
  then show "c = CHR ''<''"
  proof (cases "65 \<le> byte c \<and> byte c \<le> 90")
    case True
    with \<open>(if 65 \<le> byte c \<and> byte c \<le> 90 then char_of (byte c + 32) else c) = CHR ''<''\<close>
    have "(of_char (char_of (byte c + 32) :: char) :: nat) = of_char CHR ''<''" by simp
    with True show ?thesis by simp
  qed simp
qed (simp add: ascii_lower_def)

text \<open>Where a closing tag is found, the page goes on with a complete character.\<close>

lemma valid_at_tag:
  assumes "valid_utf8 h" and "str_find (ascii_lower h) (CHR ''<'' # p) = Some j"
  shows "valid_utf8 (drop j h)"
proof -
  from str_find_Some [OF assms(2)] have j: "j < length h" "hd (drop j (ascii_lower h)) = CHR ''<''"
    by (auto simp: ascii_lower_def) (cases "drop j (ascii_lower h)"; auto simp: ascii_lower_def)+
  then have "ascii_lower [h ! j] = [CHR ''<'']"
    by (simp add: ascii_lower_def hd_drop_conv_nth)
  then have "hd (drop j h) = CHR ''<''"
    using j(1) by (simp add: ascii_lower_lt hd_drop_conv_nth)
  then have "\<not> cont (hd (drop j h))"
    by (simp add: cont_def byte_def)
  then show ?thesis
    using valid_suffix [of "take j h" "drop j h"] assms(1) by simp
qed

lemma valid_after_gt:
  assumes "valid_utf8 h" and "str_find h ''>'' = Some j"
  shows "valid_utf8 (drop (j + 1) h)"
proof -
  from str_find_Some [OF assms(2)] have j: "j < length h" "hd (drop j h) = CHR ''>''"
    by (auto simp: take_Suc)
  then have "\<not> cont (hd (drop j h))"
    by (simp add: cont_def byte_def)
  then have "valid_utf8 (drop j h)"
    using valid_suffix [of "take j h" "drop j h"] assms(1) by simp
  moreover have "drop j h = CHR ''>'' # drop (j + 1) h"
    using j by (metis Cons_nth_drop_Suc Suc_eq_plus1 hd_drop_conv_nth)
  ultimately show ?thesis
    by (simp add: valid_utf8.simps(2) byte_def)
qed

lemma strip_loop_clean: "valid_utf8 h \<Longrightarrow> CHR ''<'' \<notin> set (strip_loop h)"
proof (induction h rule: strip_loop.induct)
  case (2 c t)
  show ?case
  proof (cases "c = CHR ''<''")
    case True
    then show ?thesis
      using 2 valid_at_tag [OF 2(5)] valid_after_gt [OF 2(5)]
      by (auto simp: strip_loop.simps(2) Let_def split: option.splits)
  next
    case False
    have "x \<noteq> CHR ''<''" if "x \<in> set (take (utf8_len c) (c # t))" for x
      using valid_lead(2) [OF 2(5) that] False by (auto simp: cont_def byte_def)
    moreover have "CHR ''<'' \<notin> set (strip_loop (drop (utf8_len c) (c # t)))"
      using 2(4) [OF refl refl False] valid_lead(1) [OF 2(5)] by blast
    ultimately show ?thesis
      using False by (auto simp: strip_loop.simps(2) Let_def str_get_def split: option.splits if_splits)
  qed
qed simp


lemma set_collapse: "set (collapse b gs) \<subseteq> {CHR '' ''} \<union> set (concat gs)"
  by (induction b gs rule: collapse.induct) auto

lemma set_str_trim: "set (str_trim s) \<subseteq> set s"
proof -
  let ?gs = "dropWhile is_whitespace (rev (dropWhile is_whitespace (str_chars s)))"
  have "set ?gs \<subseteq> set (str_chars s)"
    by (metis set_dropWhileD set_rev subsetI)
  moreover have "set s = \<Union> (set ` set (str_chars s))"
    by (metis concat_str_chars set_concat)
  ultimately show ?thesis by (auto simp: str_trim_def)
qed

lemma strip_tags_clean:
  assumes "valid_utf8 html"
  shows "CHR ''<'' \<notin> set (strip_tags html)"
  using strip_loop_clean [OF assms] set_collapse [of True "str_chars (strip_loop html)"]
    set_str_trim [of "collapse True (str_chars (strip_loop html))"]
  by (auto simp: strip_tags_def)

section \<open>Properties\<close>

text \<open>A fetched page reaches the model as bounded text without markup. For every page the tool answers
  with one citation of the page, whose excerpt is the beginning of the text, and then the result;
  the text holds no \<open><\<close>, fits the cap, is cut between characters and only then marked truncated.\<close>

theorem fetched_text_is_clean:
  assumes "valid_utf8 html"
  shows "\<exists>title body rest out. fetch_events url status html =
      [ToolCitation url title (Some (take_chars 200 body)), ToolResult out (rest \<noteq> [])] \<and>
    json_get out ''text'' = Some (JStr body) \<and> strip_tags html = body @ rest \<and>
    CHR ''<'' \<notin> set body \<and> length body \<le> MAX_BODY_BYTES \<and> is_char_boundary (strip_tags html) (length body)"
proof -
  let ?t = "strip_tags html" and ?b = "truncate_at MAX_BODY_BYTES (strip_tags html)"
  from truncate_at_spec [of ?t MAX_BODY_BYTES] obtain rest where r: "?t = ?b @ rest" "length ?b \<le> MAX_BODY_BYTES"
      "is_char_boundary ?t (length ?b)" "length ?t \<le> MAX_BODY_BYTES \<longrightarrow> rest = []"
    by blast
  have "(MAX_BODY_BYTES < length ?t) = (rest \<noteq> [])"
    using r(2,4) arg_cong [OF r(1), of length] by (cases rest) auto
  moreover have "CHR ''<'' \<notin> set ?b"
    using strip_tags_clean [OF assms] by (metis UnI1 r(1) set_append)
  ultimately show ?thesis
    using r by (intro exI [of _ "extract_title html"] exI [of _ ?b] exI [of _ rest]) (simp add: fetch_events_def Let_def json_obj_def)
qed

theorem fetched_text_is_clean_witness:
  "\<exists>title body rest out. fetch_events ''http://a'' 200 ''<p>hi</p>'' =
      [ToolCitation ''http://a'' title (Some (take_chars 200 body)), ToolResult out (rest \<noteq> [])] \<and>
    json_get out ''text'' = Some (JStr body) \<and> strip_tags ''<p>hi</p>'' = body @ rest \<and>
    CHR ''<'' \<notin> set body \<and> length body \<le> MAX_BODY_BYTES \<and> is_char_boundary (strip_tags ''<p>hi</p>'') (length body)"
  by (rule fetched_text_is_clean) (simp add: valid_utf8.simps byte_def)

text \<open>A query cannot break out of its URL. Percent encoding is undone by decoding, so no two queries
  share a URL, and leaves only letters, digits, \<open>- _ . ~ + %\<close>: none of the characters that
  separate the parts of a URL.\<close>

theorem urlencode_roundtrip:
  "url_decode (urlencode s) = s \<and> list_all (\<lambda>c. unreserved c \<or> c = CHR ''+'' \<or> c = CHR ''%'') (urlencode s)"
proof -
  have "unreserved (hex_upper d)" if "d < 16" for d
    using that by (auto simp: hex_upper_def unreserved_def byte_def)
  moreover have "byte c div 16 < 16" "byte c mod 16 < 16" for c
    using byte_less [of c] by (auto simp: less_mult_imp_div_less)
  ultimately show ?thesis
    using url_decode_encode [of s] by (auto simp: urlencode_def urlencode_byte_def list_all_iff)
qed

text \<open>A search reports the first hits of the response, in its order. The hits are the abstract, if
  there is one, and then the related topics with nested groups in place, cut at the limit, which
  is between 1 and 25; each is cited, and the same hits are the result.\<close>

theorem search_reports_first_hits:
  assumes "str_trim query \<noteq> []"
    and "get_json from_str get_text (''https://api.duckduckgo.com/?q='' @ urlencode query @
      ''&format=json&no_html=1&no_redirect=1'') = Inr body"
    and "hits = take (min (max (case max_results of Some n \<Rightarrow> unat n | None \<Rightarrow> 10) 1) 25)
      (abstract_hit body @ (case member_array body ''RelatedTopics'' of Some ts \<Rightarrow> topic_hits ts | None \<Rightarrow> []))"
  shows "web_search_run from_str (Some get_text) (Inr (query, max_results)) =
    map (\<lambda>h. Inr (ToolCitation (sh_url h) (Some (sh_title h)) (sh_snippet h))) hits @
    [Inr (ToolResult (json_obj [(''query'', JStr query), (''results'', JArr (map hit_json hits))]) False)]"
  using assms
  by (cases "member_array body ''RelatedTopics''")
    (simp_all add: web_search_run_def Let_def parse_search_response_def collect_take search_events_def)

definition demo_response :: json where
  "demo_response = json_obj [(''RelatedTopics'', JArr [json_obj [(''Topics'', JArr [json_obj [(''FirstURL'', JStr ''u''),
     (''Text'', JStr ''T - s'')]])]])]"

theorem search_reports_first_hits_witness:
  "web_search_run (\<lambda>_. Inr demo_response) (Some (\<lambda>_. Inr (200, []))) (Inr (''q'', None)) =
    map (\<lambda>h. Inr (ToolCitation (sh_url h) (Some (sh_title h)) (sh_snippet h)))
      (take 10 (abstract_hit demo_response @ topic_hits [json_obj [(''Topics'', JArr [json_obj [(''FirstURL'', JStr ''u''),
        (''Text'', JStr ''T - s'')]])]])) @
    [Inr (ToolResult (json_obj [(''query'', JStr ''q''), (''results'', JArr (map hit_json
      (take 10 (abstract_hit demo_response @ topic_hits [json_obj [(''Topics'', JArr [json_obj [(''FirstURL'', JStr ''u''),
        (''Text'', JStr ''T - s'')]])]]))))]) False)]"
proof (rule search_reports_first_hits)
  show "str_trim ''q'' \<noteq> []"
    by (simp add: str_trim_eval)
  show "get_json (\<lambda>_. Inr demo_response) (\<lambda>_. Inr (200, [])) (''https://api.duckduckgo.com/?q='' @ urlencode ''q'' @
      ''&format=json&no_html=1&no_redirect=1'') = Inr demo_response"
    by (simp add: get_json_def)
qed (simp add: demo_response_def member_array_def json_obj_def)

end
