(* ===== verification/Process_Tools.thy ===== *)
theory Process_Tools
  imports File_Tools
begin

text \<open>
  The tools that run child processes: \<open>process.rs\<close>, \<open>shell.rs\<close>, \<open>run_code.rs\<close> and
  \<open>apple_script.rs\<close> of \<open>crates/mahi-tooling/src/tools/\<close>.

  The loop around a child is a function of one step at a time: what \<open>select!\<close> picked (a line or the
  end of one of the two pipes, the token, the deadline), or the outcome of waiting for the child.
  A history of the child is the list of its steps, in whatever order they became ready; a step that
  the code is not waiting for is \<open>None\<close>. Lines are what \<open>next_line\<close> gives; a read error is the end
  of the pipe, as in the code.
\<close>

section \<open>Captured output\<close>

definition MAX_CAPTURE_BYTES :: nat where
  "MAX_CAPTURE_BYTES = 100 * 1024"

definition append_capped :: "string \<Rightarrow> string \<Rightarrow> bool \<Rightarrow> string \<times> bool" where
  "append_capped buf line truncated =
     (let remaining = MAX_CAPTURE_BYTES - length buf
      in if remaining = 0 then (buf, True)
         else if length line < remaining then (buf @ line @ [CHR 0x0A], truncated)
         else (buf @ take (floor_boundary line (min remaining (length line))) line, True))"

section \<open>The loop around a child\<close>

datatype child_step =
    TokenCancelled
  | DeadlinePassed
  | OutLine string
  | OutEnd
  | ErrLine string
  | ErrEnd
  | ChildExit "int option"
  | WaitFailed string

datatype pump_phase = Reading | Waiting | Finished

record pump =
  pp_stdout_done :: bool
  pp_stderr_done :: bool
  pp_stdout_buf :: string
  pp_stderr_buf :: string
  pp_truncated :: bool
  pp_phase :: pump_phase
  pp_sent :: "tool_event list"
  pp_killed :: bool

definition pump_start :: pump where
  "pump_start = \<lparr>pp_stdout_done = False, pp_stderr_done = False, pp_stdout_buf = [], pp_stderr_buf = [],
     pp_truncated = False, pp_phase = Reading, pp_sent = [], pp_killed = False\<rparr>"

text \<open>How the two copies of the loop differ: the text of a timeout, and whether output is captured.\<close>

record pump_style =
  ps_timed_out :: string
  ps_capture :: bool

definition pump_end :: "tool_event \<Rightarrow> pump \<Rightarrow> pump" where
  "pump_end ev p = p\<lparr>pp_sent := pp_sent p @ [ev], pp_phase := Finished\<rparr>"

text \<open>After a line or an end of a pipe: the loop is left when both pipes have ended.\<close>

definition pump_next :: "pump \<Rightarrow> pump" where
  "pump_next p = (if pp_stdout_done p \<and> pp_stderr_done p then p\<lparr>pp_phase := Waiting\<rparr> else p)"

definition out_line :: "pump_style \<Rightarrow> string \<Rightarrow> pump \<Rightarrow> pump" where
  "out_line S l p =
     (let p = p\<lparr>pp_sent := pp_sent p @ [ToolChunk (l @ [CHR 0x0A])]\<rparr>
      in if ps_capture S
         then (case append_capped (pp_stdout_buf p) l (pp_truncated p) of
                 (buf, t) \<Rightarrow> p\<lparr>pp_stdout_buf := buf, pp_truncated := t\<rparr>)
         else p)"

definition err_line :: "pump_style \<Rightarrow> string \<Rightarrow> pump \<Rightarrow> pump" where
  "err_line S l p =
     (let p = p\<lparr>pp_sent := pp_sent p @ [ToolChunk (''[stderr] '' @ l @ [CHR 0x0A])]\<rparr>
      in if ps_capture S
         then (case append_capped (pp_stderr_buf p) l (pp_truncated p) of
                 (buf, t) \<Rightarrow> p\<lparr>pp_stderr_buf := buf, pp_truncated := t\<rparr>)
         else p)"

definition exit_result :: "pump_style \<Rightarrow> int option \<Rightarrow> pump \<Rightarrow> tool_event" where
  "exit_result S code p =
     ToolResult (json_obj ((if ps_capture S
         then [(''stdout'', JStr (pp_stdout_buf p)), (''stderr'', JStr (pp_stderr_buf p))] else []) @
       [(''exit_code'', case code of Some n \<Rightarrow> JInt n | None \<Rightarrow> JNull), (''success'', JBool (code = Some 0))]))
       (pp_truncated p)"

definition pump_step :: "pump_style \<Rightarrow> child_step \<Rightarrow> pump \<Rightarrow> pump option" where
  "pump_step S s p =
     (case pp_phase p of
        Finished \<Rightarrow> None
      | Waiting \<Rightarrow>
          (case s of
             ChildExit code \<Rightarrow> Some (pump_end (exit_result S code p) p)
           | WaitFailed e \<Rightarrow> Some (pump_end (ToolEventError (''failed waiting for child process: '' @ e) True) p)
           | _ \<Rightarrow> None)
      | Reading \<Rightarrow>
          (case s of
             TokenCancelled \<Rightarrow> Some (pump_end ToolCancelled (p\<lparr>pp_killed := True\<rparr>))
           | DeadlinePassed \<Rightarrow> Some (pump_end (ToolEventError (ps_timed_out S) True) (p\<lparr>pp_killed := True\<rparr>))
           | OutLine l \<Rightarrow> if pp_stdout_done p then None else Some (pump_next (out_line S l p))
           | OutEnd \<Rightarrow> if pp_stdout_done p then None else Some (pump_next (p\<lparr>pp_stdout_done := True\<rparr>))
           | ErrLine l \<Rightarrow> if pp_stderr_done p then None else Some (pump_next (err_line S l p))
           | ErrEnd \<Rightarrow> if pp_stderr_done p then None else Some (pump_next (p\<lparr>pp_stderr_done := True\<rparr>))
           | _ \<Rightarrow> None))"

fun pump_run :: "pump_style \<Rightarrow> child_step list \<Rightarrow> pump \<Rightarrow> pump option" where
  "pump_run S [] p = Some p"
| "pump_run S (s # ss) p = (case pump_step S s p of None \<Rightarrow> None | Some p' \<Rightarrow> pump_run S ss p')"

section \<open>Spawning\<close>

text \<open>A command: the program, its arguments and its working directory.\<close>

record command =
  cm_program :: string
  cm_args :: "string list"
  cm_cwd :: "path option"

record spawn_spec =
  sp_command :: command
  sp_timeout :: u64
  sp_display :: string
  sp_not_found_message :: string
  sp_cleanup_file :: "path option"

datatype spawn_error = SpawnNotFound | SpawnFailed string

text \<open>\<open>remove_file\<close> takes the name out of its directory; a directory stays.\<close>

definition remove_file :: "path \<Rightarrow> fs \<Rightarrow> fs" where
  "remove_file p F =
     (case (if p = [] then None else canonicalize F (butlast p)) of
        None \<Rightarrow> F
      | Some d \<Rightarrow>
          (case last p of
             Normal c \<Rightarrow> (case F (d @ [c]) of Some DirNode \<Rightarrow> F | _ \<Rightarrow> F(d @ [c] := None))
           | _ \<Rightarrow> F))"

definition remove_cleanup_file :: "path option \<Rightarrow> fs \<Rightarrow> fs" where
  "remove_cleanup_file path F = (case path of None \<Rightarrow> F | Some p \<Rightarrow> remove_file p F)"

definition process_style :: "spawn_spec \<Rightarrow> pump_style" where
  "process_style spec =
     \<lparr>ps_timed_out = ''`'' @ sp_display spec @ ''` timed out after '' @ decimal (unat (sp_timeout spec)) @ '' ms'',
      ps_capture = True\<rparr>"

text \<open>
  \<open>spawn_streaming\<close> on a child with the given history, or one that could not be spawned. The stream
  is over once the loop is, and by then the temporary script is gone; a history in which the child
  is still running gives the events so far and an open stream.
\<close>

definition spawn_streaming ::
  "spawn_spec \<Rightarrow> spawn_error + child_step list \<Rightarrow> fs \<Rightarrow> (tool_event_stream \<times> bool \<times> fs) option" where
  "spawn_streaming spec child F =
     (case child of
        Inl SpawnNotFound \<Rightarrow>
          Some (tool_error_stream (sp_not_found_message spec) False, True, remove_cleanup_file (sp_cleanup_file spec) F)
      | Inl (SpawnFailed e) \<Rightarrow>
          Some (tool_error_stream (''failed to spawn `'' @ sp_display spec @ ''`: '' @ e) True, True,
                remove_cleanup_file (sp_cleanup_file spec) F)
      | Inr history \<Rightarrow>
          (case pump_run (process_style spec) history pump_start of
             None \<Rightarrow> None
           | Some p \<Rightarrow>
               Some (map Inr (pp_sent p), pp_phase p = Finished,
                     if pp_phase p = Finished then remove_cleanup_file (sp_cleanup_file spec) F else F)))"

section \<open>shell.rs\<close>

definition DEFAULT_TIMEOUT_MS :: u64 where
  "DEFAULT_TIMEOUT_MS = 120000"

record shell_exec_args =
  sx_command :: string
  sx_cwd :: "string option"
  sx_timeout_ms :: "u64 option"

definition shell_command :: "path \<Rightarrow> shell_exec_args \<Rightarrow> command" where
  "shell_command cwd args = \<lparr>cm_program = ''sh'', cm_args = [''-c'', sx_command args], cm_cwd = Some cwd\<rparr>"

definition shell_style :: "u64 \<Rightarrow> pump_style" where
  "shell_style timeout = \<lparr>ps_timed_out = ''command timed out after '' @ decimal (unat timeout) @ '' ms'', ps_capture = False\<rparr>"

text \<open>\<open>Inl\<close> is an answer without a child; \<open>Inr\<close> the child to run and how to report it.\<close>

definition shell_exec_plan ::
  "fs \<Rightarrow> file_scope \<Rightarrow> string + shell_exec_args \<Rightarrow> tool_event_stream + command \<times> pump_style" where
  "shell_exec_plan F sc parsed =
     (case parsed of
        Inl msg \<Rightarrow> Inl (tool_error_stream msg False)
      | Inr args \<Rightarrow>
          if str_trim (sx_command args) = [] then Inl (tool_error_stream ''command must not be empty'' False)
          else case (case sx_cwd args of Some p \<Rightarrow> resolve F sc p | None \<Rightarrow> Inr (fsc_root sc)) of
                 Inl e \<Rightarrow> Inl (contract_error_stream e)
               | Inr cwd \<Rightarrow>
                   let timeout = (case sx_timeout_ms args of Some t \<Rightarrow> t | None \<Rightarrow> DEFAULT_TIMEOUT_MS)
                   in Inr (shell_command cwd args, shell_style timeout))"

definition shell_exec_run ::
  "fs \<Rightarrow> file_scope \<Rightarrow> string + shell_exec_args \<Rightarrow> (command \<Rightarrow> string + child_step list) \<Rightarrow> tool_event_stream option" where
  "shell_exec_run F sc parsed child =
     (case shell_exec_plan F sc parsed of
        Inl answer \<Rightarrow> Some answer
      | Inr (cmd, style) \<Rightarrow>
          (case child cmd of
             Inl e \<Rightarrow> Some (tool_error_stream (''failed to spawn `sh -c`: '' @ e) True)
           | Inr history \<Rightarrow> map_option (\<lambda>p. map Inr (pp_sent p)) (pump_run style history pump_start)))"

section \<open>run_code.rs\<close>

datatype code_language = Python | Bash | Javascript | Ruby

fun interpreter :: "code_language \<Rightarrow> string" where
  "interpreter Python = ''python3''"
| "interpreter Bash = ''bash''"
| "interpreter Javascript = ''node''"
| "interpreter Ruby = ''ruby''"

fun inline_flag :: "code_language \<Rightarrow> string" where
  "inline_flag Python = ''-c''"
| "inline_flag Bash = ''-c''"
| "inline_flag Javascript = ''-e''"
| "inline_flag Ruby = ''-e''"

record run_code_args =
  rc_language :: code_language
  rc_code :: string
  rc_timeout_ms :: "u64 option"

definition run_code_plan :: "string + run_code_args \<Rightarrow> tool_event_stream + spawn_spec" where
  "run_code_plan parsed =
     (case parsed of
        Inl msg \<Rightarrow> Inl (tool_error_stream msg False)
      | Inr args \<Rightarrow>
          if str_trim (rc_code args) = [] then Inl (tool_error_stream ''code must not be empty'' False)
          else let interp = interpreter (rc_language args)
               in Inr \<lparr>sp_command = \<lparr>cm_program = interp, cm_args = [inline_flag (rc_language args), rc_code args], cm_cwd = None\<rparr>,
                       sp_timeout = (case rc_timeout_ms args of Some t \<Rightarrow> t | None \<Rightarrow> DEFAULT_TIMEOUT_MS),
                       sp_display = interp, sp_not_found_message = ''interpreter `'' @ interp @ ''` not found'',
                       sp_cleanup_file = None\<rparr>)"

section \<open>apple\_script.rs\<close>

definition OSASCRIPT :: string where
  "OSASCRIPT = ''/usr/bin/osascript''"

definition NOT_MACOS_MSG :: string where
  "NOT_MACOS_MSG = ''apple_script requires macOS''"

datatype script_language = Applescript | JxaJavascript

fun extension :: "script_language \<Rightarrow> string" where
  "extension Applescript = ''applescript''"
| "extension JxaJavascript = ''js''"

record apple_script_args =
  as_script :: string
  as_language :: script_language

definition script_name :: "string \<Rightarrow> script_language \<Rightarrow> string" where
  "script_name fresh language = ''mahi-apple-script-'' @ fresh @ ''.'' @ extension language"

definition apple_script_plan ::
  "(string \<Rightarrow> string) \<Rightarrow> bool \<Rightarrow> path \<Rightarrow> string \<Rightarrow> string + apple_script_args \<Rightarrow> fs \<Rightarrow>
     (tool_event_stream + spawn_spec) \<times> fs" where
  "apple_script_plan os macos temp_dir fresh parsed F =
     (case parsed of
        Inl msg \<Rightarrow> (Inl (tool_error_stream msg False), F)
      | Inr args \<Rightarrow>
          if str_trim (as_script args) = [] then (Inl (tool_error_stream ''script must not be empty'' False), F)
          else if \<not> macos then (Inl (tool_error_stream NOT_MACOS_MSG False), F)
          else let p = temp_dir @ [Normal (script_name fresh (as_language args))]
               in case fs_write F p (as_script args) of
                    None \<Rightarrow>
                      (Inl (tool_error_stream (''failed to stage script at '' @ display p @ '': '' @ os ''write'') True), F)
                  | Some F' \<Rightarrow>
                      (Inr \<lparr>sp_command = \<lparr>cm_program = OSASCRIPT,
                              cm_args = (if as_language args = JxaJavascript then [''-l'', ''JavaScript''] else []) @ [display p],
                              cm_cwd = None\<rparr>,
                            sp_timeout = DEFAULT_TIMEOUT_MS, sp_display = ''osascript'',
                            sp_not_found_message = NOT_MACOS_MSG @ '' (`'' @ OSASCRIPT @ ''` not found)'',
                            sp_cleanup_file = Some p\<rparr>, F'))"


section \<open>Laws of the loop\<close>

lemma pump_run_append: "pump_run S (xs @ ys) p = Option.bind (pump_run S xs p) (pump_run S ys)"
  by (induction xs arbitrary: p) (auto split: option.splits)

lemma pump_run_snoc:
  "pump_run S (xs @ [s]) p = Some q \<longleftrightarrow> (\<exists>r. pump_run S xs p = Some r \<and> pump_step S s r = Some q)"
  by (auto simp: pump_run_append split: Option.bind_splits option.splits)

fun chunk_of :: "child_step \<Rightarrow> tool_event option" where
  "chunk_of (OutLine l) = Some (ToolChunk (l @ [CHR 0x0A]))"
| "chunk_of (ErrLine l) = Some (ToolChunk (''[stderr] '' @ l @ [CHR 0x0A]))"
| "chunk_of _ = None"

fun out_text :: "child_step \<Rightarrow> string" where
  "out_text (OutLine l) = l @ [CHR 0x0A]"
| "out_text _ = []"

fun err_text :: "child_step \<Rightarrow> string" where
  "err_text (ErrLine l) = l @ [CHR 0x0A]"
| "err_text _ = []"

lemma append_capped_laws:
  assumes "append_capped buf l t = (buf', t')" and "length buf \<le> MAX_CAPTURE_BYTES"
  shows "length buf' \<le> MAX_CAPTURE_BYTES" and "\<not> t' \<Longrightarrow> \<not> t \<and> buf' = buf @ l @ [CHR 0x0A]"
proof -
  have "floor_boundary l (min (MAX_CAPTURE_BYTES - length buf) (length l)) \<le> MAX_CAPTURE_BYTES - length buf"
    using floor_boundary [of "min (MAX_CAPTURE_BYTES - length buf) (length l)" l] by simp
  with assms show "length buf' \<le> MAX_CAPTURE_BYTES" "\<not> t' \<Longrightarrow> \<not> t \<and> buf' = buf @ l @ [CHR 0x0A]"
    by (auto simp: append_capped_def Let_def split: if_splits)
qed

text \<open>While the loop has not finished: what was sent, which pipes have ended, what was captured.\<close>

definition pump_inv :: "pump_style \<Rightarrow> child_step list \<Rightarrow> pump \<Rightarrow> bool" where
  "pump_inv S ss p \<longleftrightarrow>
     pp_sent p = List.map_filter chunk_of ss \<and> \<not> pp_killed p \<and>
     pp_stdout_done p = (OutEnd \<in> set ss) \<and> pp_stderr_done p = (ErrEnd \<in> set ss) \<and>
     (pp_phase p = Waiting \<longleftrightarrow> pp_stdout_done p \<and> pp_stderr_done p) \<and>
     length (pp_stdout_buf p) \<le> MAX_CAPTURE_BYTES \<and> length (pp_stderr_buf p) \<le> MAX_CAPTURE_BYTES \<and>
     (ps_capture S \<longrightarrow> \<not> pp_truncated p \<longrightarrow>
        pp_stdout_buf p = concat (map out_text ss) \<and> pp_stderr_buf p = concat (map err_text ss)) \<and>
     (\<not> ps_capture S \<longrightarrow> \<not> pp_truncated p)"

lemma pump_inv_start: "pump_inv S [] pump_start"
  by (simp add: pump_inv_def pump_start_def List.map_filter_def)

lemma map_filter_snoc: "List.map_filter f (xs @ [x]) = List.map_filter f xs @ (case f x of Some y \<Rightarrow> [y] | None \<Rightarrow> [])"
  by (simp add: List.map_filter_def split: option.splits)

lemma pump_step_inv:
  assumes "pump_inv S ss p" and "pump_step S s p = Some q" and "pp_phase q \<noteq> Finished"
  shows "pump_inv S (ss @ [s]) q"
proof -
  have ph: "pp_phase p = Reading"
    using assms(2,3) by (auto simp: pump_step_def pump_end_def split: pump_phase.splits child_step.splits if_splits)
  show ?thesis
  proof (cases s)
    case (OutLine l)
    obtain buf t where a: "append_capped (pp_stdout_buf p) l (pp_truncated p) = (buf, t)" by fastforce
    with OutLine ph assms append_capped_laws [OF a] show ?thesis
      by (auto simp: pump_step_def pump_inv_def out_line_def pump_next_def Let_def map_filter_snoc split: if_splits)
  next
    case (ErrLine l)
    obtain buf t where a: "append_capped (pp_stderr_buf p) l (pp_truncated p) = (buf, t)" by fastforce
    with ErrLine ph assms append_capped_laws [OF a] show ?thesis
      by (auto simp: pump_step_def pump_inv_def err_line_def pump_next_def Let_def map_filter_snoc split: if_splits)
  next
    case OutEnd
    with assms(2) ph have "\<not> pp_stdout_done p" "q = pump_next (p\<lparr>pp_stdout_done := True\<rparr>)"
      by (simp_all add: pump_step_def split: if_splits)
    with OutEnd ph assms(1) show ?thesis by (simp add: pump_inv_def pump_next_def map_filter_snoc)
  next
    case ErrEnd
    with assms(2) ph have "\<not> pp_stderr_done p" "q = pump_next (p\<lparr>pp_stderr_done := True\<rparr>)"
      by (simp_all add: pump_step_def split: if_splits)
    with ErrEnd ph assms(1) show ?thesis by (simp add: pump_inv_def pump_next_def map_filter_snoc)
  qed (use ph assms(2,3) in \<open>auto simp: pump_step_def pump_end_def\<close>)
qed

lemma pump_run_inv:
  "pump_run S ss pump_start = Some p \<Longrightarrow> pp_phase p \<noteq> Finished \<Longrightarrow> pump_inv S ss p"
proof (induction ss arbitrary: p rule: rev_induct)
  case Nil
  then show ?case using pump_inv_start by simp
next
  case (snoc s ss)
  from snoc.prems obtain q where q: "pump_run S ss pump_start = Some q" "pump_step S s q = Some p"
    by (auto simp: pump_run_snoc)
  then have "pp_phase q \<noteq> Finished" by (auto simp: pump_step_def)
  with snoc q show ?case by (blast intro: pump_step_inv)
qed


text \<open>A new name in a directory that a path leads to is where opening it for writing ends.\<close>

lemma open_target_new:
  "walk F n cur p = Some l \<Longrightarrow> F l = Some DirNode \<or> l = [] \<Longrightarrow> F (l @ [c]) = None \<Longrightarrow>
     open_target F n cur (p @ [Normal c]) = Some (l @ [c])"
proof (induction F n cur p rule: walk.induct)
  case (5 F n cur x cs)
  then show ?case
    by (fastforce split: option.splits node.splits nat.splits if_splits)
qed auto

lemma walk_new_file:
  "walk F n cur p = Some l \<Longrightarrow> F t = None \<Longrightarrow> walk (F(t \<mapsto> FileNode s)) n cur p = Some l"
proof (induction F n cur p rule: walk.induct)
  case (5 F n cur x cs)
  show ?case
  proof (cases "cur @ [x] = t")
    case False
    with 5 show ?thesis
      by (auto split: option.splits node.splits nat.splits if_splits)
  qed (use 5 in simp)
qed auto

lemma line_phase [simp]: "pp_phase (out_line S l p) = pp_phase p" "pp_phase (err_line S l p) = pp_phase p"
  by (simp_all add: out_line_def err_line_def Let_def split: prod.splits)

lemma pump_next_finished [simp]: "pp_phase p \<noteq> Finished \<Longrightarrow> pp_phase (pump_next p) \<noteq> Finished"
  by (auto simp: pump_next_def)

section \<open>Properties\<close>

text \<open>C27: a child's stream is its lines in the order they came and then exactly one final event. When
  the loop has finished, the events are the lines of both pipes (those of stderr marked) followed
  by one event: a cancellation or a timeout, and then the child was killed; or, after both pipes
  ended, the exit of the child or the failure to wait for it.\<close>

theorem child_stream_shape:
  assumes "pump_run S ss pump_start = Some p" and "pp_phase p = Finished"
  shows "\<exists>before s last. ss = before @ [s] \<and> pp_sent p = List.map_filter chunk_of before @ [last] \<and>
    (s = TokenCancelled \<and> last = ToolCancelled \<and> pp_killed p \<or>
     s = DeadlinePassed \<and> last = ToolEventError (ps_timed_out S) True \<and> pp_killed p \<or>
     OutEnd \<in> set before \<and> ErrEnd \<in> set before \<and> \<not> pp_killed p \<and>
       ((\<exists>code out t. s = ChildExit code \<and> last = ToolResult out t \<and>
           json_get out ''success'' = Some (JBool (code = Some 0))) \<or>
        (\<exists>e. s = WaitFailed e \<and> last = ToolEventError (''failed waiting for child process: '' @ e) True)))"
    (is "\<exists>before s last. ?P before s last")
proof -
  from assms obtain before s where ss: "ss = before @ [s]"
    by (cases ss rule: rev_cases) (auto simp: pump_start_def)
  with assms(1) obtain q where q: "pump_run S before pump_start = Some q" "pump_step S s q = Some p"
    by (auto simp: pump_run_snoc)
  then have ph: "pp_phase q \<noteq> Finished" by (auto simp: pump_step_def)
  note inv = pump_run_inv [OF q(1) ph, unfolded pump_inv_def]
  have "\<exists>last. ?P before s last"
  proof (cases "pp_phase q")
    case Reading
    with q(2) assms(2) inv show ?thesis
      by (cases s) (auto simp: ss pump_step_def pump_end_def split: if_splits)
  next
    case Waiting
    with q(2) inv show ?thesis
      by (cases s) (auto simp: ss pump_step_def pump_end_def exit_result_def json_obj_def)
  qed (use ph in simp)
  then show ?thesis by blast
qed

theorem child_stream_shape_witness:
  "let ss = [OutLine ''hi'', ErrEnd, OutEnd, ChildExit (Some 0)];
       p = the (pump_run (shell_style 5) ss pump_start)
   in \<exists>before s last. ss = before @ [s] \<and> pp_sent p = List.map_filter chunk_of before @ [last]"
proof -
  let ?ss = "[OutLine ''hi'', ErrEnd, OutEnd, ChildExit (Some 0)]"
  obtain p where p: "pump_run (shell_style 5) ?ss pump_start = Some p" "pp_phase p = Finished"
    by (simp add: pump_start_def pump_step_def out_line_def shell_style_def pump_next_def pump_end_def Let_def)
  from child_stream_shape [OF p] p(1) show ?thesis
    unfolding Let_def by (metis option.sel)
qed

text \<open>Captured output is bounded, and complete unless it says otherwise. When a script ends by itself, the
  result carries its two transcripts, each within the capture cap; if the result is not marked
  truncated, they are exactly the lines the script wrote to each pipe.\<close>

theorem transcript_complete_or_truncated:
  assumes "pump_run S (ss @ [ChildExit code]) pump_start = Some p" and "ps_capture S"
  shows "\<exists>out t o' e. last (pp_sent p) = ToolResult out t \<and> json_get out ''stdout'' = Some (JStr o') \<and>
    json_get out ''stderr'' = Some (JStr e) \<and> length o' \<le> MAX_CAPTURE_BYTES \<and> length e \<le> MAX_CAPTURE_BYTES \<and>
    (\<not> t \<longrightarrow> o' = concat (map out_text ss) \<and> e = concat (map err_text ss))"
proof -
  from assms(1) obtain q where q: "pump_run S ss pump_start = Some q" "pump_step S (ChildExit code) q = Some p"
    by (auto simp: pump_run_snoc)
  then have w: "pp_phase q = Waiting" by (auto simp: pump_step_def split: pump_phase.splits)
  then have "pp_phase q \<noteq> Finished" by simp
  note inv = pump_run_inv [OF q(1) this, unfolded pump_inv_def]
  have "p = pump_end (exit_result S code q) q"
    using q(2) w by (simp add: pump_step_def)
  with inv assms(2) show ?thesis
    by (auto simp: pump_end_def exit_result_def json_obj_def)
qed

theorem transcript_complete_or_truncated_witness:
  "let S = \<lparr>ps_timed_out = [], ps_capture = True\<rparr>; ss = [OutEnd, ErrLine ''no'', ErrEnd];
       p = the (pump_run S (ss @ [ChildExit None]) pump_start)
   in \<exists>out t o' e. last (pp_sent p) = ToolResult out t \<and> json_get out ''stdout'' = Some (JStr o') \<and>
    json_get out ''stderr'' = Some (JStr e) \<and> length o' \<le> MAX_CAPTURE_BYTES \<and> length e \<le> MAX_CAPTURE_BYTES \<and>
    (\<not> t \<longrightarrow> o' = concat (map out_text ss) \<and> e = concat (map err_text ss))"
proof -
  let ?S = "\<lparr>ps_timed_out = [], ps_capture = True\<rparr>" and ?ss = "[OutEnd, ErrLine ''no'', ErrEnd]"
  obtain p where p: "pump_run ?S (?ss @ [ChildExit None]) pump_start = Some p"
    by (simp add: pump_start_def pump_step_def err_line_def pump_next_def pump_end_def Let_def append_capped_def MAX_CAPTURE_BYTES_def)
  from transcript_complete_or_truncated [OF p] p show ?thesis
    unfolding Let_def by simp
qed

text \<open>Once both pipes are closed, neither the deadline nor the token is looked at. A child that closes
  its output and keeps running is waited for without a limit: the timeout and the cancellation
  are not among the steps the tool can take, only the child's own exit is.\<close>

theorem closed_pipes_defeat_timeout:
  assumes "pump_run S ss pump_start = Some p" and "OutEnd \<in> set ss" and "ErrEnd \<in> set ss" and "pp_phase p \<noteq> Finished"
  shows "pump_step S DeadlinePassed p = None \<and> pump_step S TokenCancelled p = None \<and> \<not> pp_killed p \<and>
    (pump_step S s p \<noteq> None \<longleftrightarrow> (\<exists>code. s = ChildExit code) \<or> (\<exists>e. s = WaitFailed e))"
  using pump_run_inv [OF assms(1,4)] assms(2,3)
  by (cases s) (auto simp: pump_inv_def pump_step_def)

theorem closed_pipes_defeat_timeout_witness:
  "let p = the (pump_run (shell_style 5) [OutEnd, ErrEnd] pump_start)
   in pump_step (shell_style 5) DeadlinePassed p = None \<and> pump_step (shell_style 5) TokenCancelled p = None"
proof -
  obtain p where p: "pump_run (shell_style 5) [OutEnd, ErrEnd] pump_start = Some p" "pp_phase p \<noteq> Finished"
    by (simp add: pump_start_def pump_step_def pump_next_def)
  from closed_pipes_defeat_timeout [OF p(1) _ _ p(2), of "ChildExit None"] p(1) show ?thesis
    by simp
qed

text \<open>A shell command starts in a directory of the sandbox. The working directory of the child is the
  root or a path the scope accepted, so it lies under the root and leads out of it through no link
  that exists; every other call is answered without a child.\<close>

theorem shell_starts_inside_root:
  assumes "is_absolute cwd" and "sc = scope_new F0 cwd dir" and "shell_exec_plan F sc (Inr args) = Inr (cmd, style)"
  shows "\<exists>p. cm_cwd cmd = Some p \<and> starts_with p (fsc_root sc) \<and>
    (sx_cwd args \<noteq> None \<longrightarrow> (\<forall>l. canonicalize F p = Some l \<longrightarrow> p = abs_path l)) \<and>
    cm_program cmd = ''sh'' \<and> cm_args cmd = [''-c'', sx_command args]"
proof (cases "sx_cwd args")
  case None
  with assms(3) show ?thesis
    by (auto simp: shell_exec_plan_def shell_command_def Let_def starts_with_def split: if_splits)
next
  case (Some raw)
  with assms(3) obtain p where p: "resolve F sc raw = Inr p" "cmd = shell_command p args"
    by (auto simp: shell_exec_plan_def Let_def split: if_splits sum.splits)
  from resolve_confined [OF assms(1,2) p(1)] p(2) show ?thesis
    by (auto simp: shell_command_def)
qed

theorem shell_starts_inside_root_witness:
  "case shell_exec_plan demo_fs demo_scope (Inr \<lparr>sx_command = ''ls'', sx_cwd = None, sx_timeout_ms = None\<rparr>) of
     Inr (cmd, style) \<Rightarrow> (\<exists>p. cm_cwd cmd = Some p \<and> starts_with p (fsc_root demo_scope)) | Inl e \<Rightarrow> False"
proof -
  have c: "is_absolute [RootDir]" by (simp add: is_absolute_def)
  have "str_trim ''ls'' \<noteq> []" by (simp add: str_trim_eval)
  then obtain cmd style where p: "shell_exec_plan demo_fs demo_scope
      (Inr \<lparr>sx_command = ''ls'', sx_cwd = None, sx_timeout_ms = None\<rparr>) = Inr (cmd, style)"
    by (simp add: shell_exec_plan_def Let_def)
  from shell_starts_inside_root [OF c demo_scope_def p] p show ?thesis by auto
qed

text \<open>A staged script leaves no file behind. Whatever becomes of the child, when the stream of an
  AppleScript ends the file system is what it was before the tool was called.\<close>

theorem staged_script_removed:
  assumes "apple_script_plan os macos temp fresh parsed F = (Inr spec, F1)"
    and "spawn_streaming spec child F1 = Some (st, True, F2)"
    and "canonicalize F temp = Some d" and "d = [] \<or> F d = Some DirNode"
    and "\<forall>language. F (d @ [script_name fresh language]) = None"
  shows "F2 = F"
proof -
  from assms(1) obtain args where parsed: "parsed = Inr args"
    by (cases parsed) (auto simp: apple_script_plan_def)
  have args: "sp_cleanup_file spec = Some (temp @ [Normal (script_name fresh (as_language args))])"
    "fs_write F (temp @ [Normal (script_name fresh (as_language args))]) (as_script args) = Some F1"
    using assms(1) by (auto simp: parsed apple_script_plan_def Let_def split: if_splits option.splits)
  let ?c = "script_name fresh (as_language args)"
  have new: "F (d @ [?c]) = None" using assms(5) by simp
  then have F1: "F1 = F(d @ [?c] \<mapsto> FileNode (as_script args))"
    using args(2) open_target_new [OF assms(3) [unfolded canonicalize_def] _ new] assms(4) by (auto simp: fs_write_def)
  have "F2 = remove_cleanup_file (sp_cleanup_file spec) F1"
    using assms(2) by (auto simp: spawn_streaming_def split: sum.splits spawn_error.splits option.splits if_splits)
  also have "\<dots> = F1(d @ [?c] := None)"
    using walk_new_file [OF assms(3) [unfolded canonicalize_def] new, of "as_script args"]
    by (simp add: remove_cleanup_file_def remove_file_def args(1) canonicalize_def F1 butlast_append)
  finally show ?thesis
    using new by (auto simp: F1)
qed


theorem staged_script_removed_witness:
  "\<exists>spec F1 st. apple_script_plan (\<lambda>_. []) True [RootDir, Normal ''w''] ''0''
       (Inr \<lparr>as_script = ''beep'', as_language = Applescript\<rparr>) demo_fs = (Inr spec, F1) \<and>
     spawn_streaming spec (Inr [TokenCancelled]) F1 = Some (st, True, demo_fs)"
proof -
  have dir: "canonicalize demo_fs [RootDir, Normal ''w''] = Some [''w'']"
    by (simp add: canonicalize_def demo_fs_def)
  have new: "demo_fs [''w'', script_name ''0'' l] = None" for l
    by (simp add: demo_fs_def script_name_def)
  have "str_trim ''beep'' \<noteq> []" by (simp add: str_trim_eval)
  moreover have "fs_write demo_fs [RootDir, Normal ''w'', Normal (script_name ''0'' Applescript)] ''beep'' \<noteq> None"
    using open_target_new [OF dir [unfolded canonicalize_def], of "script_name ''0'' Applescript"] new
    by (simp add: fs_write_def demo_fs_def)
  ultimately obtain spec F1 where p: "apple_script_plan (\<lambda>_. []) True [RootDir, Normal ''w''] ''0''
      (Inr \<lparr>as_script = ''beep'', as_language = Applescript\<rparr>) demo_fs = (Inr spec, F1)"
    by (auto simp: apple_script_plan_def Let_def)
  obtain st F2 where s: "spawn_streaming spec (Inr [TokenCancelled]) F1 = Some (st, True, F2)"
    by (simp add: spawn_streaming_def pump_start_def pump_step_def pump_end_def)
  from staged_script_removed [OF p s dir] new have "F2 = demo_fs"
    by (simp add: demo_fs_def)
  with p s show ?thesis by blast
qed

end
