(* ===== verification/Local_Models.thy ===== *)
theory Local_Models
  imports Hosted_Requests "HOL-Library.Sublist"
begin

text \<open>
  Local models: the catalog, the provider in front of a local server, and the download manager of
  \<open>crates/mahi-compute/src/local/{mod,catalog,provider,manager}.rs\<close>.

  The models directory is flat, a map from file names to entries; an id with a slash is not a file
  name and outside the model. What the network and the disk do is given from outside: the reply to
  each request, piece by piece, with the outcome of writing each piece, and the outcome of the other
  disk operations. The cancellation flag is read once before each request and once per piece.
\<close>

section \<open>mod.rs\<close>

datatype local_error =
    LocalIo string
  | LocalHttp string
  | ModelNotFound string
  | LocalRuntime string
  | LocalCancelled

fun show_local_error :: "local_error \<Rightarrow> string" where
  "show_local_error (LocalIo e) = ''io error: '' @ e"
| "show_local_error (LocalHttp e) = ''http error: '' @ e"
| "show_local_error (ModelNotFound e) = ''model not found: '' @ e"
| "show_local_error (LocalRuntime e) = ''runtime error: '' @ e"
| "show_local_error LocalCancelled = ''download cancelled''"

section \<open>catalog.rs\<close>

record catalog_entry =
  ce_id :: string
  ce_display_name :: string
  ce_family :: string
  ce_size_bytes :: u64
  ce_quantization :: string
  ce_context_window :: u32
  ce_tool_calling :: bool
  ce_download_url :: string
  ce_file_name :: string
  ce_description :: string

definition hf_url :: "string \<Rightarrow> string \<Rightarrow> string" where
  "hf_url repo file_name = ''https://huggingface.co/'' @ repo @ ''/resolve/main/'' @ file_name"

definition entry ::
  "string \<Rightarrow> string \<Rightarrow> string \<Rightarrow> u64 \<Rightarrow> u32 \<Rightarrow> bool \<Rightarrow> string \<Rightarrow> string \<Rightarrow> string \<Rightarrow> catalog_entry" where
  "entry i display_name family size_bytes context_window tool_calling repo file_name description =
     \<lparr>ce_id = i, ce_display_name = display_name, ce_family = family, ce_size_bytes = size_bytes,
      ce_quantization = ''Q4_K_M'', ce_context_window = context_window, ce_tool_calling = tool_calling,
      ce_download_url = hf_url repo file_name, ce_file_name = file_name, ce_description = description\<rparr>"

definition model_catalog :: "catalog_entry list" where
  "model_catalog =
     [entry ''qwen2.5-0.5b-instruct'' ''Qwen2.5 0.5B Instruct'' ''qwen2.5'' 398000000 32768 True
        ''Qwen/Qwen2.5-0.5B-Instruct-GGUF'' ''qwen2.5-0.5b-instruct-q4_k_m.gguf''
        ''Tiny and fast; instant responses on any Apple Silicon Mac. Good for quick drafts and testing, limited reasoning depth.'',
      entry ''llama-3.2-1b-instruct'' ''Llama 3.2 1B Instruct'' ''llama-3.2'' 808000000 131072 True
        ''bartowski/Llama-3.2-1B-Instruct-GGUF'' ''Llama-3.2-1B-Instruct-Q4_K_M.gguf''
        ''Meta's smallest Llama 3.2; very fast with a long context. Good for summarization and chat on modest hardware.'',
      entry ''llama-3.2-3b-instruct'' ''Llama 3.2 3B Instruct'' ''llama-3.2'' 2020000000 131072 True
        ''bartowski/Llama-3.2-3B-Instruct-GGUF'' ''Llama-3.2-3B-Instruct-Q4_K_M.gguf''
        ''Strong small model: a good speed/quality default for 8 GB Macs, with solid instruction following and tool use.'',
      entry ''llama-3.1-8b-instruct'' ''Llama 3.1 8B Instruct'' ''llama-3.1'' 4920000000 131072 True
        ''bartowski/Meta-Llama-3.1-8B-Instruct-GGUF'' ''Meta-Llama-3.1-8B-Instruct-Q4_K_M.gguf''
        ''The workhorse 8B: strong general assistant with reliable tool calling and a 128K context. Wants 16 GB of unified memory.'',
      entry ''qwen2.5-7b-instruct'' ''Qwen2.5 7B Instruct'' ''qwen2.5'' 4680000000 32768 True
        ''bartowski/Qwen2.5-7B-Instruct-GGUF'' ''Qwen2.5-7B-Instruct-Q4_K_M.gguf''
        ''Excellent all-round 7B; top-tier instruction following, math, and multilingual chat for its size.'',
      entry ''qwen2.5-coder-7b-instruct'' ''Qwen2.5 Coder 7B Instruct'' ''qwen2.5-coder'' 4680000000 32768 True
        ''bartowski/Qwen2.5-Coder-7B-Instruct-GGUF'' ''Qwen2.5-Coder-7B-Instruct-Q4_K_M.gguf''
        ''Code-specialized Qwen2.5: the best local coding model at this size. Great for code generation, repair, and explanation.'',
      entry ''mistral-7b-instruct-v0.3'' ''Mistral 7B Instruct v0.3'' ''mistral'' 4370000000 32768 True
        ''bartowski/Mistral-7B-Instruct-v0.3-GGUF'' ''Mistral-7B-Instruct-v0.3-Q4_K_M.gguf''
        ''Classic fast 7B with native function-calling support and a concise, direct style.'',
      entry ''phi-3.5-mini-instruct'' ''Phi-3.5 Mini Instruct'' ''phi-3.5'' 2390000000 131072 False
        ''bartowski/Phi-3.5-mini-instruct-GGUF'' ''Phi-3.5-mini-instruct-Q4_K_M.gguf''
        ''Microsoft's 3.8B reasoning-dense small model with a 128K context. Strong for its size; no reliable tool calling.'',
      entry ''gemma-2-9b-it'' ''Gemma 2 9B IT'' ''gemma-2'' 5760000000 8192 False
        ''bartowski/gemma-2-9b-it-GGUF'' ''gemma-2-9b-it-Q4_K_M.gguf''
        ''Google's Gemma 2 9B: great prose and chat quality. Short 8K context and no tool calling.'']"

definition find_entry :: "string \<Rightarrow> catalog_entry option" where
  "find_entry i = find (\<lambda>e. ce_id e = i) model_catalog"

definition catalog_descriptor :: "catalog_entry \<Rightarrow> model_descriptor" where
  "catalog_descriptor e =
     \<lparr>md_id = ce_id e, md_display_name = ce_display_name e, md_context_window = ce_context_window e,
      md_capabilities = \<lparr>cap_vision = False, cap_tool_calling = ce_tool_calling e,
        cap_min_context_window = ce_context_window e, cap_code_gen = True, cap_thinking = False\<rparr>,
      md_limitations = MaxContextWindow (ce_context_window e) #
        (if ce_tool_calling e then [] else [CustomLimit ''No tool calling'']),
      md_size_bytes = Some (ce_size_bytes e), md_quantization = Some (ce_quantization e),
      md_source = SrcOnDevice, md_perf_profile = perf_default\<rparr>"

section \<open>provider.rs\<close>

record local_llama_provider =
  ll_inner :: openai_provider
  ll_descriptor :: model_descriptor

definition with_descriptor :: "string \<Rightarrow> string \<Rightarrow> model_descriptor \<Rightarrow> local_llama_provider" where
  "with_descriptor base_url model_id descriptor =
     \<lparr>ll_inner = with_mode OnDevice (openai_new base_url [] model_id), ll_descriptor = descriptor\<rparr>"

definition local_provider_new :: "string \<Rightarrow> catalog_entry \<Rightarrow> local_llama_provider" where
  "local_provider_new base_url e = with_descriptor base_url (ce_id e) (catalog_descriptor e)"

definition local_endpoint :: "local_llama_provider \<Rightarrow> string" where
  "local_endpoint p = chat_completions_url (ll_inner p)"

definition local_can_handle :: "local_llama_provider \<Rightarrow> inference_request \<Rightarrow> can_handle_result" where
  "local_can_handle p req =
     (let caps = md_capabilities (ll_descriptor p)
      in if satisfied_by (req_required_caps req) caps then chr_yes
         else \<lparr>chr_capable = False, chr_missing_caps = missing_from (req_required_caps req) caps,
               chr_escalation_hint = Some Hosted\<rparr>)"

definition local_generate ::
  "http_env \<Rightarrow> local_llama_provider \<Rightarrow> inference_request \<Rightarrow> cancel_token \<Rightarrow> contract_error + inference_stream" where
  "local_generate E p req cancel = openai_generate E (ll_inner p) req cancel"

definition local_as_provider :: "http_env \<Rightarrow> local_llama_provider \<Rightarrow> provider" where
  "local_as_provider E p =
     \<lparr>pv_descriptor = ll_descriptor p, pv_can_handle = local_can_handle p, pv_generate = local_generate E p\<rparr>"

section \<open>manager.rs\<close>

datatype download_status = DlIdle | Downloading | DlCompleted | DlFailed string

record download_state =
  ds_bytes_downloaded :: u64
  ds_total_bytes :: u64
  ds_status :: download_status

definition download_state_default :: download_state where
  "download_state_default = \<lparr>ds_bytes_downloaded = 0, ds_total_bytes = 0, ds_status = DlIdle\<rparr>"

definition progress :: "download_state \<Rightarrow> f32" where
  "progress st =
     (if ds_total_bytes st = 0 then Fin 0
      else Fin (min 1 (of_nat (unat (ds_bytes_downloaded st)) / of_nat (unat (ds_total_bytes st)))))"

definition add_downloaded :: "u64 \<Rightarrow> download_state \<Rightarrow> download_state" where
  "add_downloaded n st = st\<lparr>ds_bytes_downloaded := ds_bytes_downloaded st + n\<rparr>"

text \<open>An entry of the models directory: a regular file, or a directory or special entry, which
  cannot be opened or removed as a file.\<close>

datatype dir_entry = Regular bytes | Irregular u64

type_synonym models_dir = "string \<Rightarrow> dir_entry option"

fun entry_len :: "dir_entry \<Rightarrow> u64" where
  "entry_len (Regular bs) = of_nat (length bs)"
| "entry_len (Irregular n) = n"

definition model_path :: "string \<Rightarrow> string" where
  "model_path model_id = model_id @ ''.gguf''"

definition part_path :: "string \<Rightarrow> string" where
  "part_path dest = dest @ ''.part''"

text \<open>\<open>Path::extension\<close> and \<open>Path::file_stem\<close> of a file name.\<close>

definition split_last_dot :: "string \<Rightarrow> (string \<times> string) option" where
  "split_last_dot s =
     (let after = rev (takeWhile (\<lambda>c. c \<noteq> CHR ''.'') (rev s));
          before = rev (tl (dropWhile (\<lambda>c. c \<noteq> CHR ''.'') (rev s)))
      in if CHR ''.'' \<in> set s \<and> before \<noteq> [] then Some (before, after) else None)"

definition path_extension :: "string \<Rightarrow> string option" where
  "path_extension name = map_option snd (split_last_dot name)"

definition path_stem :: "string \<Rightarrow> string" where
  "path_stem name = (case split_last_dot name of Some (a, b) \<Rightarrow> a | None \<Rightarrow> name)"

record installed_model =
  im_id :: string
  im_path :: string
  im_size_bytes :: u64
  im_catalog_entry :: "catalog_entry option"

definition installed_entry :: "models_dir \<Rightarrow> string \<Rightarrow> installed_model option" where
  "installed_entry F name =
     (if path_extension name \<noteq> Some ''gguf'' then None
      else case F name of
             Some (Regular bs) \<Rightarrow>
               Some \<lparr>im_id = path_stem name, im_path = name, im_size_bytes = of_nat (length bs),
                     im_catalog_entry = find_entry (path_stem name)\<rparr>
           | _ \<Rightarrow> None)"

text \<open>\<open>installed\<close>; the listing of the directory is given, \<open>None\<close> when it cannot be read.\<close>

definition installed :: "models_dir \<Rightarrow> string list option \<Rightarrow> installed_model list" where
  "installed F listing =
     (case listing of
        None \<Rightarrow> []
      | Some names \<Rightarrow> sort_key im_id (List.map_filter (installed_entry F) names))"

text \<open>\<open>remove_if_exists\<close>; \<open>refused\<close> is the system's text for an entry that is no file.\<close>

definition remove_if_exists :: "string \<Rightarrow> string \<Rightarrow> models_dir \<Rightarrow> (local_error + bool) \<times> models_dir" where
  "remove_if_exists refused name F =
     (case F name of
        Some (Regular bs) \<Rightarrow> (Inr True, F(name := None))
      | None \<Rightarrow> (Inr False, F)
      | Some (Irregular n) \<Rightarrow> (Inl (LocalIo refused), F))"

definition delete_model_file :: "string \<Rightarrow> string \<Rightarrow> models_dir \<Rightarrow> (local_error + unit) \<times> models_dir" where
  "delete_model_file refused model_id F =
     (let dest = model_path model_id; part = part_path dest
      in case remove_if_exists refused dest F of
           (Inl e, F1) \<Rightarrow> (Inl e, F1)
         | (Inr removed_model, F1) \<Rightarrow>
             (case remove_if_exists refused part F1 of
                (Inl e, F2) \<Rightarrow> (Inl e, F2)
              | (Inr removed_part, F2) \<Rightarrow>
                  (if removed_model \<or> removed_part then Inr () else Inl (ModelNotFound model_id), F2)))"

subsection \<open>Downloading\<close>

text \<open>\<open>str::parse::<u64>\<close> and \<open>content_range_total\<close>.\<close>

definition parse_u64 :: "string \<Rightarrow> u64 option" where
  "parse_u64 s =
     (let digits = (if s \<noteq> [] \<and> hd s = CHR ''+'' then tl s else s)
      in if digits \<noteq> [] \<and> list_all is_ascii_digit digits \<and> digits_value digits < 2 ^ 64
         then Some (of_nat (digits_value digits)) else None)"

definition content_range_total :: "string option \<Rightarrow> u64 option" where
  "content_range_total header =
     Option.bind header (\<lambda>v. parse_u64 (str_trim (rev (takeWhile (\<lambda>c. c \<noteq> CHR ''/'') (rev v)))))"

text \<open>A piece of the body, with the failure of writing it, if any: how many bytes got to the disk
  and the error.\<close>

datatype body_item = Piece bytes "(nat \<times> string) option" | BodyError string

datatype get_reply =
    SendFailed string
  | Reply nat "string option" "u64 option" "body_item list"

text \<open>What the disk, the network and the caller do during one download. \<open>de_get\<close> answers the request
  of the first or, after a 416, of the second round, with its range; the others are the errors of
  the disk operations, if they fail.\<close>

record download_env =
  de_get :: "bool \<Rightarrow> u64 option \<Rightarrow> get_reply"
  de_cancelled :: cancel_token
  de_mkdir :: "string option"
  de_open :: "string option"
  de_flush :: "string option"
  de_sync :: "string option"
  de_rename :: "string option"
  de_refused :: string
  de_show_status :: "nat \<Rightarrow> string"

fun write_body ::
  "download_env \<Rightarrow> nat \<Rightarrow> body_item list \<Rightarrow> bytes \<Rightarrow> download_state \<Rightarrow> (local_error + unit) \<times> bytes \<times> download_state" where
  "write_body E k [] content st = (Inr (), content, st)"
| "write_body E k (item # items) content st =
     (if de_cancelled E k
      then (case de_flush E of Some e \<Rightarrow> Inl (LocalIo e) | None \<Rightarrow> Inl LocalCancelled, content, st)
      else case item of
             BodyError e \<Rightarrow> (Inl (LocalHttp (''stream error: '' @ e)), content, st)
           | Piece bs (Some (n, e)) \<Rightarrow> (Inl (LocalIo e), content @ take n bs, st)
           | Piece bs None \<Rightarrow>
               write_body E (Suc k) items (content @ bs) (add_downloaded (of_nat (length bs)) st))"

text \<open>After the last piece: flush, sync and rename.\<close>

definition install_part ::
  "download_env \<Rightarrow> string \<Rightarrow> bytes \<Rightarrow> models_dir \<Rightarrow> (local_error + unit) \<times> models_dir" where
  "install_part E dest content F =
     (case (case de_flush E of None \<Rightarrow> (case de_sync E of None \<Rightarrow> de_rename E | Some e \<Rightarrow> Some e) | Some e \<Rightarrow> Some e) of
        Some e \<Rightarrow> (Inl (LocalIo e), F)
      | None \<Rightarrow> (Inr (), F(part_path dest := None, dest \<mapsto> Regular content)))"

text \<open>The partial file is opened to be continued, or created; its content then.\<close>

definition open_part :: "download_env \<Rightarrow> string \<Rightarrow> bool \<Rightarrow> models_dir \<Rightarrow> local_error + bytes" where
  "open_part E part resuming F =
     (case de_open E of
        Some e \<Rightarrow> Inl (LocalIo e)
      | None \<Rightarrow>
          (case F part of
             Some (Irregular n) \<Rightarrow> Inl (LocalIo (de_refused E))
           | Some (Regular bs) \<Rightarrow> Inr (if resuming then bs else [])
           | None \<Rightarrow> if resuming then Inl (LocalIo (de_refused E)) else Inr []))"

text \<open>A successful reply is received into the partial file.\<close>

definition receive_reply ::
  "download_env \<Rightarrow> nat \<Rightarrow> string \<Rightarrow> u64 \<Rightarrow> nat \<Rightarrow> string option \<Rightarrow> u64 option \<Rightarrow> body_item list \<Rightarrow>
     download_state \<Rightarrow> models_dir \<Rightarrow> (local_error + unit) \<times> download_state \<times> models_dir" where
  "receive_reply E k dest resume_from status crange content_length items st F =
     (let part = part_path dest;
          resuming = (status = 206 \<and> 0 < resume_from);
          total = (if resuming
                   then (case content_range_total crange of
                           Some t \<Rightarrow> Some t | None \<Rightarrow> map_option (\<lambda>len. resume_from + len) content_length)
                   else content_length);
          st = (case total of Some t \<Rightarrow> st\<lparr>ds_total_bytes := t\<rparr> | None \<Rightarrow> st)
      in case open_part E part resuming F of
           Inl e \<Rightarrow> (Inl e, st, F)
         | Inr content \<Rightarrow>
             (case write_body E k items content (st\<lparr>ds_bytes_downloaded := if resuming then resume_from else 0\<rparr>) of
                (Inl e, content', st') \<Rightarrow> (Inl e, st', F(part \<mapsto> Regular content'))
              | (Inr _, content', st') \<Rightarrow>
                  (case install_part E dest content' (F(part \<mapsto> Regular content')) of
                     (res, F') \<Rightarrow> (res, st', F'))))"

definition is_success :: "nat \<Rightarrow> bool" where
  "is_success status = (200 \<le> status \<and> status < 300)"

text \<open>The loop: at most two rounds, the second one from scratch.\<close>

function download_loop ::
  "download_env \<Rightarrow> string \<Rightarrow> string \<Rightarrow> bool \<Rightarrow> nat \<Rightarrow> download_state \<Rightarrow> models_dir \<Rightarrow>
     (local_error + unit) \<times> download_state \<times> models_dir" where
  "download_loop E url dest allow_resume k st F =
     (if de_cancelled E k then (Inl LocalCancelled, st, F)
      else
        let part = part_path dest;
            (resume_from, F) =
              (if allow_resume then (case F part of Some en \<Rightarrow> entry_len en | None \<Rightarrow> 0, F)
               else (0, snd (remove_if_exists (de_refused E) part F)))
        in case de_get E allow_resume (if 0 < resume_from then Some resume_from else None) of
             SendFailed e \<Rightarrow> (Inl (LocalHttp (''request to '' @ url @ '' failed: '' @ e)), st, F)
           | Reply status crange content_length items \<Rightarrow>
               if status = 416 \<and> allow_resume then download_loop E url dest False (Suc k) st F
               else if \<not> is_success status
               then (Inl (LocalHttp (''HTTP '' @ de_show_status E status @ '' downloading '' @ url)), st, F)
               else receive_reply E (Suc k) dest resume_from status crange content_length items st F)"
  by pat_completeness auto
termination
  by (relation "measure (\<lambda>(E, url, dest, allow_resume, k, st, F). if allow_resume then 1 else 0)") auto

declare download_loop.simps [simp del]

definition download_with_resume ::
  "download_env \<Rightarrow> string \<Rightarrow> string \<Rightarrow> download_state \<Rightarrow> models_dir \<Rightarrow>
     (local_error + unit) \<times> download_state \<times> models_dir" where
  "download_with_resume E url dest st F =
     (case F dest of
        Some en \<Rightarrow> (Inr (), st\<lparr>ds_bytes_downloaded := entry_len en, ds_total_bytes := entry_len en\<rparr>, F)
      | None \<Rightarrow>
          (case de_mkdir E of
             Some e \<Rightarrow> (Inl (LocalIo e), st, F)
           | None \<Rightarrow> download_loop E url dest True 0 st F))"

text \<open>\<open>start_download\<close> and the task it spawns, run to its end.\<close>

definition start_download :: "download_env \<Rightarrow> catalog_entry \<Rightarrow> models_dir \<Rightarrow> download_state \<times> models_dir" where
  "start_download E e F =
     (let st = download_state_default\<lparr>ds_status := Downloading, ds_total_bytes := ce_size_bytes e\<rparr>
      in case download_with_resume E (ce_download_url e) (model_path (ce_id e)) st F of
           (Inr _, st', F') \<Rightarrow> (st'\<lparr>ds_status := DlCompleted\<rparr>, F')
         | (Inl LocalCancelled, st', F') \<Rightarrow> (st'\<lparr>ds_status := DlFailed ''download cancelled''\<rparr>, F')
         | (Inl err, st', F') \<Rightarrow> (st'\<lparr>ds_status := DlFailed (show_local_error err)\<rparr>, F'))"

section \<open>Laws\<close>

lemma local_fields [simp]:
  "oa_mode (ll_inner (with_descriptor u i d)) = OnDevice" "ll_descriptor (with_descriptor u i d) = d"
  "oa_mode (ll_inner (local_provider_new u e)) = OnDevice"
  "ll_descriptor (local_provider_new u e) = catalog_descriptor e"
  by (simp_all add: with_descriptor_def local_provider_new_def with_mode_def)

interpretation local_llama: inference_provider local_can_handle "local_generate E" "\<lambda>_. True" for E
proof unfold_locales
  fix p req c st
  assume "local_generate E p req c = Inr st"
  then show "\<exists>m. chunk_modes st \<subseteq> {m}"
    unfolding local_generate_def by (rule openai_hosted.one_mode)
qed (auto simp: local_generate_def openai_generate_def dest: hosted_stream_contract(1))

lemma local_generate_mode:
  assumes "local_generate E (with_descriptor u i d) req c = Inr st"
  shows "chunk_modes st \<subseteq> {OnDevice}"
  using hosted_stream_contract(2) [OF assms [unfolded local_generate_def openai_generate_def]]
    openai.stream_modes by fastforce

text \<open>The names of the two files of a model differ.\<close>

lemma part_path_neq [simp]: "part_path dest \<noteq> dest" "dest \<noteq> part_path dest"
  by (simp_all add: part_path_def)

text \<open>What a server that has the file \<open>blob\<close> may answer: any failure, or the file from where it was
  asked to start (status 206) or from its beginning (any other success), perhaps cut short by an
  error of the stream.\<close>

fun piece_bytes :: "body_item \<Rightarrow> bytes" where
  "piece_bytes (Piece bs w) = bs"
| "piece_bytes (BodyError e) = []"

fun whole :: "body_item list \<Rightarrow> bool" where
  "whole [] = True"
| "whole (Piece bs w # items) = whole items"
| "whole (BodyError e # items) = False"

fun received :: "body_item list \<Rightarrow> bytes" where
  "received [] = []"
| "received (Piece bs w # items) = bs @ received items"
| "received (BodyError e # items) = []"

definition range_start :: "nat \<Rightarrow> u64 option \<Rightarrow> nat" where
  "range_start status asked = (if status = 206 then (case asked of Some n \<Rightarrow> unat n | None \<Rightarrow> 0) else 0)"

definition serves :: "bytes \<Rightarrow> download_env \<Rightarrow> bool" where
  "serves blob E \<longleftrightarrow>
     (\<forall>allow asked status crange len items.
        de_get E allow asked = Reply status crange len items \<longrightarrow> is_success status \<longrightarrow>
          prefix (received items) (drop (range_start status asked) blob) \<and>
          (whole items \<longrightarrow> received items = drop (range_start status asked) blob))"

text \<open>The files of a model while it is downloaded: the partial file holds a beginning of it, and there
  is no model file, or the whole one.\<close>

definition model_files_ok :: "bytes \<Rightarrow> string \<Rightarrow> models_dir \<Rightarrow> bool" where
  "model_files_ok blob dest F \<longleftrightarrow>
     (F dest = None \<or> F dest = Some (Regular blob)) \<and>
     (\<forall>en. F (part_path dest) = Some en \<longrightarrow> (\<exists>bs. en = Regular bs \<and> prefix bs blob))"

lemma write_body_prefix:
  assumes "write_body E k items content st = (res, content', st')" and "prefix (content @ received items) blob"
  shows "prefix content' blob \<and> (res = Inr () \<longrightarrow> whole items \<and> content' = content @ received items)"
  using assms
proof (induction items arbitrary: k content st)
  case (Cons item items)
  show ?case
  proof (cases "\<exists>bs. item = Piece bs None \<and> \<not> de_cancelled E k")
    case True
    then obtain bs where item: "item = Piece bs None" "\<not> de_cancelled E k" by blast
    with Cons.prems have "write_body E (Suc k) items (content @ bs) (add_downloaded (of_nat (length bs)) st) = (res, content', st')"
      by simp
    from Cons.IH [OF this] Cons.prems(2) item(1) show ?thesis by simp
  next
    case False
    have cut: "prefix (content @ take n bs) blob" if "item = Piece bs w" for n bs w
    proof -
      have "prefix (content @ take n bs) (content @ bs @ received items)"
        by (metis append.assoc append_take_drop_id prefixI same_prefix_prefix)
      also have "prefix \<dots> blob"
        using Cons.prems(2) that by simp
      finally show ?thesis .
    qed
    have content: "prefix content blob"
      using Cons.prems(2) by (rule append_prefixD)
    show ?thesis
    proof (cases "de_cancelled E k")
      case True
      with Cons.prems(1) content show ?thesis by (auto split: option.splits)
    next
      case live: False
      show ?thesis
      proof (cases item)
        case (Piece bs w)
        with False live obtain n e where "w = Some (n, e)" by (cases w) auto
        with Cons.prems(1) live Piece cut [OF Piece] show ?thesis by auto
      next
        case (BodyError e)
        with Cons.prems(1) live content show ?thesis by auto
      qed
    qed
  qed
qed auto


lemma drop_prefix: "prefix bs blob \<Longrightarrow> bs @ drop (length bs) blob = blob"
  by (auto simp: prefix_def)

lemma unat_length:
  assumes "prefix bs blob" and "length blob < 2 ^ 64"
  shows "unat (of_nat (length bs) :: u64) = length bs"
  using assms prefix_length_le [OF assms(1)] by (simp add: unat_of_nat take_bit_nat_eq_self)

lemma install_part_ok:
  assumes "install_part E dest content F = (res, F')" and "res = Inr () \<Longrightarrow> content = blob"
    and "model_files_ok blob dest F"
  shows "model_files_ok blob dest F' \<and> (res = Inr () \<longrightarrow> F' dest = Some (Regular blob)) \<and>
    (\<forall>n. n \<noteq> dest \<longrightarrow> n \<noteq> part_path dest \<longrightarrow> F' n = F n)"
  using assms by (auto simp: install_part_def model_files_ok_def split: option.splits)

text \<open>The steps of a round that keep \<open>model_files_ok\<close>, and touch the two files of the model only.\<close>

definition keeps :: "bytes \<Rightarrow> string \<Rightarrow> models_dir \<Rightarrow> (local_error + unit) \<Rightarrow> models_dir \<Rightarrow> bool" where
  "keeps blob dest F res F' \<longleftrightarrow>
     model_files_ok blob dest F' \<and> (res = Inr () \<longrightarrow> F' dest = Some (Regular blob)) \<and>
     (\<forall>n. n \<noteq> dest \<longrightarrow> n \<noteq> part_path dest \<longrightarrow> F' n = F n)"

lemma write_part_ok:
  "model_files_ok blob dest F \<Longrightarrow> prefix content blob \<Longrightarrow> model_files_ok blob dest (F(part_path dest \<mapsto> Regular content))"
  by (auto simp: model_files_ok_def)

lemma open_part_content:
  assumes "open_part E (part_path dest) (status = 206 \<and> 0 < resume_from) F = Inr content"
    and "model_files_ok blob dest F" and "length blob < 2 ^ 64"
    and "\<And>en. 0 < resume_from \<Longrightarrow> F (part_path dest) = Some en \<Longrightarrow> entry_len en = resume_from"
  shows "content @ drop (range_start status (if 0 < resume_from then Some resume_from else None)) blob = blob"
proof (cases "status = 206 \<and> 0 < resume_from")
  case True
  with assms(1) have F: "F (part_path dest) = Some (Regular content)"
    by (auto simp: open_part_def split: option.splits dir_entry.splits)
  with assms(2) have "prefix content blob" by (simp add: model_files_ok_def)
  moreover from assms(4) F True have "resume_from = of_nat (length content)" by force
  ultimately show ?thesis
    using True unat_length [of content blob] assms(3) by (simp add: range_start_def drop_prefix)
next
  case False
  with assms(1) have "content = []"
    by (auto simp: open_part_def split: option.splits dir_entry.splits)
  with False show ?thesis by (auto simp: range_start_def)
qed

lemma receive_ok:
  assumes r: "receive_reply E k dest resume_from status crange len items st F = (res, st', F')"
    and F: "model_files_ok blob dest F"
    and from_part: "\<And>en. 0 < resume_from \<Longrightarrow> F (part_path dest) = Some en \<Longrightarrow> entry_len en = resume_from"
    and get: "serves blob E" "de_get E allow (if 0 < resume_from then Some resume_from else None) = Reply status crange len items"
      "is_success status"
    and len: "length blob < 2 ^ 64"
  shows "keeps blob dest F res F'"
proof -
  let ?part = "part_path dest" and ?at = "range_start status (if 0 < resume_from then Some resume_from else None)"
  have body: "prefix (received items) (drop ?at blob)" "whole items \<longrightarrow> received items = drop ?at blob"
    using get unfolding serves_def by blast+
  show ?thesis
  proof (cases "open_part E ?part (status = 206 \<and> 0 < resume_from) F")
    case (Inl e)
    with r F show ?thesis by (auto simp: receive_reply_def Let_def keeps_def)
  next
    case (Inr content)
    note content = open_part_content [OF Inr F len from_part]
    obtain res1 content' st1 st2 where w: "write_body E k items content st1 = (res1, content', st2)"
        "case res1 of Inl e \<Rightarrow> res = Inl e \<and> F' = F(?part \<mapsto> Regular content')
         | Inr _ \<Rightarrow> install_part E dest content' (F(?part \<mapsto> Regular content')) = (res, F')"
      using r Inr by (auto simp: receive_reply_def Let_def split: prod.splits sum.splits)
    have "prefix (content @ received items) blob"
      using body(1) content by (metis same_prefix_prefix)
    from write_body_prefix [OF w(1) this] have wb: "prefix content' blob" "res1 = Inr () \<Longrightarrow> content' = blob"
      using body(2) content by auto
    from w(2) write_part_ok [OF F wb(1)] install_part_ok [of E dest content' _ res F' blob] wb(2) show ?thesis
      by (cases res1) (auto simp: keeps_def)
  qed
qed

text \<open>A round of the loop, taken apart: where it starts in the file and what it leaves to the request.\<close>

definition round_start :: "download_env \<Rightarrow> string \<Rightarrow> bool \<Rightarrow> models_dir \<Rightarrow> u64 \<times> models_dir" where
  "round_start E dest allow_resume F =
     (if allow_resume then (case F (part_path dest) of Some en \<Rightarrow> entry_len en | None \<Rightarrow> 0, F)
      else (0, snd (remove_if_exists (de_refused E) (part_path dest) F)))"

lemma download_round:
  "download_loop E url dest allow_resume k st F =
     (if de_cancelled E k then (Inl LocalCancelled, st, F)
      else case round_start E dest allow_resume F of
        (resume_from, F1) \<Rightarrow>
          (case de_get E allow_resume (if 0 < resume_from then Some resume_from else None) of
             SendFailed e \<Rightarrow> (Inl (LocalHttp (''request to '' @ url @ '' failed: '' @ e)), st, F1)
           | Reply status crange len items \<Rightarrow>
               if status = 416 \<and> allow_resume then download_loop E url dest False (Suc k) st F1
               else if \<not> is_success status
               then (Inl (LocalHttp (''HTTP '' @ de_show_status E status @ '' downloading '' @ url)), st, F1)
               else receive_reply E (Suc k) dest resume_from status crange len items st F1))"
  by (subst download_loop.simps) (simp add: round_start_def Let_def)

lemma round_start_ok:
  assumes "round_start E dest allow_resume F = (resume_from, F1)" and "model_files_ok blob dest F"
  shows "model_files_ok blob dest F1" and "\<And>n. n \<noteq> part_path dest \<Longrightarrow> F1 n = F n"
    and "\<And>en. 0 < resume_from \<Longrightarrow> F1 (part_path dest) = Some en \<Longrightarrow> entry_len en = resume_from"
  using assms
  by (auto simp: round_start_def model_files_ok_def remove_if_exists_def split: if_splits option.splits dir_entry.splits)

lemma keeps_trans:
  assumes "keeps blob dest F1 res F2" and "\<And>n. n \<noteq> part_path dest \<Longrightarrow> F1 n = F n"
  shows "keeps blob dest F res F2"
  using assms by (simp add: keeps_def)

lemma download_loop_ok:
  assumes "download_loop E url dest allow_resume k st F = (res, st', F')" and "model_files_ok blob dest F"
    and get: "serves blob E" and len: "length blob < 2 ^ 64"
  shows "keeps blob dest F res F'"
  using assms(1,2)
proof (induction allow_resume arbitrary: k F rule: measure_induct_rule [of "\<lambda>b. if b then Suc 0 else 0"])
  case (less allow_resume)
  obtain resume_from F1 where start: "round_start E dest allow_resume F = (resume_from, F1)"
    by fastforce
  note F1 = round_start_ok [OF start less.prems(2)]
  have stay: "keeps blob dest F (Inl e) F1" for e
    using F1(1,2) by (simp add: keeps_def)
  show ?case
  proof (cases "de_cancelled E k")
    case True
    with less.prems show ?thesis by (auto simp: download_round [of _ _ _ allow_resume] keeps_def)
  next
    case live: False
    show ?thesis
    proof (cases "de_get E allow_resume (if 0 < resume_from then Some resume_from else None)")
      case (SendFailed e)
      with less.prems(1) live start stay show ?thesis by (auto simp: download_round)
    next
      case (Reply status crange l items)
      note run = less.prems(1) [unfolded download_round [of _ _ _ allow_resume] start prod.case Reply get_reply.case]
      consider "status = 416 \<and> allow_resume" | "\<not> (status = 416 \<and> allow_resume)" "\<not> is_success status"
        | "\<not> (status = 416 \<and> allow_resume)" "is_success status" by blast
      then show ?thesis
      proof cases
        case 1
        with run live have "download_loop E url dest False (Suc k) st F1 = (res, st', F')" by simp
        from less.IH [OF _ this F1(1)] 1 F1(2) show ?thesis by (auto intro: keeps_trans)
      next
        case 2
        with run live stay show ?thesis by auto
      next
        case 3
        with run live have "receive_reply E (Suc k) dest resume_from status crange l items st F1 = (res, st', F')" by simp
        from receive_ok [OF this F1(1,3) get Reply 3(2) len] F1(2) show ?thesis
          by (auto intro: keeps_trans)
      qed
    qed
  qed
qed

lemma start_download_ok:
  assumes "start_download E e F = (st, F')" and "model_files_ok blob (model_path (ce_id e)) F"
    and "serves blob E" and "length blob < 2 ^ 64"
  shows "keeps blob (model_path (ce_id e)) F (if ds_status st = DlCompleted then Inr () else Inl LocalCancelled) F'"
proof -
  let ?dest = "model_path (ce_id e)"
  let ?st = "download_state_default\<lparr>ds_status := Downloading, ds_total_bytes := ce_size_bytes e\<rparr>"
  obtain res st1 where d: "download_with_resume E (ce_download_url e) ?dest ?st F = (res, st1, F')"
      "ds_status st = DlCompleted \<longleftrightarrow> res = Inr ()"
    using assms(1) by (auto simp: start_download_def Let_def split: prod.splits sum.splits local_error.splits)
  have "keeps blob ?dest F res F'"
  proof (cases "F ?dest")
    case None
    show ?thesis
    proof (cases "de_mkdir E")
      case mk: None
      with d(1) None have "download_loop E (ce_download_url e) ?dest True 0 ?st F = (res, st1, F')"
        by (simp add: download_with_resume_def)
      from download_loop_ok [OF this assms(2-4)] show ?thesis .
    qed (use d(1) None assms(2) in \<open>auto simp: download_with_resume_def keeps_def\<close>)
  qed (use d(1) assms(2) in \<open>auto simp: download_with_resume_def keeps_def model_files_ok_def\<close>)
  with d(2) show ?thesis by (auto simp: keeps_def)
qed

text \<open>A download that nothing disturbs: no cancellation, no failure of the disk or the network; a server
  may refuse the range of a first request.\<close>

definition undisturbed :: "download_env \<Rightarrow> bool" where
  "undisturbed E \<longleftrightarrow>
     (\<forall>k. \<not> de_cancelled E k) \<and> de_mkdir E = None \<and> de_open E = None \<and> de_flush E = None \<and> de_sync E = None \<and>
     de_rename E = None \<and>
     (\<forall>allow asked. case de_get E allow asked of
        SendFailed e \<Rightarrow> False
      | Reply status crange len items \<Rightarrow>
          status = 416 \<and> allow \<or> is_success status \<and> (\<forall>i\<in>set items. \<exists>bs. i = Piece bs None))"

lemma undisturbed_reply:
  assumes "undisturbed E" and "de_get E allow asked = Reply status crange len items"
  shows "status = 416 \<and> allow \<or> is_success status \<and> (\<forall>i\<in>set items. \<exists>bs. i = Piece bs None)"
proof -
  have "case de_get E allow asked of SendFailed e \<Rightarrow> False
    | Reply status crange len items \<Rightarrow> status = 416 \<and> allow \<or> is_success status \<and> (\<forall>i\<in>set items. \<exists>bs. i = Piece bs None)"
    using assms(1) by (simp add: undisturbed_def)
  then show ?thesis
    unfolding assms(2) by simp
qed

lemma write_body_undisturbed:
  assumes "\<forall>k. \<not> de_cancelled E k" and "\<forall>i\<in>set items. \<exists>bs. i = Piece bs None"
  shows "write_body E k items content st =
    (Inr (), content @ received items, add_downloaded (of_nat (length (received items))) st)"
  using assms(2)
proof (induction items arbitrary: k content st)
  case (Cons i items)
  then obtain bs where "i = Piece bs None" by auto
  with Cons assms(1) show ?case
    by (simp add: add_downloaded_def add.assoc)
qed (simp add: add_downloaded_def)

lemma receive_undisturbed:
  assumes "undisturbed E" and "\<forall>i\<in>set items. \<exists>bs. i = Piece bs None"
    and "\<And>n. F (part_path dest) \<noteq> Some (Irregular n)" and "0 < resume_from \<Longrightarrow> F (part_path dest) \<noteq> None"
  shows "\<exists>st' content. receive_reply E k dest resume_from status crange len items st F =
    (Inr (), st', F(part_path dest := None, dest \<mapsto> Regular (content @ received items))) \<and>
    open_part E (part_path dest) (status = 206 \<and> 0 < resume_from) F = Inr content \<and>
    ds_bytes_downloaded st' = (if status = 206 \<and> 0 < resume_from then resume_from else 0) + of_nat (length (received items))"
proof -
  have "\<exists>content. open_part E (part_path dest) (status = 206 \<and> 0 < resume_from) F = Inr content"
    using assms(1,3,4) by (auto simp: open_part_def undisturbed_def split: option.splits dir_entry.splits)
  then obtain content where o: "open_part E (part_path dest) (status = 206 \<and> 0 < resume_from) F = Inr content" ..
  have i: "install_part E dest bs G = (Inr (), G(part_path dest := None, dest \<mapsto> Regular bs))" for bs G
    using assms(1) by (simp add: install_part_def undisturbed_def)
  have "write_body E k items content st =
    (Inr (), content @ received items, add_downloaded (of_nat (length (received items))) st)" for k st
    using assms(1,2) by (intro write_body_undisturbed) (auto simp: undisturbed_def)
  then show ?thesis
    using o by (simp add: receive_reply_def Let_def i add_downloaded_def)
qed

lemma round_undisturbed:
  assumes "undisturbed E" and F: "model_files_ok blob dest F"
    and get: "serves blob E" and len: "length blob < 2 ^ 64"
    and start: "round_start E dest allow_resume F = (resume_from, F1)"
    and reply: "de_get E allow_resume (if 0 < resume_from then Some resume_from else None) = Reply status crange l items"
    and status: "\<not> (status = 416 \<and> allow_resume)"
  shows "\<exists>st'. download_loop E url dest allow_resume k st F =
    (Inr (), st', F(part_path dest := None, dest \<mapsto> Regular blob)) \<and> ds_bytes_downloaded st' = of_nat (length blob)"
proof -
  have ok: "is_success status" "\<forall>i\<in>set items. \<exists>bs. i = Piece bs None" "\<not> de_cancelled E k"
    using undisturbed_reply [OF assms(1) reply] assms(1) status by (auto simp: undisturbed_def)
  then have "whole items" by (induction items rule: whole.induct) auto
  with get reply ok(1) have body: "received items = drop (range_start status (if 0 < resume_from then Some resume_from else None)) blob"
    unfolding serves_def by blast
  note F1 = round_start_ok [OF start F]
  have "F1 (part_path dest) \<noteq> Some (Irregular n)" "0 < resume_from \<Longrightarrow> F1 (part_path dest) \<noteq> None" for n
    using start F
    by (auto simp: model_files_ok_def round_start_def remove_if_exists_def split: if_splits option.splits dir_entry.splits)
  from receive_undisturbed [of E items F1 dest resume_from "Suc k" status crange l st, OF assms(1) ok(2) this] obtain st' content where
    r: "receive_reply E (Suc k) dest resume_from status crange l items st F1 =
      (Inr (), st', F1(part_path dest := None, dest \<mapsto> Regular (content @ received items)))"
    and o: "open_part E (part_path dest) (status = 206 \<and> 0 < resume_from) F1 = Inr content"
    and n: "ds_bytes_downloaded st' = (if status = 206 \<and> 0 < resume_from then resume_from else 0) + of_nat (length (received items))"
    by metis
  have blob: "content @ received items = blob"
    using open_part_content [OF o F1(1) len F1(3)] body by simp
  have "(if status = 206 \<and> 0 < resume_from then resume_from else 0) = of_nat (length content)"
  proof (cases "status = 206 \<and> 0 < resume_from")
    case True
    with o F1(3) show ?thesis
      by (force simp: open_part_def split: option.splits dir_entry.splits)
  next
    case False
    with o show ?thesis by (auto simp: open_part_def split: option.splits dir_entry.splits if_splits)
  qed
  with n have "ds_bytes_downloaded st' = of_nat (length blob)"
    by (simp flip: blob)
  moreover have "F1(part_path dest := None, dest \<mapsto> Regular blob) = F(part_path dest := None, dest \<mapsto> Regular blob)"
    using F1(2) by (auto simp: fun_eq_iff)
  ultimately show ?thesis
    using r blob ok(1,3) status by (auto simp: download_round [of _ _ _ allow_resume] start reply)
qed

lemma download_undisturbed:
  assumes "undisturbed E" and F: "model_files_ok blob (model_path (ce_id e)) F" "F (model_path (ce_id e)) = None"
    and get: "serves blob E" and len: "length blob < 2 ^ 64"
  shows "\<exists>st. start_download E e F = (st, F(part_path (model_path (ce_id e)) := None, model_path (ce_id e) \<mapsto> Regular blob)) \<and>
    ds_status st = DlCompleted \<and> ds_bytes_downloaded st = of_nat (length blob)"
proof -
  let ?dest = "model_path (ce_id e)" and ?url = "ce_download_url e"
  let ?part = "part_path ?dest"
  have "\<exists>st'. download_loop E ?url ?dest True 0 st F = (Inr (), st', F(?part := None, ?dest \<mapsto> Regular blob)) \<and>
      ds_bytes_downloaded st' = of_nat (length blob)" for st
  proof -
    obtain resume_from F1 where start: "round_start E ?dest True F = (resume_from, F1)" by fastforce
    have F1 [simp]: "F1 = F" using start by (simp add: round_start_def)
    obtain status crange l items where reply:
        "de_get E True (if 0 < resume_from then Some resume_from else None) = Reply status crange l items"
      using assms(1) by (cases "de_get E True (if 0 < resume_from then Some resume_from else None)")
        (auto simp: undisturbed_def dest!: spec [of _ True] spec [of _ "if 0 < resume_from then Some resume_from else None"])
    show ?thesis
    proof (cases "status = 416")
      case False
      from round_undisturbed [OF assms(1) F(1) get len start reply] False show ?thesis by simp
    next
      case True
      obtain n F2 where start2: "round_start E ?dest False F = (n, F2)" by fastforce
      then have n: "n = 0" by (simp add: round_start_def)
      obtain status2 crange2 l2 items2 where reply2:
          "de_get E False (if 0 < n then Some n else None) = Reply status2 crange2 l2 items2"
        using assms(1) by (cases "de_get E False None") (auto simp: n undisturbed_def dest!: spec [of _ False] spec [of _ None])
      have "download_loop E ?url ?dest True 0 st F = download_loop E ?url ?dest False 1 st F"
        using True reply start assms(1) by (subst download_round) (simp add: undisturbed_def)
      with round_undisturbed [OF assms(1) F(1) get len start2 reply2] show ?thesis by simp
    qed
  qed
  from this [of "download_state_default\<lparr>ds_status := Downloading, ds_total_bytes := ce_size_bytes e\<rparr>"] show ?thesis
    using F(2) assms(1) by (auto simp: start_download_def download_with_resume_def undisturbed_def)
qed

text \<open>What a run of downloads of one model leaves behind.\<close>

definition download_all :: "catalog_entry \<Rightarrow> download_env list \<Rightarrow> models_dir \<Rightarrow> models_dir" where
  "download_all e Es F = fold (\<lambda>E F. snd (start_download E e F)) Es F"

lemma download_all_ok:
  assumes "\<forall>E\<in>set Es. serves blob E" and "length blob < 2 ^ 64" and "model_files_ok blob (model_path (ce_id e)) F"
  shows "model_files_ok blob (model_path (ce_id e)) (download_all e Es F) \<and>
    (\<forall>n. n \<noteq> model_path (ce_id e) \<longrightarrow> n \<noteq> part_path (model_path (ce_id e)) \<longrightarrow> download_all e Es F n = F n)"
  using assms(1,3)
proof (induction Es arbitrary: F)
  case (Cons E Es)
  obtain st F1 where F1: "start_download E e F = (st, F1)" by fastforce
  from start_download_ok [OF this Cons.prems(2) _ assms(2)] Cons.prems(1) Cons.IH [of F1] show ?case
    by (auto simp: download_all_def F1 keeps_def)
qed (simp add: download_all_def)

section \<open>The catalog and the installed models\<close>

lemma catalog_ids_distinct: "distinct (map ce_id model_catalog)"
  by code_simp

lemma catalog_windows: "e \<in> set model_catalog \<Longrightarrow> 512 \<le> ce_context_window e"
proof -
  have "list_all (\<lambda>e. 512 \<le> ce_context_window e) model_catalog"
    by code_simp
  then show "e \<in> set model_catalog \<Longrightarrow> 512 \<le> ce_context_window e"
    by (simp add: list_all_iff)
qed

lemma find_entry_iff: "find_entry i = Some e \<longleftrightarrow> e \<in> set model_catalog \<and> ce_id e = i"
proof
  assume "find_entry i = Some e"
  then show "e \<in> set model_catalog \<and> ce_id e = i"
    by (auto simp: find_entry_def find_Some_iff)
next
  assume e: "e \<in> set model_catalog \<and> ce_id e = i"
  then obtain e' where e': "find_entry i = Some e'"
    unfolding find_entry_def by (cases "find (\<lambda>e. ce_id e = i) model_catalog") (auto simp: find_None_iff)
  then have "e' \<in> set model_catalog" "ce_id e' = i"
    by (auto simp: find_entry_def find_Some_iff)
  with e catalog_ids_distinct e' show "find_entry i = Some e"
    by (auto simp: distinct_map inj_on_def)
qed

lemma catalog_ids_nonempty: "e \<in> set model_catalog \<Longrightarrow> ce_id e \<noteq> []"
proof -
  have "list_all (\<lambda>e. ce_id e \<noteq> []) model_catalog"
    by code_simp
  then show "e \<in> set model_catalog \<Longrightarrow> ce_id e \<noteq> []"
    by (simp add: list_all_iff)
qed

lemma split_last_dot_append:
  assumes "CHR ''.'' \<notin> set b" and "a \<noteq> []"
  shows "split_last_dot (a @ CHR ''.'' # b) = Some (a, b)"
proof -
  have "takeWhile (\<lambda>c. c \<noteq> CHR ''.'') (rev b @ CHR ''.'' # rev a) = rev b"
    "dropWhile (\<lambda>c. c \<noteq> CHR ''.'') (rev b @ CHR ''.'' # rev a) = CHR ''.'' # rev a"
    using assms(1) by (auto simp: takeWhile_append dropWhile_append)
  with assms(2) show ?thesis
    by (simp add: split_last_dot_def Let_def)
qed

lemma split_last_dot_Some: "split_last_dot s = Some (a, b) \<Longrightarrow> s = a @ CHR ''.'' # b"
proof -
  assume d: "split_last_dot s = Some (a, b)"
  then have "CHR ''.'' \<in> set (rev s)" by (auto simp: split_last_dot_def Let_def split: if_splits)
  then have "dropWhile (\<lambda>c. c \<noteq> CHR ''.'') (rev s) \<noteq> []"
    unfolding dropWhile_eq_Nil_conv by blast
  then have "dropWhile (\<lambda>c. c \<noteq> CHR ''.'') (rev s) = CHR ''.'' # tl (dropWhile (\<lambda>c. c \<noteq> CHR ''.'') (rev s))"
    using hd_dropWhile [of "\<lambda>c. c \<noteq> CHR ''.''" "rev s"] by (cases "dropWhile (\<lambda>c. c \<noteq> CHR ''.'') (rev s)") simp_all
  then have "rev s = takeWhile (\<lambda>c. c \<noteq> CHR ''.'') (rev s) @ CHR ''.'' # tl (dropWhile (\<lambda>c. c \<noteq> CHR ''.'') (rev s))"
    using takeWhile_dropWhile_id [of "\<lambda>c. c \<noteq> CHR ''.''" "rev s"] by simp
  from arg_cong [OF this, of rev] d show ?thesis
    by (auto simp: split_last_dot_def Let_def split: if_splits)
qed

lemma model_path_parts:
  assumes "i \<noteq> []"
  shows "path_extension (model_path i) = Some ''gguf''" and "path_stem (model_path i) = i"
    and "path_extension (part_path (model_path i)) = Some ''part''"
proof -
  have "model_path i = i @ CHR ''.'' # ''gguf''" "part_path (model_path i) = (i @ ''.gguf'') @ CHR ''.'' # ''part''"
    by (simp_all add: model_path_def part_path_def)
  with split_last_dot_append [of "''gguf''" i] split_last_dot_append [of "''part''" "i @ ''.gguf''"] assms
  show "path_extension (model_path i) = Some ''gguf''" "path_stem (model_path i) = i"
      "path_extension (part_path (model_path i)) = Some ''part''"
    by (simp_all add: path_extension_def path_stem_def)
qed

lemma installed_entry_path: "installed_entry F n = Some m \<Longrightarrow> n = model_path (im_id m)"
  by (auto simp: installed_entry_def path_extension_def path_stem_def model_path_def dest!: split_last_dot_Some
      split: if_splits option.splits dir_entry.splits)

lemma set_installed:
  assumes "set names = dom F"
  shows "set (installed F (Some names)) = {m. \<exists>n. installed_entry F n = Some m}"
proof -
  have "installed_entry F n = Some m \<Longrightarrow> n \<in> set names" for n m
    using assms by (auto simp: installed_entry_def split: if_splits option.splits)
  then show ?thesis
    by (auto simp: installed_def List.map_filter_def image_iff) force
qed

section \<open>A concrete server\<close>

definition demo_get :: "bytes \<Rightarrow> bool \<Rightarrow> u64 option \<Rightarrow> get_reply" where
  "demo_get blob allow asked =
     (case asked of
        Some n \<Rightarrow>
          if unat n < length blob then Reply 206 None None [Piece (drop (unat n) blob) None]
          else if allow then Reply 416 None None [] else Reply 200 None None [Piece blob None]
      | None \<Rightarrow> Reply 200 None None [Piece blob None])"

definition demo_download :: "(bool \<Rightarrow> u64 option \<Rightarrow> get_reply) \<Rightarrow> download_env" where
  "demo_download get =
     \<lparr>de_get = get, de_cancelled = (\<lambda>_. False), de_mkdir = None, de_open = None, de_flush = None, de_sync = None,
      de_rename = None, de_refused = [], de_show_status = (\<lambda>_. [])\<rparr>"

text \<open>A reply that is cut after two bytes.\<close>

definition demo_cut :: "bool \<Rightarrow> u64 option \<Rightarrow> get_reply" where
  "demo_cut allow asked = Reply 200 None None [Piece [1, 2] None, BodyError ''reset'']"

definition demo_entry :: catalog_entry where
  "demo_entry = entry ''m'' [] [] 3 512 False [] [] []"

lemma demo_get_ok: "serves blob (demo_download (demo_get blob))" "undisturbed (demo_download (demo_get blob))"
  by (auto simp: serves_def undisturbed_def demo_download_def demo_get_def is_success_def range_start_def split: option.splits)

lemma demo_cut_ok: "serves [1, 2, 3] (demo_download demo_cut)"
  by (simp add: serves_def demo_download_def demo_cut_def range_start_def)

section \<open>Properties\<close>

text \<open>C30: A model file is always whole. Whatever happens to any number of downloads of a model, cancelled,
  cut by the network, failed by the disk and resumed, as long as the server serves the same file:
  there is no model file or it is the whole file, a partial file is a beginning of it, and no other
  file of the directory is touched; a download that reports completion has left the whole file.\<close>

theorem model_file_always_whole:
  assumes "\<forall>E\<in>set Es. serves blob E" and "serves blob E" and "length blob < 2 ^ 64"
    and "dest = model_path (ce_id e)" and "F dest = None" and "F (part_path dest) = None"
    and "F' = download_all e Es F"
  shows "(F' dest = None \<or> F' dest = Some (Regular blob)) \<and>
    (\<forall>bs. F' (part_path dest) = Some (Regular bs) \<longrightarrow> prefix bs blob) \<and>
    (\<forall>n. n \<noteq> dest \<longrightarrow> n \<noteq> part_path dest \<longrightarrow> F' n = F n) \<and>
    (ds_status (fst (start_download E e F')) = DlCompleted \<longrightarrow> snd (start_download E e F') dest = Some (Regular blob))"
proof -
  have "model_files_ok blob dest F"
    using assms(5,6) by (simp add: model_files_ok_def)
  note all = download_all_ok [OF assms(1,3) this [unfolded assms(4)], folded assms(4,7)]
  obtain st F2 where s: "start_download E e F' = (st, F2)" by fastforce
  from start_download_ok [OF s all [THEN conjunct1, unfolded assms(4)] assms(2,3), folded assms(4)]
  have "ds_status st = DlCompleted \<longrightarrow> F2 dest = Some (Regular blob)"
    by (simp add: keeps_def)
  with all show ?thesis
    unfolding s fst_conv snd_conv model_files_ok_def by blast
qed

theorem model_file_always_whole_witness:
  "let F' = download_all demo_entry [demo_download demo_cut] (\<lambda>_. None)
   in (F' ''m.gguf'' = None \<or> F' ''m.gguf'' = Some (Regular [1, 2, 3])) \<and>
      (\<forall>n. n \<noteq> ''m.gguf'' \<longrightarrow> n \<noteq> ''m.gguf.part'' \<longrightarrow> F' n = None)"
  using model_file_always_whole [of "[demo_download demo_cut]" "[1, 2, 3]" "demo_download (demo_get [1, 2, 3])" _ demo_entry
      "\<lambda>_. None", OF _ _ _ refl _ _ refl] demo_get_ok demo_cut_ok
  by (simp add: Let_def demo_entry_def entry_def model_path_def part_path_def)

text \<open>C31: An interrupted download is made good by the next undisturbed one. After any downloads that were
  cancelled or failed, one that nothing disturbs completes: the model file is then the whole file,
  and the byte count is the size of the file.\<close>

theorem undisturbed_download_completes:
  assumes "\<forall>E\<in>set Es. serves blob E" and "serves blob E" and "undisturbed E" and "length blob < 2 ^ 64"
    and "dest = model_path (ce_id e)" and "F dest = None" and "F (part_path dest) = None"
  shows "\<exists>st F'. start_download E e (download_all e Es F) = (st, F') \<and> F' dest = Some (Regular blob) \<and>
    ds_status st = DlCompleted \<and> ds_bytes_downloaded st = of_nat (length blob)"
proof -
  let ?F = "download_all e Es F"
  have "model_files_ok blob dest F"
    using assms(6,7) by (simp add: model_files_ok_def)
  note all = download_all_ok [OF assms(1,4) this [unfolded assms(5)], THEN conjunct1]
  show ?thesis
  proof (cases "?F dest")
    case None
    from download_undisturbed [OF assms(3) all None [unfolded assms(5)] assms(2,4)] show ?thesis
      by (auto simp: assms(5))
  next
    case (Some en)
    with all assms(5) have "en = Regular blob" by (auto simp: model_files_ok_def)
    with Some assms(5) show ?thesis by (simp add: start_download_def download_with_resume_def)
  qed
qed


theorem undisturbed_download_completes_witness:
  "\<exists>st F'. start_download (demo_download (demo_get [1, 2, 3])) demo_entry
      (download_all demo_entry [demo_download demo_cut] (\<lambda>_. None)) = (st, F') \<and>
    F' ''m.gguf'' = Some (Regular [1, 2, 3]) \<and> ds_status st = DlCompleted \<and> ds_bytes_downloaded st = 3"
  using undisturbed_download_completes [of "[demo_download demo_cut]" "[1, 2, 3]" "demo_download (demo_get [1, 2, 3])" _ demo_entry
      "\<lambda>_. None", OF _ _ _ _ refl] demo_get_ok demo_cut_ok
  by (simp add: demo_entry_def entry_def model_path_def)

text \<open>A resumed download trusts what it finds. Whatever the partial file holds, the reply to the range
  request is appended to it and the result is installed and reported as completed: neither the
  announced size nor the identity of the file is checked, so a file that changed on the server
  between two attempts is spliced from both versions.\<close>

theorem resume_splices_versions:
  assumes "F (model_path (ce_id e)) = None" and "F (part_path (model_path (ce_id e))) = Some (Regular bs)"
    and "bs \<noteq> []" and "length bs < 2 ^ 64" and "undisturbed E"
    and "de_get E True (Some (of_nat (length bs))) = Reply 206 crange len items"
  shows "\<exists>st F'. start_download E e F = (st, F') \<and> ds_status st = DlCompleted \<and>
    F' (model_path (ce_id e)) = Some (Regular (bs @ received items))"
proof -
  let ?dest = "model_path (ce_id e)" and ?n = "of_nat (length bs) :: u64"
  have n: "0 < ?n"
    using assms(3,4) by (simp add: word_greater_zero_iff flip: unat_eq_0) (simp add: unat_of_nat take_bit_nat_eq_self)
  have start: "round_start E ?dest True F = (?n, F)"
    using assms(2) by (simp add: round_start_def)
  have items: "\<forall>i\<in>set items. \<exists>bs. i = Piece bs None" and live: "\<And>k. \<not> de_cancelled E k" "de_mkdir E = None"
    using undisturbed_reply [OF assms(5,6)] assms(5) by (auto simp: undisturbed_def)
  have "open_part E (part_path ?dest) (206 = (206 :: nat) \<and> 0 < ?n) F = Inr bs"
    using n assms(2,5) by (simp add: open_part_def undisturbed_def)
  with receive_undisturbed [OF assms(5) items, of F ?dest ?n 1 206 crange len] assms(2)
  have "\<exists>st'. receive_reply E 1 ?dest ?n 206 crange len items st F =
      (Inr (), st', F(part_path ?dest := None, ?dest \<mapsto> Regular (bs @ received items)))" for st
    by fastforce
  then have "\<exists>st'. download_loop E (ce_download_url e) ?dest True 0 st F =
      (Inr (), st', F(part_path ?dest := None, ?dest \<mapsto> Regular (bs @ received items)))" for st
    using n start assms(6) live(1) by (simp add: download_round [of _ _ _ True] is_success_def)
  from this [of "download_state_default\<lparr>ds_status := Downloading, ds_total_bytes := ce_size_bytes e\<rparr>"] show ?thesis
    using assms(1) live(2) by (auto simp: start_download_def download_with_resume_def)
qed

theorem resume_splices_versions_witness:
  "\<exists>st F'. start_download (demo_download (demo_get [9, 8, 7])) demo_entry
      [''m.gguf.part'' \<mapsto> Regular [1, 2]] = (st, F') \<and> ds_status st = DlCompleted \<and>
    F' ''m.gguf'' = Some (Regular [1, 2, 7])"
  using resume_splices_versions [of "[''m.gguf.part'' \<mapsto> Regular [1, 2]]" demo_entry "[1, 2]" "demo_download (demo_get [9, 8, 7])"]
    demo_get_ok(2) [of "[9, 8, 7]"]
  by (simp add: demo_entry_def entry_def model_path_def part_path_def demo_download_def demo_get_def)

text \<open>The models shown as installed are those that are. The listing is sorted by id; a model of the
  catalog is in it exactly when its file is there, with its entry and its size, and a partial
  download never is; a successful delete takes the model and its partial file out and leaves the
  other models.\<close>

theorem installed_models_exact:
  assumes "set names = dom F" and "e \<in> set model_catalog"
    and "delete_model_file refused (ce_id e) F = (Inr (), F')" and "set names' = dom F'"
  shows "sorted (map im_id (installed F (Some names))) \<and>
    (m \<in> set (installed F (Some names)) \<and> im_id m = ce_id e \<longleftrightarrow>
      (\<exists>bs. F (model_path (ce_id e)) = Some (Regular bs) \<and>
         m = \<lparr>im_id = ce_id e, im_path = model_path (ce_id e), im_size_bytes = of_nat (length bs), im_catalog_entry = Some e\<rparr>)) \<and>
    F' (model_path (ce_id e)) = None \<and> F' (part_path (model_path (ce_id e))) = None \<and>
    set (installed F' (Some names')) = {m \<in> set (installed F (Some names)). im_id m \<noteq> ce_id e}"
proof -
  let ?i = "ce_id e"
  have i: "?i \<noteq> []" using catalog_ids_nonempty [OF assms(2)] .
  have e: "find_entry ?i = Some e" using assms(2) by (simp add: find_entry_iff)
  have F': "F' = F(model_path ?i := None, part_path (model_path ?i) := None)"
    using assms(3) by (cases "F (model_path ?i)"; cases "F (part_path (model_path ?i))")
      (auto simp: delete_model_file_def remove_if_exists_def Let_def fun_upd_idem split: dir_entry.splits)
  have at: "installed_entry G n = Some m \<Longrightarrow> im_id m = ?i \<longleftrightarrow> n = model_path ?i" for G n m
    using installed_entry_path [of G n m] by (auto simp: model_path_def)
  have part: "installed_entry G (part_path (model_path ?i)) = None" for G
    using i by (simp add: installed_entry_def model_path_parts(3))
  have "installed_entry F' n = Some m \<longleftrightarrow> installed_entry F n = Some m \<and> im_id m \<noteq> ?i" for n m
    using at [of F n m] at [of F' n m] part
    by (cases "n = model_path ?i"; cases "n = part_path (model_path ?i)") (auto simp: F' installed_entry_def)
  then have "set (installed F' (Some names')) = {m \<in> set (installed F (Some names)). im_id m \<noteq> ?i}"
    unfolding set_installed [OF assms(1)] set_installed [OF assms(4)] by blast
  moreover have "m \<in> set (installed F (Some names)) \<and> im_id m = ?i \<longleftrightarrow> installed_entry F (model_path ?i) = Some m"
    unfolding set_installed [OF assms(1)] using at by blast
  then have "m \<in> set (installed F (Some names)) \<and> im_id m = ?i \<longleftrightarrow>
      (\<exists>bs. F (model_path ?i) = Some (Regular bs) \<and>
         m = \<lparr>im_id = ?i, im_path = model_path ?i, im_size_bytes = of_nat (length bs), im_catalog_entry = Some e\<rparr>)"
    using i e by (auto simp: installed_entry_def model_path_parts(1,2) split: option.splits dir_entry.splits)
  ultimately show ?thesis
    by (simp add: F' installed_def)
qed

theorem installed_models_exact_witness:
  "let e = hd model_catalog; F = [model_path (ce_id e) \<mapsto> Regular [1], ''notes.gguf'' \<mapsto> Regular []];
       ms = installed F (Some [''notes.gguf'', model_path (ce_id e)])
   in sorted (map im_id ms) \<and>
      set (installed [''notes.gguf'' \<mapsto> Regular []] (Some [''notes.gguf''])) = {m \<in> set ms. im_id m \<noteq> ce_id e}"
proof -
  let ?e = "hd model_catalog"
  let ?F = "[model_path (ce_id ?e) \<mapsto> Regular [1], ''notes.gguf'' \<mapsto> Regular []]"
  have m: "?e \<in> set model_catalog" "model_path (ce_id ?e) \<noteq> ''notes.gguf''"
    by (simp_all add: model_catalog_def entry_def model_path_def)
  have p: "part_path (model_path (ce_id ?e)) \<noteq> ''notes.gguf''"
    by (simp add: model_catalog_def entry_def model_path_def part_path_def)
  have d: "delete_model_file [] (ce_id ?e) ?F = (Inr (), [''notes.gguf'' \<mapsto> Regular []])"
    using m(2) p by (auto simp: delete_model_file_def remove_if_exists_def Let_def fun_eq_iff)
  from installed_models_exact [OF _ m(1) d, of "[''notes.gguf'', model_path (ce_id ?e)]" "[''notes.gguf'']"] m(2) show ?thesis
    by (auto simp: Let_def)
qed

end
