(* ===== verification/Local_Runtime.thy ===== *)
theory Local_Runtime
  imports Local_Models Process_Tools
begin

text \<open>
  The managed \<open>llama-server\<close> of \<open>crates/mahi-compute/src/local/runtime.rs\<close>: what is downloaded and
  kept of a release, how the server is started, and the wait until it is healthy.

  The runtime directory is the one of \<open>Local_Models\<close>: its files by name, with the zip, its partial
  download and the scratch directory among them. What \<open>unzip\<close> leaves in the scratch directory is a
  tree that depends on the zip. The failures of the disk and of \<open>unzip\<close>, the port the system hands
  out, the spawn and the polls of the health check are given from outside. A poll is what the
  child's status, the health request (by its URL) and the clock (in milliseconds) said; the wait is
  a function on the polls so far, \<open>None\<close> while it goes on.
\<close>

section \<open>The release\<close>

definition LLAMA_CPP_TAG :: string where
  "LLAMA_CPP_TAG = ''b6000''"

definition HEALTH_TIMEOUT_MS :: nat where
  "HEALTH_TIMEOUT_MS = 120 * 1000"

definition llama_asset_arch :: "bool \<Rightarrow> string" where
  "llama_asset_arch x86_64 = (if x86_64 then ''x64'' else ''arm64'')"

definition asset_url :: "string \<Rightarrow> string" where
  "asset_url arch =
     ''https://github.com/ggml-org/llama.cpp/releases/download/'' @ LLAMA_CPP_TAG @ ''/llama-'' @ LLAMA_CPP_TAG @
     ''-bin-macos-'' @ arch @ ''.zip''"

text \<open>Which files of the release are copied next to the server.\<close>

definition keep_runtime_file :: "string \<Rightarrow> bool" where
  "keep_runtime_file name =
     (case path_extension name of
        Some ext \<Rightarrow> if ext = ''dylib'' \<or> ext = ''metal'' then True else name = ''llama-server''
      | None \<Rightarrow> name = ''llama-server'')"

text \<open>What \<open>unzip\<close> left: files, directories with their entries in the order \<open>read_dir\<close> lists them
  (\<open>None\<close> for one that cannot be read), and other entries.\<close>

datatype release = RelFile bytes | RelDir "(string \<times> release) list option" | RelOther

type_synonym release_dir = "(string \<times> release) list"

definition is_rel_dir :: "release \<Rightarrow> bool" where
  "is_rel_dir r = (case r of RelDir es \<Rightarrow> True | _ \<Rightarrow> False)"

text \<open>The \<open>for\<close> loop of \<open>find_file_named\<close> over the entries of one directory: the entry that was found, with
  the directory it is in, or the stack with the subdirectories pushed.\<close>

fun scan_release ::
  "string \<Rightarrow> release_dir \<Rightarrow> release_dir \<Rightarrow> release list \<Rightarrow> release_dir + release list" where
  "scan_release name dir [] stack = Inr stack"
| "scan_release name dir ((n, r) # es) stack =
     (if is_rel_dir r then scan_release name dir es (r # stack)
      else if n = name then Inl dir
      else scan_release name dir es stack)"

definition stack_size :: "release list \<Rightarrow> nat" where
  "stack_size stack = sum_list (map (Suc \<circ> size) stack)"

lemma scan_release_size:
  "scan_release name dir es stack = Inr stack' \<Longrightarrow> stack_size stack' \<le> stack_size (map snd es) + stack_size stack"
proof (induction es arbitrary: stack)
  case (Cons e es)
  obtain n r where e: "e = (n, r)" by (cases e)
  show ?case
  proof (cases "is_rel_dir r")
    case True
    with Cons.prems e have "scan_release name dir es (r # stack) = Inr stack'" by simp
    from Cons.IH [OF this] show ?thesis by (simp add: e stack_size_def)
  next
    case False
    with Cons.prems e have "scan_release name dir es stack = Inr stack'"
      by (cases "n = name") simp_all
    from Cons.IH [OF this] show ?thesis by (simp add: e stack_size_def)
  qed
qed simp

lemma release_dir_size: "stack_size (map snd es) \<le> size (RelDir (Some es))"
proof -
  have "stack_size (map snd es) \<le> size_list (size_prod (\<lambda>_. 0) size) es"
    by (induction es) (auto simp: stack_size_def)
  then show ?thesis by simp
qed

function find_in :: "string \<Rightarrow> release list \<Rightarrow> release_dir option" where
  "find_in name [] = None"
| "find_in name (d # stack) =
     (case d of
        RelDir (Some es) \<Rightarrow>
          (case scan_release name es es stack of
             Inl dir \<Rightarrow> Some dir
           | Inr stack' \<Rightarrow> find_in name stack')
      | _ \<Rightarrow> find_in name stack)"
  by pat_completeness auto
termination
proof (relation "measure (\<lambda>(name, stack). stack_size stack)")
  fix name d stack ds es stack'
  assume "d = RelDir ds" "ds = Some es" "scan_release name es es stack = Inr stack'"
  with scan_release_size [of name es es stack stack'] release_dir_size [of es]
  show "((name, stack'), name, d # stack) \<in> measure (\<lambda>(name, stack). stack_size stack)"
    by (simp add: stack_size_def)
qed (auto simp: stack_size_def)

text \<open>\<open>find_file_named\<close>: the directory that holds the file, which is the parent the caller takes.\<close>

definition find_file_named :: "release \<Rightarrow> string \<Rightarrow> release_dir option" where
  "find_file_named tree name = find_in name [tree]"

text \<open>What the disk and \<open>unzip\<close> do during an installation. The two removals and the cleanup are best
  effort: the flags say whether they succeed. A copy that fails may have written the first bytes.\<close>

record install_env =
  ie_x86_64 :: bool
  ie_mkdir :: "string option"
  ie_rm_zip :: bool
  ie_download :: download_env
  ie_rm_extract :: bool
  ie_extract_dir :: "string option"
  ie_unzip :: "dir_entry option \<Rightarrow> string + bool \<times> string"
  ie_tree :: "dir_entry option \<Rightarrow> release"
  ie_read_dir :: "string option"
  ie_copy :: "string \<Rightarrow> (nat option \<times> string) option"
  ie_refused :: string
  ie_clean_extract :: bool
  ie_clean_zip :: bool
  ie_chmod :: "string option"

text \<open>\<open>copy_runtime_files\<close>, entry by entry.\<close>

fun copy_runtime_files ::
  "install_env \<Rightarrow> release_dir \<Rightarrow> models_dir \<Rightarrow> (local_error + unit) \<times> models_dir" where
  "copy_runtime_files I [] D = (Inr (), D)"
| "copy_runtime_files I ((name, r) # es) D =
     (case r of
        RelFile bs \<Rightarrow>
          if \<not> keep_runtime_file name then copy_runtime_files I es D
          else (case D name of
                  Some (Irregular n) \<Rightarrow> (Inl (LocalIo (ie_refused I)), D)
                | _ \<Rightarrow>
                    (case ie_copy I name of
                       Some (None, e) \<Rightarrow> (Inl (LocalIo e), D)
                     | Some (Some n, e) \<Rightarrow> (Inl (LocalIo e), D(name \<mapsto> Regular (take n bs)))
                     | None \<Rightarrow> copy_runtime_files I es (D(name \<mapsto> Regular bs))))
      | _ \<Rightarrow> copy_runtime_files I es D)"

definition run_unzip :: "string + bool \<times> string \<Rightarrow> local_error + unit" where
  "run_unzip outcome =
     (case outcome of
        Inl e \<Rightarrow> Inl (LocalRuntime (''failed to run unzip: '' @ e))
      | Inr (success, status) \<Rightarrow> if success then Inr () else Inl (LocalRuntime (''unzip failed ('' @ status @ '')'')))"

definition io_step :: "string option \<Rightarrow> local_error + unit" where
  "io_step failure = (case failure of Some e \<Rightarrow> Inl (LocalIo e) | None \<Rightarrow> Inr ())"

fun is_regular :: "dir_entry option \<Rightarrow> bool" where
  "is_regular (Some (Regular bs)) = True"
| "is_regular _ = False"

fun is_irregular :: "dir_entry option \<Rightarrow> bool" where
  "is_irregular (Some (Irregular n)) = True"
| "is_irregular _ = False"

definition ZIP :: string where "ZIP = ''llama-server.zip''"

definition EXTRACT :: string where "EXTRACT = ''unzip''"

text \<open>\<open>let _ = remove_file(..)\<close> and \<open>let _ = remove_dir_all(..)\<close>.\<close>

definition try_remove_file :: "bool \<Rightarrow> string \<Rightarrow> models_dir \<Rightarrow> models_dir" where
  "try_remove_file works name D = (if works \<and> is_regular (D name) then D(name := None) else D)"

definition try_remove_dir :: "bool \<Rightarrow> string \<Rightarrow> models_dir \<Rightarrow> models_dir" where
  "try_remove_dir works name D = (if works \<and> is_irregular (D name) then D(name := None) else D)"

text \<open>\<open>create_dir_all\<close> of the scratch directory.\<close>

definition create_extract :: "install_env \<Rightarrow> models_dir \<Rightarrow> (local_error + unit) \<times> models_dir" where
  "create_extract I D =
     (case ie_extract_dir I of
        Some e \<Rightarrow> (Inl (LocalIo e), D)
      | None \<Rightarrow>
          (case D EXTRACT of
             Some (Regular bs) \<Rightarrow> (Inl (LocalIo (ie_refused I)), D)
           | Some (Irregular n) \<Rightarrow> (Inr (), D)
           | None \<Rightarrow> (Inr (), D(EXTRACT \<mapsto> Irregular 0))))"

definition make_executable :: "install_env \<Rightarrow> models_dir \<Rightarrow> local_error + unit" where
  "make_executable I D = (if is_regular (D ''llama-server'') then io_step (ie_chmod I) else Inr ())"

text \<open>The first half of the installation: the zip is downloaded and unpacked; the directory in it that
  holds the server.\<close>

definition fetch_release :: "install_env \<Rightarrow> models_dir \<Rightarrow> (local_error + release_dir) \<times> models_dir" where
  "fetch_release I D =
     (let D1 = try_remove_file (ie_rm_zip I) ZIP D
      in case download_with_resume (ie_download I\<lparr>de_cancelled := \<lambda>_. False\<rparr>)
                (asset_url (llama_asset_arch (ie_x86_64 I))) ZIP download_state_default D1 of
           (Inl e, _, D2) \<Rightarrow> (Inl e, D2)
         | (Inr _, _, D2) \<Rightarrow>
             (case create_extract I (try_remove_dir (ie_rm_extract I) EXTRACT D2) of
                (Inl e, D3) \<Rightarrow> (Inl e, D3)
              | (Inr _, D3) \<Rightarrow>
                  (and_then (run_unzip (ie_unzip I (D3 ZIP))) (\<lambda>_.
                     case find_file_named (ie_tree I (D3 ZIP)) ''llama-server'' of
                       None \<Rightarrow> Inl (LocalRuntime ''llama-server not found in release zip'')
                     | Some dir \<Rightarrow> and_then (io_step (ie_read_dir I)) (\<lambda>_. Inr dir)), D3)))"

definition ensure_binary :: "install_env \<Rightarrow> models_dir \<Rightarrow> (local_error + unit) \<times> models_dir" where
  "ensure_binary I D =
     (if is_regular (D ''llama-server'') then (Inr (), D)
      else case ie_mkdir I of
             Some e \<Rightarrow> (Inl (LocalIo e), D)
           | None \<Rightarrow>
               (case fetch_release I D of
                  (Inl e, D1) \<Rightarrow> (Inl e, D1)
                | (Inr dir, D1) \<Rightarrow>
                    (case copy_runtime_files I dir D1 of
                       (Inl e, D2) \<Rightarrow> (Inl e, D2)
                     | (Inr _, D2) \<Rightarrow>
                         let D3 = try_remove_file (ie_clean_zip I) ZIP (try_remove_dir (ie_clean_extract I) EXTRACT D2)
                         in (and_then (make_executable I D3) (\<lambda>_.
                               if is_regular (D3 ''llama-server'') then Inr ()
                               else Inl (LocalRuntime ''llama-server missing after install'')), D3))))"

section \<open>The server\<close>

datatype runtime_status =
    NotInstalled | RtDownloading | RtReady | RtStarting | RtRunning string "16 word" | RtFailed string

record running_server =
  rs_port :: "16 word"
  rs_model_id :: string

definition base_url :: "running_server \<Rightarrow> string" where
  "base_url s = ''http://127.0.0.1:'' @ decimal (unat (rs_port s))"

definition server_status :: "running_server \<Rightarrow> runtime_status" where
  "server_status s = RtRunning (rs_model_id s) (rs_port s)"

text \<open>One round of the health check: the exit status of the child, if it has exited, the status with
  which a request to a URL was answered, if it was, and the time of the deadline check.\<close>

record health_poll =
  hp_exit :: "string option"
  hp_health :: "string \<Rightarrow> nat option"
  hp_now :: nat

definition health_url :: "16 word \<Rightarrow> string" where
  "health_url port = ''http://127.0.0.1:'' @ decimal (unat port) @ ''/health''"

fun wait_until_healthy :: "16 word \<Rightarrow> nat \<Rightarrow> nat \<Rightarrow> health_poll list \<Rightarrow> (local_error + unit) option" where
  "wait_until_healthy port timeout deadline [] = None"
| "wait_until_healthy port timeout deadline (p # ps) =
     (case hp_exit p of
        Some status \<Rightarrow> Some (Inl (LocalRuntime (''llama-server exited before becoming healthy ('' @ status @ '')'')))
      | None \<Rightarrow>
          if (case hp_health p (health_url port) of Some status \<Rightarrow> is_success status | None \<Rightarrow> False) then Some (Inr ())
          else if deadline \<le> hp_now p
          then Some (Inl (LocalRuntime (''llama-server did not become healthy within '' @ decimal (timeout div 1000) @ ''s'')))
          else wait_until_healthy port timeout deadline ps)"

definition server_command :: "path \<Rightarrow> string \<Rightarrow> 16 word \<Rightarrow> u32 \<Rightarrow> command" where
  "server_command runtime_dir model_file port ctx_size =
     \<lparr>cm_program = display (runtime_dir @ [Normal ''llama-server'']),
      cm_args = [''-m'', model_file, ''--host'', ''127.0.0.1'', ''--port'', decimal (unat port),
        ''-c'', decimal (unat (max ctx_size 512)), ''--jinja''],
      cm_cwd = Some runtime_dir\<rparr>"

text \<open>\<open>start\<close>: the model's directory and file name, the binary's installation, the port, the spawn of the
  command, the time at which the wait began and the polls. The result is \<open>None\<close> while the wait goes
  on; the third component tells whether the child was killed.\<close>

record start_env =
  se_install :: install_env
  se_port :: "string + 16 word"
  se_spawn :: "command \<Rightarrow> string option"
  se_begun :: nat
  se_polls :: "health_poll list"

definition runtime_start ::
  "start_env \<Rightarrow> path \<Rightarrow> string \<Rightarrow> models_dir \<Rightarrow> string \<Rightarrow> u32 \<Rightarrow> models_dir \<Rightarrow>
     ((local_error + running_server) \<times> models_dir \<times> bool) option" where
  "runtime_start S runtime_dir models_root M name ctx_size D =
     (let model_file = models_root @ ''/'' @ name
      in if \<not> is_regular (M name) then Some (Inl (ModelNotFound model_file), D, False)
         else case ensure_binary (se_install S) D of
                (Inl e, D') \<Rightarrow> Some (Inl e, D', False)
              | (Inr _, D') \<Rightarrow>
                  (case se_port S of
                     Inl e \<Rightarrow> Some (Inl (LocalIo e), D', False)
                   | Inr port \<Rightarrow>
                       (case se_spawn S (server_command runtime_dir model_file port ctx_size) of
                          Some e \<Rightarrow> Some (Inl (LocalRuntime (''failed to spawn llama-server: '' @ e)), D', False)
                        | None \<Rightarrow>
                            (case wait_until_healthy port HEALTH_TIMEOUT_MS (se_begun S + HEALTH_TIMEOUT_MS) (se_polls S) of
                               None \<Rightarrow> None
                             | Some (Inr _) \<Rightarrow> Some (Inr \<lparr>rs_port = port, rs_model_id = path_stem name\<rparr>, D', False)
                             | Some (Inl err) \<Rightarrow> Some (Inl err, D', True)))))"

section \<open>Laws\<close>

lemma copied_files:
  "copy_runtime_files I es D = (res, D') \<Longrightarrow> D' n \<noteq> D n \<Longrightarrow>
     keep_runtime_file n \<and> (res = Inr () \<longrightarrow> (\<exists>bs. (n, RelFile bs) \<in> set es \<and> D' n = Some (Regular bs)))"
proof (induction es arbitrary: D)
  case (Cons en es)
  obtain name r where en: "en = (name, r)" by (cases en)
  show ?case
  proof (cases "copy_runtime_files I (en # es) D = copy_runtime_files I es D")
    case True
    with Cons show ?thesis by auto
  next
    case False
    then obtain bs where r: "r = RelFile bs" "keep_runtime_file name"
      by (auto simp: en split: release.splits if_splits)
    have copy: "copy_runtime_files I (en # es) D =
        (if is_irregular (D name) then (Inl (LocalIo (ie_refused I)), D)
         else case ie_copy I name of
           Some (None, e) \<Rightarrow> (Inl (LocalIo e), D)
         | Some (Some n, e) \<Rightarrow> (Inl (LocalIo e), D(name \<mapsto> Regular (take n bs)))
         | None \<Rightarrow> copy_runtime_files I es (D(name \<mapsto> Regular bs)))"
      using r by (cases "D name"; cases "the (D name)") (simp_all add: en)
    consider "copy_runtime_files I es (D(name \<mapsto> Regular bs)) = (res, D')"
      | e m where "res = Inl e" "D' = D \<or> D' = D(name \<mapsto> Regular (take m bs))"
      using Cons.prems(1) unfolding copy by (auto split: if_splits option.splits prod.splits)
    then show ?thesis
    proof cases
      case 1
      show ?thesis
      proof (cases "D' n = (D(name \<mapsto> Regular bs)) n")
        case True
        with Cons.prems(2) r show ?thesis
          by (cases "n = name") (auto simp: en)
      next
        case False
        from Cons.IH [OF 1 this] show ?thesis by auto
      qed
    next
      case 2
      with Cons.prems(2) r show ?thesis
        by (cases "n = name") auto
    qed
  qed
qed simp

text \<open>A download touches its file and the partial one only.\<close>

lemma receive_frame:
  "receive_reply E k dest pos status crange len items st F = (res, st', F') \<Longrightarrow> n \<noteq> dest \<Longrightarrow> n \<noteq> part_path dest \<Longrightarrow> F' n = F n"
  by (auto simp: receive_reply_def install_part_def Let_def split: sum.splits option.splits prod.splits if_splits)

lemma download_loop_frame:
  assumes "download_loop E url dest allow_resume k st F = (res, st', F')" and n: "n \<noteq> dest" "n \<noteq> part_path dest"
  shows "F' n = F n"
  using assms(1)
proof (induction allow_resume arbitrary: k F rule: measure_induct_rule [of "\<lambda>b. if b then Suc 0 else 0"])
  case (less allow_resume)
  obtain pos F1 where start: "round_start E dest allow_resume F = (pos, F1)"
    by fastforce
  have F1: "F1 n = F n"
    using start n by (auto simp: round_start_def remove_if_exists_def split: if_splits option.splits dir_entry.splits)
  show ?case
  proof (cases "de_get E allow_resume (if 0 < pos then Some pos else None)")
    case (SendFailed e)
    with less.prems start F1 show ?thesis by (auto simp: download_round split: if_splits)
  next
    case (Reply status crange l items)
    show ?thesis
    proof (cases "\<not> de_cancelled E k \<and> status = 416 \<and> allow_resume")
      case True
      then have "download_loop E url dest False (Suc k) st F1 = (res, st', F')"
        using less.prems [unfolded download_round [of _ _ _ allow_resume] start prod.case Reply get_reply.case] by simp
      from less.IH [OF _ this] True F1 show ?thesis by simp
    next
      case False
      then consider "F' = F" | "F' = F1"
        | "receive_reply E (Suc k) dest pos status crange l items st F1 = (res, st', F')"
        using less.prems [unfolded download_round [of _ _ _ allow_resume] start prod.case Reply get_reply.case]
        by (auto split: if_splits)
      then show ?thesis
        by cases (simp_all add: F1 receive_frame [OF _ n])
    qed
  qed
qed

lemma download_frame:
  "download_with_resume E url dest st F = (res, st', F') \<Longrightarrow> n \<noteq> dest \<Longrightarrow> n \<noteq> part_path dest \<Longrightarrow> F' n = F n"
  by (auto simp: download_with_resume_def download_loop_frame split: option.splits)

lemma try_remove_frame [simp]:
  "n \<noteq> name \<Longrightarrow> try_remove_file w name D n = D n" "n \<noteq> name \<Longrightarrow> try_remove_dir w name D n = D n"
  by (simp_all add: try_remove_file_def try_remove_dir_def)

lemma fetch_frame:
  assumes "fetch_release I D = (res, D')" and "n \<noteq> ZIP" and "n \<noteq> part_path ZIP" and "n \<noteq> EXTRACT"
  shows "D' n = D n"
proof -
  let ?D1 = "try_remove_file (ie_rm_zip I) ZIP D"
  obtain r st D2 where d: "download_with_resume (ie_download I\<lparr>de_cancelled := \<lambda>_. False\<rparr>)
      (asset_url (llama_asset_arch (ie_x86_64 I))) ZIP download_state_default ?D1 = (r, st, D2)"
    by (rule prod_cases3)
  have "D2 n = D n"
    using download_frame [OF d assms(2,3)] assms(2) by simp
  then show ?thesis
    using assms d by (auto simp: fetch_release_def create_extract_def Let_def split: sum.splits option.splits
        prod.splits dir_entry.splits)
qed

text \<open>What an installation may leave changed.\<close>

definition runtime_name :: "string \<Rightarrow> bool" where
  "runtime_name n \<longleftrightarrow> keep_runtime_file n \<or> n \<in> {ZIP, part_path ZIP, EXTRACT}"

lemma server_name: "''llama-server'' \<noteq> ZIP" "''llama-server'' \<noteq> part_path ZIP" "''llama-server'' \<noteq> EXTRACT"
  by (simp_all add: ZIP_def EXTRACT_def part_path_def)

text \<open>The server comes from the release, if it was not there.\<close>

definition from_release :: "install_env \<Rightarrow> models_dir \<Rightarrow> models_dir \<Rightarrow> bool" where
  "from_release I D D' \<longleftrightarrow>
     (\<exists>dir D1 bs. fetch_release I D = (Inr dir, D1) \<and> (''llama-server'', RelFile bs) \<in> set dir \<and>
        D' ''llama-server'' = Some (Regular bs))"

lemma ensure_binary_ok:
  assumes "ensure_binary I D = (res, D')"
  shows "D' n \<noteq> D n \<Longrightarrow> runtime_name n"
    and "res = Inr () \<Longrightarrow> is_regular (D' ''llama-server'') \<and> (D' = D \<or> from_release I D D')"
proof -
  show "D' n \<noteq> D n \<Longrightarrow> runtime_name n"
  proof (rule ccontr)
    assume ch: "D' n \<noteq> D n" and n: "\<not> runtime_name n"
    then have names: "n \<noteq> ZIP" "n \<noteq> part_path ZIP" "n \<noteq> EXTRACT" "\<not> keep_runtime_file n"
      by (auto simp: runtime_name_def)
    obtain rf D1 where f: "fetch_release I D = (rf, D1)"
      by fastforce
    obtain dir where dir: "rf = Inr dir \<or> (\<exists>e. rf = Inl e)"
      by (cases rf) auto
    obtain rc D2 where c: "copy_runtime_files I dir D1 = (rc, D2)"
      by fastforce
    have "D1 n = D n" "D2 n = D1 n"
      using fetch_frame [OF f names(1-3)] copied_files [OF c, of n] names(4) by auto
    moreover have "D' = D \<or> D' = D1 \<or> D' = D2 \<or>
        D' = try_remove_file (ie_clean_zip I) ZIP (try_remove_dir (ie_clean_extract I) EXTRACT D2)"
      using assms f c dir unfolding ensure_binary_def Let_def by (auto split: if_splits option.splits sum.splits)
    ultimately show False
      using ch names(1,3) by auto
  qed
  assume res: "res = Inr ()"
  show "is_regular (D' ''llama-server'') \<and> (D' = D \<or> from_release I D D')"
  proof (cases "is_regular (D ''llama-server'')")
    case True
    with assms show ?thesis by (simp add: ensure_binary_def)
  next
    case False
    with assms res obtain dir D1 D2 where f: "fetch_release I D = (Inr dir, D1)"
        and c: "copy_runtime_files I dir D1 = (Inr (), D2)" and reg: "is_regular (D' ''llama-server'')"
        and D': "D' = try_remove_file (ie_clean_zip I) ZIP (try_remove_dir (ie_clean_extract I) EXTRACT D2)"
      by (auto simp: ensure_binary_def Let_def result_simps split: if_splits sum.splits prod.splits option.splits)
    have "D1 ''llama-server'' = D ''llama-server''"
      by (rule fetch_frame [OF f server_name])
    moreover have "D' ''llama-server'' = D2 ''llama-server''"
      using server_name by (simp add: D')
    ultimately have "D2 ''llama-server'' \<noteq> D1 ''llama-server''"
      using False reg by auto
    from copied_files [OF c this] f reg \<open>D' ''llama-server'' = D2 ''llama-server''\<close> show ?thesis
      by (auto simp: from_release_def)
  qed
qed

lemma wait_decided:
  "wait_until_healthy port timeout deadline ps = Some res \<Longrightarrow>
    \<exists>as p bs. ps = as @ p # bs \<and> (\<forall>a\<in>set as. hp_exit a = None \<and> hp_now a < deadline) \<and>
      (case res of
         Inr _ \<Rightarrow> hp_exit p = None \<and> (\<exists>status. hp_health p (health_url port) = Some status \<and> is_success status)
       | Inl _ \<Rightarrow> hp_exit p \<noteq> None \<or> deadline \<le> hp_now p)"
proof (induction ps)
  case (Cons p ps)
  let ?healthy = "\<lambda>p. case hp_health p (health_url port) of Some status \<Rightarrow> is_success status | None \<Rightarrow> False"
  show ?case
  proof (cases "hp_exit p = None \<and> \<not> ?healthy p \<and> hp_now p < deadline")
    case True
    with Cons.prems have "wait_until_healthy port timeout deadline ps = Some res" by (simp split: option.splits)
    from Cons.IH [OF this] obtain as q bs where "ps = as @ q # bs \<and> (\<forall>a\<in>set as. hp_exit a = None \<and> hp_now a < deadline) \<and>
      (case res of
         Inr _ \<Rightarrow> hp_exit q = None \<and> (\<exists>status. hp_health q (health_url port) = Some status \<and> is_success status)
       | Inl _ \<Rightarrow> hp_exit q \<noteq> None \<or> deadline \<le> hp_now q)" by blast
    with True show ?thesis by (intro exI [of _ "p # as"] exI [of _ q] exI [of _ bs]) simp
  next
    case False
    with Cons.prems have "case res of
         Inr _ \<Rightarrow> hp_exit p = None \<and> (\<exists>status. hp_health p (health_url port) = Some status \<and> is_success status)
       | Inl _ \<Rightarrow> hp_exit p \<noteq> None \<or> deadline \<le> hp_now p"
      by (auto split: option.splits if_splits)
    then show ?thesis by (intro exI [of _ "[]"] exI [of _ p] exI [of _ ps]) simp
  qed
qed simp

lemma wait_over: "(\<exists>p\<in>set ps. deadline \<le> hp_now p) \<Longrightarrow> wait_until_healthy port timeout deadline ps \<noteq> None"
  by (induction ps) (auto split: option.splits)

text \<open>How a start came to its result.\<close>

lemma start_result:
  assumes "runtime_start S dir models M name ctx D = Some (res, D', killed)"
  shows "(\<forall>n. D' n \<noteq> D n \<longrightarrow> runtime_name n)"
    and "killed \<Longrightarrow> \<exists>err. res = Inl err"
    and "res = Inr s \<Longrightarrow> is_regular (M name) \<and> is_regular (D' ''llama-server'') \<and> se_port S = Inr (rs_port s) \<and>
      rs_model_id s = path_stem name \<and> se_spawn S (server_command dir (models @ ''/'' @ name) (rs_port s) ctx) = None \<and>
      wait_until_healthy (rs_port s) HEALTH_TIMEOUT_MS (se_begun S + HEALTH_TIMEOUT_MS) (se_polls S) = Some (Inr ())"
    and "res = Inr s \<Longrightarrow> D' = D \<or> from_release (se_install S) D D'"
proof -
  obtain r1 D1 where e: "ensure_binary (se_install S) D = (r1, D1)" by fastforce
  note ok = ensure_binary_ok [OF e]
  show "(\<forall>n. D' n \<noteq> D n \<longrightarrow> runtime_name n)" "killed \<Longrightarrow> \<exists>err. res = Inl err"
    "res = Inr s \<Longrightarrow> D' = D \<or> from_release (se_install S) D D'"
    "res = Inr s \<Longrightarrow> is_regular (M name) \<and> is_regular (D' ''llama-server'') \<and> se_port S = Inr (rs_port s) \<and>
      rs_model_id s = path_stem name \<and> se_spawn S (server_command dir (models @ ''/'' @ name) (rs_port s) ctx) = None \<and>
      wait_until_healthy (rs_port s) HEALTH_TIMEOUT_MS (se_begun S + HEALTH_TIMEOUT_MS) (se_polls S) = Some (Inr ())"
    using assms ok(1) ok(2)
    by (auto simp: runtime_start_def Let_def e split: if_splits sum.splits option.splits)
qed

lemma decimal_nonempty: "decimal n \<noteq> []"
  by (subst decimal.simps) simp

lemma decimal_slash: "CHR ''/'' \<notin> set (decimal n)"
  using decimal_digits [of "CHR ''/''" n] by auto

lemma local_endpoint_of_server:
  "local_endpoint (local_provider_new (base_url s) e) =
    ''http://127.0.0.1:'' @ decimal (unat (rs_port s)) @ ''/v1/chat/completions''"
proof -
  obtain ds d where d: "decimal (unat (rs_port s)) = ds @ [d]"
    using decimal_nonempty [of "unat (rs_port s)"] by (metis append_butlast_last_id)
  then have "d \<noteq> CHR ''/''"
    using decimal_slash [of "unat (rs_port s)"] by auto
  with d show ?thesis
    by (simp add: local_endpoint_def local_provider_new_def with_descriptor_def with_mode_def openai_new_def
        chat_completions_url_def trim_end_slashes_def base_url_def)
qed

section \<open>Properties\<close>


text \<open>In the witness the server is installed from a release that has it in a subdirectory; the cleanup of
  the scratch directory fails.\<close>

definition demo_release :: release where
  "demo_release = RelDir (Some [(''README'', RelFile []), (''build'', RelDir (Some
     [(''LICENSE'', RelFile []), (''llama-server'', RelFile [7])]))])"

definition demo_start_env :: start_env where
  "demo_start_env =
     \<lparr>se_install = \<lparr>ie_x86_64 = False, ie_mkdir = None, ie_rm_zip = True, ie_download = demo_download (demo_get [1, 2]),
        ie_rm_extract = True, ie_extract_dir = None, ie_unzip = (\<lambda>_. Inr (True, [])), ie_tree = (\<lambda>_. demo_release),
        ie_read_dir = None, ie_copy = (\<lambda>_. None), ie_refused = [], ie_clean_extract = False, ie_clean_zip = True,
        ie_chmod = None\<rparr>,
      se_port = Inr 8080, se_spawn = (\<lambda>_. None), se_begun = 0,
      se_polls = [\<lparr>hp_exit = None, hp_health = (\<lambda>_. None), hp_now = 250\<rparr>,
        \<lparr>hp_exit = None, hp_health = [health_url 8080 \<mapsto> 200], hp_now = 500\<rparr>]\<rparr>"

lemma demo_fetch:
  "fetch_release (se_install demo_start_env) Map.empty =
     (Inr [(''LICENSE'', RelFile []), (''llama-server'', RelFile [7])], [ZIP \<mapsto> Regular [1, 2], EXTRACT \<mapsto> Irregular 0])"
  by (simp add: fetch_release_def demo_start_env_def try_remove_file_def try_remove_dir_def download_with_resume_def
      demo_download_def download_round round_start_def demo_get_def receive_reply_def open_part_def install_part_def
      create_extract_def run_unzip_def find_file_named_def demo_release_def is_rel_dir_def io_step_def is_success_def
      ZIP_def EXTRACT_def part_path_def result_simps Let_def fun_eq_iff)


text \<open>An installation that fails half-way is taken for a complete one. When the copy of the server breaks
  off after some of its bytes, the installation fails, and yet the directory then has a regular
  \<open>llama-server\<close>: every later installation accepts the truncated file as it is.\<close>

theorem failed_install_is_accepted:
  assumes "\<not> is_regular (D ''llama-server'')" and "\<not> is_irregular (D ''llama-server'')" and "ie_mkdir I = None"
    and "fetch_release I D = (Inr ((''llama-server'', RelFile bs) # rest), D1)"
    and "ie_copy I ''llama-server'' = Some (Some n, e)"
  shows "\<exists>D'. ensure_binary I D = (Inl (LocalIo e), D') \<and> D' ''llama-server'' = Some (Regular (take n bs)) \<and>
    (\<forall>I'. ensure_binary I' D' = (Inr (), D'))"
proof -
  have "D1 ''llama-server'' = D ''llama-server''"
    by (rule fetch_frame [OF assms(4) server_name])
  then have none: "D1 ''llama-server'' = None"
    using assms(1,2) by (cases "D ''llama-server''"; cases "the (D ''llama-server'')") simp_all
  have "keep_runtime_file ''llama-server''"
    by (simp add: keep_runtime_file_def path_extension_def split_last_dot_def)
  then have "copy_runtime_files I ((''llama-server'', RelFile bs) # rest) D1 =
      (Inl (LocalIo e), D1(''llama-server'' \<mapsto> Regular (take n bs)))"
    using none assms(5) by simp
  with assms(1,3,4) have "ensure_binary I D = (Inl (LocalIo e), D1(''llama-server'' \<mapsto> Regular (take n bs)))"
    by (simp add: ensure_binary_def)
  then show ?thesis
    by (intro exI conjI) (assumption, simp_all add: ensure_binary_def)
qed

text \<open>The wait for a server is bounded. When successive polls are at least 250 milliseconds apart, as
  the sleep between them makes them, the wait comes to a result within 481 polls, whatever the child
  and its health answer.\<close>

theorem health_wait_bounded:
  assumes "\<forall>k. hp_now (P k) + 250 \<le> hp_now (P (Suc k))" and "begun \<le> hp_now (P 0)"
  shows "wait_until_healthy port HEALTH_TIMEOUT_MS (begun + HEALTH_TIMEOUT_MS) (map P [0..<481]) \<noteq> None"
proof (rule wait_over)
  have "begun + 250 * k \<le> hp_now (P k)" for k
  proof (induction k)
    case (Suc k)
    with assms(1) [rule_format, of k] show ?case by simp
  qed (use assms(2) in simp)
  from this [of 480] show "\<exists>p\<in>set (map P [0..<481]). begun + HEALTH_TIMEOUT_MS \<le> hp_now p"
    by (auto simp: HEALTH_TIMEOUT_MS_def intro!: bexI [of _ 480])
qed

theorem health_wait_bounded_witness:
  "wait_until_healthy 8080 HEALTH_TIMEOUT_MS (7 + HEALTH_TIMEOUT_MS)
     (map (\<lambda>k. \<lparr>hp_exit = None, hp_health = (\<lambda>_. Some 503), hp_now = 7 + 251 * k\<rparr>) [0..<481]) \<noteq> None"
  using health_wait_bounded [of "\<lambda>k. \<lparr>hp_exit = None, hp_health = (\<lambda>_. Some 503), hp_now = 7 + 251 * k\<rparr>" 7] by simp

end
