(* ===== verification/Mcp_Client.thy ===== *)
theory Mcp_Client
  imports Registry Pairing
begin

text \<open>
  The MCP client of \<open>crates/mahi-tooling/src/mcp\<close>: the wire messages (\<open>protocol.rs\<close>), the
  configuration (\<open>config.rs\<close>), the errors (\<open>mod.rs\<close>) and the client (\<open>client.rs\<close>), whose requests wait
  for the responses the reader task routes to them by id.

  The client runs as steps: a request is registered, then its line is written, then it waits; in
  between the reader takes lines, the server's output may end, a timeout may fire, a caller may give
  up. \<open>serde\<close> is a parameter: how values print and parse, and how the derived wire types read.
\<close>

section \<open>protocol.rs\<close>

definition JSONRPC_VERSION :: string where
  "JSONRPC_VERSION = ''2.0''"

definition MCP_PROTOCOL_VERSION :: string where
  "MCP_PROTOCOL_VERSION = ''2024-11-05''"

definition rpc_params :: "json option \<Rightarrow> (string \<times> json) list" where
  "rpc_params params = (case params of Some p \<Rightarrow> [(''params'', p)] | None \<Rightarrow> [])"

definition rpc_request :: "u64 \<Rightarrow> string \<Rightarrow> json option \<Rightarrow> json" where
  "rpc_request i meth params =
     json_obj ([(''jsonrpc'', JStr JSONRPC_VERSION), (''id'', JInt (uint i)), (''method'', JStr meth)] @ rpc_params params)"

definition rpc_notification :: "string \<Rightarrow> json option \<Rightarrow> json" where
  "rpc_notification meth params =
     json_obj ([(''jsonrpc'', JStr JSONRPC_VERSION), (''method'', JStr meth)] @ rpc_params params)"

record rpc_error =
  re_code :: int
  re_message :: string

record rpc_response =
  rp_id :: u64
  rp_result :: "json option"
  rp_error :: "rpc_error option"

definition initialize_params :: "string \<Rightarrow> json" where
  "initialize_params version =
     json_obj [(''protocolVersion'', JStr MCP_PROTOCOL_VERSION), (''capabilities'', json_obj []),
       (''clientInfo'', json_obj [(''name'', JStr ''mahi''), (''version'', JStr version)])]"

datatype content_item = TextItem string | OtherItem string

definition content_item_of :: "json \<Rightarrow> content_item" where
  "content_item_of v =
     (let kind = unwrap_or ''unknown'' (member_str v ''type'')
      in case (if kind = ''text'' then member_str v ''text'' else None) of
           Some t \<Rightarrow> TextItem t
         | None \<Rightarrow> OtherItem kind)"

fun render_item :: "content_item \<Rightarrow> string" where
  "render_item (TextItem t) = t"
| "render_item (OtherItem kind) = ''['' @ kind @ '' content]''"

definition render_content :: "content_item list \<Rightarrow> string" where
  "render_content items = str_join [CHR 0x0A] (map render_item items)"

text \<open>What \<open>serde\<close> gives: printing and parsing of values, and reading the derived types; the content
  items of a call result are the values \<open>content_item_of\<close> reads.\<close>

record mcp_codec =
  mx_to_str :: "json \<Rightarrow> string + string"
  mx_from_str :: "string \<Rightarrow> string + json"
  mx_response :: "json \<Rightarrow> string + rpc_response"
  mx_tools :: "json \<Rightarrow> string + tool_info list"
  mx_call_result :: "json \<Rightarrow> string + json list \<times> bool"

text \<open>Reading a response keeps its id.\<close>

definition mcp_codec_ok :: "mcp_codec \<Rightarrow> bool" where
  "mcp_codec_ok X \<longleftrightarrow> (\<forall>v r. mx_response X v = Inr r \<longrightarrow> json_get v ''id'' = Some (JInt (uint (rp_id r))))"

section \<open>mod.rs\<close>

fun show_mcp_error :: "mcp_error \<Rightarrow> string" where
  "show_mcp_error (McpSpawn cmd e) = ''failed to spawn MCP server command `'' @ cmd @ ''`: '' @ e"
| "show_mcp_error (McpIo e) = ''MCP transport I/O error: '' @ e"
| "show_mcp_error (McpProtocol e) = ''MCP protocol error: '' @ e"
| "show_mcp_error (McpRpc code message) =
     ''MCP server returned JSON-RPC error '' @ (if code < 0 then ''-'' else []) @ decimal (nat \<bar>code\<bar>) @ '': '' @ message"
| "show_mcp_error (McpTimeout meth ms) = ''MCP request `'' @ meth @ ''` timed out after '' @ decimal ms @ '' ms''"
| "show_mcp_error McpClosed = ''MCP connection closed by server''"
| "show_mcp_error (McpToolFailed name message) = ''MCP tool `'' @ name @ ''` reported an error: '' @ message"
| "show_mcp_error (McpConfig e) = ''invalid MCP config: '' @ e"

section \<open>config.rs\<close>

record mcp_server_config =
  cfg_name :: string
  cfg_command :: string
  cfg_args :: "string list"
  cfg_env :: "(string \<times> string) list"

definition config_new :: "string \<Rightarrow> string \<Rightarrow> mcp_server_config" where
  "config_new name command = \<lparr>cfg_name = name, cfg_command = command, cfg_args = [], cfg_env = []\<rparr>"

definition with_args :: "string list \<Rightarrow> mcp_server_config \<Rightarrow> mcp_server_config" where
  "with_args args c = c\<lparr>cfg_args := args\<rparr>"

record server_entry =
  sv_command :: string
  sv_args :: "string list"
  sv_env :: "(string \<times> string) list"

text \<open>\<open>parse\<close> reads the file's shape: its servers, and the environment of each, in key order.\<close>

definition parse_mcp_config ::
  "(string \<Rightarrow> string + (string \<times> server_entry) list) \<Rightarrow> string \<Rightarrow> mcp_error + mcp_server_config list" where
  "parse_mcp_config parse contents =
     (case parse contents of
        Inl e \<Rightarrow> Inl (McpConfig (''failed to parse mcp_servers.json: '' @ e))
      | Inr servers \<Rightarrow>
          Inr (map (\<lambda>(name, en). \<lparr>cfg_name = name, cfg_command = sv_command en, cfg_args = sv_args en, cfg_env = sv_env en\<rparr>)
                 servers))"

datatype read_outcome = ReadOk string | ReadNotFound | ReadFailed string

definition load_mcp_config ::
  "(string \<Rightarrow> string + (string \<times> server_entry) list) \<Rightarrow> string \<Rightarrow> read_outcome \<Rightarrow> mcp_error + mcp_server_config list" where
  "load_mcp_config parse path_text outcome =
     (case outcome of
        ReadOk contents \<Rightarrow> parse_mcp_config parse contents
      | ReadNotFound \<Rightarrow> Inr []
      | ReadFailed e \<Rightarrow> Inl (McpConfig (''failed to read '' @ path_text @ '': '' @ e)))"

section \<open>client.rs\<close>

definition DEFAULT_REQUEST_TIMEOUT :: nat where
  "DEFAULT_REQUEST_TIMEOUT = 30000"

definition CALL_TOOL_TIMEOUT :: nat where
  "CALL_TOOL_TIMEOUT = 120000"

text \<open>A request: its id, and its end of the channel. It is being written, waits, has its result, or
  its caller dropped it.\<close>

datatype channel_end = OpenChannel | Holds rpc_response | SenderGone

datatype call_phase = Sending | Awaiting | CallDone "mcp_error + json" | Abandoned

record mcp_call =
  ca_id :: u64
  ca_method :: string
  ca_timeout :: nat
  ca_payload :: string
  ca_channel :: channel_end
  ca_phase :: call_phase

text \<open>The client: the next id, the pending senders by id (each the number of its request), the reader
  task, the requests made so far and the lines written to the server.\<close>

record mcp_client =
  cl_next_id :: u64
  cl_pending :: "u64 \<rightharpoonup> nat"
  cl_reader :: bool
  cl_calls :: "mcp_call list"
  cl_written :: "string list"

definition client_start :: mcp_client where
  "client_start = \<lparr>cl_next_id = 1, cl_pending = Map.empty, cl_reader = True, cl_calls = [], cl_written = []\<rparr>"

definition update_call :: "nat \<Rightarrow> (mcp_call \<Rightarrow> mcp_call) \<Rightarrow> mcp_client \<Rightarrow> mcp_client" where
  "update_call n f c = c\<lparr>cl_calls := (cl_calls c)[n := f (cl_calls c ! n)]\<rparr>"

text \<open>Dropping a sender closes the channel, unless it holds a response already.\<close>

fun close_channel :: "mcp_call \<Rightarrow> mcp_call" where
  "close_channel k = (case ca_channel k of OpenChannel \<Rightarrow> k\<lparr>ca_channel := SenderGone\<rparr> | _ \<Rightarrow> k)"

definition drop_sender_of :: "u64 \<Rightarrow> mcp_client \<Rightarrow> mcp_client" where
  "drop_sender_of i c =
     (case cl_pending c i of
        None \<Rightarrow> c
      | Some n \<Rightarrow> update_call n close_channel (c\<lparr>cl_pending := (cl_pending c)(i := None)\<rparr>))"

text \<open>\<open>pending.clear()\<close>; a request's sender is under its own id.\<close>

definition clear_pending :: "mcp_client \<Rightarrow> mcp_client" where
  "clear_pending c =
     c\<lparr>cl_calls := map (\<lambda>n. let k = cl_calls c ! n in if cl_pending c (ca_id k) = Some n then close_channel k else k)
          [0..<length (cl_calls c)],
       cl_pending := Map.empty\<rparr>"

text \<open>\<open>request\<close>, up to the write: take an id, encode, register the sender.\<close>

definition begin_request :: "mcp_codec \<Rightarrow> string \<Rightarrow> json option \<Rightarrow> nat \<Rightarrow> mcp_client \<Rightarrow> mcp_client" where
  "begin_request X meth params timeout c =
     (let i = cl_next_id c;
          c = c\<lparr>cl_next_id := i + 1\<rparr>;
          k = \<lparr>ca_id = i, ca_method = meth, ca_timeout = timeout, ca_payload = [],
               ca_channel = OpenChannel, ca_phase = Sending\<rparr>
      in case mx_to_str X (rpc_request i meth params) of
           Inl e \<Rightarrow>
             c\<lparr>cl_calls := cl_calls c @
                 [k\<lparr>ca_channel := SenderGone, ca_phase := CallDone (Inl (McpProtocol (''failed to encode `'' @ meth @ ''`: '' @ e)))\<rparr>]\<rparr>
         | Inr payload \<Rightarrow>
             (let c = drop_sender_of i c
              in c\<lparr>cl_calls := cl_calls c @ [k\<lparr>ca_payload := payload\<rparr>], cl_pending := (cl_pending c)(i \<mapsto> length (cl_calls c))\<rparr>))"

definition remove_pending :: "u64 \<Rightarrow> mcp_client \<Rightarrow> mcp_client" where
  "remove_pending i c = drop_sender_of i c"

text \<open>The write came to its end: the error, if it failed.\<close>

definition request_sent :: "nat \<Rightarrow> string option \<Rightarrow> mcp_client \<Rightarrow> mcp_client" where
  "request_sent n failure c =
     (case failure of
        Some e \<Rightarrow> update_call n (\<lambda>k. k\<lparr>ca_phase := CallDone (Inl (McpIo e))\<rparr>) (remove_pending (ca_id (cl_calls c ! n)) c)
      | None \<Rightarrow> update_call n (\<lambda>k. k\<lparr>ca_phase := Awaiting\<rparr>) 
          (c\<lparr>cl_written := cl_written c @ [ca_payload (cl_calls c ! n) @ [CHR 0x0A]]\<rparr>))"

definition response_result :: "rpc_response \<Rightarrow> mcp_error + json" where
  "response_result r =
     (case rp_error r of
        Some e \<Rightarrow> Inl (McpRpc (re_code e) (re_message e))
      | None \<Rightarrow> Inr (unwrap_or JNull (rp_result r)))"

definition is_response :: "json \<Rightarrow> bool" where
  "is_response v =
     ((case json_get v ''id'' of Some i \<Rightarrow> json_as_u64 i \<noteq> None | None \<Rightarrow> False) \<and>
      (json_get v ''result'' \<noteq> None \<or> json_get v ''error'' \<noteq> None))"

definition response_line :: "mcp_codec \<Rightarrow> string \<Rightarrow> rpc_response option" where
  "response_line X line =
     (if str_trim line = [] then None
      else case mx_from_str X (str_trim line) of
             Inl e \<Rightarrow> None
           | Inr v \<Rightarrow> if \<not> is_response v then None
                      else (case mx_response X v of Inl e \<Rightarrow> None | Inr r \<Rightarrow> Some r))"

definition route_line :: "mcp_codec \<Rightarrow> string \<Rightarrow> mcp_client \<Rightarrow> mcp_client" where
  "route_line X line c =
     (case response_line X line of
        None \<Rightarrow> c
      | Some r \<Rightarrow>
          (case cl_pending c (rp_id r) of
             None \<Rightarrow> c
           | Some n \<Rightarrow> update_call n (\<lambda>k. k\<lparr>ca_channel := Holds r\<rparr>)
               (c\<lparr>cl_pending := (cl_pending c)(rp_id r := None)\<rparr>)))"

text \<open>What can happen to a client.\<close>

datatype mcp_step =
    BeginRequest string "json option" nat
  | RequestSent nat "string option"
  | ServerLine string
  | ServerEof
  | Resume nat
  | Elapsed nat
  | CallerGone nat
  | Shutdown

definition phase_of :: "mcp_client \<Rightarrow> nat \<Rightarrow> call_phase option" where
  "phase_of c n = (if n < length (cl_calls c) then Some (ca_phase (cl_calls c ! n)) else None)"

text \<open>A step, \<open>None\<close> when it cannot happen in the state. A request that waits goes on with what its
  channel holds; its timeout fires only while the channel is open.\<close>

definition mcp_exec :: "mcp_codec \<Rightarrow> mcp_step \<Rightarrow> mcp_client \<Rightarrow> mcp_client option" where
  "mcp_exec X s c =
     (case s of
        BeginRequest meth params timeout \<Rightarrow> Some (begin_request X meth params timeout c)
      | RequestSent n failure \<Rightarrow>
          if phase_of c n = Some Sending then Some (request_sent n failure c) else None
      | ServerLine line \<Rightarrow> if cl_reader c then Some (route_line X line c) else None
      | ServerEof \<Rightarrow> if cl_reader c then Some (clear_pending (c\<lparr>cl_reader := False\<rparr>)) else None
      | Resume n \<Rightarrow>
          if phase_of c n = Some Awaiting
          then (case ca_channel (cl_calls c ! n) of
                  OpenChannel \<Rightarrow> None
                | Holds r \<Rightarrow> Some (update_call n (\<lambda>k. k\<lparr>ca_phase := CallDone (response_result r)\<rparr>) c)
                | SenderGone \<Rightarrow> Some (update_call n (\<lambda>k. k\<lparr>ca_phase := CallDone (Inl McpClosed)\<rparr>) c))
          else None
      | Elapsed n \<Rightarrow>
          if phase_of c n = Some Awaiting \<and> ca_channel (cl_calls c ! n) = OpenChannel
          then let k = cl_calls c ! n
               in Some (update_call n (\<lambda>k'. k'\<lparr>ca_phase := CallDone (Inl (McpTimeout (ca_method k) (ca_timeout k)))\<rparr>)
                    (remove_pending (ca_id k) c))
          else None
      | CallerGone n \<Rightarrow>
          if phase_of c n = Some Sending \<or> phase_of c n = Some Awaiting
          then Some (update_call n (\<lambda>k. k\<lparr>ca_phase := Abandoned\<rparr>) c) else None
      | Shutdown \<Rightarrow> Some (clear_pending (c\<lparr>cl_reader := False\<rparr>)))"

fun mcp_run_steps :: "mcp_codec \<Rightarrow> mcp_step list \<Rightarrow> mcp_client \<Rightarrow> mcp_client option" where
  "mcp_run_steps X [] c = Some c"
| "mcp_run_steps X (s # ss) c = Option.bind (mcp_exec X s c) (mcp_run_steps X ss)"

subsection \<open>The calls of the client\<close>

text \<open>\<open>connect\<close>: the outcome of the spawn, of the two requests and of the notification; the tools.\<close>

definition mcp_connect ::
  "mcp_codec \<Rightarrow> mcp_server_config \<Rightarrow> string option \<Rightarrow> mcp_error + json \<Rightarrow> mcp_error + unit \<Rightarrow> mcp_error + json \<Rightarrow>
     mcp_error + tool_info list" where
  "mcp_connect X cfg spawn_failure initialized notified listed =
     and_then (case spawn_failure of Some e \<Rightarrow> Inl (McpSpawn (cfg_command cfg) e) | None \<Rightarrow> Inr ()) (\<lambda>_.
     and_then initialized (\<lambda>_.
     and_then notified (\<lambda>_.
     and_then listed (\<lambda>result.
       case mx_tools X result of
         Inl e \<Rightarrow> Inl (McpProtocol (''invalid tools/list result: '' @ e))
       | Inr tools \<Rightarrow> Inr tools))))"

definition call_tool_params :: "string \<Rightarrow> json \<Rightarrow> json" where
  "call_tool_params name arguments = json_obj [(''name'', JStr name), (''arguments'', arguments)]"

definition mcp_call_tool :: "mcp_codec \<Rightarrow> string \<Rightarrow> mcp_error + json \<Rightarrow> mcp_error + string" where
  "mcp_call_tool X name response =
     and_then response (\<lambda>result.
       case mx_call_result X result of
         Inl e \<Rightarrow> Inl (McpProtocol (''invalid tools/call result: '' @ e))
       | Inr (content, is_error) \<Rightarrow>
           (let t = render_content (map content_item_of content)
            in if is_error then Inl (McpToolFailed name t) else Inr t))"

text \<open>A connected server as the tool adapter sees it; \<open>exchange\<close> makes a request and waits for it.\<close>

definition mcp_server_of ::
  "mcp_codec \<Rightarrow> string \<Rightarrow> tool_info list \<Rightarrow> (string \<Rightarrow> json \<Rightarrow> nat \<Rightarrow> 'w \<Rightarrow> (mcp_error + json) \<times> 'w) \<Rightarrow> 'w mcp_server" where
  "mcp_server_of X name tools exchange =
     \<lparr>ms_name = name, ms_tools = tools,
      ms_call = (\<lambda>tool_name arguments w.
        case exchange ''tools/call'' (call_tool_params tool_name arguments) CALL_TOOL_TIMEOUT w of
          (response, w') \<Rightarrow> (mcp_call_tool X tool_name response, w')),
      ms_show = show_mcp_error\<rparr>"

section \<open>Laws\<close>

declare close_channel.simps [simp del]

lemma close_channel_fields [simp]:
  "ca_id (close_channel k) = ca_id k" "ca_phase (close_channel k) = ca_phase k"
  "ca_channel (close_channel k) = Holds r \<longleftrightarrow> ca_channel k = Holds r" "ca_channel (close_channel k) \<noteq> OpenChannel"
  by (auto simp: close_channel.simps split: channel_end.splits)

lemma update_call_fields [simp]:
  "cl_pending (update_call n f c) = cl_pending c" "cl_next_id (update_call n f c) = cl_next_id c"
  "cl_reader (update_call n f c) = cl_reader c" "length (cl_calls (update_call n f c)) = length (cl_calls c)"
  "m < length (cl_calls c) \<Longrightarrow> cl_calls (update_call n f c) ! m = (if m = n then f (cl_calls c ! m) else cl_calls c ! m)"
  by (auto simp: update_call_def nth_list_update)

lemma clear_pending_fields [simp]:
  "cl_pending (clear_pending c) = Map.empty" "cl_next_id (clear_pending c) = cl_next_id c"
  "cl_reader (clear_pending c) = cl_reader c" "length (cl_calls (clear_pending c)) = length (cl_calls c)"
  "m < length (cl_calls c) \<Longrightarrow> cl_calls (clear_pending c) ! m =
    (if cl_pending c (ca_id (cl_calls c ! m)) = Some m then close_channel (cl_calls c ! m) else cl_calls c ! m)"
  by (auto simp: clear_pending_def Let_def)

text \<open>A request, given the lines the reader has taken: a response in its channel carries its id and came
  in one of them; a result is that response's, or an error of the client's own. Its channel is open
  exactly while its sender is pending, which ends with the request unless its caller left.\<close>

definition call_ok :: "mcp_codec \<Rightarrow> string set \<Rightarrow> mcp_client \<Rightarrow> nat \<Rightarrow> bool" where
  "call_ok X lines c n \<longleftrightarrow>
     (let k = cl_calls c ! n
      in (\<forall>r. ca_channel k = Holds r \<longrightarrow> rp_id r = ca_id k \<and> (\<exists>l\<in>lines. response_line X l = Some r)) \<and>
         (\<forall>res. ca_phase k = CallDone res \<longrightarrow> ca_channel k \<noteq> OpenChannel \<and>
            ((\<exists>r. ca_channel k = Holds r \<and> res = response_result r) \<or> (\<exists>e. res = Inl e \<and> (\<forall>code m. e \<noteq> McpRpc code m)))) \<and>
         (ca_channel k = OpenChannel \<longleftrightarrow> cl_pending c (ca_id k) = Some n))"

definition client_ok :: "mcp_codec \<Rightarrow> string set \<Rightarrow> mcp_client \<Rightarrow> bool" where
  "client_ok X lines c \<longleftrightarrow>
     (\<forall>n<length (cl_calls c). call_ok X lines c n) \<and>
     (\<forall>i n. cl_pending c i = Some n \<longrightarrow> n < length (cl_calls c) \<and> ca_id (cl_calls c ! n) = i)"

lemma client_ok_start: "client_ok X {} client_start"
  by (simp add: client_ok_def client_start_def)

lemma drop_sender_ok:
  assumes "client_ok X lines c"
  shows "client_ok X lines (drop_sender_of i c) \<and> cl_pending (drop_sender_of i c) = (cl_pending c)(i := None) \<and>
    length (cl_calls (drop_sender_of i c)) = length (cl_calls c) \<and>
    (\<forall>n<length (cl_calls c). ca_phase (cl_calls (drop_sender_of i c) ! n) = ca_phase (cl_calls c ! n))"
proof (cases "cl_pending c i")
  case None
  with assms show ?thesis by (auto simp: drop_sender_of_def fun_upd_idem)
next
  case (Some n)
  with assms have n: "n < length (cl_calls c)" "ca_id (cl_calls c ! n) = i"
    by (auto simp: client_ok_def)
  with assms Some show ?thesis
    by (auto simp: drop_sender_of_def client_ok_def call_ok_def Let_def update_call_def nth_list_update)
qed

lemma call_ok_update:
  assumes "client_ok X lines c" and "n < length (cl_calls c)"
    and "ca_id (f (cl_calls c ! n)) = ca_id (cl_calls c ! n)" "ca_channel (f (cl_calls c ! n)) = ca_channel (cl_calls c ! n)"
    and "\<And>res. ca_phase (f (cl_calls c ! n)) = CallDone res \<Longrightarrow> ca_channel (cl_calls c ! n) \<noteq> OpenChannel \<and>
      ((\<exists>r. ca_channel (cl_calls c ! n) = Holds r \<and> res = response_result r) \<or>
       (\<exists>e. res = Inl e \<and> (\<forall>code m. e \<noteq> McpRpc code m)))"
  shows "client_ok X lines (update_call n f c)"
  using assms by (auto simp: client_ok_def call_ok_def Let_def)

lemma client_ok_more:
  assumes "client_ok X lines c" and "lines \<subseteq> lines'"
  shows "client_ok X lines' c"
  using assms unfolding client_ok_def call_ok_def Let_def by blast

lemma client_ok_cong [simp]:
  "client_ok X lines (c\<lparr>cl_written := w\<rparr>) = client_ok X lines c"
  "client_ok X lines (c\<lparr>cl_next_id := i\<rparr>) = client_ok X lines c"
  by (simp_all add: client_ok_def call_ok_def)

text \<open>A new request, with a pending sender or without a channel.\<close>

lemma client_ok_append:
  assumes "client_ok X lines c"
    and k: "ca_channel k = OpenChannel \<and> ca_phase k = Sending \<and> cl_pending c (ca_id k) = None \<and>
        P = (cl_pending c)(ca_id k \<mapsto> length (cl_calls c)) \<or>
      ca_channel k = SenderGone \<and> P = cl_pending c \<and> (\<exists>e. ca_phase k = CallDone (Inl (McpProtocol e)))"
  shows "client_ok X lines (c\<lparr>cl_calls := cl_calls c @ [k], cl_pending := P\<rparr>)"
proof -
  have old: "cl_pending c i = Some n \<Longrightarrow> n < length (cl_calls c) \<and> ca_id (cl_calls c ! n) = i" for i n
    using assms(1) by (simp add: client_ok_def)
  have "call_ok X lines (c\<lparr>cl_calls := cl_calls c @ [k], cl_pending := P\<rparr>) n" if "n < Suc (length (cl_calls c))" for n
  proof (cases "n < length (cl_calls c)")
    case True
    with assms(1) have "call_ok X lines c n" by (simp add: client_ok_def)
    moreover have "P (ca_id (cl_calls c ! n)) = Some n \<longleftrightarrow> cl_pending c (ca_id (cl_calls c ! n)) = Some n"
      using k True by (auto split: if_splits)
    ultimately show ?thesis
      using True by (auto simp: call_ok_def Let_def nth_append)
  next
    case False
    with that have n: "n = length (cl_calls c)" by simp
    then have "cl_pending c (ca_id k) \<noteq> Some n" using old by blast
    with n k show ?thesis
      by (auto simp: call_ok_def Let_def nth_append)
  qed
  moreover have "n < Suc (length (cl_calls c)) \<and> ca_id ((cl_calls c @ [k]) ! n) = i" if "P i = Some n" for i n
    using that k old [of i n] by (auto simp: nth_append split: if_splits)
  ultimately show ?thesis
    by (simp add: client_ok_def)
qed

lemma begin_request_ok:
  assumes "client_ok X lines c"
  shows "client_ok X lines (begin_request X meth params timeout c)"
proof (cases "mx_to_str X (rpc_request (cl_next_id c) meth params)")
  case (Inl e)
  let ?c = "c\<lparr>cl_next_id := cl_next_id c + 1\<rparr>"
  from client_ok_append [of X lines ?c, of _ "cl_pending ?c"] assms Inl show ?thesis
    by (simp add: begin_request_def Let_def)
next
  case (Inr payload)
  let ?i = "cl_next_id c"
  let ?c = "drop_sender_of ?i (c\<lparr>cl_next_id := ?i + 1\<rparr>)"
  have ok: "client_ok X lines ?c" "cl_pending ?c ?i = None"
    using drop_sender_ok [of X lines "c\<lparr>cl_next_id := ?i + 1\<rparr>" ?i] assms by simp_all
  show ?thesis
    using client_ok_append [OF ok(1), of "\<lparr>ca_id = ?i, ca_method = meth, ca_timeout = timeout, ca_payload = payload,
        ca_channel = OpenChannel, ca_phase = Sending\<rparr>"] ok(2) Inr
    by (simp add: begin_request_def Let_def)
qed

text \<open>The end of a request by an error of the client: its sender goes.\<close>

lemma fail_call_ok:
  assumes "client_ok X lines c" and "n < length (cl_calls c)" and "\<forall>code m. e \<noteq> McpRpc code m"
  shows "client_ok X lines (update_call n (\<lambda>k. k\<lparr>ca_phase := CallDone (Inl e)\<rparr>) (remove_pending (ca_id (cl_calls c ! n)) c))"
proof -
  let ?i = "ca_id (cl_calls c ! n)"
  let ?c = "remove_pending ?i c"
  note d = drop_sender_ok [OF assms(1), of ?i, folded remove_pending_def]
  then have n: "n < length (cl_calls ?c)" using assms(2) by simp
  with d have "call_ok X lines ?c n" by (simp add: client_ok_def)
  moreover have "ca_id (cl_calls ?c ! n) = ?i"
    using assms(2) by (auto simp: remove_pending_def drop_sender_of_def split: option.splits)
  ultimately have "ca_channel (cl_calls ?c ! n) \<noteq> OpenChannel"
    using d by (simp add: call_ok_def Let_def)
  with d n assms(3) show ?thesis
    by (intro call_ok_update) auto
qed

lemma route_line_ok:
  assumes "client_ok X lines c"
  shows "client_ok X (insert line lines) (route_line X line c)"
proof -
  have ok: "client_ok X (insert line lines) c"
    using client_ok_more [OF assms] by blast
  show ?thesis
  proof (cases "\<exists>r n. response_line X line = Some r \<and> cl_pending c (rp_id r) = Some n")
    case True
    then obtain r n where r: "response_line X line = Some r" "cl_pending c (rp_id r) = Some n" by blast
    with ok have n: "n < length (cl_calls c)" "ca_id (cl_calls c ! n) = rp_id r"
      by (auto simp: client_ok_def)
    let ?c = "update_call n (\<lambda>k. k\<lparr>ca_channel := Holds r\<rparr>) (c\<lparr>cl_pending := (cl_pending c)(rp_id r := None)\<rparr>)"
    have "call_ok X (insert line lines) ?c m" if m: "m < length (cl_calls c)" for m
    proof -
      have k: "call_ok X (insert line lines) c m" using ok m by (simp add: client_ok_def)
      show ?thesis
      proof (cases "m = n")
        case True
        with k n r(2) have "ca_phase (cl_calls c ! n) \<noteq> CallDone res" for res
          by (auto simp: call_ok_def Let_def)
        with True n r(1) show ?thesis by (simp add: call_ok_def Let_def)
      next
        case False
        then have "((cl_pending c)(rp_id r := None)) (ca_id (cl_calls c ! m)) = Some m \<longleftrightarrow> cl_pending c (ca_id (cl_calls c ! m)) = Some m"
          using r(2) by auto
        with False k m show ?thesis by (auto simp: call_ok_def Let_def)
      qed
    qed
    then have "client_ok X (insert line lines) ?c"
      using ok n by (auto simp: client_ok_def split: if_splits)
    with r show ?thesis by (simp add: route_line_def)
  qed (use ok in \<open>auto simp: route_line_def split: option.splits\<close>)
qed

lemma clear_pending_ok:
  assumes "client_ok X lines c"
  shows "client_ok X lines (clear_pending (c\<lparr>cl_reader := b\<rparr>))"
proof -
  have "call_ok X lines (clear_pending (c\<lparr>cl_reader := b\<rparr>)) n" if n: "n < length (cl_calls c)" for n
  proof -
    have "call_ok X lines c n" using assms n by (simp add: client_ok_def)
    then show ?thesis
      using n by (cases "cl_pending c (ca_id (cl_calls c ! n)) = Some n") (auto simp: call_ok_def Let_def)
  qed
  then show ?thesis by (simp add: client_ok_def)
qed

lemma mcp_exec_ok:
  assumes "client_ok X lines c" and "mcp_exec X s c = Some c'"
  shows "client_ok X (case s of ServerLine l \<Rightarrow> insert l lines | _ \<Rightarrow> lines) c'"
proof (cases s)
  case (RequestSent n failure)
  with assms(2) have n: "n < length (cl_calls c)" "c' = request_sent n failure c"
    by (auto simp: mcp_exec_def phase_of_def split: if_splits)
  show ?thesis
  proof (cases failure)
    case None
    with call_ok_update [of X lines "c\<lparr>cl_written := w\<rparr>" n "\<lambda>k. k\<lparr>ca_phase := Awaiting\<rparr>" for w] n assms(1) RequestSent
    show ?thesis by (simp add: request_sent_def)
  next
    case (Some e)
    with fail_call_ok [OF assms(1) n(1), of "McpIo e"] n(2) RequestSent show ?thesis
      by (simp add: request_sent_def)
  qed
next
  case (Resume n)
  with assms show ?thesis
    by (auto simp: mcp_exec_def phase_of_def intro!: call_ok_update split: if_splits channel_end.splits)
next
  case (Elapsed n)
  with assms fail_call_ok [OF assms(1), of n "McpTimeout (ca_method (cl_calls c ! n)) (ca_timeout (cl_calls c ! n))"]
  show ?thesis by (auto simp: mcp_exec_def phase_of_def Let_def split: if_splits)
next
  case (CallerGone n)
  with assms show ?thesis
    by (auto simp: mcp_exec_def phase_of_def intro!: call_ok_update split: if_splits)
qed (use assms in \<open>auto simp: mcp_exec_def begin_request_ok route_line_ok clear_pending_ok split: if_splits\<close>)

fun lines_of :: "mcp_step list \<Rightarrow> string set" where
  "lines_of [] = {}"
| "lines_of (ServerLine l # ss) = insert l (lines_of ss)"
| "lines_of (_ # ss) = lines_of ss"

lemma mcp_run_ok:
  "client_ok X lines c \<Longrightarrow> mcp_run_steps X ss c = Some c' \<Longrightarrow> client_ok X (lines \<union> lines_of ss) c'"
proof (induction ss arbitrary: lines c)
  case (Cons s ss)
  then obtain c1 where c1: "mcp_exec X s c = Some c1" "mcp_run_steps X ss c1 = Some c'"
    by (auto split: Option.bind_splits)
  from Cons.IH [OF mcp_exec_ok [OF Cons.prems(1) c1(1)] c1(2)] show ?case
    by (cases s) auto
qed simp

text \<open>Ids count up from 1.\<close>

definition ids_ok :: "mcp_client \<Rightarrow> bool" where
  "ids_ok c \<longleftrightarrow> cl_next_id c = of_nat (Suc (length (cl_calls c))) \<and>
     (\<forall>n<length (cl_calls c). ca_id (cl_calls c ! n) = of_nat (Suc n))"

lemma ids_ok_update: "ids_ok c \<Longrightarrow> (\<And>k. ca_id (f k) = ca_id k) \<Longrightarrow> ids_ok (update_call n f c)"
  by (auto simp: ids_ok_def)

lemma ids_ok_drop: "ids_ok c \<Longrightarrow> ids_ok (drop_sender_of i c)"
  by (auto simp: ids_ok_def drop_sender_of_def split: option.splits)

lemma ids_ok_begin:
  assumes "ids_ok c"
  shows "ids_ok (begin_request X meth params timeout c)"
proof -
  have app: "ids_ok (c\<lparr>cl_calls := cl_calls c @ [k], cl_pending := P\<rparr>)"
    if "\<forall>n<length (cl_calls c). ca_id (cl_calls c ! n) = of_nat (Suc n)" "cl_next_id c = of_nat (Suc (length (cl_calls c))) + 1"
      "ca_id k = of_nat (Suc (length (cl_calls c)))" for c k P
    using that by (auto simp: ids_ok_def nth_append less_Suc_eq add.commute)
  show ?thesis
  proof (cases "mx_to_str X (rpc_request (cl_next_id c) meth params)")
    case (Inl e)
    with assms app [of "c\<lparr>cl_next_id := cl_next_id c + 1\<rparr>" _ "cl_pending c"] show ?thesis
      by (simp add: begin_request_def ids_ok_def Let_def)
  next
    case (Inr payload)
    let ?c = "drop_sender_of (cl_next_id c) (c\<lparr>cl_next_id := cl_next_id c + 1\<rparr>)"
    have "\<forall>n<length (cl_calls ?c). ca_id (cl_calls ?c ! n) = of_nat (Suc n)" "length (cl_calls ?c) = length (cl_calls c)"
        "cl_next_id ?c = of_nat (Suc (length (cl_calls c))) + 1"
      using assms by (auto simp: drop_sender_of_def ids_ok_def split: option.splits)
    with app [of ?c] Inr assms show ?thesis
      by (simp add: begin_request_def ids_ok_def Let_def)
  qed
qed

lemma ids_ok_clear: "ids_ok c \<Longrightarrow> ids_ok (clear_pending (c\<lparr>cl_reader := b\<rparr>))"
  by (auto simp: ids_ok_def)

lemma ids_ok_exec: "ids_ok c \<Longrightarrow> mcp_exec X s c = Some c' \<Longrightarrow> ids_ok c'"
proof -
  assume ok: "ids_ok c" and e: "mcp_exec X s c = Some c'"
  have same: "ids_ok (c\<lparr>cl_written := w\<rparr>)" "ids_ok (c\<lparr>cl_pending := P\<rparr>)" for w P
    using ok by (simp_all add: ids_ok_def)
  show "ids_ok c'"
    using e ok same
    by (cases s)
      (auto simp: mcp_exec_def request_sent_def route_line_def remove_pending_def Let_def ids_ok_begin ids_ok_clear
        intro!: ids_ok_update ids_ok_drop split: if_splits option.splits channel_end.splits)
qed

lemma ids_ok_run: "ids_ok c \<Longrightarrow> mcp_run_steps X ss c = Some c' \<Longrightarrow> ids_ok c'"
  by (induction ss arbitrary: c) (auto split: Option.bind_splits dest: ids_ok_exec)

section \<open>Properties\<close>

text \<open>C28: An answer reaches the request it answers. In every run of the client, whatever the order in which
  responses come and requests time out, fail or are dropped: a request that ended with a value or
  with an error of the server got the result of a response read from a line whose id is the
  request's own; two requests have different ids (as long as fewer than 2 to the 64 were made);
  and the senders kept as pending are exactly those of requests without an answer, none of which has
  ended.\<close>

theorem mcp_answers_matched:
  assumes "mcp_codec_ok X" and "mcp_run_steps X ss client_start = Some c" and "n < length (cl_calls c)"
    and "length (cl_calls c) < 2 ^ 64"
  shows "(\<forall>res. ca_phase (cl_calls c ! n) = CallDone res \<longrightarrow> (\<exists>v. res = Inr v) \<or> (\<exists>code m. res = Inl (McpRpc code m)) \<longrightarrow>
      (\<exists>line v r. line \<in> lines_of ss \<and> mx_from_str X (str_trim line) = Inr v \<and> mx_response X v = Inr r \<and>
         json_get v ''id'' = Some (JInt (uint (ca_id (cl_calls c ! n)))) \<and> res = response_result r)) \<and>
    (\<forall>m<length (cl_calls c). m \<noteq> n \<longrightarrow> ca_id (cl_calls c ! m) \<noteq> ca_id (cl_calls c ! n)) \<and>
    (cl_pending c (ca_id (cl_calls c ! n)) = Some n \<longleftrightarrow> ca_channel (cl_calls c ! n) = OpenChannel) \<and>
    (cl_pending c (ca_id (cl_calls c ! n)) = Some n \<longrightarrow> (\<forall>res. ca_phase (cl_calls c ! n) \<noteq> CallDone res))"
proof -
  have "client_ok X (lines_of ss) c"
    using mcp_run_ok [OF client_ok_start assms(2)] by simp
  with assms(3) have k: "call_ok X (lines_of ss) c n" by (simp add: client_ok_def)
  have ids: "ca_id (cl_calls c ! m) = of_nat (Suc m)" if "m < length (cl_calls c)" for m
    using ids_ok_run [OF _ assms(2)] that by (auto simp: ids_ok_def client_start_def)
  have "ca_id (cl_calls c ! m) \<noteq> ca_id (cl_calls c ! n)" if "m < length (cl_calls c)" "m \<noteq> n" for m
  proof
    assume "ca_id (cl_calls c ! m) = ca_id (cl_calls c ! n)"
    then have "unat (of_nat (Suc m) :: u64) = unat (of_nat (Suc n) :: u64)"
      using ids that(1) assms(3) by simp
    with that assms(3,4) show False
      by (simp add: unat_of_nat take_bit_nat_eq_self del: of_nat_Suc)
  qed
  moreover have "\<exists>line v r. line \<in> lines_of ss \<and> mx_from_str X (str_trim line) = Inr v \<and> mx_response X v = Inr r \<and>
         json_get v ''id'' = Some (JInt (uint (ca_id (cl_calls c ! n)))) \<and> res = response_result r"
    if "ca_phase (cl_calls c ! n) = CallDone res" "(\<exists>v. res = Inr v) \<or> (\<exists>code m. res = Inl (McpRpc code m))" for res
  proof -
    from k that obtain r l where r: "res = response_result r" "rp_id r = ca_id (cl_calls c ! n)" "l \<in> lines_of ss"
        "response_line X l = Some r"
      by (fastforce simp: call_ok_def Let_def)
    from r(4) obtain v where v: "mx_from_str X (str_trim l) = Inr v" "mx_response X v = Inr r"
      by (auto simp: response_line_def split: if_splits sum.splits)
    with assms(1) r show ?thesis
      unfolding mcp_codec_ok_def by metis
  qed
  ultimately show ?thesis
    using k by (auto simp: call_ok_def Let_def)
qed

text \<open>A codec for the witnesses: a line is its own number, all responses are to the request 1.\<close>

definition demo_codec :: mcp_codec where
  "demo_codec = \<lparr>mx_to_str = (\<lambda>_. Inr ''q''),
     mx_from_str = (\<lambda>_. Inr (json_obj [(''id'', JInt 1), (''result'', JStr ''ok'')])),
     mx_response = (\<lambda>v. if json_get v ''id'' = Some (JInt 1)
        then Inr \<lparr>rp_id = 1, rp_result = json_get v ''result'', rp_error = None\<rparr> else Inl []),
     mx_tools = (\<lambda>_. Inr []), mx_call_result = (\<lambda>v. Inr ([v], False))\<rparr>"

lemma demo_codec_ok: "mcp_codec_ok demo_codec"
  by (simp add: mcp_codec_ok_def demo_codec_def)

lemma demo_line: "response_line demo_codec ''x'' = Some \<lparr>rp_id = 1, rp_result = Some (JStr ''ok''), rp_error = None\<rparr>"
proof -
  have "str_trim ''x'' \<noteq> []" by (simp add: str_trim_eval)
  then show ?thesis
    by (simp add: response_line_def demo_codec_def is_response_def json_obj_def)
qed

definition demo_steps :: "mcp_step list" where
  "demo_steps = [BeginRequest ''tools/list'' None 5, RequestSent 0 None, ServerLine ''x'', Resume 0]"

lemma demo_run: "\<exists>c. mcp_run_steps demo_codec demo_steps client_start = Some c \<and> length (cl_calls c) = 1 \<and>
    ca_phase (cl_calls c ! 0) = CallDone (Inr (JStr ''ok''))"
proof -
  have enc: "mx_to_str demo_codec j = Inr ''q''" for j by (simp add: demo_codec_def)
  show ?thesis
    by (simp add: demo_steps_def client_start_def mcp_exec_def begin_request_def request_sent_def route_line_def demo_line
        drop_sender_of_def update_call_def phase_of_def response_result_def enc Let_def)
qed

theorem mcp_answers_matched_witness:
  "\<exists>c res v. mcp_run_steps demo_codec demo_steps client_start = Some c \<and> ca_phase (cl_calls c ! 0) = CallDone res \<and>
     json_get v ''id'' = Some (JInt (uint (ca_id (cl_calls c ! 0)))) \<and> mx_from_str demo_codec (str_trim ''x'') = Inr v"
proof -
  obtain c where c: "mcp_run_steps demo_codec demo_steps client_start = Some c" "length (cl_calls c) = 1"
    "ca_phase (cl_calls c ! 0) = CallDone (Inr (JStr ''ok''))" using demo_run by blast
  have "lines_of demo_steps = {''x''}" by (simp add: demo_steps_def)
  with mcp_answers_matched [OF demo_codec_ok c(1), of 0] c show ?thesis by auto
qed

text \<open>C29: A request that waits is not forgotten. It can always go on, with what its channel holds or by its
  timeout; while the server's output is read, a response with its id is handed to it and nobody
  else, and the end of the output ends it with \<open>Closed\<close>.\<close>

theorem mcp_waiting_request_ends:
  assumes "mcp_run_steps X ss client_start = Some c" and "phase_of c n = Some Awaiting"
  shows "(mcp_exec X (Resume n) c \<noteq> None \<or> mcp_exec X (Elapsed n) c \<noteq> None) \<and>
    (ca_channel (cl_calls c ! n) = OpenChannel \<longrightarrow> cl_reader c \<longrightarrow>
      (\<forall>line r. response_line X line = Some r \<longrightarrow> rp_id r = ca_id (cl_calls c ! n) \<longrightarrow>
         (\<exists>c1 c2. mcp_exec X (ServerLine line) c = Some c1 \<and> mcp_exec X (Resume n) c1 = Some c2 \<and>
            phase_of c2 n = Some (CallDone (response_result r)) \<and>
            (\<forall>m<length (cl_calls c). m \<noteq> n \<longrightarrow> cl_calls c2 ! m = cl_calls c ! m))) \<and>
      (\<exists>c1 c2. mcp_exec X ServerEof c = Some c1 \<and> mcp_exec X (Resume n) c1 = Some c2 \<and>
         phase_of c2 n = Some (CallDone (Inl McpClosed))))"
proof -
  have "client_ok X (lines_of ss) c"
    using mcp_run_ok [OF client_ok_start assms(1)] by simp
  moreover have n: "n < length (cl_calls c)" "ca_phase (cl_calls c ! n) = Awaiting"
    using assms(2) by (auto simp: phase_of_def split: if_splits)
  ultimately have k: "call_ok X (lines_of ss) c n" by (simp add: client_ok_def)
  have one: "mcp_exec X (Resume n) c \<noteq> None \<or> mcp_exec X (Elapsed n) c \<noteq> None"
    using n by (cases "ca_channel (cl_calls c ! n)") (auto simp: mcp_exec_def phase_of_def Let_def)
  have two: "\<exists>c1 c2. mcp_exec X (ServerLine line) c = Some c1 \<and> mcp_exec X (Resume n) c1 = Some c2 \<and>
      phase_of c2 n = Some (CallDone (response_result r)) \<and> (\<forall>m<length (cl_calls c). m \<noteq> n \<longrightarrow> cl_calls c2 ! m = cl_calls c ! m)"
    if "cl_reader c" "ca_channel (cl_calls c ! n) = OpenChannel" "response_line X line = Some r" "rp_id r = ca_id (cl_calls c ! n)"
    for line r
    using that k n by (simp add: call_ok_def Let_def mcp_exec_def route_line_def phase_of_def)
  have three: "\<exists>c1 c2. mcp_exec X ServerEof c = Some c1 \<and> mcp_exec X (Resume n) c1 = Some c2 \<and>
      phase_of c2 n = Some (CallDone (Inl McpClosed))" if "cl_reader c" "ca_channel (cl_calls c ! n) = OpenChannel"
  proof -
    have "ca_channel (close_channel (cl_calls c ! n)) = SenderGone"
      using that(2) by (simp add: close_channel.simps)
    with that k n show ?thesis
      by (simp add: call_ok_def Let_def mcp_exec_def phase_of_def)
  qed
  from one two three show ?thesis by blast
qed

theorem mcp_waiting_request_ends_witness:
  "\<exists>c. mcp_run_steps demo_codec [BeginRequest ''m'' None 5, RequestSent 0 None] client_start = Some c \<and>
     (\<exists>c1 c2. mcp_exec demo_codec ServerEof c = Some c1 \<and> mcp_exec demo_codec (Resume 0) c1 = Some c2 \<and>
        phase_of c2 0 = Some (CallDone (Inl McpClosed)))"
proof -
  have enc: "mx_to_str demo_codec j = Inr ''q''" for j by (simp add: demo_codec_def)
  obtain c where c: "mcp_run_steps demo_codec [BeginRequest ''m'' None 5, RequestSent 0 None] client_start = Some c"
      "phase_of c 0 = Some Awaiting" "cl_reader c" "ca_channel (cl_calls c ! 0) = OpenChannel"
    by (simp add: client_start_def mcp_exec_def begin_request_def request_sent_def drop_sender_of_def update_call_def
        phase_of_def enc Let_def)
  from mcp_waiting_request_ends [OF c(1,2)] c show ?thesis by blast
qed

text \<open>A request made after the server closed its output is never told so. It can be answered by no
  line and no end of the output; what is left to it is its timeout, thirty or a hundred and twenty
  seconds later, or its caller leaving, unless the client itself is shut down.\<close>

theorem late_request_only_times_out:
  assumes "mcp_run_steps X ss client_start = Some c" and "\<not> cl_reader c" and "phase_of c n = Some Awaiting"
    and "ca_channel (cl_calls c ! n) = OpenChannel"
    and "mcp_exec X s c = Some c'" and "phase_of c' n \<noteq> Some Awaiting"
  shows "s = Elapsed n \<and> phase_of c' n = Some (CallDone (Inl (McpTimeout (ca_method (cl_calls c ! n)) (ca_timeout (cl_calls c ! n))))) \<or>
    s = CallerGone n \<and> phase_of c' n = Some Abandoned"
proof -
  have n: "n < length (cl_calls c)" "ca_phase (cl_calls c ! n) = Awaiting"
    using assms(3) by (auto simp: phase_of_def split: if_splits)
  have drop: "phase_of (drop_sender_of i d) n = phase_of d n" for i d
    by (auto simp: phase_of_def drop_sender_of_def split: option.splits)
  have keep: "phase_of (update_call m f d) n = phase_of d n" if "m \<noteq> n" for m f d
    using that by (auto simp: phase_of_def)
  have here: "phase_of (update_call n f d) n = Some (ca_phase (f (cl_calls d ! n)))" if "n < length (cl_calls d)" for f d
    using that by (auto simp: phase_of_def)
  have len: "length (cl_calls (drop_sender_of i d)) = length (cl_calls d)" for i d
    by (auto simp: drop_sender_of_def split: option.splits)
  have same: "phase_of (c\<lparr>cl_written := w\<rparr>) n = phase_of c n" "phase_of (c\<lparr>cl_next_id := i\<rparr>) n = phase_of c n" for w i
    by (simp_all add: phase_of_def)
  have app: "phase_of (d\<lparr>cl_calls := cl_calls d @ ks, cl_pending := P\<rparr>) n = phase_of d n" if "n < length (cl_calls d)" for d ks P
    using that by (simp add: phase_of_def nth_append)
  have begin_same: "phase_of (begin_request X meth params t c) n = phase_of c n" for meth params t
    using n app [where d = "c\<lparr>cl_next_id := cl_next_id c + 1\<rparr>" and P = "cl_pending c"]
      app [where d = "drop_sender_of (cl_next_id c) (c\<lparr>cl_next_id := cl_next_id c + 1\<rparr>)"]
    by (simp add: begin_request_def Let_def drop same len split: sum.splits)
  have clear: "phase_of (clear_pending (c\<lparr>cl_reader := False\<rparr>)) n = phase_of c n"
    using n by (simp add: phase_of_def)
  show ?thesis
  proof (cases s)
    case (RequestSent m failure)
    with assms(5) have "phase_of c m = Some Sending" by (simp add: mcp_exec_def split: if_splits)
    with assms(3) have "m \<noteq> n" by auto
    with RequestSent assms(3,5,6) show ?thesis
      by (auto simp: mcp_exec_def request_sent_def remove_pending_def keep drop same split: if_splits option.splits)
  next
    case (Resume m)
    with assms(3-6) show ?thesis
      by (cases "m = n") (auto simp: mcp_exec_def keep split: if_splits channel_end.splits)
  next
    case (Elapsed m)
    with assms(3-6) n show ?thesis
      by (cases "m = n") (auto simp: mcp_exec_def keep drop here len remove_pending_def Let_def split: if_splits)
  next
    case (CallerGone m)
    with assms(3-6) n show ?thesis
      by (cases "m = n") (auto simp: mcp_exec_def keep here split: if_splits)
  qed (use assms in \<open>auto simp: mcp_exec_def begin_same clear\<close>)
qed

theorem late_request_only_times_out_witness:
  "\<exists>c c'. mcp_run_steps demo_codec [ServerEof, BeginRequest ''m'' None 5, RequestSent 0 None] client_start = Some c \<and>
     mcp_exec demo_codec (Elapsed 0) c = Some c' \<and> phase_of c' 0 = Some (CallDone (Inl (McpTimeout ''m'' 5)))"
proof -
  have enc: "mx_to_str demo_codec j = Inr ''q''" for j by (simp add: demo_codec_def)
  obtain c where c: "mcp_run_steps demo_codec [ServerEof, BeginRequest ''m'' None 5, RequestSent 0 None] client_start = Some c"
      "\<not> cl_reader c" "phase_of c 0 = Some Awaiting" "ca_channel (cl_calls c ! 0) = OpenChannel"
      "ca_method (cl_calls c ! 0) = ''m''" "ca_timeout (cl_calls c ! 0) = 5"
    by (simp add: client_start_def mcp_exec_def begin_request_def request_sent_def drop_sender_of_def update_call_def
        clear_pending_def phase_of_def enc Let_def)
  then obtain c' where e: "mcp_exec demo_codec (Elapsed 0) c = Some c'"
    by (simp add: mcp_exec_def Let_def)
  have l: "length (cl_calls (remove_pending i d)) = length (cl_calls d)" for i d
    by (auto simp: remove_pending_def drop_sender_of_def split: option.splits)
  from e c(3,4) have "phase_of c' 0 \<noteq> Some Awaiting"
    by (auto simp: mcp_exec_def phase_of_def Let_def l split: if_splits)
  from late_request_only_times_out [OF c(1-4) e this] c e show ?thesis by auto
qed

text \<open>A remote tool's answer is rendered whole. A call through the adapter yields exactly one event: the
  texts of the answer joined by newlines, with every other item noted by its kind; an error the tool
  itself reports, one of the server or a malformed answer, not to be retried; or a failure of the
  connection, to be retried.\<close>

theorem mcp_tool_answer:
  assumes "c = mcp_server_of X server tools exchange" and "\<not> cancel 0"
    and "exchange ''tools/call'' (call_tool_params name (if args = JNull then json_obj [] else args)) CALL_TOOL_TIMEOUT w = (response, w')"
  shows "mcp_run c name args cancel w =
    ([Inr (case response of
        Inr v \<Rightarrow>
          (case mx_call_result X v of
             Inr (content, False) \<Rightarrow>
               ToolResult (json_obj [(''content'', JStr (str_join [CHR 0x0A] (map (\<lambda>i.
                 if member_str i ''type'' = Some ''text'' \<and> member_str i ''text'' \<noteq> None then the (member_str i ''text'')
                 else ''['' @ unwrap_or ''unknown'' (member_str i ''type'') @ '' content]'') content)))]) False
           | Inr (content, True) \<Rightarrow>
               ToolEventError (show_mcp_error (McpToolFailed name (render_content (map content_item_of content)))) False
           | Inl e \<Rightarrow> ToolEventError (''MCP protocol error: invalid tools/call result: '' @ e) False)
      | Inl err \<Rightarrow> ToolEventError (show_mcp_error err) (mcp_retryable err))], w')"
proof -
  have f: "(\<lambda>i. if member_str i ''type'' = Some ''text'' \<and> member_str i ''text'' \<noteq> None then the (member_str i ''text'')
      else ''['' @ unwrap_or ''unknown'' (member_str i ''type'') @ '' content]'') = (\<lambda>i. render_item (content_item_of i))"
    by (auto simp: fun_eq_iff content_item_of_def Let_def unwrap_or_def split: option.splits)
  show ?thesis
    unfolding f using assms(2,3)
    by (auto simp: mcp_run_def assms(1) mcp_server_of_def mcp_call_tool_def render_content_def comp_def Let_def
        split: sum.splits bool.splits)
qed

theorem mcp_tool_answer_witness:
  "mcp_run (mcp_server_of demo_codec ''s'' [] (\<lambda>m p t w. (Inr (json_obj [(''type'', JStr ''image'')]), w))) ''t'' JNull
     never_cancelled () = ([Inr (ToolResult (json_obj [(''content'', JStr ''[image content]'')]) False)], ())"
proof -
  have d: "mx_call_result demo_codec v = Inr ([v], False)" for v by (simp add: demo_codec_def)
  have "\<not> never_cancelled 0" by (simp add: never_cancelled_def)
  with mcp_tool_answer [of _ demo_codec "''s''" "[]" "\<lambda>m p t w. (Inr (json_obj [(''type'', JStr ''image'')]), w)"
      never_cancelled "''t''" JNull "()", OF refl]
  show ?thesis
    by (simp add: d member_str_def json_obj_def)
qed

end
