(* ===== verification/Ffi_Turn.thy ===== *)
theory Ffi_Turn
  imports Engine_Laws Hosted_Requests
begin

text \<open>
  A turn as the app sees it, the first half of \<open>crates/mahi-ffi/src/lib.rs\<close>: the flattened events
  (\<open>map_event\<close>), the queue between the task of a turn and the app's polls (\<open>TurnQueue\<close>,
  \<open>TurnHandle\<close>, \<open>start_turn\<close>), the buffered \<open>send\<close>, and the summaries of conversations and
  messages.

  The queue is a step function over the pieces of code between two locks or awaits: the task
  pushes an event and then notifies, a poll takes the lock and looks, and awaits a notification
  when there is nothing. \<open>Notify\<close> keeps at most one permit. One poll runs at a time.
\<close>

section \<open>Events\<close>

datatype agent_event_ffi =
    FfiTurnStarted string string
  | FfiTextDelta string
  | FfiToolProgress string
  | FfiToolResult string
  | FfiToolError string
  | FfiApprovalRequired string string
  | FfiTurnFinished string
  | FfiError string

definition render_tool_output :: "(json \<Rightarrow> string) \<Rightarrow> json \<Rightarrow> string" where
  "render_tool_output to_str output =
     (case output of
        JStr s \<Rightarrow> s
      | JObj m \<Rightarrow> (case json_get output ''content'' of Some (JStr s) \<Rightarrow> s | _ \<Rightarrow> to_str output)
      | other \<Rightarrow> to_str other)"

fun show_finish_reason :: "finish_reason \<Rightarrow> string" where
  "show_finish_reason FrStop = ''Stop''"
| "show_finish_reason FrToolCall = ''ToolCall''"
| "show_finish_reason FrMaxTokens = ''MaxTokens''"
| "show_finish_reason FrCancelled = ''Cancelled''"
| "show_finish_reason FrError = ''Error''"

definition em_dash :: string where
  "em_dash = '' '' @ utf8 [226, 128, 148] @ '' ''"

fun map_tool_event :: "(json \<Rightarrow> string) \<Rightarrow> tool_event \<Rightarrow> agent_event_ffi" where
  "map_tool_event to_str (ToolResult output final) = FfiToolResult (render_tool_output to_str output)"
| "map_tool_event to_str (ToolEventError message retryable) = FfiToolError message"
| "map_tool_event to_str (ToolChunk data) = FfiToolProgress data"
| "map_tool_event to_str (ToolCitation url title excerpt) =
     FfiToolProgress ((case title of Some t \<Rightarrow> t @ em_dash | None \<Rightarrow> []) @ url)"
| "map_tool_event to_str (ToolApprovalRequired i summary level) = FfiToolProgress summary"
| "map_tool_event to_str ToolCancelled = FfiToolProgress ''cancelled''"

text \<open>\<open>u\<close> and \<open>to_str\<close> are the text forms of an identifier and of a JSON value.\<close>

fun map_event ::
  "(uuid \<Rightarrow> string) \<Rightarrow> (json \<Rightarrow> string) \<Rightarrow> contract_error + agent_event \<Rightarrow> agent_event_ffi option" where
  "map_event u to_str (Inl e) = Some (FfiError (show_error u e))"
| "map_event u to_str (Inr (TurnStarted conversation message mode)) = Some (FfiTurnStarted (u conversation) (u message))"
| "map_event u to_str (Inr (TextDelta t)) = Some (FfiTextDelta t)"
| "map_event u to_str (Inr (ToolEv event)) = Some (map_tool_event to_str event)"
| "map_event u to_str (Inr (ApprovalRequired i summary)) = Some (FfiApprovalRequired (u i) summary)"
| "map_event u to_str (Inr (TurnFinished reason)) = Some (FfiTurnFinished (show_finish_reason reason))"
| "map_event u to_str (Inr (ErrorEv message)) = Some (FfiError message)"
| "map_event u to_str (Inr (ModeHandoff a b)) = None"

section \<open>The queue of a turn\<close>

record turn_queue =
  tq_events :: "agent_event_ffi list"
  tq_finished :: bool

datatype poll_phase = PollIdle | PollLooking nat | PollAwaiting nat | PollParked nat

text \<open>\<open>tl_notify_due\<close>: the task has pushed or finished and not yet notified. The last two fields are
  the history: what was pushed, and each batch returned with its limit.\<close>

record turn_link =
  tl_queue :: turn_queue
  tl_permit :: bool
  tl_notify_due :: bool
  tl_poll :: poll_phase
  tl_pushed :: "agent_event_ffi list"
  tl_batches :: "(nat \<times> agent_event_ffi list) list"

definition turn_queue_new :: turn_link where
  "turn_queue_new =
     \<lparr>tl_queue = \<lparr>tq_events = [], tq_finished = False\<rparr>, tl_permit = False, tl_notify_due = False,
      tl_poll = PollIdle, tl_pushed = [], tl_batches = []\<rparr>"

definition queue_push :: "agent_event_ffi \<Rightarrow> turn_link \<Rightarrow> turn_link" where
  "queue_push e q =
     q\<lparr>tl_queue := (tl_queue q)\<lparr>tq_events := tq_events (tl_queue q) @ [e]\<rparr>, tl_notify_due := True,
       tl_pushed := tl_pushed q @ [e]\<rparr>"

definition queue_finish :: "turn_link \<Rightarrow> turn_link" where
  "queue_finish q = q\<lparr>tl_queue := (tl_queue q)\<lparr>tq_finished := True\<rparr>, tl_notify_due := True\<rparr>"

definition notify_one :: "turn_link \<Rightarrow> turn_link" where
  "notify_one q =
     (case tl_poll q of
        PollParked m \<Rightarrow> q\<lparr>tl_notify_due := False, tl_poll := PollLooking m\<rparr>
      | _ \<Rightarrow> q\<lparr>tl_notify_due := False, tl_permit := True\<rparr>)"

definition poll_limit :: "u32 \<Rightarrow> nat" where
  "poll_limit max_events = unat (max max_events 1)"

text \<open>The body of the loop of \<open>next_batch\<close>, under the lock.\<close>

definition next_batch_look :: "nat \<Rightarrow> turn_link \<Rightarrow> turn_link" where
  "next_batch_look m q =
     (let events = tq_events (tl_queue q)
      in if events \<noteq> []
         then let n = min (length events) m
              in q\<lparr>tl_queue := (tl_queue q)\<lparr>tq_events := drop n events\<rparr>, tl_poll := PollIdle,
                   tl_batches := tl_batches q @ [(m, take n events)]\<rparr>
         else if tq_finished (tl_queue q)
         then q\<lparr>tl_poll := PollIdle, tl_batches := tl_batches q @ [(m, [])]\<rparr>
         else q\<lparr>tl_poll := PollAwaiting m\<rparr>)"

definition next_batch_await :: "nat \<Rightarrow> turn_link \<Rightarrow> turn_link" where
  "next_batch_await m q =
     (if tl_permit q then q\<lparr>tl_permit := False, tl_poll := PollLooking m\<rparr> else q\<lparr>tl_poll := PollParked m\<rparr>)"

datatype queue_step = PushEvent agent_event_ffi | FinishTurn | NotifyOne | PollBatch u32 | LookStep | AwaitStep

text \<open>A step, \<open>None\<close> when it cannot be taken. The task notifies before it goes on, and ends with
  \<open>finish\<close>.\<close>

definition queue_exec :: "queue_step \<Rightarrow> turn_link \<Rightarrow> turn_link option" where
  "queue_exec s q =
     (case s of
        PushEvent e \<Rightarrow> if tl_notify_due q \<or> tq_finished (tl_queue q) then None else Some (queue_push e q)
      | FinishTurn \<Rightarrow> if tl_notify_due q \<or> tq_finished (tl_queue q) then None else Some (queue_finish q)
      | NotifyOne \<Rightarrow> if tl_notify_due q then Some (notify_one q) else None
      | PollBatch n \<Rightarrow> if tl_poll q = PollIdle then Some (q\<lparr>tl_poll := PollLooking (poll_limit n)\<rparr>) else None
      | LookStep \<Rightarrow> (case tl_poll q of PollLooking m \<Rightarrow> Some (next_batch_look m q) | _ \<Rightarrow> None)
      | AwaitStep \<Rightarrow> (case tl_poll q of PollAwaiting m \<Rightarrow> Some (next_batch_await m q) | _ \<Rightarrow> None))"

fun queue_run :: "queue_step list \<Rightarrow> turn_link \<Rightarrow> turn_link option" where
  "queue_run [] q = Some q"
| "queue_run (s # ss) q = Option.bind (queue_exec s q) (queue_run ss)"

section \<open>Calls on turns\<close>

text \<open>The task of \<open>start_turn\<close>: what it pushes for the outcome of \<open>run_turn\<close>, and whether it reaches
  \<open>finish\<close>. A turn that stays parked keeps its stream open.\<close>

definition turn_task ::
  "(uuid \<Rightarrow> string) \<Rightarrow> (json \<Rightarrow> string) \<Rightarrow> contract_error + (unit step \<times> 'w turn) \<Rightarrow> agent_event_ffi list \<times> bool" where
  "turn_task u to_str outcome =
     (case outcome of
        Inl e \<Rightarrow> ([FfiError (show_error u e)], True)
      | Inr (r, t) \<Rightarrow> (List.map_filter (\<lambda>ev. map_event u to_str (Inr ev)) (emitted (tn_log t)), r \<noteq> Parked))"

text \<open>The steps of a task that ends.\<close>

definition task_steps :: "agent_event_ffi list \<Rightarrow> queue_step list" where
  "task_steps es = concat (map (\<lambda>e. [PushEvent e, NotifyOne]) es) @ [FinishTurn, NotifyOne]"

text \<open>\<open>start_turn\<close> and \<open>send\<close> after the identifier was parsed; \<open>None\<close> while the turn is parked.\<close>

definition start_turn ::
  "(json \<Rightarrow> string) \<Rightarrow> (string \<Rightarrow> string + uuid) \<Rightarrow> 'w seams \<Rightarrow> engine \<Rightarrow> string \<Rightarrow> string \<Rightarrow> bool \<Rightarrow> surface_action list list \<Rightarrow> 'w \<Rightarrow>
     (string + agent_event_ffi list \<times> bool) \<times> 'w" where
  "start_turn to_str parse_uuid S e conversation_id user_text cancelled surface w =
     (case parse_uuid conversation_id of
        Inl err \<Rightarrow> (Inl err, w)
      | Inr conv \<Rightarrow>
          (case run_turn S e conv user_text cancelled surface w of
             (outcome, w') \<Rightarrow> (Inr (turn_task (sm_show_uuid S) to_str outcome), w')))"

definition reply_text :: "agent_event list \<Rightarrow> string" where
  "reply_text evs = concat (List.map_filter (\<lambda>ev. case ev of TextDelta t \<Rightarrow> Some t | _ \<Rightarrow> None) evs)"

definition send ::
  "(string \<Rightarrow> string + uuid) \<Rightarrow> 'w seams \<Rightarrow> engine \<Rightarrow> string \<Rightarrow> string \<Rightarrow> surface_action list list \<Rightarrow> 'w \<Rightarrow>
     (string + string) option \<times> 'w" where
  "send parse_uuid S e conversation_id user_text surface w =
     (case parse_uuid conversation_id of
        Inl err \<Rightarrow> (Some (Inl err), w)
      | Inr conv \<Rightarrow>
          (case run_turn S e conv user_text False surface w of
             (Inl err, w') \<Rightarrow> (Some (Inl (show_error (sm_show_uuid S) err)), w')
           | (Inr (r, t), w') \<Rightarrow>
               (if r = Parked then None else Some (Inr (reply_text (emitted (tn_log t)))), w')))"

section \<open>Summaries\<close>

record conversation_summary =
  cs_id :: string
  cs_title :: string
  cs_mode :: string

record message_summary =
  ms_id :: string
  ms_role :: string
  ms_text :: string
  ms_sequence_num :: int

definition summarize_conversation :: "(uuid \<Rightarrow> string) \<Rightarrow> conversation \<Rightarrow> conversation_summary" where
  "summarize_conversation u c =
     \<lparr>cs_id = u (conv_id c), cs_title = unwrap_or ''New conversation'' (conv_title c),
      cs_mode = show_mode (conv_mode_at_creation c)\<rparr>"

definition ffi_list_conversations :: "'w seams \<Rightarrow> 'w \<Rightarrow> (string + conversation_summary list) \<times> 'w" where
  "ffi_list_conversations S w =
     (case list_conversations S 50 w of
        (Inl e, w') \<Rightarrow> (Inl (show_error (sm_show_uuid S) e), w')
      | (Inr convs, w') \<Rightarrow> (Inr (map (summarize_conversation (sm_show_uuid S)) convs), w'))"

text \<open>The debug form of a role, in lower case.\<close>

fun role_name :: "message_role \<Rightarrow> string" where
  "role_name User = ''user''"
| "role_name Assistant = ''assistant''"
| "role_name Tool = ''tool''"
| "role_name System = ''system''"

definition summarize_message :: "(uuid \<Rightarrow> string) \<Rightarrow> message \<Rightarrow> message_summary" where
  "summarize_message u m =
     \<lparr>ms_id = u (msg_id m), ms_role = role_name (msg_role m), ms_text = text_content m,
      ms_sequence_num = msg_sequence_num m\<rparr>"

definition ffi_history ::
  "(string \<Rightarrow> string + uuid) \<Rightarrow> 'w seams \<Rightarrow> string \<Rightarrow> 'w \<Rightarrow> (string + message_summary list) \<times> 'w" where
  "ffi_history parse_uuid S conversation_id w =
     (case parse_uuid conversation_id of
        Inl err \<Rightarrow> (Inl err, w)
      | Inr conv \<Rightarrow>
          (case history S conv w of
             (Inl e, w') \<Rightarrow> (Inl (show_error (sm_show_uuid S) e), w')
           | (Inr msgs, w') \<Rightarrow> (Inr (map (summarize_message (sm_show_uuid S)) msgs), w')))"

section \<open>Laws of the queue\<close>

lemmas queue_defs = queue_push_def queue_finish_def notify_one_def next_batch_look_def next_batch_await_def

text \<open>There is something to return: an event, or the end of the turn.\<close>

definition due_to_poll :: "turn_link \<Rightarrow> bool" where
  "due_to_poll q \<longleftrightarrow> tq_events (tl_queue q) \<noteq> [] \<or> tq_finished (tl_queue q)"

text \<open>What holds between any two steps. A poll that waits while there is something to return has a
  permit or a notification on its way.\<close>

definition link_ok :: "turn_link \<Rightarrow> bool" where
  "link_ok q \<longleftrightarrow>
     concat (map snd (tl_batches q)) @ tq_events (tl_queue q) = tl_pushed q \<and>
     (\<forall>(m, b) \<in> set (tl_batches q). length b \<le> m \<and> (b = [] \<longrightarrow> tq_finished (tl_queue q) \<and> tq_events (tl_queue q) = [])) \<and>
     (case tl_poll q of
        PollIdle \<Rightarrow> True
      | PollLooking m \<Rightarrow> 0 < m
      | PollAwaiting m \<Rightarrow> 0 < m \<and> (due_to_poll q \<longrightarrow> tl_permit q \<or> tl_notify_due q)
      | PollParked m \<Rightarrow> 0 < m \<and> \<not> tl_permit q \<and> (due_to_poll q \<longrightarrow> tl_notify_due q))"

lemma link_ok_new: "link_ok turn_queue_new"
  by (simp add: link_ok_def turn_queue_new_def)

lemma poll_limit_pos: "0 < poll_limit n"
proof -
  have "1 \<le> max n (1 :: u32)" by simp
  then show ?thesis unfolding poll_limit_def word_le_nat_alt by simp
qed

lemma look_ok: "link_ok q \<Longrightarrow> tl_poll q = PollLooking m \<Longrightarrow> link_ok (next_batch_look m q)"
  by (auto simp: link_ok_def next_batch_look_def Let_def due_to_poll_def min_def split: if_splits)

lemma queue_exec_ok:
  assumes "link_ok q" and "queue_exec s q = Some q'"
  shows "link_ok q'"
proof (cases s)
  case LookStep
  with assms show ?thesis by (auto simp: queue_exec_def look_ok split: poll_phase.splits)
next
  case (PollBatch n)
  with assms poll_limit_pos [of n] show ?thesis by (auto simp: queue_exec_def link_ok_def split: if_splits)
next
  case (PushEvent e)
  with assms(2) have "\<not> tq_finished (tl_queue q)" "q' = queue_push e q"
    by (simp_all add: queue_exec_def split: if_splits)
  with assms(1) show ?thesis
    by (cases "tl_poll q") (auto simp: link_ok_def queue_push_def due_to_poll_def)
next
  case FinishTurn
  with assms(2) have "q' = queue_finish q" by (simp add: queue_exec_def split: if_splits)
  with assms(1) show ?thesis
    by (cases "tl_poll q") (auto simp: link_ok_def queue_finish_def due_to_poll_def)
next
  case NotifyOne
  with assms(2) have "q' = notify_one q" by (simp add: queue_exec_def split: if_splits)
  with assms(1) show ?thesis
    by (cases "tl_poll q") (auto simp: link_ok_def notify_one_def due_to_poll_def)
next
  case AwaitStep
  with assms(2) obtain m where "tl_poll q = PollAwaiting m" "q' = next_batch_await m q"
    by (auto simp: queue_exec_def split: poll_phase.splits)
  with assms(1) show ?thesis
    by (auto simp: link_ok_def next_batch_await_def due_to_poll_def)
qed

lemma queue_run_ok: "link_ok q \<Longrightarrow> queue_run ss q = Some q' \<Longrightarrow> link_ok q'"
  by (induction ss arbitrary: q) (auto split: Option.bind_splits dest: queue_exec_ok)

text \<open>The steps that serve a poll, and how many of them are left.\<close>

definition serving :: "queue_step set" where
  "serving = {NotifyOne, LookStep, AwaitStep}"

definition poll_rank :: "turn_link \<Rightarrow> nat" where
  "poll_rank q =
     (if tl_notify_due q then 1 else 0) +
     (case tl_poll q of PollIdle \<Rightarrow> 0 | PollLooking m \<Rightarrow> 1 | PollAwaiting m \<Rightarrow> 2 | PollParked m \<Rightarrow> 1)"

text \<open>Polls that have returned, and the one that is still running.\<close>

definition polls :: "turn_link \<Rightarrow> nat" where
  "polls q = length (tl_batches q) + (if tl_poll q = PollIdle then 0 else 1)"

lemma serving_step:
  assumes "s \<in> serving" and "queue_exec s q = Some q'" and "due_to_poll q \<or> tl_poll q = PollIdle"
  shows "poll_rank q' < poll_rank q \<and> (due_to_poll q' \<or> tl_poll q' = PollIdle) \<and> polls q' = polls q"
  using assms
  by (auto simp: serving_def queue_exec_def queue_defs poll_rank_def polls_def due_to_poll_def Let_def
      split: if_splits poll_phase.splits)

lemma serving_run:
  "set ss \<subseteq> serving \<Longrightarrow> queue_run ss q = Some q' \<Longrightarrow> due_to_poll q \<or> tl_poll q = PollIdle \<Longrightarrow>
    length ss + poll_rank q' \<le> poll_rank q \<and> (due_to_poll q' \<or> tl_poll q' = PollIdle) \<and> polls q' = polls q"
proof (induction ss arbitrary: q)
  case (Cons s ss)
  then obtain q1 where q1: "queue_exec s q = Some q1" "queue_run ss q1 = Some q'"
    by (auto split: Option.bind_splits)
  from Cons.prems(1) have "s \<in> serving" "set ss \<subseteq> serving" by simp_all
  with serving_step [OF _ q1(1) Cons.prems(3)] Cons.IH [OF _ q1(2)] show ?case by fastforce
qed simp

lemma serving_enabled:
  assumes "link_ok q" and "due_to_poll q" and "tl_poll q \<noteq> PollIdle"
  shows "\<exists>s\<in>serving. queue_exec s q \<noteq> None"
  using assms by (auto simp: serving_def queue_exec_def link_ok_def split: poll_phase.splits)

fun pushed_by :: "queue_step \<Rightarrow> agent_event_ffi list" where
  "pushed_by (PushEvent e) = [e]"
| "pushed_by _ = []"

lemma queue_run_pushed:
  "queue_run ss q = Some q' \<Longrightarrow> tl_pushed q' = tl_pushed q @ concat (map pushed_by ss)"
proof (induction ss arbitrary: q)
  case (Cons s ss)
  then obtain q1 where q1: "queue_exec s q = Some q1" "queue_run ss q1 = Some q'"
    by (auto split: Option.bind_splits)
  have "tl_pushed q1 = tl_pushed q @ pushed_by s"
    using q1(1) by (auto simp: queue_exec_def queue_defs Let_def split: queue_step.splits if_splits poll_phase.splits)
  with Cons.IH [OF q1(2)] show ?case by simp
qed simp

definition of_task :: "queue_step \<Rightarrow> bool" where
  "of_task s = (case s of PushEvent e \<Rightarrow> True | FinishTurn \<Rightarrow> True | NotifyOne \<Rightarrow> True | _ \<Rightarrow> False)"

lemma pushed_task: "concat (map pushed_by (filter of_task ss)) = concat (map pushed_by ss)"
  by (induction ss) (auto simp: of_task_def split: queue_step.splits)

lemma pushed_task_steps: "concat (map pushed_by (task_steps es)) = es"
proof -
  have "concat (map pushed_by (concat (map (\<lambda>e. [PushEvent e, NotifyOne]) es))) = es"
    by (induction es) simp_all
  then show ?thesis by (simp add: task_steps_def)
qed

section \<open>Properties\<close>

text \<open>C12: nothing is lost or reordered between a turn and the app. In every interleaving of the task and
  the polls, the batches returned so far followed by what is queued are exactly what was pushed, in
  order; a batch never exceeds its limit; and an empty batch was returned only once the turn had
  finished and everything was delivered.\<close>

theorem turn_queue_delivers:
  assumes "queue_run ss turn_queue_new = Some q"
  shows "concat (map snd (tl_batches q)) @ tq_events (tl_queue q) = tl_pushed q \<and>
    (\<forall>(m, b) \<in> set (tl_batches q). length b \<le> m) \<and>
    ((\<exists>m. (m, []) \<in> set (tl_batches q)) \<longrightarrow>
       tq_finished (tl_queue q) \<and> concat (map snd (tl_batches q)) = tl_pushed q)"
proof -
  have "link_ok q" by (rule queue_run_ok [OF link_ok_new assms])
  then show ?thesis by (fastforce simp: link_ok_def)
qed

definition demo_polls :: "queue_step list" where
  "demo_polls = [PollBatch 0, LookStep, PushEvent (FfiTextDelta ''hi''), NotifyOne, AwaitStep, LookStep,
     FinishTurn, NotifyOne, PollBatch 8, LookStep]"

lemma demo_polls_run:
  "queue_run demo_polls turn_queue_new = Some
     \<lparr>tl_queue = \<lparr>tq_events = [], tq_finished = True\<rparr>, tl_permit = True, tl_notify_due = False, tl_poll = PollIdle,
      tl_pushed = [FfiTextDelta ''hi''], tl_batches = [(1, [FfiTextDelta ''hi'']), (8, [])]\<rparr>"
  by (simp add: demo_polls_def turn_queue_new_def queue_exec_def queue_defs poll_limit_def Let_def)

theorem turn_queue_delivers_witness:
  "\<exists>q. queue_run demo_polls turn_queue_new = Some q \<and> concat (map snd (tl_batches q)) = [FfiTextDelta ''hi''] \<and>
    tq_finished (tl_queue q)"
  using turn_queue_delivers [OF demo_polls_run] demo_polls_run by simp

text \<open>C13: no wake-up is lost. In every state that the task and the polls can reach in which an event is
  queued or the turn has finished, whatever order the notification and the steps of the running poll
  are taken in: at most three of them can be taken, one can be taken as long as the poll has not
  returned, and when none is left the poll has returned one batch.\<close>

theorem turn_queue_poll_returns:
  assumes "queue_run ss turn_queue_new = Some q" and "tq_events (tl_queue q) \<noteq> [] \<or> tq_finished (tl_queue q)"
    and "set ss' \<subseteq> {NotifyOne, LookStep, AwaitStep}" and "queue_run ss' q = Some q'"
  shows "length ss' \<le> 3 \<and>
    ((\<exists>s \<in> {NotifyOne, LookStep, AwaitStep}. queue_exec s q' \<noteq> None) \<or>
     tl_poll q' = PollIdle \<and>
     length (tl_batches q') = length (tl_batches q) + (if tl_poll q = PollIdle then 0 else 1))"
proof -
  have due: "due_to_poll q \<or> tl_poll q = PollIdle" using assms(2) by (simp add: due_to_poll_def)
  note r = serving_run [OF assms(3) [folded serving_def] assms(4) due]
  have "poll_rank q \<le> 3" by (simp add: poll_rank_def split: poll_phase.splits)
  with r have len: "length ss' \<le> 3" by linarith
  have ok: "link_ok q'" by (rule queue_run_ok [OF queue_run_ok [OF link_ok_new assms(1)] assms(4)])
  show ?thesis
  proof (cases "tl_poll q' = PollIdle")
    case True
    with r have "length (tl_batches q') = length (tl_batches q) + (if tl_poll q = PollIdle then 0 else 1)"
      by (simp add: polls_def)
    with True len show ?thesis by simp
  next
    case False
    with r have "due_to_poll q'" by simp
    with serving_enabled [OF ok _ False] len show ?thesis by (simp add: serving_def)
  qed
qed

theorem turn_queue_poll_returns_witness:
  "\<exists>q q'. queue_run [PollBatch 1, LookStep, AwaitStep, FinishTurn] turn_queue_new = Some q \<and>
    queue_run [NotifyOne, LookStep] q = Some q' \<and> tl_poll q = PollParked 1 \<and> tl_poll q' = PollIdle \<and>
    length (tl_batches q') = length (tl_batches q) + 1"
proof -
  obtain q where q: "queue_run [PollBatch 1, LookStep, AwaitStep, FinishTurn] turn_queue_new = Some q"
    "tl_poll q = PollParked 1" "tq_finished (tl_queue q)" "tl_notify_due q" "tq_events (tl_queue q) = []"
    by (simp add: turn_queue_new_def queue_exec_def queue_defs poll_limit_def)
  obtain q' where q': "queue_run [NotifyOne, LookStep] q = Some q'" "tl_poll q' = PollIdle" "\<not> tl_notify_due q'"
    using q by (simp add: queue_exec_def queue_defs Let_def)
  from turn_queue_poll_returns [OF q(1) _ _ q'(1)] q q' show ?thesis
    by (auto simp: queue_exec_def)
qed

text \<open>The task pushes the events of the turn.\<close>

lemma map_filter_events:
  "List.map_filter (\<lambda>ev. map_event u to_str (Inr ev)) (TurnStarted c i m # evs @ [TurnFinished reason]) =
    FfiTurnStarted (u c) (u i) # List.map_filter (\<lambda>ev. map_event u to_str (Inr ev)) evs @ [FfiTurnFinished (show_finish_reason reason)]"
  by (simp add: List.map_filter_def)

fun ffi_lifecycle :: "agent_event_ffi \<Rightarrow> bool" where
  "ffi_lifecycle (FfiTurnStarted c m) = True"
| "ffi_lifecycle (FfiTurnFinished reason) = True"
| "ffi_lifecycle _ = False"

lemma map_event_lifecycle:
  assumes "map_event u to_str (Inr ev) = Some f"
  shows "ffi_lifecycle f \<longleftrightarrow> lifecycle ev"
proof (cases ev)
  case (ToolEv te)
  with assms show ?thesis by (cases te) auto
qed (use assms in auto)

text \<open>C11: the app sees a turn whole. The app starts a turn on a conversation, the store files every
  conversation under its own id, the turn is not left waiting for an approval, and its task runs
  beside the app's polls, in any interleaving, until a poll returns an empty batch. Then either the
  turn could not begin, and the polls returned its error and nothing else; or they returned the
  started event with the id of that conversation and of the message that was saved in it with the
  user's text, the turn's other events in order, and its finished event with the reason: each
  exactly once, with nothing missing but handoffs.\<close>

theorem app_sees_whole_turn:
  assumes "registry_ok (en_approvals e)" and "parse_uuid conversation_id = Inr cid"
    and "\<forall>conv w1. get_conversation S cid w = (Inr conv, w1) \<longrightarrow> conv_id conv = cid"
    and "start_turn to_str parse_uuid S e conversation_id user_text c surface w = (Inr (es, True), w')"
    and "queue_run ss turn_queue_new = Some q" and "filter of_task ss = task_steps es"
    and "(m, []) \<in> set (tl_batches q)"
  shows "(\<exists>er. fst (run_turn S e cid user_text c surface w) = Inl er \<and>
      concat (map snd (tl_batches q)) = [FfiError (show_error (sm_show_uuid S) er)]) \<or>
    (\<exists>r t msg mode evs reason. fst (run_turn S e cid user_text c surface w) = Inr (r, t) \<and>
      hd (tn_log t) = Appended msg \<and> msg_role msg = User \<and> msg_conversation_id msg = cid \<and> text_content msg = user_text \<and>
      emitted (tn_log t) = TurnStarted cid (msg_id msg) mode # evs @ [TurnFinished reason] \<and>
      concat (map snd (tl_batches q)) =
        FfiTurnStarted (sm_show_uuid S cid) (sm_show_uuid S (msg_id msg)) #
        List.map_filter (\<lambda>ev. map_event (sm_show_uuid S) to_str (Inr ev)) evs @ [FfiTurnFinished (show_finish_reason reason)] \<and>
      length (filter ffi_lifecycle (concat (map snd (tl_batches q)))) = 2)"
proof -
  let ?f = "\<lambda>ev. map_event (sm_show_uuid S) to_str (Inr ev)"
  obtain outcome w1 where run: "run_turn S e cid user_text c surface w = (outcome, w1)"
    by fastforce
  then have task: "turn_task (sm_show_uuid S) to_str outcome = (es, True)"
    using assms(2,4) by (simp add: start_turn_def)
  have "link_ok q" by (rule queue_run_ok [OF link_ok_new assms(5)])
  with assms(7) have "concat (map snd (tl_batches q)) = tl_pushed q" by (auto simp: link_ok_def)
  also have "\<dots> = concat (map pushed_by ss)"
    using queue_run_pushed [OF assms(5)] by (simp add: turn_queue_new_def)
  also have "\<dots> = es"
    using pushed_task [of ss] by (simp add: assms(6) pushed_task_steps)
  finally have got: "concat (map snd (tl_batches q)) = es" .
  show ?thesis
  proof (cases outcome)
    case (Inl er)
    with task run got show ?thesis by (simp add: turn_task_def)
  next
    case (Inr p)
    obtain r t where p: "p = (r, t)" by (cases p)
    with Inr task have es: "es = List.map_filter ?f (emitted (tn_log t))" and r: "r \<noteq> Parked"
      by (simp_all add: turn_task_def)
    from turn_framed [OF assms(1) run [unfolded Inr p]] r obtain conv w0 msg evs reason where
      conv: "get_conversation S cid w = (Inr conv, w0)" and
      ev: "emitted (tn_log t) = TurnStarted (conv_id conv) (msg_id msg) (conv_mode_at_creation conv) # evs @ [TurnFinished reason]"
      and msg: "hd (tn_log t) = Appended msg" "msg_role msg = User" "msg_conversation_id msg = cid" "text_content msg = user_text"
      and inner: "\<forall>ev \<in> set evs. \<not> lifecycle ev"
      by blast
    have ev': "emitted (tn_log t) = TurnStarted cid (msg_id msg) (conv_mode_at_creation conv) # evs @ [TurnFinished reason]"
      using ev assms(3) conv by simp
    have all: "es = FfiTurnStarted (sm_show_uuid S cid) (sm_show_uuid S (msg_id msg)) #
        List.map_filter ?f evs @ [FfiTurnFinished (show_finish_reason reason)]"
      by (simp only: es ev' map_filter_events)
    have "\<not> ffi_lifecycle f" if "f \<in> set (List.map_filter ?f evs)" for f
      using that inner map_event_lifecycle by (fastforce simp: List.map_filter_def)
    then have "filter ffi_lifecycle (List.map_filter ?f evs) = []" by (simp add: filter_empty_conv)
    then have "length (filter ffi_lifecycle es) = 2" by (simp add: all)
    with run Inr p msg ev' all show ?thesis
      unfolding got
      by (intro disjI2 exI [of _ r] exI [of _ t] exI [of _ msg] exI [of _ "conv_mode_at_creation conv"]
          exI [of _ evs] exI [of _ reason]) simp
  qed
qed

text \<open>A task that runs before the first poll, and two polls.\<close>

lemma queue_run_append: "queue_run (xs @ ys) q = Option.bind (queue_run xs q) (queue_run ys)"
  by (induction xs arbitrary: q) (auto split: Option.bind_splits)

lemma pushes_run:
  assumes "tl_poll q = PollIdle" and "\<not> tl_notify_due q" and "\<not> tq_finished (tl_queue q)"
  shows "\<exists>q'. queue_run (concat (map (\<lambda>e. [PushEvent e, NotifyOne]) es)) q = Some q' \<and> tl_poll q' = PollIdle \<and>
    \<not> tl_notify_due q' \<and> \<not> tq_finished (tl_queue q') \<and> tq_events (tl_queue q') = tq_events (tl_queue q) @ es \<and>
    tl_batches q' = tl_batches q"
  using assms
proof (induction es arbitrary: q)
  case (Cons e es)
  from Cons.IH [of "notify_one (queue_push e q)"] Cons.prems show ?case
    by (simp add: queue_exec_def notify_one_def queue_push_def)
qed simp

lemma two_polls_run:
  assumes "length es \<le> poll_limit n" and "es \<noteq> []"
  shows "\<exists>q. queue_run (task_steps es @ [PollBatch n, LookStep, PollBatch n, LookStep]) turn_queue_new = Some q \<and>
    tl_batches q = [(poll_limit n, es), (poll_limit n, [])]"
proof -
  from pushes_run [of turn_queue_new es] obtain q where
    "queue_run (concat (map (\<lambda>e. [PushEvent e, NotifyOne]) es)) turn_queue_new = Some q" "tl_poll q = PollIdle"
    "\<not> tl_notify_due q" "\<not> tq_finished (tl_queue q)" "tq_events (tl_queue q) = es" "tl_batches q = []"
    by (auto simp: turn_queue_new_def)
  with assms show ?thesis
    by (simp add: task_steps_def queue_run_append queue_exec_def queue_defs Let_def min_absorb1)
qed

lemma filter_task_steps: "filter of_task (task_steps es) = task_steps es"
proof -
  have "filter of_task (concat (map (\<lambda>e. [PushEvent e, NotifyOne]) es)) = concat (map (\<lambda>e. [PushEvent e, NotifyOne]) es)"
    by (induction es) (simp_all add: of_task_def)
  then show ?thesis by (simp add: task_steps_def of_task_def)
qed

theorem app_sees_whole_turn_witness:
  "\<exists>es ss q mid evs. start_turn (\<lambda>_. []) (\<lambda>_. Inr 7) demo_seams (engine_new 0) ''7'' ''go'' False
        [[], [], [Resolve 5 True], [Cancel]] 0 = (Inr (es, True), 7) \<and>
      queue_run ss turn_queue_new = Some q \<and> filter of_task ss = task_steps es \<and>
      (poll_limit 8, []) \<in> set (tl_batches q) \<and>
      concat (map snd (tl_batches q)) =
        FfiTurnStarted (sm_show_uuid demo_seams 7) (sm_show_uuid demo_seams mid) # evs @ [FfiTurnFinished ''Cancelled''] \<and>
      length (filter ffi_lifecycle (concat (map snd (tl_batches q)))) = 2"
proof -
  from demo_cancelled_call obtain t m started ds g te m2 ask iv c where
    t: "demo_turn [[], [], [Resolve 5 True], [Cancel]] = (Inr (Done (), t), 7)" and
    l: "tn_log t = [Appended m, Emitted started, Described MacLan ds, Generated g, Emitted te, Appended m2,
        Emitted ask, Answered 5 True] @
       Invoked iv # [CancelRequested, Upserted c, Emitted (TurnFinished FrCancelled)]"
    by blast
  let ?f = "\<lambda>ev. map_event (sm_show_uuid demo_seams) (\<lambda>_. []) (Inr ev)"
  define es where "es = List.map_filter ?f (emitted (tn_log t))"
  have start: "start_turn (\<lambda>_. []) (\<lambda>_. Inr 7) demo_seams (engine_new 0) ''7'' ''go'' False
      [[], [], [Resolve 5 True], [Cancel]] 0 = (Inr (es, True), 7)"
    using t by (simp add: start_turn_def turn_task_def demo_turn_def es_def)
  have own: "\<forall>conv w1. get_conversation demo_seams 7 0 = (Inr conv, w1) \<longrightarrow> conv_id conv = 7"
    by (simp add: get_conversation_def bind_w_def act_ok_def demo_seams_def conversation_new_def)
  have "length es \<le> length (emitted (tn_log t))"
    unfolding es_def List.map_filter_def by simp
  also have "\<dots> = 4" by (simp add: l)
  finally have "length es \<le> poll_limit 8" by (simp add: poll_limit_def)
  moreover have "es \<noteq> []" by (simp add: es_def l List.map_filter_def)
  ultimately obtain q where q: "queue_run (task_steps es @ [PollBatch 8, LookStep, PollBatch 8, LookStep]) turn_queue_new = Some q"
    "(poll_limit 8, []) \<in> set (tl_batches q)"
    using two_polls_run [of es 8] by auto
  have task: "filter of_task (task_steps es @ [PollBatch 8, LookStep, PollBatch 8, LookStep]) = task_steps es"
    by (simp add: filter_task_steps) (simp add: of_task_def)
  have run: "fst (run_turn demo_seams (engine_new 0) 7 ''go'' False [[], [], [Resolve 5 True], [Cancel]] 0) = Inr (Done (), t)"
    using t by (simp add: demo_turn_def)
  from app_sees_whole_turn [OF demo_registry_ok refl own start q(1) task q(2), unfolded run]
  obtain r t' and msg :: message and mode evs reason where eq: "Inr (Done (), t) = (Inr (r, t') :: contract_error + unit step \<times> nat turn)" and
    ev': "emitted (tn_log t') = TurnStarted 7 (msg_id msg) mode # evs @ [TurnFinished reason]" and
    got: "concat (map snd (tl_batches q)) =
        FfiTurnStarted (sm_show_uuid demo_seams 7) (sm_show_uuid demo_seams (msg_id msg)) #
        List.map_filter ?f evs @ [FfiTurnFinished (show_finish_reason reason)]"
      "length (filter ffi_lifecycle (concat (map snd (tl_batches q)))) = 2"
    by (elim disjE exE conjE) (simp, rule that, assumption+)
  from eq ev' have ev: "emitted (tn_log t) = TurnStarted 7 (msg_id msg) mode # evs @ [TurnFinished reason]"
    by simp
  have "last (emitted (tn_log t)) = TurnFinished FrCancelled"
    by (simp add: l)
  then have "reason = FrCancelled"
    by (simp add: ev)
  with start q task got show ?thesis
    by (intro exI [of _ es] exI [of _ "task_steps es @ [PollBatch 8, LookStep, PollBatch 8, LookStep]"] exI [of _ q]
        exI [of _ "msg_id msg"] exI [of _ "List.map_filter ?f evs"]) simp
qed

text \<open>The queue is not bounded: whatever the app does not poll stays queued. And an empty batch is not
  the last word: after the end of a turn every further poll returns one.\<close>

lemma turn_queue_unbounded:
  "\<exists>q. queue_run (concat (map (\<lambda>e. [PushEvent e, NotifyOne]) es)) turn_queue_new = Some q \<and> tq_events (tl_queue q) = es"
  using pushes_run [of turn_queue_new es] by (auto simp: turn_queue_new_def)

lemma empty_batch_repeats:
  assumes "tq_finished (tl_queue q)" and "tq_events (tl_queue q) = []" and "tl_poll q = PollIdle"
  shows "queue_run [PollBatch n, LookStep] q = Some (q\<lparr>tl_batches := tl_batches q @ [(poll_limit n, [])]\<rparr>)"
  using assms by (simp add: queue_exec_def next_batch_look_def)

text \<open>\<open>send\<close> reports no error of the turn itself: once a turn has begun and is not left waiting, the
  call succeeds with the text streamed so far.\<close>

lemma send_hides_turn_errors:
  assumes "parse_uuid conversation_id = Inr conv"
    and "run_turn S e conv user_text False surface w = (Inr (Done x, t), w')"
  shows "send parse_uuid S e conversation_id user_text surface w = (Some (Inr (reply_text (emitted (tn_log t)))), w')"
  using assms by (simp add: send_def)

end
