(* ===== verification/Turn_Mode.thy ===== *)
theory Turn_Mode
  imports Engine_Laws Router
begin

text \<open>
  The mode of a turn. When every stream of the model carries the mode in which the conversation was
  created, the turn never changes it: tools are described and invoked, and messages saved, in that
  mode, and no handoff is announced.
\<close>

section \<open>A steady turn\<close>

definition in_mode :: "compute_mode \<Rightarrow> effect \<Rightarrow> bool" where
  "in_mode m e =
     (case e of
        Emitted ev \<Rightarrow> (case ev of ModeHandoff a b \<Rightarrow> False | TurnStarted c i m' \<Rightarrow> m' = m | _ \<Rightarrow> True)
      | Described m' ds \<Rightarrow> m' = m
      | Invoked iv \<Rightarrow> ti_compute_mode iv = m
      | Appended msg \<Rightarrow> msg_mode msg = m
      | _ \<Rightarrow> True)"

definition steady :: "compute_mode \<Rightarrow> 'w turn \<Rightarrow> bool" where
  "steady m s \<longleftrightarrow> tn_mode s = m \<and> list_all (in_mode m) (tn_log s)"

text \<open>Every stream the model starts carries the mode.\<close>

definition mode_forced :: "compute_mode \<Rightarrow> 'w seams \<Rightarrow> bool" where
  "mode_forced m S \<longleftrightarrow> (\<forall>req w st w'. sm_generate S req w = (Inr st, w') \<longrightarrow> chunk_modes st \<subseteq> {m})"

named_theorems steady_intros \<open>what keeps a turn steady\<close>

lemma steady_simps [simp]:
  "steady m (s\<lparr>tn_world := w\<rparr>) = steady m s"
  "steady m (s\<lparr>tn_surface := q\<rparr>) = steady m s"
  "steady m (s\<lparr>tn_cancelled := b\<rparr>) = steady m s"
  "steady m (s\<lparr>tn_engine := e\<rparr>) = steady m s"
  "steady m (s\<lparr>tn_log := l\<rparr>) \<longleftrightarrow> tn_mode s = m \<and> list_all (in_mode m) l"
  by (simp_all add: steady_def)

lemma steadyD: "steady m s \<Longrightarrow> tn_mode s = m" "steady m s \<Longrightarrow> list_all (in_mode m) (tn_log s)"
  by (simp_all add: steady_def)

text \<open>A value read from a steady turn.\<close>

lemma steady_get:
  assumes "\<And>s. steady m s \<Longrightarrow> pres (steady m) (f (g s))"
  shows "pres (steady m) (bind_t (get_t g) f)"
  using assms by (fastforce simp: pres_def triple_def bind_t_def get_t_def)

lemma steady_log: "in_mode m e \<Longrightarrow> pres (steady m) (log_t e)"
  by (auto simp: pres_def triple_def log_t_def steady_def)

lemma steady_emit:
  "in_mode m (Emitted ev) \<Longrightarrow> pres (steady m) (emit ev)"
  by (simp add: emit_def steady_log)

lemma steady_emits [steady_intros]:
  "pres (steady m) (emit (ToolEv te))" "pres (steady m) (emit (ErrorEv msg))" "pres (steady m) (emit (TextDelta t))"
  "pres (steady m) (emit (ApprovalRequired i t))" "pres (steady m) (emit (TurnFinished reason))"
  by (simp_all add: steady_emit in_mode_def)

lemma steady_call [steady_intros]: "pres (steady m) (call f)" "pres (steady m) (try_call f)"
  by (auto simp: pres_def triple_def call_def try_call_def split: prod.splits sum.splits)

lemma steady_action: "steady m s \<Longrightarrow> steady m (apply_action u a s)"
  by (cases a) (auto simp: apply_action_def Let_def in_mode_def steadyD split: prod.splits)

lemma steady_batch: "steady m s \<Longrightarrow> steady m (apply_batch u b s)"
  unfolding apply_batch_def by (induction b arbitrary: s) (auto simp: steady_action)

lemma steady_poll [steady_intros]: "pres (steady m) (poll S)"
  by (auto simp: pres_def triple_def poll_def Let_def steady_batch split: list.splits)

lemma steady_await: "steady m s \<Longrightarrow> steady m (snd (await_decision u n q s))"
  by (induction u n q s rule: await_decision.induct) (auto simp: Let_def steady_batch split: option.splits)

lemma steady_wait [steady_intros]: "pres (steady m) (\<lambda>s. await_decision u n (tn_surface s) s)"
  unfolding pres_def triple_def
proof (intro allI impI)
  fix s
  assume "steady m s"
  then have "steady m (snd (await_decision u n (tn_surface s) s))" by (rule steady_await)
  then show "case await_decision u n (tn_surface s) s of
      (Done x, s') \<Rightarrow> steady m s' | (Fail e, s') \<Rightarrow> steady m s' | (Parked, s') \<Rightarrow> steady m s'"
    by (auto split: prod.splits step.splits)
qed

lemma steady_registry [steady_intros]:
  "pres (steady m) (register_approval S)" "pres (steady m) (discard_approval i n)"
  unfolding register_approval_def
  by (intro pres_intros steady_intros) (auto simp: pres_def triple_def discard_approval_def split: prod.splits)

lemma steady_upsert [steady_intros]: "pres (steady m) (try_upsert S c)"
  by (auto simp: pres_def triple_def try_upsert_def in_mode_def steadyD split: prod.splits sum.splits)

text \<open>Messages are saved in the mode of the turn.\<close>

lemma steady_append: "msg_mode msg = m \<Longrightarrow> pres (steady m) (append_message S msg)"
  unfolding append_message_def by (intro pres_intros steady_intros steady_log) (simp add: in_mode_def)

lemma new_message_mode: "new_message_text S c r t m q w = (Inr msg, w') \<Longrightarrow> msg_mode msg = m"
  by (auto simp: new_message_text_def bind_w_def draw_w_def act_ok_def message_text_def split: prod.splits)

lemma steady_new_message:
  assumes "\<And>msg. msg_mode msg = m \<Longrightarrow> pres (steady m) (f msg)"
  shows "pres (steady m) (bind_t (call (new_message_text S c r t m q)) f)"
  unfolding pres_def
proof (rule triple_bind)
  show "triple (steady m) (call (new_message_text S c r t m q)) (\<lambda>msg s. steady m s \<and> msg_mode msg = m) (steady m)"
    by (auto simp: triple_def call_def split: prod.splits sum.splits dest: new_message_mode)
qed (rule triple_conj_result, rule pres_triple, rule assms)

lemma steady_text [steady_intros]: "pres (steady m) (persist_assistant_text S t)"
proof -
  have *: "pres (steady m) (bind_t (get_t tn_mode) (\<lambda>mode. bind_t (call (new_message_text S c Assistant t mode q)) (\<lambda>msg.
      bind_t (get_t g) (\<lambda>model. append_message S (msg\<lparr>msg_model_id := Some model\<rparr>)))))" for c q g
    by (rule steady_get, simp only: steadyD(1), rule steady_new_message) (intro pres_intros steady_append, simp)
  show ?thesis
    unfolding persist_assistant_text_def
    by (rule pres_if, rule pres_ret, rule pres_bind [OF pres_get], rule pres_bind [OF steady_call(1)], rule *)
qed

lemma steady_calls [steady_intros]: "pres (steady m) (persist_assistant_tool_calls S t cs th)"
  unfolding persist_assistant_tool_calls_def
  by (intro pres_intros steady_intros steady_get steady_append) (simp add: steadyD)

lemma steady_result [steady_intros]: "pres (steady m) (append_tool_result S i out a)"
  unfolding append_tool_result_def
  by (intro pres_intros steady_intros steady_get steady_append) (simp add: steadyD)

lemma steady_audit [steady_intros]: "pres (steady m) (audit_tool_call S c args outcome a)"
  unfolding audit_tool_call_def Let_def
  by (intro pres_intros steady_intros steady_log) (simp add: in_mode_def)

lemma steady_answer [steady_intros]: "pres (steady m) (audit_and_answer S c args outcome out a)"
  unfolding audit_and_answer_def by (intro pres_intros steady_intros)

lemma steady_touch [steady_intros]: "pres (steady m) (touch_conversation S)"
  unfolding touch_conversation_def by (intro pres_intros steady_intros)

text \<open>Tools are described and invoked in the mode of the turn.\<close>

lemma steady_tool_events [steady_intros]: "pres (steady m) (consume_tool_events S events out)"
  by (induction events arbitrary: out) (auto intro!: pres_intros steady_intros)

lemma steady_invoke [steady_intros]: "pres (steady m) (invoke_tool S mid c args a)"
  unfolding invoke_tool_def Let_def
  by (intro pres_intros steady_intros steady_get steady_log) (auto simp: in_mode_def steadyD)

lemma steady_gate [steady_intros]: "pres (steady m) (approval_gate S d args)"
  unfolding approval_gate_def ask_and_wait_def by (intro pres_intros steady_intros)

lemma steady_tool_call [steady_intros]: "pres (steady m) (execute_tool_call S mid ds c)"
  unfolding execute_tool_call_def Let_def by (intro pres_intros steady_intros)

lemma steady_tool_calls [steady_intros]: "pres (steady m) (run_tool_calls S mid ds cs)"
  by (induction cs) (auto intro!: pres_intros steady_intros split: tool_step_outcome.splits)

lemma steady_describe [steady_intros]: "pres (steady m) (describe_tools S)"
  unfolding describe_tools_def
  by (intro pres_intros steady_intros steady_get steady_log) (simp add: in_mode_def steadyD)

text \<open>A stream in the mode of the turn hands nothing off.\<close>

lemma steady_inference:
  "chunk_modes stream \<subseteq> {m} \<Longrightarrow> pres (steady m) (consume_inference S stream t cs th)"
proof (induction stream arbitrary: t cs th)
  case Nil
  show ?case by (simp add: pres_intros steady_intros)
next
  case (Cons item stream)
  from Cons.prems have m: "\<And>c. item = Inr c \<Longrightarrow> ch_active_mode c = m" and rest: "chunk_modes stream \<subseteq> {m}"
    by (auto simp: chunk_modes_def)
  have "pres (steady m) (handoff c)" if "item = Inr c" for c
    using m [OF that] by (auto simp: handoff_def pres_def triple_def bind_t_def get_t_def ret_def steadyD)
  moreover have "pres (steady m) (text_delta c t)" for c t
    unfolding text_delta_def by (intro pres_intros steady_intros)
  ultimately show ?case
    unfolding consume_inference.simps by (intro pres_intros steady_intros Cons.IH rest) auto
qed

lemma steady_generate:
  assumes "mode_forced m S" and "\<And>st. chunk_modes st \<subseteq> {m} \<Longrightarrow> pres (steady m) (f st)"
  shows "pres (steady m) (bind_t (generate_t S req) f)"
  unfolding pres_def
proof (rule triple_bind)
  show "triple (steady m) (generate_t S req) (\<lambda>st s. steady m s \<and> chunk_modes st \<subseteq> {m}) (steady m)"
    unfolding generate_t_def
    by (rule triple_bind [OF pres_triple [OF steady_log]])
      (use assms(1) in \<open>auto simp: in_mode_def triple_def call_def mode_forced_def split: prod.splits sum.splits\<close>)
qed (rule triple_conj_result, rule pres_triple, rule assms(2))

lemma steady_round [steady_intros]:
  "pres (steady m) (case outcome of
      RoundCancelled \<Rightarrow> bind_t (persist_assistant_text S segment) (\<lambda>_. ret (Some FrCancelled))
    | RoundFinished reason \<Rightarrow> bind_t (persist_assistant_text S segment) (\<lambda>_. ret (Some reason))
    | RoundToolCalls calls thinking \<Rightarrow>
        bind_t (persist_assistant_tool_calls S segment calls thinking) (\<lambda>mid. run_tool_calls S mid ds calls))"
  by (cases outcome) (auto intro!: pres_intros steady_intros)

lemma steady_drive_step: "mode_forced m S \<Longrightarrow> pres (steady m) (drive_step S)"
  unfolding drive_step_def
  by (intro pres_bind [OF steady_describe] pres_bind [OF pres_get] pres_bind [OF steady_call(1)] steady_generate
      pres_bind [OF steady_inference] pres_prod steady_round)

lemma steady_drive: "mode_forced m S \<Longrightarrow> pres (steady m) (drive_loop S n)"
  by (induction n) (simp_all add: pres_intros steady_intros steady_drive_step)

lemma steady_catch: "pres I f \<Longrightarrow> (\<And>e. pres I (h e)) \<Longrightarrow> pres I (catch_t f h)"
  unfolding pres_def triple_def
proof (intro allI impI)
  fix s
  assume f: "\<forall>s. I s \<longrightarrow> (case f s of (Done x, s') \<Rightarrow> I s' | (Fail e, s') \<Rightarrow> I s' | (Parked, s') \<Rightarrow> I s')"
    and h: "\<And>e. \<forall>s. I s \<longrightarrow> (case h e s of (Done x, s') \<Rightarrow> I s' | (Fail e, s') \<Rightarrow> I s' | (Parked, s') \<Rightarrow> I s')"
    and "I s"
  obtain r s1 where r: "f s = (r, s1)" by fastforce
  with f \<open>I s\<close> have "I s1" by (cases r) (auto dest!: spec [of _ s])
  with r h show "case catch_t f h s of (Done x, s') \<Rightarrow> I s' | (Fail e, s') \<Rightarrow> I s' | (Parked, s') \<Rightarrow> I s'"
    by (cases r) (simp_all add: catch_t_def)
qed

lemma steady_run: "mode_forced m S \<Longrightarrow> pres (steady m) (run S)"
  unfolding run_def drive_def
  by (intro pres_intros steady_intros steady_get steady_catch steady_drive steady_emit) (auto simp: in_mode_def steadyD)

lemma auto_title_log: "auto_title S conv txt w = (Inr (conv', l), w') \<Longrightarrow> list_all (in_mode m) l"
  by (auto simp: auto_title_def bind_w_Inr act_ok_def in_mode_def Let_def split: if_splits)

lemma run_turn_starts:
  assumes "run_turn S e cid txt c tape w = (Inr (r, t), w')"
  shows "\<exists>s conv w1. (r, t) = run S s \<and> get_conversation S cid w = (Inr conv, w1) \<and> steady (conv_mode_at_creation conv) s"
proof -
  from assms obtain conv w1 sq m conv' l trace w2 w3 w4 w5 w6 where
    conv: "get_conversation S cid w = (Inr conv, w1)" and
    m: "new_message_text S cid User txt (conv_mode_at_creation conv) sq w2 = (Inr m, w3)" and
    l: "auto_title S conv txt w4 = (Inr (conv', l), w5)" and
    t: "run S \<lparr>tn_world = w6, tn_engine = e, tn_conversation = conv',
             tn_user_text = txt, tn_user_message_id = msg_id m,
             tn_mode = conv_mode_at_creation conv, tn_trace_id = trace,
             tn_cancelled = c, tn_surface = tape, tn_log = Appended m # l\<rparr> = (r, t)"
    unfolding run_turn_def bind_w_Inr split_paired_Ex prod.case Let_def prod.inject sum.inject
    by (elim exE conjE) (rule that, assumption, assumption, assumption, simp)
  show ?thesis
    by (rule exI, rule exI, rule exI, rule conjI, rule t [symmetric], rule conjI, rule conv)
      (use new_message_mode [OF m] auto_title_log [OF l] in \<open>simp add: steady_def in_mode_def\<close>)
qed

text \<open>The mode of a whole turn.\<close>

lemma turn_steady:
  assumes "mode_forced m S" and "run_turn S e cid txt c tape w = (Inr (r, t), w')"
    and "get_conversation S cid w = (Inr conv, w1)" and "conv_mode_at_creation conv = m"
  shows "steady m t"
proof -
  from run_turn_starts [OF assms(2)] assms(3,4) obtain s where "(r, t) = run S s" "steady m s"
    by auto
  with pres_run [OF steady_run [OF assms(1)], of s] show ?thesis by (metis snd_conv)
qed

end
