(* ===== verification/Ffi_Handle.thy ===== *)
theory Ffi_Handle
  imports Ffi_Turn Turn_Mode Local_Runtime Computer_Use
begin

text \<open>
  The handle the app holds, the second half of \<open>crates/mahi-ffi/src/lib.rs\<close>: the swappable provider
  (\<open>SwappableProvider\<close>, \<open>PlaceholderProvider\<close>), the bridge to the host's computer-use surface
  (\<open>HostComputerController\<close>), and \<open>MahiEngineHandle\<close> with its models, downloads, hosted
  configuration and status.

  The calls that change the model in use and the task that \<open>activate_model\<close> spawns are lists of
  updates, one for each lock that the code takes; the calls as functions run their updates without
  interruption. The machine of the last part interleaves the updates of calls and tasks in any order
  that the lock of the local slot allows.
\<close>

section \<open>The MCP configuration file\<close>

definition default_mcp_config_path :: "(string \<Rightarrow> string option) \<Rightarrow> (string \<Rightarrow> bool) \<Rightarrow> string option" where
  "default_mcp_config_path env is_file =
     (case (case env ''MAHI_MCP_CONFIG'' of Some explicit \<Rightarrow> if str_trim explicit \<noteq> [] then Some explicit else None
            | None \<Rightarrow> None) of
        Some explicit \<Rightarrow> Some explicit
      | None \<Rightarrow>
          (case env ''HOME'' of
             None \<Rightarrow> None
           | Some home \<Rightarrow>
               find is_file
                 [home @ ''/Library/Application Support/Claude/claude_desktop_config.json'',
                  home @ ''/.claude/claude.json'',
                  home @ ''/.config/mahi/mcp_servers.json'']))"

section \<open>The swappable provider\<close>

datatype model_provider =
    PlaceholderProvider
  | LocalProvider local_llama_provider
  | HostedAnthropic anthropic_provider
  | HostedOpenAi openai_provider

definition placeholder_descriptor :: model_descriptor where
  "placeholder_descriptor =
     \<lparr>md_id = ''none'', md_display_name = ''No model'', md_context_window = 0, md_capabilities = caps_none,
      md_limitations = [], md_size_bytes = None, md_quantization = None, md_source = SrcOnDevice,
      md_perf_profile = perf_default\<rparr>"

definition placeholder_stream :: inference_stream where
  "placeholder_stream =
     [Inr (chunk_text (''No model is loaded yet. Open the Models tab to download and run a '' @
        ''local model, or add a hosted API key in Settings.'') MacLan),
      Inr (chunk_finish FrStop MacLan)]"

fun current_descriptor :: "model_provider \<Rightarrow> model_descriptor" where
  "current_descriptor PlaceholderProvider = placeholder_descriptor"
| "current_descriptor (LocalProvider p) = ll_descriptor p"
| "current_descriptor (HostedAnthropic p) = anthropic_descriptor p"
| "current_descriptor (HostedOpenAi p) = openai_descriptor p"

fun current_can_handle :: "model_provider \<Rightarrow> inference_request \<Rightarrow> can_handle_result" where
  "current_can_handle PlaceholderProvider req = chr_yes"
| "current_can_handle (LocalProvider p) req = local_can_handle p req"
| "current_can_handle (HostedAnthropic p) req = anthropic_can_handle p req"
| "current_can_handle (HostedOpenAi p) req = openai_can_handle p req"

fun current_generate ::
  "http_env \<Rightarrow> model_provider \<Rightarrow> inference_request \<Rightarrow> cancel_token \<Rightarrow> contract_error + inference_stream" where
  "current_generate E PlaceholderProvider req cancel = Inr placeholder_stream"
| "current_generate E (LocalProvider p) req cancel = local_generate E p req cancel"
| "current_generate E (HostedAnthropic p) req cancel = anthropic_generate E p req cancel"
| "current_generate E (HostedOpenAi p) req cancel = openai_generate E p req cancel"

record swappable_provider =
  sw_forced_mode :: compute_mode
  sw_current :: model_provider

definition swappable_new :: "compute_mode \<Rightarrow> model_provider \<Rightarrow> swappable_provider" where
  "swappable_new mode initial = \<lparr>sw_forced_mode = mode, sw_current = initial\<rparr>"

definition swap :: "model_provider \<Rightarrow> swappable_provider \<Rightarrow> swappable_provider" where
  "swap p s = s\<lparr>sw_current := p\<rparr>"

definition swappable_descriptor :: "swappable_provider \<Rightarrow> model_descriptor" where
  "swappable_descriptor s = current_descriptor (sw_current s)"

definition swappable_can_handle :: "swappable_provider \<Rightarrow> inference_request \<Rightarrow> can_handle_result" where
  "swappable_can_handle s req = current_can_handle (sw_current s) req"

definition swappable_generate ::
  "http_env \<Rightarrow> swappable_provider \<Rightarrow> inference_request \<Rightarrow> cancel_token \<Rightarrow> contract_error + inference_stream" where
  "swappable_generate E s req cancel =
     (case current_generate E (sw_current s) req cancel of
        Inl e \<Rightarrow> Inl e
      | Inr stream \<Rightarrow> Inr (map (stamp_mode (sw_forced_mode s)) stream))"

section \<open>The host's computer-use surface\<close>

text \<open>A call of the host returns, fails with a \<open>MahiError\<close>, or dies with the blocking task it runs on.\<close>

datatype 'a host_result = HostOk 'a | HostErr string | HostDied string

record screenshot_ffi =
  sf_png :: bytes
  sf_width :: u32
  sf_height :: u32

record ui_element_ffi =
  ue_role :: string
  ue_label :: "string option"
  ue_x :: i32
  ue_y :: i32
  ue_width :: u32
  ue_height :: u32
  ue_focused :: bool

record 'w computer_use_host =
  ho_screenshot :: "'w \<Rightarrow> screenshot_ffi host_result \<times> 'w"
  ho_describe_ui :: "'w \<Rightarrow> ui_element_ffi list host_result \<times> 'w"
  ho_click :: "i32 \<Rightarrow> i32 \<Rightarrow> string \<Rightarrow> 'w \<Rightarrow> unit host_result \<times> 'w"
  ho_move_mouse :: "i32 \<Rightarrow> i32 \<Rightarrow> 'w \<Rightarrow> unit host_result \<times> 'w"
  ho_type_text :: "string \<Rightarrow> 'w \<Rightarrow> unit host_result \<times> 'w"
  ho_scroll :: "i32 \<Rightarrow> i32 \<Rightarrow> 'w \<Rightarrow> unit host_result \<times> 'w"
  ho_key :: "string \<Rightarrow> 'w \<Rightarrow> unit host_result \<times> 'w"
  ho_is_sensitive_context :: "'w \<Rightarrow> bool option \<times> 'w"

fun mouse_button_str :: "mouse_button \<Rightarrow> string" where
  "mouse_button_str LeftButton = ''left''"
| "mouse_button_str RightButton = ''right''"
| "mouse_button_str MiddleButton = ''middle''"

fun on_blocking :: "'a host_result \<times> 'w \<Rightarrow> (contract_error + 'a) \<times> 'w" where
  "on_blocking (HostOk x, w) = (Inr x, w)"
| "on_blocking (HostErr e, w) = (Inl (OtherErr e), w)"
| "on_blocking (HostDied e, w) = (Inl (OtherErr (''computer-use task failed: '' @ e)), w)"

definition screenshot_of :: "screenshot_ffi \<Rightarrow> screenshot" where
  "screenshot_of s =
     \<lparr>shot_bytes = sf_png s, shot_width = sf_width s, shot_height = sf_height s, shot_description = []\<rparr>"

definition ui_element_of :: "ui_element_ffi \<Rightarrow> ui_element" where
  "ui_element_of e =
     \<lparr>el_role = ue_role e, el_label = ue_label e,
      el_bounds = \<lparr>bd_x = ue_x e, bd_y = ue_y e, bd_width = ue_width e, bd_height = ue_height e\<rparr>,
      el_focused = ue_focused e\<rparr>"

definition host_controller :: "'w computer_use_host \<Rightarrow> 'w controller" where
  "host_controller h =
     \<lparr>ct_screenshot = (\<lambda>w. apfst (map_sum id screenshot_of) (on_blocking (ho_screenshot h w))),
      ct_describe_ui = (\<lambda>w. apfst (map_sum id (map ui_element_of)) (on_blocking (ho_describe_ui h w))),
      ct_click = (\<lambda>x y b w. on_blocking (ho_click h x y (mouse_button_str b) w)),
      ct_move_mouse = (\<lambda>x y w. on_blocking (ho_move_mouse h x y w)),
      ct_type_text = (\<lambda>t w. on_blocking (ho_type_text h t w)),
      ct_scroll = (\<lambda>dx dy w. on_blocking (ho_scroll h dx dy w)),
      ct_key = (\<lambda>k w. on_blocking (ho_key h k w)),
      ct_is_sensitive_context = (\<lambda>w. apfst (unwrap_or False) (ho_is_sensitive_context h w))\<rparr>"

section \<open>The state of the handle\<close>

datatype model_state_ffi = ModelNotInstalled | ModelDownloading f32 u64 | ModelInstalled | ModelActive

record catalog_model_ffi =
  cf_id :: string
  cf_display_name :: string
  cf_family :: string
  cf_size_bytes :: u64
  cf_quantization :: string
  cf_context_window :: u32
  cf_tool_calling :: bool
  cf_description :: string
  cf_state :: model_state_ffi

datatype runtime_status_ffi = NoModel | PreparingRuntime | Starting string | Running string | RuntimeFailed string

record hosted_config_ffi =
  hc_provider :: string
  hc_api_key :: string
  hc_model :: string
  hc_base_url :: "string option"

text \<open>A download: its entry, the state its worker publishes, and its cancellation flag.
  \<open>fs_downloads\<close> maps a model to its newest download.\<close>

record transfer =
  tr_entry :: catalog_entry
  tr_state :: download_state
  tr_cancelled :: bool

record activation =
  ac_model_id :: string
  ac_entry :: catalog_entry
  ac_ctx :: u32

record ffi_state =
  fs_engine :: engine
  fs_provider :: swappable_provider
  fs_files :: models_dir
  fs_running :: "running_server option"
  fs_status :: runtime_status_ffi
  fs_transfers :: "transfer list"
  fs_downloads :: "string \<Rightarrow> nat option"
  fs_hosted :: "hosted_config_ffi option"
  fs_local :: "(string \<times> model_provider) option"
  fs_activations :: "activation list"

definition handle_build :: "uuid \<Rightarrow> models_dir \<Rightarrow> ffi_state" where
  "handle_build device files =
     \<lparr>fs_engine = engine_new device, fs_provider = swappable_new MacLan PlaceholderProvider, fs_files = files,
      fs_running = None, fs_status = NoModel, fs_transfers = [], fs_downloads = (\<lambda>_. None), fs_hosted = None,
      fs_local = None, fs_activations = []\<rparr>"

definition set_status :: "runtime_status_ffi \<Rightarrow> ffi_state \<Rightarrow> ffi_state" where
  "set_status x s = s\<lparr>fs_status := x\<rparr>"

definition swap_to :: "model_provider \<Rightarrow> ffi_state \<Rightarrow> ffi_state" where
  "swap_to p s = s\<lparr>fs_provider := swap p (fs_provider s)\<rparr>"

text \<open>The updates of the handle, each under a lock of its own. \<open>UFallback\<close> reads the local slot and goes
  on with what it found. \<open>UStop\<close> takes the lock of the local slot, empties the slot when it holds the
  model, and goes on with the block that keeps the lock until \<open>UUnlock\<close>.\<close>

datatype update =
    UWindow u32
  | USpawn activation
  | USwap model_provider
  | URunning "running_server option"
  | ULocal "(string \<times> model_provider) option"
  | UStatus runtime_status_ffi
  | UHosted "hosted_config_ffi option"
  | UFallback
  | UStop string
  | UUnlock
  | UForget string
  | UErase string string

fun update_step :: "update \<Rightarrow> ffi_state \<Rightarrow> update list \<times> ffi_state" where
  "update_step (UWindow n) s = ([], s\<lparr>fs_engine := set_context_window (ucast n) (fs_engine s)\<rparr>)"
| "update_step (USpawn a) s = ([], s\<lparr>fs_activations := fs_activations s @ [a]\<rparr>)"
| "update_step (USwap p) s = ([], swap_to p s)"
| "update_step (URunning v) s = ([], s\<lparr>fs_running := v\<rparr>)"
| "update_step (ULocal l) s = ([], s\<lparr>fs_local := l\<rparr>)"
| "update_step (UStatus x) s = ([], set_status x s)"
| "update_step (UHosted h) s = ([], s\<lparr>fs_hosted := h\<rparr>)"
| "update_step UFallback s =
     (case fs_local s of
        Some (i, p) \<Rightarrow> [USwap p, UStatus (Running i)]
      | None \<Rightarrow> [USwap PlaceholderProvider, UStatus NoModel], s)"
| "update_step (UStop i) s =
     (if map_option fst (fs_local s) = Some i
      then ([URunning None, USwap PlaceholderProvider, UStatus NoModel, UUnlock], s\<lparr>fs_local := None\<rparr>)
      else ([UUnlock], s))"
| "update_step UUnlock s = ([], s)"
| "update_step (UForget i) s = ([], s\<lparr>fs_downloads := (fs_downloads s)(i := None)\<rparr>)"
| "update_step (UErase refused i) s = ([], s\<lparr>fs_files := snd (delete_model_file refused i (fs_files s))\<rparr>)"

text \<open>The lock of the local slot before and after an update; \<open>None\<close> when the update has to wait for it.\<close>

fun local_lock :: "update \<Rightarrow> bool \<Rightarrow> bool option" where
  "local_lock (ULocal l) held = (if held then None else Some False)"
| "local_lock UFallback held = (if held then None else Some False)"
| "local_lock (UStop i) held = (if held then None else Some True)"
| "local_lock UUnlock held = Some False"
| "local_lock u held = Some held"

text \<open>The updates of one call or task, with nothing in between.\<close>

fun update_cost :: "update \<Rightarrow> nat" where
  "update_cost UFallback = 3"
| "update_cost (UStop i) = 5"
| "update_cost u = 1"

lemma update_step_cost: "update_step u s = (vs, s') \<Longrightarrow> sum_list (map update_cost vs) < update_cost u"
  by (cases u) (auto split: option.splits if_splits)

function run_task :: "update list \<Rightarrow> ffi_state \<Rightarrow> ffi_state" where
  "run_task [] s = s"
| "run_task (u # us) s = (case update_step u s of (vs, s') \<Rightarrow> run_task (vs @ us) s')"
  by pat_completeness auto
termination
  by (relation "measure (\<lambda>(us, s). sum_list (map update_cost us))") (auto dest: update_step_cost sym)

section \<open>Calls on models\<close>

definition model_state :: "string set \<Rightarrow> ffi_state \<Rightarrow> catalog_entry \<Rightarrow> model_state_ffi" where
  "model_state installed_ids s e =
     (if map_option fst (fs_local s) = Some (ce_id e) then ModelActive
      else case fs_downloads s (ce_id e) of
             Some k \<Rightarrow>
               (let dl = tr_state (fs_transfers s ! k)
                in case ds_status dl of
                     Downloading \<Rightarrow> ModelDownloading (progress dl) (ds_bytes_downloaded dl)
                   | DlIdle \<Rightarrow> ModelDownloading (progress dl) (ds_bytes_downloaded dl)
                   | DlCompleted \<Rightarrow> ModelInstalled
                   | DlFailed msg \<Rightarrow> ModelNotInstalled)
           | None \<Rightarrow> if ce_id e \<in> installed_ids then ModelInstalled else ModelNotInstalled)"

definition ffi_model_catalog :: "string list option \<Rightarrow> ffi_state \<Rightarrow> catalog_model_ffi list" where
  "ffi_model_catalog listing s =
     (let installed_ids = set (map im_id (installed (fs_files s) listing))
      in map (\<lambda>e. \<lparr>cf_id = ce_id e, cf_display_name = ce_display_name e, cf_family = ce_family e,
                 cf_size_bytes = ce_size_bytes e, cf_quantization = ce_quantization e,
                 cf_context_window = ce_context_window e, cf_tool_calling = ce_tool_calling e,
                 cf_description = ce_description e, cf_state = model_state installed_ids s e\<rparr>) model_catalog)"

definition unknown_model :: "string \<Rightarrow> string" where
  "unknown_model i = ''unknown model '' @ [CHR 0x60] @ i @ [CHR 0x60]"

definition ffi_start_download :: "string \<Rightarrow> ffi_state \<Rightarrow> (string + unit) \<times> ffi_state" where
  "ffi_start_download model_id s =
     (case find_entry model_id of
        None \<Rightarrow> (Inl (unknown_model model_id), s)
      | Some e \<Rightarrow>
          (Inr (), s\<lparr>fs_transfers := fs_transfers s @
               [\<lparr>tr_entry = e,
                 tr_state = download_state_default\<lparr>ds_status := Downloading, ds_total_bytes := ce_size_bytes e\<rparr>,
                 tr_cancelled = False\<rparr>],
             fs_downloads := (fs_downloads s)(model_id \<mapsto> length (fs_transfers s))\<rparr>))"

definition ffi_cancel_download :: "string \<Rightarrow> ffi_state \<Rightarrow> (string + unit) \<times> ffi_state" where
  "ffi_cancel_download model_id s =
     (Inr (), case fs_downloads s model_id of
        None \<Rightarrow> s
      | Some k \<Rightarrow> s\<lparr>fs_transfers := (fs_transfers s)[k := (fs_transfers s ! k)\<lparr>tr_cancelled := True\<rparr>]\<rparr>)"

text \<open>The file of the model is the last thing deleted; its outcome is the result of the call.\<close>

definition delete_task :: "string \<Rightarrow> string \<Rightarrow> update list" where
  "delete_task refused model_id = [UStop model_id, UForget model_id, UErase refused model_id]"

definition ffi_delete_model :: "string \<Rightarrow> string \<Rightarrow> ffi_state \<Rightarrow> (string + unit) \<times> ffi_state" where
  "ffi_delete_model refused model_id s =
     (map_sum show_local_error id
        (fst (delete_model_file refused model_id (fs_files (run_task [UStop model_id, UForget model_id] s)))),
      run_task (delete_task refused model_id) s)"

text \<open>\<open>u32::clamp\<close>, which panics when the bounds are crossed.\<close>

definition u32_clamp :: "u32 \<Rightarrow> u32 \<Rightarrow> u32 \<Rightarrow> u32 option" where
  "u32_clamp x lo hi = (if lo \<le> hi then Some (if x < lo then lo else if hi < x then hi else x) else None)"

text \<open>\<open>None\<close> is a panic.\<close>

definition activate_task :: "string \<Rightarrow> u32 \<Rightarrow> ffi_state \<Rightarrow> (string + update list) option" where
  "activate_task model_id context_tokens s =
     (case find_entry model_id of
        None \<Rightarrow> Some (Inl (unknown_model model_id))
      | Some e \<Rightarrow>
          if \<not> is_regular (fs_files s (model_path model_id))
          then Some (Inl (''model '' @ [CHR 0x60] @ model_id @ [CHR 0x60] @ '' is not downloaded''))
          else map_option (\<lambda>ctx.
                 Inr [UWindow ctx, UStatus (Starting model_id),
                      USpawn \<lparr>ac_model_id = model_id, ac_entry = e, ac_ctx = ctx\<rparr>])
               (u32_clamp context_tokens 512 (ce_context_window e)))"

definition ffi_activate_model :: "string \<Rightarrow> u32 \<Rightarrow> ffi_state \<Rightarrow> ((string + unit) \<times> ffi_state) option" where
  "ffi_activate_model model_id context_tokens s =
     map_option (\<lambda>r. case r of Inl e \<Rightarrow> (Inl e, s) | Inr us \<Rightarrow> (Inr (), run_task us s))
       (activate_task model_id context_tokens s)"

text \<open>What the spawned task does with the result of starting the server.\<close>

definition server_provider :: "activation \<Rightarrow> running_server \<Rightarrow> model_provider" where
  "server_provider a v = LocalProvider (local_provider_new (base_url v) (ac_entry a))"

definition activation_task :: "activation \<Rightarrow> local_error + running_server \<Rightarrow> update list" where
  "activation_task a res =
     (case res of
        Inr v \<Rightarrow> [USwap (server_provider a v), URunning (Some v), ULocal (Some (ac_model_id a, server_provider a v)),
                  UStatus (Running (ac_model_id a))]
      | Inl e \<Rightarrow> [UStatus (RuntimeFailed (show_local_error e))])"

definition hosted_provider :: "hosted_config_ffi \<Rightarrow> model_provider" where
  "hosted_provider cfg =
     (if hc_provider cfg = ''anthropic'' then HostedAnthropic (anthropic_with_model (hc_api_key cfg) (hc_model cfg))
      else HostedOpenAi (openai_new (unwrap_or ''https://api.openai.com'' (hc_base_url cfg)) (hc_api_key cfg) (hc_model cfg)))"

definition hosted_task :: "hosted_config_ffi option \<Rightarrow> update list" where
  "hosted_task config =
     (case config of
        Some cfg \<Rightarrow> [USwap (hosted_provider cfg), UStatus (Running (hc_model cfg)), UHosted (Some cfg)]
      | None \<Rightarrow> [UHosted None, UFallback])"

definition set_hosted_config :: "hosted_config_ffi option \<Rightarrow> ffi_state \<Rightarrow> (string + unit) \<times> ffi_state" where
  "set_hosted_config config s = (Inr (), run_task (hosted_task config) s)"

section \<open>Calls that forward to the engine\<close>

definition ffi_create_conversation :: "'w seams \<Rightarrow> 'w \<Rightarrow> (string + string) \<times> 'w" where
  "ffi_create_conversation S w =
     (case create_conversation S MacLan w of
        (Inl e, w') \<Rightarrow> (Inl (show_error (sm_show_uuid S) e), w')
      | (Inr i, w') \<Rightarrow> (Inr (sm_show_uuid S i), w'))"

definition ffi_resolve_approval ::
  "(string \<Rightarrow> string + uuid) \<Rightarrow> 'w seams \<Rightarrow> string \<Rightarrow> bool \<Rightarrow> ffi_state \<Rightarrow> (string + unit) \<times> ffi_state" where
  "ffi_resolve_approval parse_uuid S approval_id approved s =
     (case parse_uuid approval_id of
        Inl e \<Rightarrow> (Inl e, s)
      | Inr i \<Rightarrow>
          (case resolve_approval S (fs_engine s) i approved of
             (r, e) \<Rightarrow> (map_sum (show_error (sm_show_uuid S)) id r, s\<lparr>fs_engine := e\<rparr>)))"

definition ffi_set_context_window :: "u32 \<Rightarrow> ffi_state \<Rightarrow> ffi_state" where
  "ffi_set_context_window context_tokens s =
     s\<lparr>fs_engine := set_context_window (ucast context_tokens) (fs_engine s)\<rparr>"

definition ffi_set_goal ::
  "(string \<Rightarrow> string + uuid) \<Rightarrow> 'w seams \<Rightarrow> string \<Rightarrow> string \<Rightarrow> 'w \<Rightarrow> (string + unit) \<times> 'w" where
  "ffi_set_goal parse_uuid S conversation_id goal w =
     (case parse_uuid conversation_id of
        Inl e \<Rightarrow> (Inl e, w)
      | Inr conv \<Rightarrow>
          apfst (map_sum (show_error (sm_show_uuid S)) id)
            (set_system_prompt S conv (if str_trim goal = [] then None else Some goal) w))"

definition ffi_compact :: "(string \<Rightarrow> string + uuid) \<Rightarrow> 'w seams \<Rightarrow> string \<Rightarrow> 'w \<Rightarrow> (string + string) \<times> 'w" where
  "ffi_compact parse_uuid S conversation_id w =
     (case parse_uuid conversation_id of
        Inl e \<Rightarrow> (Inl e, w)
      | Inr conv \<Rightarrow> apfst (map_sum (show_error (sm_show_uuid S)) id) (compact_conversation S conv w))"

section \<open>Runs of the handle\<close>

text \<open>A handle in use: its state, whether the lock of the local slot is kept by a deletion, and the updates
  that calls and tasks have left to make. \<open>hr_overlapped\<close> records that a call or task began while
  another had updates left.\<close>

record handle_run =
  hr_state :: ffi_state
  hr_locked :: bool
  hr_tasks :: "update list list"
  hr_overlapped :: bool

definition begin_task :: "update list \<Rightarrow> handle_run \<Rightarrow> handle_run" where
  "begin_task us r = r\<lparr>hr_tasks := hr_tasks r @ [us], hr_overlapped := (hr_overlapped r \<or> hr_tasks r \<noteq> [])\<rparr>"

text \<open>The \<open>k\<close>-th of them makes its next update, unless it waits for the lock.\<close>

definition task_go :: "nat \<Rightarrow> handle_run \<Rightarrow> handle_run" where
  "task_go k r =
     (if k < length (hr_tasks r)
      then case hr_tasks r ! k of
             [] \<Rightarrow> r
           | u # us \<Rightarrow>
               (case local_lock u (hr_locked r) of
                  None \<Rightarrow> r
                | Some l \<Rightarrow>
                    (case update_step u (hr_state r) of
                       (vs, s) \<Rightarrow> r\<lparr>hr_state := s, hr_locked := l,
                          hr_tasks := filter (\<lambda>t. t \<noteq> []) ((hr_tasks r)[k := vs @ us])\<rparr>))
      else r)"

text \<open>What leaves the model in use alone: downloads and what their workers publish, changes of the models
  directory, the context window and approvals.\<close>

inductive side_step :: "ffi_state \<Rightarrow> ffi_state \<Rightarrow> bool" where
  download_step: "side_step s (snd (ffi_start_download i s))"
| cancel_step: "side_step s (snd (ffi_cancel_download i s))"
| transfer_step: "k < length (fs_transfers s) \<Longrightarrow>
    side_step s (s\<lparr>fs_transfers := (fs_transfers s)[k := (fs_transfers s ! k)\<lparr>tr_state := d\<rparr>]\<rparr>)"
| files_step: "side_step s (s\<lparr>fs_files := F\<rparr>)"
| context_step: "side_step s (ffi_set_context_window n s)"
| approval_step: "side_step s (snd (ffi_resolve_approval parse_uuid (S :: unit seams) i b s))"

text \<open>A call begins, an activation whose server has started or failed goes on, one update of some call or
  task is made, or something else happens.\<close>

inductive handle_step :: "handle_run \<Rightarrow> handle_run \<Rightarrow> bool" where
  hosted_step: "handle_step r (begin_task (hosted_task config) r)"
| activate_step: "activate_task i n (hr_state r) = Some (Inr us) \<Longrightarrow> handle_step r (begin_task us r)"
| delete_step: "handle_step r (begin_task (delete_task refused i) r)"
| started_step: "a \<in> set (fs_activations (hr_state r)) \<Longrightarrow>
    runtime_start S dir models F (model_path (ac_model_id a)) (ac_ctx a) D = Some (res, D', killed) \<Longrightarrow>
    handle_step r (begin_task (activation_task a res)
      (r\<lparr>hr_state := (hr_state r)\<lparr>fs_activations := remove1 a (fs_activations (hr_state r))\<rparr>\<rparr>))"
| task_step: "handle_step r (task_go k r)"
| other_step: "side_step (hr_state r) s' \<Longrightarrow> handle_step r (r\<lparr>hr_state := s'\<rparr>)"

definition handle_start :: "uuid \<Rightarrow> models_dir \<Rightarrow> handle_run" where
  "handle_start device files =
     \<lparr>hr_state = handle_build device files, hr_locked = False, hr_tasks = [], hr_overlapped = False\<rparr>"

inductive handle_reachable :: "handle_run \<Rightarrow> bool" where
  built: "handle_reachable (handle_start device files)"
| stepped: "handle_reachable r \<Longrightarrow> handle_step r r' \<Longrightarrow> handle_reachable r'"

section \<open>Laws\<close>

lemma swappable_modes: "swappable_generate E s req c = Inr st \<Longrightarrow> chunk_modes st \<subseteq> {sw_forced_mode s}"
  using chunk_modes_stamp by (fastforce simp: swappable_generate_def split: sum.splits)

lemma current_capable:
  "chr_capable (current_can_handle p req) \<Longrightarrow> current_generate E p req c = Inl e \<Longrightarrow> \<not> routing_error e"
  using local_llama.capable_starts anthropic_hosted.capable_starts openai_hosted.capable_starts
  by (cases p) auto

interpretation app_model: inference_provider swappable_can_handle "swappable_generate E" "\<lambda>_. True" for E
proof unfold_locales
  fix p req c st
  assume "swappable_generate E p req c = Inr st"
  then show "\<exists>m. chunk_modes st \<subseteq> {m}" using swappable_modes by blast
next
  fix p req c e
  assume "chr_capable (swappable_can_handle p req)" "swappable_generate E p req c = Inl e"
  then show "\<not> routing_error e"
    using current_capable by (auto simp: swappable_can_handle_def swappable_generate_def split: sum.splits)
qed

lemma swappable_fields [simp]:
  "sw_forced_mode (swap p w) = sw_forced_mode w" "sw_current (swap p w) = p"
  by (simp_all add: swap_def)

text \<open>What holds of the local slot and of the provider in use.\<close>

fun slot_ok :: "(string \<times> model_provider) option \<Rightarrow> running_server option \<Rightarrow> bool" where
  "slot_ok None running = (running = None)"
| "slot_ok (Some (i, p)) running =
     (\<exists>v e. running = Some v \<and> rs_model_id v = i \<and> find_entry i = Some e \<and>
        p = LocalProvider (local_provider_new (base_url v) e))"

definition hosted_ok :: "model_provider \<Rightarrow> hosted_config_ffi option \<Rightarrow> runtime_status_ffi \<Rightarrow> bool" where
  "hosted_ok p hosted st \<longleftrightarrow>
     (\<exists>cfg. hosted = Some cfg \<and> p = hosted_provider cfg \<and> (\<forall>m. st = Running m \<longrightarrow> m = hc_model cfg))"

fun current_ok ::
  "model_provider \<Rightarrow> (string \<times> model_provider) option \<Rightarrow> hosted_config_ffi option \<Rightarrow> runtime_status_ffi \<Rightarrow> bool" where
  "current_ok PlaceholderProvider local hosted st = (\<forall>m. st \<noteq> Running m)"
| "current_ok (LocalProvider p) local hosted st =
     (\<exists>i. local = Some (i, LocalProvider p) \<and> (\<forall>m. st = Running m \<longrightarrow> m = i))"
| "current_ok p local hosted st = hosted_ok p hosted st"

definition activation_ok :: "activation \<Rightarrow> bool" where
  "activation_ok a \<longleftrightarrow>
     find_entry (ac_model_id a) = Some (ac_entry a) \<and> 512 \<le> ac_ctx a \<and> ac_ctx a \<le> ce_context_window (ac_entry a)"

definition downloads_ok :: "(string \<Rightarrow> nat option) \<Rightarrow> transfer list \<Rightarrow> bool" where
  "downloads_ok downloads ts \<longleftrightarrow> (\<forall>i k. downloads i = Some k \<longrightarrow> k < length ts \<and> ce_id (tr_entry (ts ! k)) = i)"

definition models_ok :: "ffi_state \<Rightarrow> bool" where
  "models_ok s \<longleftrightarrow> slot_ok (fs_local s) (fs_running s) \<and>
     current_ok (sw_current (fs_provider s)) (fs_local s) (fs_hosted s) (fs_status s)"

text \<open>What holds at every moment, also between the updates of a call. A provider serves a catalog model
  when it posts to a server of that model.\<close>

definition serves :: "string \<Rightarrow> model_provider \<Rightarrow> bool" where
  "serves i p \<longleftrightarrow>
     (\<exists>v e. rs_model_id v = i \<and> find_entry i = Some e \<and> p = LocalProvider (local_provider_new (base_url v) e))"

definition provider_ok :: "model_provider \<Rightarrow> bool" where
  "provider_ok p \<longleftrightarrow> p = PlaceholderProvider \<or> (\<exists>cfg. p = hosted_provider cfg) \<or> (\<exists>i. serves i p)"

fun update_ok :: "update \<Rightarrow> bool" where
  "update_ok (USpawn a) = activation_ok a"
| "update_ok (USwap p) = provider_ok p"
| "update_ok (ULocal l) = (\<forall>i p. l = Some (i, p) \<longrightarrow> serves i p)"
| "update_ok u = True"

definition state_ok :: "ffi_state \<Rightarrow> bool" where
  "state_ok s \<longleftrightarrow>
     sw_forced_mode (fs_provider s) = MacLan \<and> provider_ok (sw_current (fs_provider s)) \<and>
     (\<forall>i p. fs_local s = Some (i, p) \<longrightarrow> serves i p) \<and>
     list_all activation_ok (fs_activations s) \<and> downloads_ok (fs_downloads s) (fs_transfers s)"

text \<open>The whole invariant: unless calls overlapped, at most one is under way, and when its updates are
  made the models are in order.\<close>

definition settles :: "handle_run \<Rightarrow> bool" where
  "settles r \<longleftrightarrow> length (hr_tasks r) \<le> 1 \<and> models_ok (run_task (concat (hr_tasks r)) (hr_state r))"

definition handle_ok :: "handle_run \<Rightarrow> bool" where
  "handle_ok r \<longleftrightarrow> state_ok (hr_state r) \<and> list_all (list_all update_ok) (hr_tasks r) \<and>
     (hr_overlapped r \<or> settles r)"

lemmas handle_defs = set_status_def swap_to_def server_provider_def

lemmas task_defs = hosted_task_def delete_task_def activation_task_def

lemma hosted_provider_cases:
  "(\<exists>p. hosted_provider cfg = HostedAnthropic p \<and> an_model p = hc_model cfg) \<or>
   (\<exists>p. hosted_provider cfg = HostedOpenAi p \<and> oa_model p = hc_model cfg)"
  by (simp add: hosted_provider_def anthropic_with_model_def openai_new_def)

text \<open>A catalog model can be clamped to its window.\<close>

lemma clamp_window:
  assumes "find_entry i = Some e"
  shows "\<exists>ctx. u32_clamp n 512 (ce_context_window e) = Some ctx \<and> 512 \<le> ctx \<and> ctx \<le> ce_context_window e"
proof -
  have "512 \<le> ce_context_window e"
    using assms catalog_windows find_entry_iff by metis
  then show ?thesis by (auto simp: u32_clamp_def)
qed

text \<open>A status other than \<open>Running\<close> says nothing of the provider.\<close>

lemma current_ok_status: "current_ok p local hosted st \<Longrightarrow> (\<And>m. st' \<noteq> Running m) \<Longrightarrow> current_ok p local hosted st'"
  by (cases p) (auto simp: hosted_ok_def)

lemma current_ok_hosted: "current_ok (hosted_provider cfg) local (Some cfg) (Running (hc_model cfg))"
  using hosted_provider_cases [of cfg] by (auto simp: hosted_ok_def)

text \<open>Updates are sound one by one.\<close>

lemma update_step_ok:
  assumes "state_ok s" and "update_ok u" and "update_step u s = (vs, s')"
  shows "state_ok s' \<and> list_all update_ok vs"
  using assms
  by (cases u) (auto simp: state_ok_def handle_defs provider_ok_def downloads_ok_def split: option.splits if_splits)

text \<open>The updates of a call depend on the slots of the models only.\<close>

definition active :: "ffi_state \<Rightarrow>
    model_provider \<times> running_server option \<times> runtime_status_ffi \<times> hosted_config_ffi option \<times>
    (string \<times> model_provider) option" where
  "active s = (sw_current (fs_provider s), fs_running s, fs_status s, fs_hosted s, fs_local s)"

lemma models_ok_active: "active s = active t \<Longrightarrow> models_ok s = models_ok t"
  by (simp add: active_def models_ok_def)

lemma update_step_active:
  "active s = active t \<Longrightarrow> fst (update_step u s) = fst (update_step u t) \<and>
     active (snd (update_step u s)) = active (snd (update_step u t))"
  by (cases u) (auto simp: active_def handle_defs split: option.splits)

lemma run_task_active: "active s = active t \<Longrightarrow> active (run_task us s) = active (run_task us t)"
proof (induction us s arbitrary: t rule: run_task.induct)
  case (2 u us s)
  from update_step_active [OF 2(2), of u] 2(1) show ?case
    by (cases "update_step u s"; cases "update_step u t") auto
qed simp

lemma settles_active:
  "active s = active (hr_state r) \<Longrightarrow> settles (r\<lparr>hr_state := s\<rparr>) = settles r"
  using models_ok_active [OF run_task_active [of s "hr_state r" "concat (hr_tasks r)"]] by (simp add: settles_def)

text \<open>Calls and tasks that run alone keep the models in order.\<close>

lemma hosted_task_models: "models_ok s \<Longrightarrow> models_ok (run_task (hosted_task config) s)"
  by (cases config; cases "fs_local s") (auto simp: task_defs models_ok_def handle_defs current_ok_hosted)

lemma delete_task_models: "models_ok s \<Longrightarrow> models_ok (run_task (delete_task refused i) s)"
  by (simp add: task_defs models_ok_def handle_defs)

lemma activation_task_models:
  assumes "models_ok s" and "activation_ok a" and "\<And>v. res = Inr v \<Longrightarrow> rs_model_id v = ac_model_id a"
  shows "models_ok (run_task (activation_task a res) s)"
  using assms by (cases res) (auto simp: task_defs models_ok_def handle_defs activation_ok_def elim!: current_ok_status)

lemma activate_task_ok:
  assumes "activate_task i n t = Some (Inr us)"
  shows "list_all update_ok us" and "models_ok s \<Longrightarrow> models_ok (run_task us s)"
proof -
  from assms obtain e where e: "find_entry i = Some e" by (auto simp: activate_task_def split: option.splits)
  from clamp_window [OF this, of n] obtain ctx where
    c: "u32_clamp n 512 (ce_context_window e) = Some ctx" "512 \<le> ctx" "ctx \<le> ce_context_window e" by blast
  from assms e c have us: "us = [UWindow ctx, UStatus (Starting i), USpawn \<lparr>ac_model_id = i, ac_entry = e, ac_ctx = ctx\<rparr>]"
    by (simp add: activate_task_def split: if_splits)
  from e c show "list_all update_ok us" by (simp add: us activation_ok_def)
  show "models_ok s \<Longrightarrow> models_ok (run_task us s)"
    by (auto simp: us models_ok_def set_status_def elim!: current_ok_status)
qed

lemma tasks_update_ok:
  shows "list_all update_ok (hosted_task config)" and "list_all update_ok (delete_task refused i)"
    and "activation_ok a \<Longrightarrow> (\<And>v. res = Inr v \<Longrightarrow> rs_model_id v = ac_model_id a) \<Longrightarrow>
      list_all update_ok (activation_task a res)"
proof -
  show "list_all update_ok (hosted_task config)" "list_all update_ok (delete_task refused i)"
    by (auto simp: task_defs provider_ok_def split: option.splits)
  assume a: "activation_ok a" and res: "\<And>v. res = Inr v \<Longrightarrow> rs_model_id v = ac_model_id a"
  have "serves (ac_model_id a) (server_provider a v)" if "res = Inr v" for v
    using a res [OF that] by (auto simp: serves_def server_provider_def activation_ok_def)
  then show "list_all update_ok (activation_task a res)"
    by (auto simp: activation_task_def provider_ok_def split: sum.splits)
qed

lemma begin_task_ok:
  assumes "handle_ok r" and "list_all update_ok us" and "\<And>s. models_ok s \<Longrightarrow> models_ok (run_task us s)"
  shows "handle_ok (begin_task us r)"
  using assms by (auto simp: handle_ok_def begin_task_def settles_def)

lemma started_model:
  assumes "activation_ok a"
    and "runtime_start S dir models F (model_path (ac_model_id a)) ctx D = Some (Inr v, D', killed)"
  shows "rs_model_id v = ac_model_id a"
proof -
  have "ac_model_id a \<noteq> []"
    using assms(1) catalog_ids_nonempty by (auto simp: activation_ok_def find_entry_iff)
  with start_result(3) [OF assms(2) refl] model_path_parts(2) show ?thesis by simp
qed

lemma downloads_ok_update:
  "downloads_ok m ts \<Longrightarrow> (k < length ts \<Longrightarrow> tr_entry t = tr_entry (ts ! k)) \<Longrightarrow> downloads_ok m (ts[k := t])"
  by (cases "k < length ts") (auto simp: downloads_ok_def nth_list_update list_update_beyond)

lemma downloads_ok_start:
  "downloads_ok m ts \<Longrightarrow> ce_id (tr_entry t) = i \<Longrightarrow> downloads_ok (m(i \<mapsto> length ts)) (ts @ [t])"
  by (auto simp: downloads_ok_def nth_append less_SucI)

lemma side_step_ok:
  assumes "side_step s s'" and "state_ok s"
  shows "state_ok s' \<and> active s' = active s"
  using assms
proof (induction rule: side_step.induct)
  case (download_step s i)
  then show ?case
    by (auto simp: state_ok_def active_def ffi_start_download_def find_entry_iff split: option.splits
        intro!: downloads_ok_start)
next
  case (cancel_step s i)
  then show ?case
    by (auto simp: state_ok_def active_def ffi_cancel_download_def split: option.splits intro!: downloads_ok_update)
qed (auto simp: state_ok_def active_def ffi_set_context_window_def ffi_resolve_approval_def
    intro!: downloads_ok_update split: sum.splits prod.splits)

lemma task_made_ok:
  assumes "handle_ok r" and k: "k < length (hr_tasks r)" "hr_tasks r ! k = u # us"
    and u: "update_step u (hr_state r) = (vs, s')"
  shows "handle_ok (r\<lparr>hr_state := s', hr_locked := l, hr_tasks := filter (\<lambda>t. t \<noteq> []) ((hr_tasks r)[k := vs @ us])\<rparr>)"
proof -
  from assms(1) have ok: "state_ok (hr_state r)" "list_all (list_all update_ok) (hr_tasks r)"
    by (simp_all add: handle_ok_def)
  with k have uk: "list_all update_ok (u # us)" by (metis list_all_length)
  from update_step_ok [OF ok(1) _ u] uk have s': "state_ok s'" "list_all update_ok (vs @ us)" by simp_all
  then have tasks: "list_all (list_all update_ok) (filter (\<lambda>t. t \<noteq> []) ((hr_tasks r)[k := vs @ us]))"
    using ok(2) by (auto simp: list_all_iff dest!: set_update_subset_insert [THEN subsetD])
  have "settles (r\<lparr>hr_state := s', hr_locked := l, hr_tasks := filter (\<lambda>t. t \<noteq> []) ((hr_tasks r)[k := vs @ us])\<rparr>)"
    if "settles r"
  proof -
    from that k have "hr_tasks r = [u # us]" "k = 0"
      by (auto simp: settles_def length_Suc_conv le_Suc_eq)
    with that u show ?thesis by (cases "vs @ us") (auto simp: settles_def)
  qed
  with assms(1) s'(1) tasks show ?thesis by (auto simp: handle_ok_def)
qed

lemma task_go_ok:
  assumes "handle_ok r"
  shows "handle_ok (task_go k r)"
proof -
  consider "task_go k r = r"
    | u us l vs s' where "k < length (hr_tasks r)" "hr_tasks r ! k = u # us" "update_step u (hr_state r) = (vs, s')"
      "task_go k r = r\<lparr>hr_state := s', hr_locked := l, hr_tasks := filter (\<lambda>t. t \<noteq> []) ((hr_tasks r)[k := vs @ us])\<rparr>"
    unfolding task_go_def
    by (cases "hr_tasks r ! k"; cases "local_lock (hd (hr_tasks r ! k)) (hr_locked r)";
        cases "update_step (hd (hr_tasks r ! k)) (hr_state r)") fastforce+
  then show ?thesis by cases (use assms task_made_ok in \<open>simp_all\<close>)
qed

lemma started_step_ok:
  assumes "handle_ok r" and "a \<in> set (fs_activations (hr_state r))"
    and "runtime_start S dir models F (model_path (ac_model_id a)) (ac_ctx a) D = Some (res, D', killed)"
  shows "handle_ok (begin_task (activation_task a res)
      (r\<lparr>hr_state := (hr_state r)\<lparr>fs_activations := remove1 a (fs_activations (hr_state r))\<rparr>\<rparr>))"
proof -
  let ?s = "(hr_state r)\<lparr>fs_activations := remove1 a (fs_activations (hr_state r))\<rparr>"
  from assms(1,2) have a: "activation_ok a" by (auto simp: handle_ok_def state_ok_def list_all_iff)
  then have m: "rs_model_id v = ac_model_id a" if "res = Inr v" for v
    using that assms(3) by (auto dest: started_model)
  have "state_ok ?s"
    using assms(1) by (auto simp: handle_ok_def state_ok_def list_all_iff dest: set_remove1_subset [THEN subsetD])
  moreover have "active ?s = active (hr_state r)" by (simp add: active_def)
  ultimately have "handle_ok (r\<lparr>hr_state := ?s\<rparr>)"
    using assms(1) settles_active [of ?s r] by (simp add: handle_ok_def)
  then show ?thesis
    using tasks_update_ok(3) [OF a m] activation_task_models [OF _ a m] by (intro begin_task_ok) auto
qed

lemma handle_step_ok: "handle_step r r' \<Longrightarrow> handle_ok r \<Longrightarrow> handle_ok r'"
proof (induction rule: handle_step.induct)
  case (other_step r s')
  then show ?case using side_step_ok [OF other_step(1)] settles_active by (auto simp: handle_ok_def)
qed (simp_all add: begin_task_ok tasks_update_ok hosted_task_models delete_task_models activate_task_ok
    started_step_ok task_go_ok)

lemma handle_ok_start: "handle_ok (handle_start device files)"
  by (simp add: handle_ok_def handle_start_def settles_def state_ok_def models_ok_def handle_build_def downloads_ok_def
      swappable_new_def provider_ok_def)

lemma handle_reachable_ok: "handle_reachable r \<Longrightarrow> handle_ok r"
  by (induction rule: handle_reachable.induct) (auto simp: handle_ok_start dest: handle_step_ok)

lemma task_go_steps: "handle_step\<^sup>*\<^sup>* r (fold task_go ks r)"
  by (induction ks arbitrary: r) (auto intro: task_step converse_rtranclp_into_rtranclp)

text \<open>The model a handle names is the one that answers.\<close>

lemma running_names_model:
  assumes "models_ok s" and "fs_status s = Running m"
  shows "md_id (swappable_descriptor (fs_provider s)) = m"
proof (cases "sw_current (fs_provider s)")
  case PlaceholderProvider
  with assms show ?thesis by (simp add: models_ok_def)
next
  case (LocalProvider p)
  with assms show ?thesis
    by (auto simp: models_ok_def swappable_descriptor_def catalog_descriptor_def find_entry_iff)
next
  case (HostedAnthropic p)
  with assms show ?thesis
    by (auto simp: models_ok_def hosted_ok_def swappable_descriptor_def hosted_provider_def anthropic_with_model_def
        anthropic_descriptor_def split: if_splits)
next
  case (HostedOpenAi p)
  with assms show ?thesis
    by (auto simp: models_ok_def hosted_ok_def swappable_descriptor_def hosted_provider_def openai_new_def
        openai_descriptor_def split: if_splits)
qed

section \<open>Properties\<close>

text \<open>C14: the model the app is shown is the model that answers, and it is there. Calls, activations
  and deletions make their updates one lock at a time, and the updates of different ones may
  interleave in any way that the lock of the local slot allows. At every moment of every such run,
  whatever answers, every chunk is stamped with the mode in which all tools are available, and the
  local slot pairs a catalog model with a provider that posts to a server of this model. When
  moreover no call or activation began its updates while those of another were being made, then,
  with the updates under way completed: when the status is running, the provider in use serves the
  named model; a local provider in use posts to the server that is running, which serves the
  catalog model of the local slot; there is a server exactly when there is a local model; and
  clearing the hosted configuration goes back to that model, or to the placeholder. Without the
  condition this second part fails (\<open>overlapping_activations\<close>).\<close>

theorem active_model_is_live:
  assumes "handle_reachable r" and "s = run_task (concat (hr_tasks r)) (hr_state r)"
    and "s' = snd (set_hosted_config None s)"
  shows "(swappable_generate E (fs_provider (hr_state r)) req c = Inr st \<longrightarrow> chunk_modes st \<subseteq> {MacLan}) \<and>
    (fs_local (hr_state r) = Some (i, q) \<longrightarrow>
      (\<exists>v e. rs_model_id v = i \<and> find_entry i = Some e \<and> q = LocalProvider (local_provider_new (base_url v) e))) \<and>
    (\<not> hr_overlapped r \<longrightarrow>
      (fs_status s = Running m \<longrightarrow> md_id (swappable_descriptor (fs_provider s)) = m) \<and>
      (sw_current (fs_provider s) = LocalProvider p \<longrightarrow>
        (\<exists>v e. fs_running s = Some v \<and> find_entry (rs_model_id v) = Some e \<and> p = local_provider_new (base_url v) e \<and>
           fs_local s = Some (ce_id e, LocalProvider p))) \<and>
      (fs_local s = None \<longleftrightarrow> fs_running s = None) \<and>
      md_id (swappable_descriptor (fs_provider s')) = (case fs_running s of Some v \<Rightarrow> rs_model_id v | None \<Rightarrow> ''none''))"
proof -
  have ok: "handle_ok r" by (rule handle_reachable_ok [OF assms(1)])
  then have always: "swappable_generate E (fs_provider (hr_state r)) req c = Inr st \<longrightarrow> chunk_modes st \<subseteq> {MacLan}"
    "fs_local (hr_state r) = Some (i, q) \<longrightarrow>
      (\<exists>v e. rs_model_id v = i \<and> find_entry i = Some e \<and> q = LocalProvider (local_provider_new (base_url v) e))"
    using swappable_modes by (fastforce simp: handle_ok_def state_ok_def serves_def)+
  {
    assume "\<not> hr_overlapped r"
    with ok assms(2) have m: "models_ok s" by (simp add: handle_ok_def settles_def)
    have live: "\<exists>v e. fs_running s = Some v \<and> find_entry (rs_model_id v) = Some e \<and> p = local_provider_new (base_url v) e \<and>
         fs_local s = Some (ce_id e, LocalProvider p)" if "sw_current (fs_provider s) = LocalProvider p"
      using m that by (auto simp: models_ok_def) (metis find_entry_iff)
    have slot: "fs_local s = None \<longleftrightarrow> fs_running s = None"
      using m by (cases "fs_local s") (auto simp: models_ok_def)
    have fallback: "md_id (swappable_descriptor (fs_provider s')) =
        (case fs_running s of Some v \<Rightarrow> rs_model_id v | None \<Rightarrow> ''none'')"
      using m
      by (cases "fs_local s")
        (auto simp: assms(3) set_hosted_config_def task_defs handle_defs models_ok_def swappable_descriptor_def
          placeholder_descriptor_def catalog_descriptor_def find_entry_iff)
    note live slot fallback running_names_model [OF m]
  }
  with always show ?thesis by blast
qed

definition demo_hosted :: hosted_config_ffi where
  "demo_hosted = \<lparr>hc_provider = ''anthropic'', hc_api_key = ''k'', hc_model = ''m'', hc_base_url = None\<rparr>"

text \<open>A hosted model is chosen: the call has begun, and its first update is made.\<close>

definition demo_choosing :: handle_run where
  "demo_choosing =
     \<lparr>hr_state = swap_to (hosted_provider demo_hosted) (handle_build 0 (\<lambda>_. None)), hr_locked = False,
      hr_tasks = [[UStatus (Running ''m''), UHosted (Some demo_hosted)]], hr_overlapped = False\<rparr>"

lemma demo_choosing_reachable: "handle_reachable demo_choosing"
proof -
  let ?r = "begin_task (hosted_task (Some demo_hosted)) (handle_start 0 (\<lambda>_. None))"
  have "handle_reachable ?r" by (rule stepped [OF built hosted_step])
  moreover have "task_go 0 ?r = demo_choosing"
    by (simp add: task_go_def begin_task_def handle_start_def hosted_task_def demo_choosing_def demo_hosted_def)
  then have "handle_step ?r demo_choosing" using task_step by metis
  ultimately show ?thesis by (rule stepped)
qed

theorem active_model_is_live_witness:
  "let s = run_task (concat (hr_tasks demo_choosing)) (hr_state demo_choosing)
   in fs_status (hr_state demo_choosing) = NoModel \<and> fs_status s = Running ''m'' \<and>
      md_id (swappable_descriptor (fs_provider s)) = ''m'' \<and>
      md_id (swappable_descriptor (fs_provider (snd (set_hosted_config None s)))) = ''none''"
proof -
  let ?s = "run_task (concat (hr_tasks demo_choosing)) (hr_state demo_choosing)"
  have s: "fs_status (hr_state demo_choosing) = NoModel" "fs_status ?s = Running ''m''" "fs_running ?s = None"
    "\<not> hr_overlapped demo_choosing"
    by (simp_all add: demo_choosing_def handle_defs handle_build_def)
  from active_model_is_live [OF demo_choosing_reachable refl refl] s show ?thesis unfolding Let_def by auto
qed

text \<open>C15: on the Mac every turn keeps the whole toolset. When the model of the engine is a swappable
  provider that forces a mode, whichever providers are swapped in while the turn runs, a turn of a
  conversation created in that mode stays in it: no handoff is announced, tools are described and
  invoked and messages saved in that mode only.\<close>

theorem forced_mode_turn_is_steady:
  assumes "\<And>req w. \<exists>E p c. sw_forced_mode p = m \<and> fst (sm_generate S req w) = swappable_generate E p req c"
    and "get_conversation S cid w = (Inr conv, w1)" and "conv_mode_at_creation conv = m"
    and "run_turn S e cid user_text cancelled surface w = (Inr (r, t), w')"
  shows "tn_mode t = m \<and>
    (\<forall>a b. ModeHandoff a b \<notin> set (emitted (tn_log t))) \<and>
    (\<forall>m' ds. Described m' ds \<in> set (tn_log t) \<longrightarrow> m' = m) \<and>
    (\<forall>iv. Invoked iv \<in> set (tn_log t) \<longrightarrow> ti_compute_mode iv = m) \<and>
    (\<forall>msg. Appended msg \<in> set (tn_log t) \<longrightarrow> msg_mode msg = m)"
proof -
  have "mode_forced m S"
    unfolding mode_forced_def
  proof (intro allI impI)
    fix req w st w'
    assume "sm_generate S req w = (Inr st, w')"
    with assms(1) [of req w] show "chunk_modes st \<subseteq> {m}" using swappable_modes by (metis fst_conv)
  qed
  from turn_steady [OF this assms(4,2,3)] have "tn_mode t = m" "\<forall>x \<in> set (tn_log t). in_mode m x"
    by (simp_all add: steady_def list_all_iff)
  then show ?thesis
    by (fastforce simp: in_mode_def emitted_def List.map_filter_def split: effect.splits agent_event.splits)
qed

definition demo_http :: http_env where
  "demo_http = \<lparr>he_post = (\<lambda>_ _ _. TransportFailure [] False False), he_to_str = (\<lambda>_. []), he_from_str = (\<lambda>_. Inl []),
     he_show_status = (\<lambda>_. [])\<rparr>"

definition demo_app_seams :: "nat seams" where
  "demo_app_seams = demo_seams\<lparr>sm_generate := (\<lambda>req w.
     (swappable_generate demo_http (swappable_new MacLan PlaceholderProvider) req (\<lambda>_. False), w))\<rparr>"

lemma demo_app_turn:
  "\<exists>t w'. run_turn demo_app_seams (engine_new 0) 7 ''go'' False [] 0 = (Inr (Done (), t), w')"
  by (simp add: demo_app_seams_def swappable_generate_def swappable_new_def placeholder_stream_def chunk_text_def
      chunk_finish_def stamp_mode_def Demo_Turn.demo_eval
      del: drive_loop.simps consume_inference.simps consume_tool_events.simps run_tool_calls.simps)

theorem forced_mode_turn_is_steady_witness:
  "\<exists>t w'. run_turn demo_app_seams (engine_new 0) 7 ''go'' False [] 0 = (Inr (Done (), t), w') \<and>
    tn_mode t = MacLan \<and> (\<forall>a b. ModeHandoff a b \<notin> set (emitted (tn_log t)))"
proof -
  from demo_app_turn obtain t w' where
    t: "run_turn demo_app_seams (engine_new 0) 7 ''go'' False [] 0 = (Inr (Done (), t), w')" by blast
  have gen: "\<exists>E p c. sw_forced_mode p = MacLan \<and> fst (sm_generate demo_app_seams req w) = swappable_generate E p req c" for req w
    by (intro exI [of _ demo_http] exI [of _ "swappable_new MacLan PlaceholderProvider"] exI [of _ "\<lambda>_. False"])
      (simp add: demo_app_seams_def swappable_new_def)
  have "get_conversation demo_app_seams 7 0 =
      (Inr ((conversation_new 0 7 MacLan)\<lparr>conv_title := Some ''t''\<rparr>), 0)"
    by (simp add: get_conversation_def demo_app_seams_def demo_seams_def bind_w_def act_ok_def)
  from forced_mode_turn_is_steady [OF gen this _ t] t show ?thesis
    by (auto simp: conversation_new_def)
qed

text \<open>Deleting the local model silences a hosted one. With a hosted model in use and a local one
  loaded, deleting the local model puts the placeholder in place of the hosted provider and reports
  that there is no model, although the hosted configuration is still set.\<close>

theorem delete_drops_hosted_model:
  assumes "fs_local s = Some (i, p)" and "fs_hosted s = Some cfg" and "sw_current (fs_provider s) = hosted_provider cfg"
    and "s' = snd (ffi_delete_model refused i s)"
  shows "sw_current (fs_provider s') = PlaceholderProvider \<and> fs_status s' = NoModel \<and> fs_hosted s' = Some cfg \<and>
    sw_current (fs_provider s) \<noteq> PlaceholderProvider"
  using assms hosted_provider_cases [of cfg]
  by (auto simp: ffi_delete_model_def task_defs handle_defs)

definition demo_loaded :: ffi_state where
  "demo_loaded = snd (set_hosted_config (Some demo_hosted)
     (run_task (activation_task \<lparr>ac_model_id = ''m'', ac_entry = demo_entry, ac_ctx = 512\<rparr>
        (Inr \<lparr>rs_port = 8080, rs_model_id = ''m''\<rparr>)) (handle_build 0 (\<lambda>_. None))))"

theorem delete_drops_hosted_model_witness:
  "sw_current (fs_provider (snd (ffi_delete_model [] ''m'' demo_loaded))) = PlaceholderProvider \<and>
   fs_hosted (snd (ffi_delete_model [] ''m'' demo_loaded)) = Some demo_hosted"
proof -
  have "fs_local demo_loaded = Some (''m'', server_provider \<lparr>ac_model_id = ''m'', ac_entry = demo_entry, ac_ctx = 512\<rparr>
      \<lparr>rs_port = 8080, rs_model_id = ''m''\<rparr>)"
    "fs_hosted demo_loaded = Some demo_hosted" "sw_current (fs_provider demo_loaded) = hosted_provider demo_hosted"
    by (simp_all add: demo_loaded_def set_hosted_config_def task_defs handle_defs)
  from delete_drops_hosted_model [OF this refl, of "[]"] show ?thesis by simp
qed

text \<open>Two activations whose ends overlap can leave a dead provider in use. From the moment both servers
  have started, the updates can interleave so that the second provider is swapped in after the
  first, but the second server is stored before the first one: the server that the provider in use
  posts to has been dropped, and with it killed, while the status says that it is running.\<close>

lemma overlapping_activations:
  assumes "hr_tasks r = [activation_task a (Inr va), activation_task b (Inr vb)]" and "\<not> hr_locked r"
  shows "\<exists>r'. handle_step\<^sup>*\<^sup>* r r' \<and> hr_tasks r' = [] \<and>
    sw_current (fs_provider (hr_state r')) = LocalProvider (local_provider_new (base_url vb) (ac_entry b)) \<and>
    fs_running (hr_state r') = Some va \<and> fs_status (hr_state r') = Running (ac_model_id b)"
proof -
  let ?r = "fold task_go [0, 1, 1, 0, 0, 0, 0, 0] r"
  have "handle_step\<^sup>*\<^sup>* r ?r" by (rule task_go_steps)
  moreover have "hr_tasks ?r = []"
    "sw_current (fs_provider (hr_state ?r)) = LocalProvider (local_provider_new (base_url vb) (ac_entry b))"
    "fs_running (hr_state ?r) = Some va" "fs_status (hr_state ?r) = Running (ac_model_id b)"
    by (simp_all add: assms task_go_def activation_task_def handle_defs)
  ultimately show ?thesis by blast
qed

text \<open>A download started twice has two workers; the handle reaches the newer one only.\<close>

lemma second_download_detaches_first:
  assumes "find_entry i = Some e" and "s1 = snd (ffi_start_download i s)" and "s2 = snd (ffi_start_download i s1)"
    and "s3 = snd (ffi_cancel_download i s2)"
  shows "\<not> tr_cancelled (fs_transfers s3 ! length (fs_transfers s)) \<and>
    ds_status (tr_state (fs_transfers s3 ! length (fs_transfers s))) = Downloading \<and>
    tr_cancelled (fs_transfers s3 ! Suc (length (fs_transfers s)))"
  using assms by (simp add: ffi_start_download_def ffi_cancel_download_def nth_append)

text \<open>What the host reports decides whether input is sent. Through the bridge, a host that reports a
  sensitive context is asked nothing else by the input tools and refuses with an error that is not
  retryable. But when the question itself dies with its task, the answer counts as no, and the input
  goes to the host.\<close>

theorem host_sensitivity_decides:
  assumes "ho_is_sensitive_context h w = (answer, w1)" and "de args = Inr typed"
  shows "(answer = Some True \<longrightarrow>
      ui_type_run u de (host_controller h) args w = (tool_error_stream SENSITIVE_REFUSAL False, w1)) \<and>
    (answer = None \<longrightarrow> snd (ui_type_run u de (host_controller h) args w) = snd (ho_type_text h typed w1))"
proof -
  have "snd (on_blocking x) = snd x" for x :: "unit host_result \<times> 'a"
    by (cases x rule: on_blocking.cases) simp_all
  from this [of "ho_type_text h typed w1"] assms show ?thesis
    by (auto simp: input_runs tool_parse_args_def host_controller_def Let_def split: prod.splits sum.splits)
qed

text \<open>A host that counts what is typed, and one of its questions that dies.\<close>

definition demo_host :: "bool option \<Rightarrow> nat computer_use_host" where
  "demo_host answer =
     \<lparr>ho_screenshot = (\<lambda>w. (HostErr [], w)), ho_describe_ui = (\<lambda>w. (HostOk [], w)), ho_click = (\<lambda>x y b w. (HostOk (), w)),
      ho_move_mouse = (\<lambda>x y w. (HostOk (), w)), ho_type_text = (\<lambda>t w. (HostOk (), w + length t)),
      ho_scroll = (\<lambda>x y w. (HostOk (), w)), ho_key = (\<lambda>k w. (HostOk (), w)),
      ho_is_sensitive_context = (\<lambda>w. (answer, w))\<rparr>"

theorem host_sensitivity_decides_witness:
  "snd (ui_type_run (\<lambda>_. []) (\<lambda>_. Inr ''pw'') (host_controller (demo_host None)) JNull 0) = 2 \<and>
   snd (ui_type_run (\<lambda>_. []) (\<lambda>_. Inr ''pw'') (host_controller (demo_host (Some True))) JNull 0) = 0"
  using host_sensitivity_decides [of "demo_host None" 0 None 0 "\<lambda>_. Inr ''pw''" JNull "''pw''" "\<lambda>_. []"]
    host_sensitivity_decides [of "demo_host (Some True)" 0 "Some True" 0 "\<lambda>_. Inr ''pw''" JNull "''pw''" "\<lambda>_. []"]
  by (simp add: demo_host_def)

end
