(* ===== verification/Programs.thy ===== *)
theory Programs
  imports Hosted_Calls Hosted_Requests Instances Pairing
begin

text \<open>
  The two programs of \<open>src/bins\<close>. \<open>mahi-daemon\<close> serves the router over an OpenAI-compatible HTTP
  API: its handlers are functions from a request to a response, a server-sent-event response being
  the list of its data. \<open>mahi-cli\<close> is a loop over the lines of its input: the commands, the printing
  of a turn's events and the answers to its approvals.

  The HTTP server, the sockets and the deserialisation of requests are outside the repository.
\<close>

section \<open>The router of both programs\<close>

definition anthropic_as_provider :: "http_env \<Rightarrow> anthropic_provider \<Rightarrow> provider" where
  "anthropic_as_provider E p =
     \<lparr>pv_descriptor = anthropic_descriptor p, pv_can_handle = anthropic_can_handle p, pv_generate = anthropic_generate E p\<rparr>"

definition openai_as_provider :: "http_env \<Rightarrow> openai_provider \<Rightarrow> provider" where
  "openai_as_provider E p =
     \<lparr>pv_descriptor = openai_descriptor p, pv_can_handle = openai_can_handle p, pv_generate = openai_generate E p\<rparr>"

text \<open>The provider that the environment variables choose, with its kind, when the feature \<open>hosted\<close> is
  on. Both programs make the same choice and differ in the label they give it.\<close>

definition env_provider :: "http_env \<Rightarrow> (string \<Rightarrow> string option) \<Rightarrow> bool \<Rightarrow> string \<Rightarrow> (string \<times> provider) option" where
  "env_provider E env mock model =
     (if mock then None
      else case env ''ANTHROPIC_API_KEY'' of
             Some key \<Rightarrow> Some (''anthropic'', anthropic_as_provider E (anthropic_with_model key model))
           | None \<Rightarrow>
               (case env ''OPENAI_API_KEY'' of
                  Some key \<Rightarrow>
                    Some (''openai-compatible'', openai_as_provider E
                      (openai_new (unwrap_or ''https://api.openai.com'' (env ''OPENAI_BASE_URL'')) key model))
                | None \<Rightarrow> None))"

definition daemon_router :: "http_env \<Rightarrow> (string \<Rightarrow> string option) \<Rightarrow> bool \<Rightarrow> string \<Rightarrow> router \<times> string" where
  "daemon_router E env mock model =
     (let b = add_provider builder_default OnDevice (on_device_as_provider on_device_new)
      in case env_provider E env mock model of
           None \<Rightarrow> (builder_build b, ''mahi-on-device'')
         | Some (kind, p) \<Rightarrow> (builder_build (add_provider b Hosted p), model))"

definition cli_router :: "http_env \<Rightarrow> (string \<Rightarrow> string option) \<Rightarrow> bool \<Rightarrow> string \<Rightarrow> router \<times> string" where
  "cli_router E env mock model =
     (let b = add_provider builder_default OnDevice (on_device_as_provider on_device_new)
      in case env_provider E env mock model of
           None \<Rightarrow> (builder_build b, ''on-device (mock model)'')
         | Some (kind, p) \<Rightarrow>
             (builder_build (add_provider b Hosted p), ''hosted '' @ utf8 [194, 183] @ '' '' @ kind @ ''/'' @ model))"

section \<open>The daemon\<close>

record chat_message =
  cg_role :: string
  cg_content :: string

record chat_request =
  cq_messages :: "chat_message list"
  cq_stream :: bool
  cq_temperature :: "f32 option"
  cq_max_tokens :: "u32 option"

definition chat_role :: "string \<Rightarrow> message_role" where
  "chat_role r =
     (if r = ''assistant'' then Assistant
      else if r = ''system'' then System
      else if r = ''tool'' then Tool
      else User)"

text \<open>The identifiers and times that \<open>Message::text\<close> and \<open>from_messages\<close> draw are given.\<close>

definition to_request :: "uuid \<Rightarrow> (nat \<Rightarrow> uuid) \<Rightarrow> (nat \<Rightarrow> datetime) \<Rightarrow> chat_request \<Rightarrow> inference_request" where
  "to_request rid ids now q =
     (request_from_messages rid
        (map (\<lambda>(i, m). message_text (now i) (ids i) 0 (chat_role (cg_role m)) (cg_content m) OnDevice (int i))
          (enumerate 0 (cq_messages q))))
     \<lparr>req_temperature := cq_temperature q, req_max_tokens := cq_max_tokens q\<rparr>"

definition stream_payload :: "string \<Rightarrow> string \<Rightarrow> json" where
  "stream_payload model content =
     json_obj [(''object'', JStr ''chat.completion.chunk''), (''model'', JStr model),
       (''choices'', JArr [json_obj [(''index'', JInt 0), (''delta'', json_obj [(''content'', JStr content)]),
          (''finish_reason'', JNull)]])]"

definition stream_event :: "(json \<Rightarrow> string) \<Rightarrow> string \<Rightarrow> contract_error + inference_chunk \<Rightarrow> string option" where
  "stream_event to_str model res =
     (case res of
        Inl e \<Rightarrow> None
      | Inr chunk \<Rightarrow> map_option (\<lambda>content. to_str (stream_payload model content)) (ch_delta chunk))"

definition sse_data :: "(json \<Rightarrow> string) \<Rightarrow> string \<Rightarrow> inference_stream \<Rightarrow> string list" where
  "sse_data to_str model st = List.map_filter (stream_event to_str model) st @ [''[DONE]'']"

definition texts :: "inference_stream \<Rightarrow> string list" where
  "texts st = List.map_filter (\<lambda>res. case res of Inl e \<Rightarrow> None | Inr chunk \<Rightarrow> ch_delta chunk) st"

definition completion_payload :: "string \<Rightarrow> string \<Rightarrow> json" where
  "completion_payload model content =
     json_obj [(''object'', JStr ''chat.completion''), (''model'', JStr model),
       (''choices'', JArr [json_obj [(''index'', JInt 0),
          (''message'', json_obj [(''role'', JStr ''assistant''), (''content'', JStr content)]),
          (''finish_reason'', JStr ''stop'')]])]"

datatype http_response = InternalServerError json | SseResponse "string list" | JsonResponse json

definition chat_completions ::
  "(uuid \<Rightarrow> string) \<Rightarrow> (json \<Rightarrow> string) \<Rightarrow> uuid \<Rightarrow> (nat \<Rightarrow> uuid) \<Rightarrow> (nat \<Rightarrow> datetime) \<Rightarrow> string \<Rightarrow> chat_request \<Rightarrow> router \<Rightarrow>
     http_response \<times> router" where
  "chat_completions u to_str rid ids now model q r =
     (let infer = to_request rid ids now q
      in case router_generate r infer never_cancelled of
           (Inl e, r') \<Rightarrow> (InternalServerError (json_obj [(''error'', JStr (show_error u e))]), r')
         | (Inr st, r') \<Rightarrow>
             (if cq_stream q then SseResponse (sse_data to_str model st)
              else JsonResponse (completion_payload model (concat (texts st))), r'))"

definition models_response :: "string \<Rightarrow> router \<Rightarrow> json" where
  "models_response model r =
     json_obj [(''object'', JStr ''list''),
       (''data'', JArr [json_obj [(''id'', JStr model), (''object'', JStr ''model''), (''owned_by'', JStr ''mahi''),
          (''context_window'', json_of_u32 (md_context_window (router_descriptor r)))]])]"

section \<open>The command line\<close>

datatype cli_command = CliEmpty | CliQuit | CliHelp | CliNew | CliTools | CliSpawn "string list" | CliChat string

fun split_on :: "char \<Rightarrow> string \<Rightarrow> string list" where
  "split_on d [] = [[]]"
| "split_on d (c # s) =
     (if c = d then [] # split_on d s
      else case split_on d s of [] \<Rightarrow> [[c]] | w # ws \<Rightarrow> (c # w) # ws)"

definition spawn_goals :: "string \<Rightarrow> string list" where
  "spawn_goals rest = filter (\<lambda>g. g \<noteq> []) (map str_trim (split_on (CHR ''|'') rest))"

definition cli_parse :: "string \<Rightarrow> cli_command" where
  "cli_parse line =
     (let input = str_trim line
      in if input = [] then CliEmpty
         else if input = ''/quit'' \<or> input = ''/exit'' then CliQuit
         else if input = ''/help'' then CliHelp
         else if input = ''/new'' then CliNew
         else if input = ''/tools'' then CliTools
         else if take 7 input = ''/spawn '' then CliSpawn (spawn_goals (drop 7 input))
         else CliChat input)"

definition brief :: "string \<Rightarrow> string" where
  "brief s =
     (let s = str_trim s
      in if length (str_chars s) \<le> 200 then s else take_chars 200 s @ ellipsis)"

definition cli_mark :: string where
  "cli_mark = [CHR 0x0A] @ ''  '' @ utf8 [226, 174, 145] @ '' ''"

fun render_tool_event :: "(json \<Rightarrow> string) \<Rightarrow> tool_event \<Rightarrow> string option" where
  "render_tool_event to_str (ToolResult output final) =
     Some (cli_mark @ ''tool result: '' @ brief (to_str output) @ [CHR 0x0A])"
| "render_tool_event to_str (ToolEventError message retryable) = Some (cli_mark @ ''tool error: '' @ message @ [CHR 0x0A])"
| "render_tool_event to_str (ToolCitation url title excerpt) = Some (cli_mark @ ''source: '' @ url @ [CHR 0x0A])"
| "render_tool_event to_str (ToolApprovalRequired i summary level) = Some (cli_mark @ summary @ [CHR 0x0A])"
| "render_tool_event to_str ToolCancelled = Some (cli_mark @ ''tool cancelled'' @ [CHR 0x0A])"
| "render_tool_event to_str (ToolChunk data) = None"

text \<open>The answer on a line of input; at the end of the input the line is empty.\<close>

definition says_yes :: "string \<Rightarrow> bool" where
  "says_yes line = (ascii_lower (str_trim line) \<in> {''y'', ''yes''})"

text \<open>A turn as it is printed: the output, the answers given, the lines left, and the error that ends
  the program when an answer is not accepted. \<open>resolve\<close> is the engine's answer to an approval.\<close>

record cli_turn =
  ct_output :: string
  ct_answers :: "(uuid \<times> bool) list"
  ct_lines :: "string list"
  ct_failed :: "string option"

fun read_line :: "string list \<Rightarrow> string \<times> string list" where
  "read_line [] = ([], [])"
| "read_line (l # ls) = (l, ls)"

fun print_turn ::
  "(uuid \<Rightarrow> string) \<Rightarrow> (json \<Rightarrow> string) \<Rightarrow> (uuid \<Rightarrow> bool \<Rightarrow> string option) \<Rightarrow> (contract_error + agent_event) list \<Rightarrow>
     string list \<Rightarrow> cli_turn" where
  "print_turn u to_str resolve [] lines = \<lparr>ct_output = [], ct_answers = [], ct_lines = lines, ct_failed = None\<rparr>"
| "print_turn u to_str resolve (Inl e # evs) lines =
     \<lparr>ct_output = [CHR 0x0A] @ ''[stream error] '' @ show_error u e @ [CHR 0x0A], ct_answers = [], ct_lines = lines,
      ct_failed = None\<rparr>"
| "print_turn u to_str resolve (Inr (ApprovalRequired i summary) # evs) lines =
     (let (line, rest) = read_line lines; approved = says_yes line;
          asked = [CHR 0x0A] @ ''[approval] '' @ summary @ [CHR 0x0A] @ ''approve? [y/N] ''
      in case resolve i approved of
           Some e \<Rightarrow> \<lparr>ct_output = asked, ct_answers = [(i, approved)], ct_lines = rest, ct_failed = Some e\<rparr>
         | None \<Rightarrow>
             (let t = print_turn u to_str resolve evs rest
              in t\<lparr>ct_output := asked @ (if approved then ''mahi > '' else ''(denied) mahi > '') @ ct_output t,
                   ct_answers := (i, approved) # ct_answers t\<rparr>))"
| "print_turn u to_str resolve (Inr ev # evs) lines =
     (let t = print_turn u to_str resolve evs lines
      in t\<lparr>ct_output :=
           (case ev of
              TextDelta s \<Rightarrow> s
            | ToolEv te \<Rightarrow> (case render_tool_event to_str te of Some s \<Rightarrow> s | None \<Rightarrow> [])
            | TurnFinished reason \<Rightarrow> [CHR 0x0A]
            | ErrorEv message \<Rightarrow> [CHR 0x0A] @ ''[error] '' @ message @ [CHR 0x0A]
            | _ \<Rightarrow> []) @ ct_output t\<rparr>)"

section \<open>Laws\<close>

lemma texts_simps [simp]:
  "texts [] = []" "texts (Inl e # st) = texts st"
  "texts (Inr c # st) = (case ch_delta c of Some t \<Rightarrow> t # texts st | None \<Rightarrow> texts st)"
  by (simp_all add: texts_def List.map_filter_def split: option.splits)

lemma sse_data_texts: "sse_data to_str model st = map (\<lambda>t. to_str (stream_payload model t)) (texts st) @ [''[DONE]'']"
proof -
  have "List.map_filter (stream_event to_str model) st = map (\<lambda>t. to_str (stream_payload model t)) (texts st)"
  proof (induction st)
    case (Cons res st)
    then show ?case
      by (cases res) (auto simp: stream_event_def List.map_filter_def split: option.splits)
  qed (simp add: List.map_filter_def)
  then show ?thesis by (simp add: sse_data_def)
qed

text \<open>What a client of the daemon makes of one event.\<close>

lemma payload_reads_back:
  assumes "decodes from_str to_str (stream_payload model t)" and "\<not> op_done p"
  shows "openai_handle_data from_str p (to_str (stream_payload model t)) =
    (if t = [] then [] else [Inr (chunk_text t (op_mode p))], p)"
  using assms
  by (simp add: openai_handle_data_def decodes_def openai_value_def stream_payload_def json_at_def json_obj_def Let_def)

lemma done_trimmed: "str_trim ''[DONE]'' = ''[DONE]''"
  by (simp add: str_trim_eval)

lemma stream_reads_back:
  assumes "\<forall>t \<in> set ts. decodes from_str to_str (stream_payload model t)" and "\<not> op_done p" and "\<not> op_finish_emitted p"
  shows "\<exists>k'. sse_body (openai_sse from_str) never_cancelled k p
      (map (\<lambda>d. Inr (''message'', d)) (map (\<lambda>t. to_str (stream_payload model t)) ts @ [''[DONE]''])) =
    (map (\<lambda>t. Inr (chunk_text t (op_mode p))) (filter (\<lambda>t. t \<noteq> []) ts) @ [Inr (chunk_finish FrStop (op_mode p))], True, k')"
  using assms(1)
proof (induction ts arbitrary: k)
  case Nil
  then show ?case
    using assms(2,3) by (simp add: sse_body.simps(2) never_cancelled_def openai_handle_data_def done_trimmed)
next
  case (Cons t ts)
  then obtain k' where "sse_body (openai_sse from_str) never_cancelled (Suc k) p
      (map (\<lambda>d. Inr (''message'', d)) (map (\<lambda>t. to_str (stream_payload model t)) ts @ [''[DONE]''])) =
    (map (\<lambda>t. Inr (chunk_text t (op_mode p))) (filter (\<lambda>t. t \<noteq> []) ts) @ [Inr (chunk_finish FrStop (op_mode p))], True, k')"
    by auto
  moreover from Cons.prems have "openai_handle_data from_str p (to_str (stream_payload model t)) =
    (if t = [] then [] else [Inr (chunk_text t (op_mode p))], p)"
    using payload_reads_back assms(2) by simp
  ultimately show ?case
    using assms(2) by (simp add: sse_body.simps(2) never_cancelled_def [of k])
qed

section \<open>Properties\<close>

text \<open>C17: what the daemon streams, another device reads back. When the daemon answers a streaming
  request, the OpenAI-compatible provider of another device turns its events into the text of the
  router's stream, piece by piece and stamped with the reader's mode, and one finish chunk at the
  end; a buffered answer holds the same text. An error, the reason of the finish and tool calls of
  the router's stream do not come through: the reader always sees a normal stop.\<close>

theorem daemon_stream_reads_back:
  assumes "fst (router_generate r (to_request rid ids now q) never_cancelled) = Inr st"
    and "\<forall>t \<in> set (texts st). decodes from_str to_str (stream_payload model t)"
  shows "\<exists>ds. fst (chat_completions u to_str rid ids now model (q\<lparr>cq_stream := True\<rparr>) r) = SseResponse ds \<and>
    chunks_from_events (openai_sse from_str) (map (\<lambda>d. Inr (''message'', d)) ds) (openai_parser_new m) never_cancelled =
      map (\<lambda>t. Inr (chunk_text t m)) (filter (\<lambda>t. t \<noteq> []) (texts st)) @ [Inr (chunk_finish FrStop m)] \<and>
    drain_text (chunks_from_events (openai_sse from_str) (map (\<lambda>d. Inr (''message'', d)) ds) (openai_parser_new m) never_cancelled) =
      Inr (concat (texts st)) \<and>
    fst (chat_completions u to_str rid ids now model (q\<lparr>cq_stream := False\<rparr>) r) =
      JsonResponse (completion_payload model (concat (texts st)))"
proof -
  let ?ds = "sse_data to_str model st"
  have read: "chunks_from_events (openai_sse from_str) (map (\<lambda>d. Inr (''message'', d)) ?ds) (openai_parser_new m) never_cancelled =
      map (\<lambda>t. Inr (chunk_text t m)) (filter (\<lambda>t. t \<noteq> []) (texts st)) @ [Inr (chunk_finish FrStop m)]"
    using stream_reads_back [of "texts st" from_str to_str model "openai_parser_new m" 0] assms(2)
    unfolding sse_data_texts chunks_from_events_def
    by (auto simp: openai_parser_new_def)
  have "drain_text (map (\<lambda>t. Inr (chunk_text t m)) (filter (\<lambda>t. t \<noteq> []) ts) @ [Inr (chunk_finish FrStop m)]) =
      Inr (concat ts)" for ts
    by (induction ts) (auto simp: chunk_text_def chunk_finish_def and_then_def)
  moreover have "to_request rid ids now (q\<lparr>cq_stream := b\<rparr>) = to_request rid ids now q" for b
    by (simp add: to_request_def)
  ultimately show ?thesis
    using read assms(1)
    by (cases "router_generate r (to_request rid ids now q) never_cancelled") (auto simp: chat_completions_def Let_def)
qed

text \<open>The daemon with its own model, and a codec for its payloads.\<close>

definition demo_payload_str :: "json \<Rightarrow> string" where
  "demo_payload_str j =
     ''x'' @ unwrap_or [] (json_as_str (json_at (json_at (json_nth (json_at j ''choices'') 0) ''delta'') ''content'')) @ ''x''"

definition demo_payload_of :: "string \<Rightarrow> string + json" where
  "demo_payload_of s = Inr (stream_payload ''m'' (butlast (tl s)))"

definition demo_daemon :: router where
  "demo_daemon = builder_build (add_provider builder_default OnDevice (on_device_as_provider (on_device_canned ''Kia ora koutou'')))"

definition demo_chat :: chat_request where
  "demo_chat = \<lparr>cq_messages = [\<lparr>cg_role = ''user'', cg_content = ''hello''\<rparr>], cq_stream = False, cq_temperature = None,
     cq_max_tokens = None\<rparr>"

lemma demo_payload_text: "demo_payload_str (stream_payload model t) = CHR ''x'' # t @ ''x''"
  by (simp add: demo_payload_str_def stream_payload_def json_at_def json_obj_def)

lemma on_device_texts: "texts (map (stamp_mode m) (on_device_stream never_cancelled k ws)) = ws"
proof (induction ws arbitrary: k)
  case Nil
  show ?case
    by (subst on_device_stream.simps) (simp add: never_cancelled_def stamp_mode_def chunk_finish_def)
next
  case (Cons w ws)
  then show ?case
    by (subst on_device_stream.simps) (simp add: never_cancelled_def [of k] stamp_mode_def [of m "Inr _"] chunk_text_def)
qed

theorem daemon_stream_reads_back_witness:
  "\<exists>ds. fst (chat_completions (\<lambda>_. []) demo_payload_str 0 (\<lambda>_. 0) (\<lambda>_. 0) ''m'' (demo_chat\<lparr>cq_stream := True\<rparr>) demo_daemon) = SseResponse ds \<and>
    drain_text (chunks_from_events (openai_sse demo_payload_of) (map (\<lambda>d. Inr (''message'', d)) ds) (openai_parser_new MacRemote)
      never_cancelled) = Inr ''Kia ora koutou''"
proof -
  let ?st = "map (stamp_mode OnDevice) (on_device_stream never_cancelled 0 [''Kia '', ''ora '', ''koutou''])"
  have g: "fst (router_generate demo_daemon (to_request 0 (\<lambda>_. 0) (\<lambda>_. 0) demo_chat) never_cancelled) = Inr ?st"
    by (simp add: demo_daemon_def demo_chat_def to_request_def message_text_def builder_build_def add_provider_def builder_default_def router_generate_def select_def
        PREFERENCE_ORDER_def on_device_as_provider_def on_device_can_handle_def on_device_generate_def on_device_reply_def
        on_device_canned_def request_from_messages_def chr_yes_def satisfied_by_def caps_none_def)
  have st: "texts ?st = [''Kia '', ''ora '', ''koutou'']" by (rule on_device_texts)
  have a: "str_trim ''xKia x'' = ''xKia x''" by (simp add: str_trim_eval)
  have b: "str_trim ''xora x'' = ''xora x''" by (simp add: str_trim_eval)
  have c: "str_trim ''xkoutoux'' = ''xkoutoux''" by (simp add: str_trim_eval)
  from a b c have "\<forall>t \<in> set [''Kia '', ''ora '', ''koutou'']. decodes demo_payload_of demo_payload_str (stream_payload ''m'' t)"
    by (simp add: decodes_def demo_payload_of_def demo_payload_text)
  with daemon_stream_reads_back [OF g, of demo_payload_of demo_payload_str "''m''" "\<lambda>_. []" MacRemote] st
  show ?thesis by auto
qed

text \<open>The events a printed turn reaches, and the approvals among them.\<close>

fun reached :: "(contract_error + agent_event) list \<Rightarrow> agent_event list" where
  "reached (Inr ev # evs) = ev # reached evs"
| "reached _ = []"

definition approval_ids :: "agent_event list \<Rightarrow> uuid list" where
  "approval_ids evs = List.map_filter (\<lambda>ev. case ev of ApprovalRequired i summary \<Rightarrow> Some i | _ \<Rightarrow> None) evs"

lemma approval_ids_simps [simp]:
  "approval_ids [] = []"
  "approval_ids (ev # evs) = (case ev of ApprovalRequired i summary \<Rightarrow> i # approval_ids evs | _ \<Rightarrow> approval_ids evs)"
  by (simp_all add: approval_ids_def List.map_filter_def split: agent_event.splits)

text \<open>The \<open>n\<close>-th line of the input, empty after its end.\<close>

definition line_at :: "string list \<Rightarrow> nat \<Rightarrow> string" where
  "line_at lines n = (if n < length lines then lines ! n else [])"

lemma line_at_rest: "line_at (snd (read_line lines)) n = line_at lines (Suc n)"
  by (cases lines) (simp_all add: line_at_def)

lemma read_line_at: "fst (read_line lines) = line_at lines 0" "snd (read_line lines) = drop 1 lines"
  by (cases lines; simp add: line_at_def)+

text \<open>One answer per approval, each from its own line.\<close>

lemma print_turn_answers:
  "ct_answers (print_turn u to_str resolve evs lines) =
     map (\<lambda>n. (approval_ids (reached evs) ! n, says_yes (line_at lines n)))
       [0..<length (ct_answers (print_turn u to_str resolve evs lines))] \<and>
   length (ct_answers (print_turn u to_str resolve evs lines)) \<le> length (approval_ids (reached evs)) \<and>
   ct_lines (print_turn u to_str resolve evs lines) =
     drop (length (ct_answers (print_turn u to_str resolve evs lines))) lines \<and>
   (ct_failed (print_turn u to_str resolve evs lines) = None \<longrightarrow>
      length (ct_answers (print_turn u to_str resolve evs lines)) = length (approval_ids (reached evs)))"
proof (induction u to_str resolve evs lines rule: print_turn.induct)
  case (3 u to_str resolve i summary evs lines)
  obtain line rest where l: "read_line lines = (line, rest)" by fastforce
  then have line: "line = line_at lines 0" "rest = drop 1 lines" "\<And>n. line_at rest n = line_at lines (Suc n)"
    using read_line_at [of lines] line_at_rest [of lines] by auto
  show ?case
  proof (cases "resolve i (says_yes line)")
    case (Some e)
    with l line show ?thesis by simp
  next
    case None
    let ?t = "print_turn u to_str resolve evs rest"
    from 3 [OF refl l [symmetric] refl refl None] have IH: "ct_answers ?t =
        map (\<lambda>n. (approval_ids (reached evs) ! n, says_yes (line_at rest n))) [0..<length (ct_answers ?t)]"
      "length (ct_answers ?t) \<le> length (approval_ids (reached evs))"
      "ct_lines ?t = drop (length (ct_answers ?t)) rest"
      "ct_failed ?t = None \<longrightarrow> length (ct_answers ?t) = length (approval_ids (reached evs))"
      by blast+
    have "(i, says_yes line) # ct_answers ?t =
        map (\<lambda>n. ((i # approval_ids (reached evs)) ! n, says_yes (line_at lines n))) [0..<Suc (length (ct_answers ?t))]"
      by (subst IH(1)) (simp add: upt_conv_Cons map_Suc_upt [symmetric] line(1,3) del: upt_Suc)
    moreover obtain out where "print_turn u to_str resolve (Inr (ApprovalRequired i summary) # evs) lines =
        ?t\<lparr>ct_output := out, ct_answers := (i, says_yes line) # ct_answers ?t\<rparr>"
      using l None by (simp add: Let_def)
    ultimately show ?thesis
      using IH(2-4) None line(2) by (simp del: upt_Suc print_turn.simps)
  qed
qed (simp_all add: Let_def)

section \<open>The loop of the command line\<close>

text \<open>The engine and the registry as the loop calls them; the number is that of the line read, so that
  the same call may answer differently later.\<close>

record cli_env =
  ce_create :: "nat \<Rightarrow> contract_error + uuid"
  ce_describe :: "nat \<Rightarrow> tool_descriptor list"
  ce_spawn :: "nat \<Rightarrow> string list \<Rightarrow> contract_error + string list"
  ce_run_turn :: "nat \<Rightarrow> uuid \<Rightarrow> string \<Rightarrow> contract_error + (contract_error + agent_event) list"
  ce_resolve :: "nat \<Rightarrow> uuid \<Rightarrow> bool \<Rightarrow> string option"
  ce_show_uuid :: "uuid \<Rightarrow> string"
  ce_to_str :: "json \<Rightarrow> string"

definition nl :: string where
  "nl = [CHR 0x0A]"

definition cli_help :: string where
  "cli_help = ''commands:'' @ nl @ ''  /new            start a fresh conversation'' @ nl @
     ''  /tools          list available tools'' @ nl @ ''  /spawn a | b    run parallel subagents'' @ nl @
     ''  /quit           exit'' @ nl"

text \<open>\<open>{:<16}\<close> fills up with blanks, counting characters.\<close>

definition pad_right :: "nat \<Rightarrow> string \<Rightarrow> string" where
  "pad_right n s = s @ replicate (n - length (str_chars s)) (CHR '' '')"

definition tool_line :: "tool_descriptor \<Rightarrow> string" where
  "tool_line d =
     ''  '' @ pad_right 16 (td_id d) @ '' '' @ td_display_name d @
     (if td_requires_approval d then '' (needs approval)'' else []) @ nl"

definition cli_spawn :: "cli_env \<Rightarrow> nat \<Rightarrow> string list \<Rightarrow> string" where
  "cli_spawn E n goals =
     (if goals = [] then ''usage: /spawn goal one | goal two'' @ nl
      else ''spawning '' @ decimal (length goals) @ '' subagents'' @ ellipsis @ nl @
        (case ce_spawn E n goals of
           Inr results \<Rightarrow>
             concat (map (\<lambda>(i, r). ''  subagent '' @ decimal (i + 1) @ '': '' @ brief r @ nl) (enumerate 0 results))
         | Inl e \<Rightarrow> ''  subagent error: '' @ show_error (ce_show_uuid E) e @ nl))"

definition printed :: "string \<Rightarrow> string \<times> string option \<Rightarrow> string \<times> string option" where
  "printed out r = (out @ fst r, snd r)"

text \<open>What the program prints and, when it ends with an error, that error.\<close>

function cli_loop :: "cli_env \<Rightarrow> nat \<Rightarrow> uuid \<Rightarrow> string list \<Rightarrow> string \<times> string option" where
  "cli_loop E n conv [] = (''you > '' @ nl @ ''bye.'' @ nl, None)"
| "cli_loop E n conv (line # lines) =
     printed ''you > ''
       (case cli_parse line of
          CliEmpty \<Rightarrow> cli_loop E (Suc n) conv lines
        | CliQuit \<Rightarrow> (''bye.'' @ nl, None)
        | CliHelp \<Rightarrow> printed cli_help (cli_loop E (Suc n) conv lines)
        | CliNew \<Rightarrow>
            (case ce_create E n of
               Inl e \<Rightarrow> ([], Some (show_error (ce_show_uuid E) e))
             | Inr conv' \<Rightarrow> printed (''(new conversation)'' @ nl) (cli_loop E (Suc n) conv' lines))
        | CliTools \<Rightarrow> printed (concat (map tool_line (ce_describe E n))) (cli_loop E (Suc n) conv lines)
        | CliSpawn goals \<Rightarrow> printed (cli_spawn E n goals) (cli_loop E (Suc n) conv lines)
        | CliChat input \<Rightarrow>
            (case ce_run_turn E n conv input of
               Inl e \<Rightarrow> printed (''[error] '' @ show_error (ce_show_uuid E) e @ nl) (cli_loop E (Suc n) conv lines)
             | Inr evs \<Rightarrow>
                 (let t = print_turn (ce_show_uuid E) (ce_to_str E) (ce_resolve E n) evs lines
                  in printed (''mahi > '' @ ct_output t)
                       (case ct_failed t of
                          Some e \<Rightarrow> ([], Some e)
                        | None \<Rightarrow> cli_loop E (Suc n) conv (ct_lines t)))))"
  by pat_completeness auto

text \<open>Every pass of the loop uses up at least the line it read.\<close>

termination cli_loop
proof (relation "measure (\<lambda>(E, n, conv, lines). length lines)")
  fix E :: cli_env and n line lines input evs t
  assume "t = print_turn (ce_show_uuid E) (ce_to_str E) (ce_resolve E n) evs lines"
  with print_turn_answers [of "ce_show_uuid E" "ce_to_str E" "ce_resolve E n" evs lines]
  have "length (ct_lines t) \<le> length lines" by simp
  then show "((E, Suc n, conv, ct_lines t), (E, n, conv, line # lines)) \<in> measure (\<lambda>(E, n, conv, lines). length lines)" for conv
    by simp
qed simp_all

text \<open>The first conversation is made before the loop; its failure ends the program.\<close>

definition cli_main :: "cli_env \<Rightarrow> contract_error + uuid \<Rightarrow> string \<Rightarrow> string list \<Rightarrow> string \<times> string option" where
  "cli_main E first active lines =
     (case first of
        Inl e \<Rightarrow> ([], Some (''creating conversation: '' @ show_error (ce_show_uuid E) e))
      | Inr conv \<Rightarrow>
          printed (''Mahi CLI '' @ utf8 [194, 183] @ '' '' @ active @ nl @ ''Type a message, or /help for commands.'' @ nl @ nl)
            (cli_loop E 0 conv lines))"

text \<open>Whatever the input, the program ends: with a farewell, or with an error only when a conversation
  cannot be made or the engine refuses an answer. A turn that fails or streams an error does not end it.\<close>

definition ends_well :: "cli_env \<Rightarrow> string \<times> string option \<Rightarrow> bool" where
  "ends_well E r \<longleftrightarrow>
     (case snd r of
        None \<Rightarrow> (\<exists>out. fst r = out @ ''bye.'' @ nl)
      | Some e \<Rightarrow> (\<exists>n e. ce_create E n = Inl e) \<or> (\<exists>n i b e. ce_resolve E n i b = Some e))"

lemma printed_simps [simp]: "fst (printed out r) = out @ fst r" "snd (printed out r) = snd r"
  by (simp_all add: printed_def)

lemma ends_well_printed [intro]: "ends_well E r \<Longrightarrow> ends_well E (printed out r)"
  by (auto simp: ends_well_def split: option.splits)

lemma ends_well_last [intro]:
  "ends_well E (''bye.'' @ nl, None)"
  "ce_create E n = Inl e \<Longrightarrow> ends_well E ([], Some e')"
  "ce_resolve E n i b = Some e2 \<Longrightarrow> ends_well E ([], Some e')"
  by (auto simp: ends_well_def)

lemma print_turn_refused:
  "ct_failed (print_turn u to_str resolve evs lines) = Some e \<Longrightarrow> \<exists>i b. resolve i b = Some e"
  by (induction u to_str resolve evs lines rule: print_turn.induct) (auto simp: Let_def split: prod.splits option.splits)

lemma cli_loop_ends: "ends_well E (cli_loop E n conv lines)"
proof (induction E n conv lines rule: cli_loop.induct)
  case (2 E n conv line lines)
  note IH = 2
  show ?case
  proof (cases "cli_parse line")
    case CliNew
    with IH(3) show ?thesis by (cases "ce_create E n") auto
  next
    case (CliChat input)
    show ?thesis
    proof (cases "ce_run_turn E n conv input")
      case (Inr evs)
      let ?t = "print_turn (ce_show_uuid E) (ce_to_str E) (ce_resolve E n) evs lines"
      show ?thesis
      proof (cases "ct_failed ?t")
        case None
        from IH(7) [OF CliChat Inr refl None] show ?thesis by (auto simp: CliChat Inr None Let_def)
      next
        case (Some e)
        with print_turn_refused show ?thesis by (fastforce simp: CliChat Inr Let_def)
      qed
    qed (use IH(6) CliChat in auto)
  qed (use IH ends_well_last in auto)
qed (simp add: ends_well_def)

text \<open>C18: on the command line a tool is approved only by a line that says so. Printing a turn asks for
  each approval it reaches in order and reads one line for it; the answer given to the engine is yes
  exactly when that line, trimmed and in lower case, is \<open>y\<close> or \<open>yes\<close>, and no after the end of the
  input; unless the engine refuses an answer, every approval reached is answered.\<close>

theorem cli_approves_only_on_yes:
  assumes "t = print_turn u to_str resolve evs lines" and "n < length (ct_answers t)"
  shows "n < length (approval_ids (reached evs)) \<and>
    ct_answers t ! n = (approval_ids (reached evs) ! n, n < length lines \<and> ascii_lower (str_trim (lines ! n)) \<in> {''y'', ''yes''}) \<and>
    (ct_failed t = None \<longrightarrow> length (ct_answers t) = length (approval_ids (reached evs)))"
proof -
  note p = print_turn_answers [of u to_str resolve evs lines, folded assms(1)]
  have "\<not> says_yes []" by (simp add: says_yes_def str_trim_eval ascii_lower_def)
  then have yes: "says_yes (line_at lines n) \<longleftrightarrow> n < length lines \<and> ascii_lower (str_trim (lines ! n)) \<in> {''y'', ''yes''}"
    by (simp add: line_at_def) (simp add: says_yes_def)
  have "ct_answers t ! n = (approval_ids (reached evs) ! n, says_yes (line_at lines n))"
    using assms(2) by (subst p [THEN conjunct1]) simp
  with yes p assms(2) show ?thesis by auto
qed

theorem cli_approves_only_on_yes_witness:
  "let t = print_turn (\<lambda>_. []) (\<lambda>_. []) (\<lambda>_ _. None)
     [Inr (ApprovalRequired 1 ''rm''), Inr (TextDelta ''ok''), Inr (ApprovalRequired 2 ''mv'')] [''Yes '']
   in ct_answers t ! 0 = (1, True) \<and> ct_answers t ! 1 = (2, False)"
proof -
  let ?evs = "[Inr (ApprovalRequired 1 ''rm''), Inr (TextDelta ''ok''), Inr (ApprovalRequired 2 ''mv'')]"
  let ?t = "print_turn (\<lambda>_. []) (\<lambda>_. []) (\<lambda>_ _. None) ?evs [''Yes '']"
  have y: "ascii_lower (str_trim ''Yes '') = ''yes''" by (simp add: str_trim_eval ascii_lower_def char_of_def bit_0)
  have n: "length (ct_answers ?t) = 2" by (simp add: Let_def)
  from cli_approves_only_on_yes [OF refl, of 0 "\<lambda>_. []" "\<lambda>_. []" "\<lambda>_ _. None" ?evs "[''Yes '']"]
    cli_approves_only_on_yes [OF refl, of 1 "\<lambda>_. []" "\<lambda>_. []" "\<lambda>_ _. None" ?evs "[''Yes '']"] y n
  show ?thesis unfolding Let_def by (simp del: print_turn.simps)
qed

end
