(* ===== verification/Mem_Backend.thy ===== *)
theory Mem_Backend
  imports Store_Laws Router "HOL-Library.AList" "HOL-Library.Multiset"
begin

text \<open>
  The test doubles of \<open>crates/mahi-contracts/src/testkit.rs\<close>: an inference provider with a canned
  reply, and a data store in memory that implements every store trait. The tests of the other crates
  run on them, so what they show of the program rests on the doubles answering as the real parts do:
  the store in memory is compared with the encrypted one, operation by operation.

  A \<open>HashMap\<close> is an association list with distinct keys. Iterating over it gives its values in an
  order of its own choosing, which is the argument \<open>order\<close> of the operations that iterate.
\<close>

section \<open>The provider\<close>

record mock_provider =
  mk_reply :: string

definition mock_default :: mock_provider where
  "mock_default = \<lparr>mk_reply = ''Hello from Mahi. This is the on-device mock model.''\<rparr>"

definition mock_echo :: mock_provider where
  "mock_echo = \<lparr>mk_reply = []\<rparr>"

definition mock_descriptor :: "mock_provider \<Rightarrow> model_descriptor" where
  "mock_descriptor p =
     \<lparr>md_id = ''mock-on-device'', md_display_name = ''Mahi Mock (on-device)'', md_context_window = 4096,
      md_capabilities = \<lparr>cap_vision = False, cap_tool_calling = False, cap_min_context_window = 0,
        cap_code_gen = False, cap_thinking = False\<rparr>,
      md_limitations = [NoComplexCodeGen, MaxContextWindow 4096],
      md_size_bytes = None, md_quantization = None, md_source = SrcOnDevice,
      md_perf_profile = \<lparr>ttft_ms = 20, tok_per_sec = Fin 40\<rparr>\<rparr>"

definition mock_can_handle :: "mock_provider \<Rightarrow> inference_request \<Rightarrow> can_handle_result" where
  "mock_can_handle p req = chr_yes"

definition mock_generate :: "mock_provider \<Rightarrow> inference_request \<Rightarrow> cancel_token \<Rightarrow> contract_error + inference_stream" where
  "mock_generate p req cancel =
     (let reply = (if mk_reply p = []
                   then ''You said: '' @ (if req_messages req = [] then [] else text_content (last (req_messages req)))
                   else mk_reply p)
      in Inr (map (\<lambda>w. Inr (chunk_text w OnDevice)) (split_inclusive CHR '' '' reply) @
              [Inr (chunk_finish FrStop OnDevice)]))"

section \<open>The store\<close>

record mem_backend =
  mb_conversations :: "(uuid \<times> conversation) list"
  mb_messages :: "message list"
  mb_memory :: "(uuid \<times> memory_record) list"
  mb_skills :: "(uuid \<times> skill) list"
  mb_tasks :: "(uuid \<times> task_item) list"
  mb_artifacts :: "(uuid \<times> artifact) list"
  mb_settings :: "(string \<times> setting) list"
  mb_checkpoints :: "checkpoint list"
  mb_audit :: "audit_event list"
  mb_grants :: "permission_grant list"

definition mem_new :: mem_backend where
  "mem_new = \<lparr>mb_conversations = [], mb_messages = [], mb_memory = [], mb_skills = [], mb_tasks = [],
     mb_artifacts = [], mb_settings = [], mb_checkpoints = [], mb_audit = [], mb_grants = []\<rparr>"

definition mem_conversations_get :: "mem_backend \<Rightarrow> uuid \<Rightarrow> contract_error + conversation option" where
  "mem_conversations_get m i = Inr (map_of (mb_conversations m) i)"

definition mem_conversations_upsert :: "mem_backend \<Rightarrow> conversation \<Rightarrow> contract_error + mem_backend" where
  "mem_conversations_upsert m conv =
     Inr (m\<lparr>mb_conversations := AList.update (conv_id conv) conv (mb_conversations m)\<rparr>)"

definition mem_conversations_delete :: "mem_backend \<Rightarrow> uuid \<Rightarrow> contract_error + mem_backend" where
  "mem_conversations_delete m i = Inr (m\<lparr>mb_conversations := AList.delete i (mb_conversations m)\<rparr>)"

definition mem_conversations_list ::
  "(conversation list \<Rightarrow> conversation list) \<Rightarrow> mem_backend \<Rightarrow> usize \<Rightarrow> contract_error + conversation list" where
  "mem_conversations_list order m limit =
     Inr (take (unat limit) (sort_key (\<lambda>c. - conv_updated_at c) (order (map snd (mb_conversations m)))))"

definition mem_messages_append :: "mem_backend \<Rightarrow> message \<Rightarrow> contract_error + mem_backend" where
  "mem_messages_append m msg = Inr (m\<lparr>mb_messages := mb_messages m @ [msg]\<rparr>)"

definition mem_messages_range :: "mem_backend \<Rightarrow> uuid \<Rightarrow> usize \<Rightarrow> contract_error + message list" where
  "mem_messages_range m c limit =
     Inr (take (unat limit)
       (sort_key msg_sequence_num (filter (\<lambda>w. msg_conversation_id w = c) (mb_messages m))))"

definition mem_messages_next_sequence :: "mem_backend \<Rightarrow> uuid \<Rightarrow> contract_error + int" where
  "mem_messages_next_sequence m c =
     (let seqs = map msg_sequence_num (filter (\<lambda>w. msg_conversation_id w = c) (mb_messages m))
      in Inr (if seqs = [] then 0 else i64_succ (fold max (tl seqs) (hd seqs))))"

definition mem_memory_get :: "mem_backend \<Rightarrow> uuid \<Rightarrow> contract_error + memory_record option" where
  "mem_memory_get m i = Inr (map_of (mb_memory m) i)"

definition mem_memory_upsert :: "mem_backend \<Rightarrow> memory_record \<Rightarrow> contract_error + mem_backend" where
  "mem_memory_upsert m rec = Inr (m\<lparr>mb_memory := AList.update (mem_id rec) rec (mb_memory m)\<rparr>)"

definition mem_memory_delete :: "mem_backend \<Rightarrow> uuid \<Rightarrow> contract_error + mem_backend" where
  "mem_memory_delete m i = Inr (m\<lparr>mb_memory := AList.delete i (mb_memory m)\<rparr>)"

definition mem_semantic_search ::
  "(string \<Rightarrow> string) \<Rightarrow> (memory_record list \<Rightarrow> memory_record list) \<Rightarrow> mem_backend \<Rightarrow> string \<Rightarrow> uuid option \<Rightarrow> usize \<Rightarrow>
     contract_error + memory_record list" where
  "mem_semantic_search low order m query space limit =
     (let q = low query
      in Inr (take (unat limit)
           (filter (\<lambda>r. q = [] \<or> str_contains (low (mem_content r)) q)
             (filter (\<lambda>r. space = None \<or> mem_space_id r = space) (order (map snd (mb_memory m)))))))"

definition mem_skills_get :: "mem_backend \<Rightarrow> uuid \<Rightarrow> contract_error + skill option" where
  "mem_skills_get m i = Inr (map_of (mb_skills m) i)"

definition mem_skills_list_by_scope ::
  "(skill list \<Rightarrow> skill list) \<Rightarrow> mem_backend \<Rightarrow> skill_scope \<Rightarrow> contract_error + skill list" where
  "mem_skills_list_by_scope order m s = Inr (filter (\<lambda>k. skill_scope k = s) (order (map snd (mb_skills m))))"

definition mem_skills_upsert :: "mem_backend \<Rightarrow> skill \<Rightarrow> contract_error + mem_backend" where
  "mem_skills_upsert m sk = Inr (m\<lparr>mb_skills := AList.update (skill_id sk) sk (mb_skills m)\<rparr>)"

definition mem_skills_delete :: "mem_backend \<Rightarrow> uuid \<Rightarrow> contract_error + mem_backend" where
  "mem_skills_delete m i = Inr (m\<lparr>mb_skills := AList.delete i (mb_skills m)\<rparr>)"

definition mem_tasks_get :: "mem_backend \<Rightarrow> uuid \<Rightarrow> contract_error + task_item option" where
  "mem_tasks_get m i = Inr (map_of (mb_tasks m) i)"

definition mem_tasks_upsert :: "mem_backend \<Rightarrow> task_item \<Rightarrow> contract_error + mem_backend" where
  "mem_tasks_upsert m tk = Inr (m\<lparr>mb_tasks := AList.update (task_id tk) tk (mb_tasks m)\<rparr>)"

definition mem_tasks_delete :: "mem_backend \<Rightarrow> uuid \<Rightarrow> contract_error + mem_backend" where
  "mem_tasks_delete m i = Inr (m\<lparr>mb_tasks := AList.delete i (mb_tasks m)\<rparr>)"

definition mem_tasks_list :: "(task_item list \<Rightarrow> task_item list) \<Rightarrow> mem_backend \<Rightarrow> usize \<Rightarrow> contract_error + task_item list" where
  "mem_tasks_list order m limit = Inr (take (unat limit) (order (map snd (mb_tasks m))))"

definition mem_artifacts_write :: "mem_backend \<Rightarrow> artifact \<Rightarrow> contract_error + mem_backend" where
  "mem_artifacts_write m a = Inr (m\<lparr>mb_artifacts := AList.update (art_id a) a (mb_artifacts m)\<rparr>)"

definition mem_artifacts_read :: "mem_backend \<Rightarrow> uuid \<Rightarrow> contract_error + artifact option" where
  "mem_artifacts_read m i = Inr (map_of (mb_artifacts m) i)"

definition mem_settings_get :: "mem_backend \<Rightarrow> string \<Rightarrow> contract_error + setting option" where
  "mem_settings_get m k = Inr (map_of (mb_settings m) k)"

definition mem_settings_set :: "mem_backend \<Rightarrow> setting \<Rightarrow> contract_error + mem_backend" where
  "mem_settings_set m st = Inr (m\<lparr>mb_settings := AList.update (set_key st) st (mb_settings m)\<rparr>)"

definition mem_checkpoints_write :: "mem_backend \<Rightarrow> checkpoint \<Rightarrow> contract_error + mem_backend" where
  "mem_checkpoints_write m c = Inr (m\<lparr>mb_checkpoints := mb_checkpoints m @ [c]\<rparr>)"

text \<open>\<open>max_by_key\<close> takes the last of several greatest elements.\<close>

fun max_by_key :: "('a \<Rightarrow> int) \<Rightarrow> 'a list \<Rightarrow> 'a option" where
  "max_by_key f [] = None"
| "max_by_key f (x # xs) =
     (case max_by_key f xs of None \<Rightarrow> Some x | Some y \<Rightarrow> Some (if f y < f x then x else y))"

definition mem_checkpoints_latest :: "mem_backend \<Rightarrow> uuid \<Rightarrow> contract_error + checkpoint option" where
  "mem_checkpoints_latest m c =
     Inr (max_by_key cp_captured_at (filter (\<lambda>k. cp_conversation_id k = c) (mb_checkpoints m)))"

definition mem_audit_append :: "mem_backend \<Rightarrow> audit_event \<Rightarrow> contract_error + mem_backend" where
  "mem_audit_append m ev = Inr (m\<lparr>mb_audit := mb_audit m @ [ev]\<rparr>)"

definition mem_audit_query :: "mem_backend \<Rightarrow> uuid option \<Rightarrow> usize \<Rightarrow> contract_error + audit_event list" where
  "mem_audit_query m session limit =
     Inr (take (unat limit) (filter (\<lambda>ev. session = None \<or> au_session_id ev = session) (mb_audit m)))"

definition mem_permissions_check ::
  "mem_backend \<Rightarrow> permission_subject \<Rightarrow> string list \<Rightarrow> contract_error + permission_grant option" where
  "mem_permissions_check m subject scope =
     Inr (find (\<lambda>g. pg_subject g = subject \<and> pg_revoked_at g = None) (mb_grants m))"

definition mem_permissions_grant :: "mem_backend \<Rightarrow> permission_grant \<Rightarrow> contract_error + mem_backend" where
  "mem_permissions_grant m g = Inr (m\<lparr>mb_grants := mb_grants m @ [g]\<rparr>)"

fun revoke_first :: "datetime \<Rightarrow> uuid \<Rightarrow> permission_grant list \<Rightarrow> permission_grant list" where
  "revoke_first now i [] = []"
| "revoke_first now i (g # gs) =
     (if pg_grant_id g = i then g\<lparr>pg_revoked_at := Some now\<rparr> # gs else g # revoke_first now i gs)"

definition mem_permissions_revoke :: "datetime \<Rightarrow> mem_backend \<Rightarrow> uuid \<Rightarrow> contract_error + mem_backend" where
  "mem_permissions_revoke now m i = Inr (m\<lparr>mb_grants := revoke_first now i (mb_grants m)\<rparr>)"

definition mem_permissions_list :: "mem_backend \<Rightarrow> contract_error + permission_grant list" where
  "mem_permissions_list m = Inr (mb_grants m)"

section \<open>The doubles keep the contracts\<close>

lemmas mem_defs =
  mem_conversations_get_def mem_conversations_upsert_def mem_conversations_delete_def
  mem_memory_get_def mem_memory_upsert_def mem_memory_delete_def
  mem_skills_get_def mem_skills_upsert_def mem_skills_delete_def
  mem_tasks_get_def mem_tasks_upsert_def mem_tasks_delete_def
  mem_artifacts_read_def mem_artifacts_write_def mem_settings_get_def mem_settings_set_def

interpretation mock: inference_provider mock_can_handle mock_generate "\<lambda>_. True"
  by unfold_locales
    (auto simp: mock_generate_def Let_def chunk_modes_def chunk_text_def chunk_finish_def)

interpretation mem_conversations:
  keyed_store_del mem_conversations_get "\<lambda>m (_ :: unit). mem_conversations_upsert m" conv_id "\<lambda>_. True" mem_conversations_delete
  by unfold_locales (auto simp: mem_defs update_conv' delete_conv')

interpretation mem_memory:
  keyed_store_del mem_memory_get "\<lambda>m (_ :: unit). mem_memory_upsert m" mem_id "\<lambda>_. True" mem_memory_delete
  by unfold_locales (auto simp: mem_defs update_conv' delete_conv')

interpretation mem_skills:
  keyed_store_del mem_skills_get "\<lambda>m (_ :: unit). mem_skills_upsert m" skill_id "\<lambda>_. True" mem_skills_delete
  by unfold_locales (auto simp: mem_defs update_conv' delete_conv')

interpretation mem_tasks:
  keyed_store_del mem_tasks_get "\<lambda>m (_ :: unit). mem_tasks_upsert m" task_id "\<lambda>_. True" mem_tasks_delete
  by unfold_locales (auto simp: mem_defs update_conv' delete_conv')

interpretation mem_artifacts: keyed_store mem_artifacts_read "\<lambda>m (_ :: unit). mem_artifacts_write m" art_id "\<lambda>_. True"
  by unfold_locales (auto simp: mem_defs update_conv')

interpretation mem_settings: keyed_store mem_settings_get "\<lambda>m (_ :: unit). mem_settings_set m" set_key "\<lambda>_. True"
  by unfold_locales (auto simp: mem_defs update_conv')

text \<open>The message list is a message log.\<close>

definition mem_history :: "mem_backend \<Rightarrow> uuid \<Rightarrow> message list" where
  "mem_history m c = sort_key msg_sequence_num (filter (\<lambda>w. msg_conversation_id w = c) (mb_messages m))"

lemma mem_next_sequence_eq:
  "mem_messages_next_sequence m c =
     Inr (if mem_history m c = [] then 0 else i64_succ (Max (msg_sequence_num ` set (mem_history m c))))"
proof (cases "filter (\<lambda>w. msg_conversation_id w = c) (mb_messages m)")
  case (Cons w ws)
  then have h: "set (mem_history m c) = insert w (set ws)"
    unfolding mem_history_def set_sort by (metis list.simps(15))
  then have "mem_history m c \<noteq> []" by auto
  with Cons h show ?thesis
    by (simp add: mem_messages_next_sequence_def fold_max_Max)
qed (simp add: mem_messages_next_sequence_def mem_history_def)

definition mem_next_sequence_of :: "mem_backend \<Rightarrow> uuid \<Rightarrow> int" where
  "mem_next_sequence_of m c = projr (mem_messages_next_sequence m c)"

lemma mem_next_sequence_above:
  assumes "0 \<le> mem_next_sequence_of m c" and "w \<in> set (mem_history m c)"
  shows "msg_sequence_num w < mem_next_sequence_of m c"
proof -
  have "msg_sequence_num w \<le> Max (msg_sequence_num ` set (mem_history m c))"
    using assms(2) by simp
  with assms show ?thesis
    by (auto simp: mem_next_sequence_of_def mem_next_sequence_eq i64_succ_def split: if_splits)
qed

interpretation mem_messages:
  message_log mem_history "\<lambda>m (_ :: unit). mem_messages_append m" mem_next_sequence_of
    "\<lambda>m i. i \<in> msg_id ` set (mb_messages m)" "\<lambda>_. True"
proof unfold_locales
  fix s :: mem_backend and n :: unit and m s' c
  assume app: "mem_messages_append s m = Inr s'" and pos: "0 \<le> msg_sequence_num m"
    and sq: "msg_sequence_num m = mem_next_sequence_of s (msg_conversation_id m)"
  have "msg_sequence_num w \<le> msg_sequence_num m"
    if "w \<in> set (mb_messages s)" "msg_conversation_id w = msg_conversation_id m" for w
    using mem_next_sequence_above [of s "msg_conversation_id m" w] pos sq that by (auto simp: mem_history_def)
  then show "mem_history s' c = (if c = msg_conversation_id m then mem_history s c @ [m] else mem_history s c)"
    using app by (auto simp: mem_messages_append_def mem_history_def intro!: sort_key_snoc)
qed (auto simp: mem_messages_append_def mem_next_sequence_above)

section \<open>Agreement with the encrypted store\<close>

text \<open>The calls that change either store in the same way. The number is the nonce that the encrypted
  store draws.\<close>

datatype store_op =
  OpConversation nonce conversation | OpDropConversation uuid
| OpMessage nonce message
| OpMemory nonce memory_record | OpDropMemory uuid
| OpSkill nonce skill | OpDropSkill uuid
| OpTask nonce task_item | OpDropTask uuid
| OpArtifact nonce artifact
| OpSetting nonce setting

fun sql_op :: "backend \<Rightarrow> store_op \<Rightarrow> contract_error + backend" where
  "sql_op b (OpConversation n v) = conversations_upsert b n v"
| "sql_op b (OpDropConversation i) = conversations_delete b i"
| "sql_op b (OpMessage n v) = messages_append b n v"
| "sql_op b (OpMemory n v) = memory_upsert b n v"
| "sql_op b (OpDropMemory i) = memory_delete b i"
| "sql_op b (OpSkill n v) = skills_upsert b n v"
| "sql_op b (OpDropSkill i) = skills_delete b i"
| "sql_op b (OpTask n v) = tasks_upsert b n v"
| "sql_op b (OpDropTask i) = tasks_delete b i"
| "sql_op b (OpArtifact n v) = artifacts_write b n v"
| "sql_op b (OpSetting n v) = settings_set b n v"

fun mem_op :: "mem_backend \<Rightarrow> store_op \<Rightarrow> contract_error + mem_backend" where
  "mem_op m (OpConversation n v) = mem_conversations_upsert m v"
| "mem_op m (OpDropConversation i) = mem_conversations_delete m i"
| "mem_op m (OpMessage n v) = mem_messages_append m v"
| "mem_op m (OpMemory n v) = mem_memory_upsert m v"
| "mem_op m (OpDropMemory i) = mem_memory_delete m i"
| "mem_op m (OpSkill n v) = mem_skills_upsert m v"
| "mem_op m (OpDropSkill i) = mem_skills_delete m i"
| "mem_op m (OpTask n v) = mem_tasks_upsert m v"
| "mem_op m (OpDropTask i) = mem_tasks_delete m i"
| "mem_op m (OpArtifact n v) = mem_artifacts_write m v"
| "mem_op m (OpSetting n v) = mem_settings_set m v"

fun run_ops :: "('s \<Rightarrow> store_op \<Rightarrow> contract_error + 's) \<Rightarrow> 's \<Rightarrow> store_op list \<Rightarrow> contract_error + 's" where
  "run_ops f s [] = Inr s"
| "run_ops f s (p # ps) = and_then (f s p) (\<lambda>s'. run_ops f s' ps)"

text \<open>The encrypted store replaces a message appended under an identifier it holds, the double keeps
  both: they agree on messages with identifiers of their own.\<close>

fun message_ids :: "store_op list \<Rightarrow> uuid list" where
  "message_ids [] = []"
| "message_ids (OpMessage n v # ps) = msg_id v # message_ids ps"
| "message_ids (_ # ps) = message_ids ps"

definition same_reads :: "backend \<Rightarrow> mem_backend \<Rightarrow> bool" where
  "same_reads b m \<longleftrightarrow>
     (\<forall>i. conversations_get b i = mem_conversations_get m i \<and> memory_get b i = mem_memory_get m i \<and>
          skills_get b i = mem_skills_get m i \<and> tasks_get b i = mem_tasks_get m i \<and>
          artifacts_read b i = mem_artifacts_read m i) \<and>
     (\<forall>k. settings_get b k = mem_settings_get m k)"

definition mem_ok :: "mem_backend \<Rightarrow> bool" where
  "mem_ok m \<longleftrightarrow>
     distinct (map fst (mb_conversations m)) \<and> (\<forall>(i, v) \<in> set (mb_conversations m). i = conv_id v)"

definition agree :: "backend \<Rightarrow> mem_backend \<Rightarrow> bool" where
  "agree b m \<longleftrightarrow> backend_ok b \<and> mem_ok m \<and> same_reads b m \<and> stored_messages b = mb_messages m"

text \<open>What an operation does not touch.\<close>

lemmas write_defs =
  conversations_upsert_def messages_append_def memory_upsert_def skills_upsert_def tasks_upsert_def
  artifacts_write_def settings_set_def

lemma sql_frames:
  assumes "sql_op b p = Inr b'"
  shows "(\<forall>n v. p \<noteq> OpConversation n v) \<and> (\<forall>i. p \<noteq> OpDropConversation i) \<Longrightarrow> conversations_get b' = conversations_get b"
    and "(\<forall>n v. p \<noteq> OpMemory n v) \<and> (\<forall>i. p \<noteq> OpDropMemory i) \<Longrightarrow> memory_get b' = memory_get b"
    and "(\<forall>n v. p \<noteq> OpSkill n v) \<and> (\<forall>i. p \<noteq> OpDropSkill i) \<Longrightarrow> skills_get b' = skills_get b"
    and "(\<forall>n v. p \<noteq> OpTask n v) \<and> (\<forall>i. p \<noteq> OpDropTask i) \<Longrightarrow> tasks_get b' = tasks_get b"
    and "(\<forall>n v. p \<noteq> OpArtifact n v) \<Longrightarrow> artifacts_read b' = artifacts_read b"
    and "(\<forall>n v. p \<noteq> OpSetting n v) \<Longrightarrow> settings_get b' = settings_get b"
    and "(\<forall>n v. p \<noteq> OpMessage n v) \<Longrightarrow> stored_messages b' = stored_messages b"
  using assms
  by (cases p; auto simp: write_defs delete_defs get_defs stored_messages_def seal_frames fun_eq_iff)+

lemma sql_op_ok: "backend_ok b \<Longrightarrow> sql_op b p = Inr b' \<Longrightarrow> backend_ok b'"
  by (cases p)
    (auto intro: conversations_upsert_ok messages_append_ok memory_upsert_ok skills_upsert_ok tasks_upsert_ok
      artifacts_write_ok settings_set_ok deletes_ok)

lemmas sql_reads =
  conversations_get_upsert memory_get_upsert skills_get_upsert tasks_get_upsert artifacts_read_write settings_get_set
  gets_after_delete

lemma mem_op_total: "\<exists>m'. mem_op m p = Inr m'"
  by (cases p) (auto simp: mem_defs mem_messages_append_def)

lemma in_alist_update: "x \<in> set (AList.update k v al) \<Longrightarrow> x = (k, v) \<or> x \<in> set al"
  by (induction al) (auto split: if_splits)

lemma mem_op_ok: "mem_ok m \<Longrightarrow> mem_op m p = Inr m' \<Longrightarrow> mem_ok m'"
proof (cases p)
  case (OpConversation n v)
  moreover assume "mem_ok m" "mem_op m p = Inr m'"
  ultimately show ?thesis
    by (fastforce simp: mem_ok_def mem_defs distinct_update dest: in_alist_update)
next
  case (OpDropConversation i)
  moreover assume "mem_ok m" "mem_op m p = Inr m'"
  ultimately show ?thesis
    by (auto simp: mem_ok_def mem_defs AList.delete_eq distinct_map_filter)
qed (auto simp: mem_ok_def mem_defs mem_messages_append_def)

lemma same_reads_step:
  assumes "backend_ok b" and "same_reads b m" and "sql_op b p = Inr b'" and "mem_op m p = Inr m'"
  shows "same_reads b' m'"
proof (cases p)
qed (use assms in \<open>auto simp: same_reads_def sql_frames [OF assms(3)] mem_defs sql_reads update_conv' delete_conv' mem_messages_append_def\<close>)

lemma same_messages_step:
  assumes "backend_ok b" and "stored_messages b = mb_messages m" and "sql_op b p = Inr b'" and "mem_op m p = Inr m'"
    and "\<forall>i \<in> set (message_ids [p]). i \<notin> msg_id ` set (mb_messages m)"
  shows "stored_messages b' = mb_messages m'"
proof (cases p)
  case (OpMessage n v)
  then have "filter (\<lambda>w. msg_id w \<noteq> msg_id v) (mb_messages m) = mb_messages m"
    using assms(5) by (intro filter_True) (auto simp: image_iff)
  with OpMessage assms(2-4) stored_messages_append [OF assms(1), of n v b'] show ?thesis
    by (auto simp: mem_messages_append_def)
qed (use assms in \<open>auto simp: sql_frames(7) [OF assms(3)] mem_defs\<close>)

lemma message_ids_Cons: "message_ids (p # ps) = message_ids [p] @ message_ids ps"
  by (cases p) auto

lemma messages_after_op: "mem_op m p = Inr m' \<Longrightarrow> msg_id ` set (mb_messages m') = msg_id ` set (mb_messages m) \<union> set (message_ids [p])"
  by (cases p) (auto simp: mem_defs mem_messages_append_def)

lemma agree_run:
  assumes "agree b m" and "run_ops sql_op b ps = Inr b'" and "distinct (message_ids ps)"
    and "set (message_ids ps) \<inter> msg_id ` set (mb_messages m) = {}"
  shows "\<exists>m'. run_ops mem_op m ps = Inr m' \<and> agree b' m'"
  using assms
proof (induction ps arbitrary: b m)
  case (Cons p ps)
  from Cons.prems(2) obtain b1 where b1: "sql_op b p = Inr b1" "run_ops sql_op b1 ps = Inr b'"
    by (auto simp: and_then_Inr_iff)
  obtain m1 where m1: "mem_op m p = Inr m1" using mem_op_total by blast
  from Cons.prems(1) have ok: "backend_ok b" "mem_ok m" "same_reads b m" "stored_messages b = mb_messages m"
    by (simp_all add: agree_def)
  have "\<forall>i \<in> set (message_ids [p]). i \<notin> msg_id ` set (mb_messages m)"
    using Cons.prems(4) by (auto simp: message_ids_Cons [of p ps])
  then have "agree b1 m1"
    using sql_op_ok [OF ok(1) b1(1)] mem_op_ok [OF ok(2) m1] same_reads_step [OF ok(1,3) b1(1) m1]
      same_messages_step [OF ok(1,4) b1(1) m1] by (simp add: agree_def)
  moreover have "set (message_ids ps) \<inter> msg_id ` set (mb_messages m1) = {}" "distinct (message_ids ps)"
    using Cons.prems(3,4) messages_after_op [OF m1] by (auto simp: message_ids_Cons [of p ps])
  ultimately obtain m' where "run_ops mem_op m1 ps = Inr m'" "agree b' m'"
    using Cons.IH [OF _ b1(2)] by blast
  with m1 show ?case by simp
qed simp

lemma agree_run_new:
  assumes "crypto_ok (sl_env S)" and "codecs_ok K" and "run_ops sql_op (backend_new S K) ps = Inr b"
    and "distinct (message_ids ps)"
  shows "\<exists>m. run_ops mem_op mem_new ps = Inr m \<and> agree b m"
proof -
  have "agree (backend_new S K) mem_new"
    using backend_new_ok [OF assms(1,2)]
    by (simp add: agree_def mem_ok_def same_reads_def mem_new_def mem_defs get_defs backend_new_def
        stored_messages_def records_of_def select_by_id_def fetch_one_def)
  from agree_run [OF this assms(3,4)] show ?thesis by (simp add: mem_new_def)
qed

text \<open>What follows for the queries.\<close>

lemma sql_limit_take: "unat limit < 2 ^ 63 \<Longrightarrow> sql_limit limit xs = take (unat limit) xs"
  using sql_limit_of_nat [of "unat limit" xs] by simp

lemma agree_messages:
  assumes "agree b m"
  shows "messages_next_sequence b c = mem_messages_next_sequence m c"
    and "unat limit < 2 ^ 63 \<Longrightarrow> messages_range b c limit = mem_messages_range m c limit"
proof -
  have "history_of b c = mem_history m c" and ok: "backend_ok b"
    using assms by (simp_all add: agree_def history_of_def mem_history_def)
  then show "messages_next_sequence b c = mem_messages_next_sequence m c"
      "unat limit < 2 ^ 63 \<Longrightarrow> messages_range b c limit = mem_messages_range m c limit"
    by (simp_all add: next_sequence_eq [OF ok] mem_next_sequence_eq messages_range_eq [OF ok]
        mem_messages_range_def mem_history_def sql_limit_take)
qed

text \<open>Without ties, every order of the rows that the query allows is the double's.\<close>

lemma agree_rows:
  assumes "agree b m" and "inj_on msg_sequence_num {w \<in> set (stored_messages b). msg_conversation_id w = c}"
    and "mset rows = mset (filter (\<lambda>w. msg_conversation_id w = c) (stored_messages b))"
    and "sorted (map msg_sequence_num rows)"
  shows "mem_messages_range m c limit = Inr (take (unat limit) rows)"
proof -
  have "sort_key msg_sequence_num (filter (\<lambda>w. msg_conversation_id w = c) (stored_messages b)) = rows"
    using assms(2-4) by (intro sort_key_inj_key_eq) simp_all
  with assms(1) show ?thesis by (simp add: mem_messages_range_def agree_def)
qed

lemma stored_conversations_distinct: "backend_ok b \<Longrightarrow> distinct (map conv_id (stored_conversations b))"
proof -
  assume ok: "backend_ok b"
  note t = conversations_table [OF ok]
  have "map row_id (t_conversations b) = map (ustr b) (map conv_id (stored_conversations b))"
    using table_okD(2) [OF t] by (simp add: stored_conversations_def records_of_def)
  moreover have "distinct (map row_id (t_conversations b))"
    using t by (simp add: table_ok_def)
  ultimately have "distinct (map (ustr b) (map conv_id (stored_conversations b)))" by (simp only:)
  then show ?thesis by (rule distinct_map [THEN iffD1, THEN conjunct1])
qed

lemma find_key_iff:
  "distinct (map f xs) \<Longrightarrow> find (\<lambda>x. f x = k) xs = Some x \<longleftrightarrow> x \<in> set xs \<and> f x = k"
  by (induction xs) (auto simp: image_iff)

lemma agree_same_conversations:
  assumes "agree b m"
  shows "mset (stored_conversations b) = mset (map snd (mb_conversations m))"
proof -
  from assms have ok: "backend_ok b" and mok: "mem_ok m" and get: "\<And>i. conversations_get b i = mem_conversations_get m i"
    by (auto simp: agree_def same_reads_def)
  note d = stored_conversations_distinct [OF ok]
  have "c \<in> set (stored_conversations b) \<longleftrightarrow> map_of (mb_conversations m) (conv_id c) = Some c" for c
    using get [of "conv_id c"] find_key_iff [OF d, of "conv_id c" c]
    by (auto simp: conversations_get_stored [OF ok] mem_conversations_get_def)
  also have "\<And>c. map_of (mb_conversations m) (conv_id c) = Some c \<longleftrightarrow> c \<in> snd ` set (mb_conversations m)"
    using mok by (force simp: mem_ok_def dest: map_of_SomeD)
  finally have "set (stored_conversations b) = set (map snd (mb_conversations m))" by auto
  moreover have "map conv_id (map snd (mb_conversations m)) = map fst (mb_conversations m)"
    using mok by (auto simp: mem_ok_def)
  then have "distinct (map conv_id (map snd (mb_conversations m)))"
    using mok by (simp only: mem_ok_def)
  then have "distinct (map snd (mb_conversations m))"
    by (rule distinct_map [THEN iffD1, THEN conjunct1])
  ultimately show ?thesis
    using d [THEN distinct_map [THEN iffD1, THEN conjunct1]] by (blast intro: set_eq_iff_mset_eq_distinct [THEN iffD1])
qed

lemma agree_conversations_list:
  assumes "agree b m" and "unat limit < 2 ^ 63" and "\<And>xs. mset (order xs) = mset xs"
    and "inj_on updated_millis (set (stored_conversations b))"
  shows "conversations_list b limit = mem_conversations_list order m limit"
proof -
  let ?vs = "order (map snd (mb_conversations m))"
  let ?ys = "sort_key (\<lambda>c. - conv_updated_at c) ?vs"
  have ms: "mset (stored_conversations b) = mset ?ys"
    using agree_same_conversations [OF assms(1)] assms(3) by simp
  have "sorted_wrt (\<lambda>x y. - conv_updated_at x \<le> - conv_updated_at y) ?ys"
    using sorted_sort_key [of "\<lambda>c. - conv_updated_at c" ?vs] by (simp add: sorted_map)
  then have "sorted (map (\<lambda>c. - updated_millis c) ?ys)"
    unfolding sorted_map by (rule sorted_wrt_mono_rel [rotated]) (simp add: timestamp_millis_def zdiv_mono1)
  moreover have "inj_on (\<lambda>c. - updated_millis c) (set (stored_conversations b))"
    using assms(4) by (simp add: inj_on_def)
  ultimately have "sort_key (\<lambda>c. - updated_millis c) (stored_conversations b) = ?ys"
    using sort_key_inj_key_eq [OF ms] by blast
  then show ?thesis
    using assms(1,2) by (simp add: conversations_list_eq agree_def mem_conversations_list_def sql_limit_take)
qed

section \<open>Where the double differs\<close>

text \<open>Of several live grants of a subject the double answers with the oldest, the encrypted store with
  the newest.\<close>

lemma double_checks_oldest_grant:
  assumes "pg_subject g = subject" and "pg_revoked_at g = None"
    and "\<forall>h \<in> set (mb_grants m). pg_subject h \<noteq> subject \<or> pg_revoked_at h \<noteq> None"
    and "mem_permissions_grant m g = Inr m1" and "mem_permissions_grant m1 g' = Inr m2"
  shows "mem_permissions_check m2 subject scope = Inr (Some g)"
proof -
  have "find P (xs @ [g, g']) = Some g" if "\<forall>x \<in> set xs. \<not> P x" "P g" for P and xs :: "permission_grant list"
    using that by (induction xs) auto
  with assms show ?thesis
    by (auto simp: mem_permissions_check_def mem_permissions_grant_def)
qed

text \<open>A revocation shows in the double's list; in the encrypted store's it does not.\<close>

lemma double_lists_revocation:
  assumes "mem_permissions_grant mem_new g = Inr m" and "mem_permissions_revoke now m (pg_grant_id g) = Inr m'"
  shows "mem_permissions_list m' = Inr [g\<lparr>pg_revoked_at := Some now\<rparr>]"
  using assms by (auto simp: mem_permissions_list_def mem_permissions_revoke_def mem_permissions_grant_def mem_new_def)

text \<open>A search for no records finds none in the double, and the first match in the encrypted store.\<close>

lemma search_for_none:
  assumes "agree b m" and "v \<in> set (stored_memory b)" and "memory_matches b query v"
  shows "mem_semantic_search low order m query None 0 = Inr []"
    and "\<exists>w. memory_semantic_search b query None 0 = Inr [w]"
proof -
  show "mem_semantic_search low order m query None 0 = Inr []"
    by (simp add: mem_semantic_search_def)
  have "filter (memory_matches b query) (stored_memory b) \<noteq> []"
    using assms(2,3) by (auto simp: filter_empty_conv)
  then show "\<exists>w. memory_semantic_search b query None 0 = Inr [w]"
    using assms(1) semantic_search_spec [of b query None 0]
    by (cases "filter (memory_matches b query) (stored_memory b)") (auto simp: agree_def)
qed

section \<open>Properties\<close>

text \<open>C16: the tests' store answers as the encrypted one. Let the cryptography and the codecs of the
  encrypted store behave as documented, and let any operations on conversations, messages, memory,
  skills, tasks, artifacts and settings succeed on a new encrypted store, with no message identifier
  appended twice. Then they succeed on the store in memory, and afterwards every read under a key and
  every next sequence number is the same in both. For limits below \<open>2 ^ 63\<close>, which SQLite takes as they
  are, the range of a conversation in which no two messages have the same sequence number is the same
  in both, in whatever order the query takes its rows; and the list of conversations is the same,
  however the hash map orders them, when no two were updated in the same millisecond.\<close>

theorem test_store_agrees:
  assumes "crypto_ok (sl_env S)" and "codecs_ok K" and "run_ops sql_op (backend_new S K) ps = Inr b"
    and "distinct (message_ids ps)" and "unat limit < 2 ^ 63" and "\<And>xs. mset (order xs) = mset xs"
  shows "\<exists>m. run_ops mem_op mem_new ps = Inr m \<and>
    conversations_get b i = mem_conversations_get m i \<and> memory_get b i = mem_memory_get m i \<and>
    skills_get b i = mem_skills_get m i \<and> tasks_get b i = mem_tasks_get m i \<and>
    artifacts_read b i = mem_artifacts_read m i \<and> settings_get b k = mem_settings_get m k \<and>
    messages_next_sequence b i = mem_messages_next_sequence m i \<and>
    (inj_on msg_sequence_num {w \<in> set (stored_messages b). msg_conversation_id w = i} \<longrightarrow>
       messages_range b i limit = mem_messages_range m i limit \<and>
       (\<forall>rows. mset rows = mset (filter (\<lambda>w. msg_conversation_id w = i) (stored_messages b)) \<and>
          sorted (map msg_sequence_num rows) \<longrightarrow> mem_messages_range m i limit = Inr (take (unat limit) rows))) \<and>
    (inj_on updated_millis (set (stored_conversations b)) \<longrightarrow>
       conversations_list b limit = mem_conversations_list order m limit)"
proof -
  obtain m where m: "run_ops mem_op mem_new ps = Inr m" "agree b m"
    using agree_run_new [OF assms(1-4)] by blast
  then show ?thesis
    using agree_messages [OF m(2)] agree_rows [OF m(2)] agree_conversations_list [OF m(2) assms(5,6)] assms(5)
    by (auto simp: agree_def same_reads_def)
qed

theorem test_store_agrees_witness:
  "\<exists>b m. run_ops sql_op demo_backend
      [OpConversation 0 (demo_conversation 1 5000000), OpConversation 0 (demo_conversation 2 9000000),
       OpMessage 0 (demo_message 1 7 0 ''hi''), OpDropConversation 1] = Inr b \<and>
    run_ops mem_op mem_new
      [OpConversation 0 (demo_conversation 1 5000000), OpConversation 0 (demo_conversation 2 9000000),
       OpMessage 0 (demo_message 1 7 0 ''hi''), OpDropConversation 1] = Inr m \<and>
    conversations_get b 2 = Inr (Some (demo_conversation 2 9000000)) \<and> mem_conversations_get m 2 = conversations_get b 2 \<and>
    messages_range b 7 1 = Inr [demo_message 1 7 0 ''hi''] \<and>
    conversations_list b 1 = mem_conversations_list rev m 1"
proof -
  let ?c1 = "demo_conversation 1 5000000" and ?c2 = "demo_conversation 2 9000000" and ?w = "demo_message 1 7 0 ''hi''"
  let ?ps = "[OpConversation 0 ?c1, OpConversation 0 ?c2, OpMessage 0 ?w, OpDropConversation 1]"
  have ids: "conv_id ?c1 = 1" "conv_id ?c2 = 2" "msg_id ?w = 1" "msg_conversation_id ?w = 7"
    by (simp_all add: demo_conversation_def conversation_new_def demo_message_def message_text_def)
  obtain e1 e2 e3 where
      "seal demo_sealer (list_codec [?c1, ?c2]) 0 ''conversations'' (ustr demo_backend 1) ?c1 = Inr e1"
      "seal demo_sealer (list_codec [?c1, ?c2]) 0 ''conversations'' (ustr demo_backend 2) ?c2 = Inr e2"
      "seal demo_sealer (list_codec [?w, demo_message 2 7 1 ''there'']) 0 ''messages'' (ustr demo_backend 1) ?w = Inr e3"
    using demo_seal [of ?c1 "[?c1, ?c2]"] demo_seal [of ?c2 "[?c1, ?c2]"]
      demo_seal [of ?w "[?w, demo_message 2 7 1 ''there'']"] by fastforce
  then obtain b where b: "run_ops sql_op demo_backend ?ps = Inr b"
    by (simp add: conversations_upsert_def conversations_delete_def messages_append_def ids Let_def)
  have ok: "crypto_ok (sl_env (be_sealer demo_backend))" "codecs_ok (be_codecs demo_backend)"
    using demo_backend_is_ok by (simp_all add: backend_ok_def)
  have new: "demo_backend = backend_new (be_sealer demo_backend) (be_codecs demo_backend)"
    by (simp add: demo_backend_def backend_new_def)
  have m: "run_ops mem_op mem_new ?ps = Inr (mem_new\<lparr>mb_conversations := [(2, ?c2)], mb_messages := [?w]\<rparr>)"
    by (simp add: mem_new_def mem_defs mem_messages_append_def ids AList.delete_eq)
  have b': "run_ops sql_op (backend_new (be_sealer demo_backend) (be_codecs demo_backend)) ?ps = Inr b"
    using b by (simp only: new [symmetric])
  from agree_run_new [OF ok b'] m have g: "agree b (mem_new\<lparr>mb_conversations := [(2, ?c2)], mb_messages := [?w]\<rparr>)"
    by (auto simp: ids)
  then have w: "stored_messages b = [?w]" and c: "mset (stored_conversations b) = {#?c2#}"
    using agree_same_conversations [OF g] by (simp_all add: agree_def mem_new_def)
  have inj: "inj_on updated_millis (set (stored_conversations b))" using c by (cases "stored_conversations b") auto
  from test_store_agrees [OF ok b', of 1 rev 2] m ids inj
  have 1: "conversations_get b 2 = Inr (Some ?c2) \<and> conversations_list b 1 =
      mem_conversations_list rev (mem_new\<lparr>mb_conversations := [(2, ?c2)], mb_messages := [?w]\<rparr>) 1"
    by (auto simp: mem_conversations_get_def)
  have inj7: "inj_on msg_sequence_num {w \<in> set (stored_messages b). msg_conversation_id w = 7}"
    by (rule inj_onI) (simp add: w)
  from test_store_agrees [OF ok b', of 1 rev 7] m ids inj7
  have 2: "messages_range b 7 1 = Inr [?w]"
    by (auto simp: mem_messages_range_def)
  show ?thesis
    using b m 1 2 by (simp add: mem_conversations_get_def)
qed

end
