(* ===== verification/Spec2Isabelle.thy ===== *)
theory Spec2Isabelle
  imports Store_Laws Audit_Log Router Engine_Laws Engine_Values Session Pairing Peers Bus
    Transport Subagent Builtins Computer_Use File_Search Hosted_Calls Hosted_Requests Web_Tools
    Process_Tools Local_Runtime Mcp_Client Ffi_Handle Programs Mem_Backend
begin

text \<open>
  Mahi is a personal agent. This development models its Rust core, crate by crate, and proves what
  makes each part correct and what the parts promise each other.

  The program. A surface (the macOS app through \<open>mahi-ffi\<close>, a command-line client) starts a turn of
  the agent engine (\<open>mahi-agent-core\<close>). A turn loads the conversation from the encrypted store
  (\<open>mahi-data\<close>), assembles a context, asks an inference provider (\<open>mahi-compute\<close>: the mode router, the
  on-device stand-in, hosted HTTP models, a managed local server), streams the answer to the
  surface, and runs the tool calls of the model through the tool registry (\<open>mahi-tooling\<close>: files,
  shell, code, web, computer use, MCP servers, connectors), asking the surface for an approval where
  the tool requires one and writing an audit event for each result. Devices pair, hold sessions and
  exchange envelopes over a multiplexed bus (\<open>mahi-connectivity\<close>). The types and traits between
  these parts are \<open>mahi-contracts\<close>.

  How the code is modelled. Structs are records, enums datatypes, \<open>Result\<close> the sum type with the
  error on the left, machine integers words. A pure function is a function; stateful code passes its
  state; a task that awaits, or several tasks over shared state, are step functions or step
  relations whose steps are the pieces of code between two awaits or locks. Everything is
  executable, and each theorem with hypotheses has a witness evaluated on a concrete input. Code
  outside the repository is a parameter: serde encodings, AES-GCM, HKDF, SHA-256 and HMAC
  (with the laws the code relies on as the named hypotheses \<open>crypto_ok\<close>, \<open>codecs_ok\<close>,
  \<open>mcp_codec_ok\<close>), the clock and random ids, the operating system and HTTP (as the outcomes of the
  calls, all possible ones).

  The theories, and the code they model, under \<open>src/crates\<close> where nothing else is said:

  \<^item> \<open>Prelude\<close>: words, byte strings, \<open>Result\<close>, the string functions of the standard library,
    ordered maps. \<open>Contracts\<close>: \<open>mahi-contracts/src\<close> (types, errors, tooling, data, compute, agent,
    connectivity) and JSON values.
  \<^item> \<open>Sealing\<close>, \<open>Store_Spec\<close>, \<open>Store\<close>, \<open>Instances\<close>, \<open>Store_Laws\<close>, \<open>Audit_Log\<close>: \<open>mahi-data/src\<close>
    (\<open>crypto.rs\<close>, \<open>keystore.rs\<close>, \<open>store.rs\<close>). A table is a list of sealed rows. The locales
    \<open>keyed_store\<close>, \<open>keyed_store_del\<close> and \<open>message_log\<close> are the contracts of the store traits; every
    table interprets one. Shown: the sealed tables refine finite maps, a message appended under the
    next sequence number extends its conversation only, a log that was only appended to verifies and
    reads back, a changed payload is detected, an excised event is not.
  \<^item> \<open>Router\<close>: \<open>mahi-compute/src/{router,capability,on_device}.rs\<close>. The locale
    \<open>inference_provider\<close> is the contract of a provider; the router, the on-device stand-in, both
    hosted providers, the local provider and the provider of the app's handle interpret it. Shown: a
    pinned mode is used or the request fails.
  \<^item> \<open>Hosted_Stream\<close>, \<open>Hosted_Calls\<close>, \<open>Hosted_Requests\<close>: \<open>mahi-compute/src/hosted\<close>. The locale
    \<open>sse_contract\<close> is what the stream loop needs of a parser; both parsers interpret it. Shown: the
    tool calls of a model survive the wire, on the Anthropic wire those with input (a call without it
    is lost, which is a theorem), requests carry the whole tool dialogue, streams are terminated and
    cut by cancellation as they should.
  \<^item> \<open>Local_Models\<close>, \<open>Local_Runtime\<close>: \<open>mahi-compute/src/local\<close>: catalog, provider, downloads,
    the managed server. The runtime directory holds the zip, its partial download and the scratch
    directory beside the installed files; the unpacked release is a tree that \<open>find_file_named\<close> walks.
    Shown: a model's file is never the partial download of one version, an undisturbed download
    completes, a resumed one may splice two versions, a server that is handed out answered on its own
    health URL and is local, and a copy that broke off is later taken for an installed server.
  \<^item> \<open>Approval\<close>, \<open>Seams\<close>, \<open>Context\<close>, \<open>Engine\<close>: \<open>mahi-agent-core/src/{approval,context,engine}.rs\<close>.
    A turn is a computation over a world of abstract seams; at every await of the code the surface
    acts (answers an approval, cancels, resizes the context window). \<open>Turn_Logic\<close> is a Hoare logic for it with the locale
    \<open>turn_log\<close>, \<open>Demo_Turn\<close> evaluates two turns, \<open>Engine_Laws\<close> and \<open>Engine_Values\<close> hold the laws:
    a gated tool runs only past an approval, a tool result is audited first, events are framed,
    inference rounds are bounded, what was streamed is persisted, tool calls are assembled exactly,
    and what is invoked is a call recorded in the conversation.
    \<open>Subagent\<close>: \<open>subagent.rs\<close>, the fan-out with its semaphore of \<open>max_concurrent\<close> permits; a goal that
    finishes has the result of \<open>run_one_subagent\<close> from some state of the shared store.
  \<^item> \<open>Registry\<close>, \<open>Builtins\<close>: \<open>mahi-tooling/src/{tool,registry,connector}.rs\<close>, \<open>mcp/adapter.rs\<close> and
    the descriptors of all built-in tools. The locale \<open>tool_contract\<close> says that what is listed is
    what runs. \<open>File_Scope\<close>, \<open>File_Tools\<close>, \<open>File_Search\<close>: \<open>tools/file.rs\<close> over a file system with
    symbolic links. \<open>Process_Tools\<close>: \<open>tools/{process,shell,run_code,apple_script}.rs\<close>.
    \<open>Web_Tools\<close>: \<open>tools/web.rs\<close>. \<open>Computer_Use\<close>: \<open>computer.rs\<close>, \<open>tools/computer_use.rs\<close>.
    \<open>Mcp_Client\<close>: \<open>mcp/{protocol,config,client,mod}.rs\<close>, requests, reader and timeouts as
    interleaved steps. Shown: the path sandbox, exactness of edits and searches, the shape of child
    streams and their caps, the sensitive-context guard, answers matched to their requests.
  \<^item> \<open>Session\<close>, \<open>Pairing\<close>, \<open>Peers\<close>, \<open>Bus\<close>, \<open>Transport\<close>: \<open>mahi-connectivity/src\<close>. The locale
    \<open>priority_bus\<close> is shared by the in-process and the TCP bus. The wall clock of the sessions may go
    back, the monotonic one not; \<open>set_controlling\<close> checks and updates under two locks, which are two
    steps. A connection may break after any number of bytes, and the history of a TCP bus records what
    was accepted, written and lost. Shown: killed sessions stay dead, and expired ones while the
    clock does not go back, a token validates exactly while its session lives and altering it means a MAC
    collision, a pairing code admits one attempt, control traffic leaves first and in order, the peer
    reads what was written, and at most the envelope that ended the writer is lost.
  \<^item> \<open>Turn_Mode\<close>, \<open>Ffi_Turn\<close>, \<open>Ffi_Handle\<close>: \<open>mahi-ffi/src/lib.rs\<close>, the surface of the macOS app. The
    queue between a turn and the polls of the app is a step machine with the permit of \<open>Notify\<close>; the
    handle with its provider slot, server, downloads and hosted configuration is a step relation: a
    call or a background task is a list of updates, one for each lock the code takes, and the updates
    of several interleave as the lock of the local slot allows. Shown: the app receives the events
    of the engine's turn whole and in order, no wake-up is lost, the model reported is the model in
    use and alive as long as the updates of two calls or tasks do not overlap (with an overlap they
    may not be, which is a theorem), and a turn stays in its mode whatever providers are swapped in meanwhile
    (\<open>Turn_Mode\<close> proves it of the engine).
  \<^item> \<open>Programs\<close>: \<open>src/bins\<close>. The handlers of the daemon's OpenAI-compatible API and the loop of the
    command line over the lines of its input. Shown: what the daemon streams, the provider of another
    device reads back, without errors and finish reasons; the command line approves a tool only on a
    line that says yes, and its loop ends.
  \<^item> \<open>Mem_Backend\<close>: \<open>mahi-contracts/src/testkit.rs\<close>. The store in memory interprets the same store
    contracts, and agrees with the encrypted store after the same successful operations, for messages
    with their own identifiers and orders without ties; the lemmas on where it does not (which grant answers, revocations in a list, a search for no records) are stated too.

  Bounds and fuel. The constants are those of the code: \<open>MAX_TOOL_STEPS\<close> is 8 inference rounds,
  \<open>MAX_CONCURRENT_SUBAGENTS\<close> bounds the fan-out, \<open>MAX_FRAME_LEN\<close> a frame, \<open>MAX_CAPTURE_BYTES\<close> a
  transcript, \<open>MAX_BODY_BYTES\<close> a fetched page, and the sandbox follows at most \<open>MAX_SYMLINKS\<close> = 40
  symbolic links, as the operating system does. Loops are structural or proved to terminate. The walk
  of a file search ends by the measure \<open>search_fuel\<close>, its open directories and the entries it may
  still visit. A download goes round its loop at most twice (a refused range restarts it once), so that loop is
  written with its flag. Loops that wait (the health check, a process pump, the bus) consume the list
  of what the outside world does, and what they do when it is long enough is a theorem: 481 health
  polls 250 ms apart always decide a start.

  Not modelled. The macOS application is Swift. Of \<open>mahi-ffi\<close>, the constructor's opening of the store
  and mounting of connectors, and the calls that only forward to the engine; of \<open>src/bins\<close>, the
  parsing of arguments and the HTTP server, which are libraries. \<open>pick_free_port\<close> of the local runtime
  appears as the outcome of its operating-system calls. Logging has no effect on state. Argument
  deserialisation of the tools is serde's and a parameter. Lock poisoning is left out: it takes a panic
  while a lock is held.

  Where the model is coarser than the code. Rows with equal keys come in the order of their row numbers,
  which SQL leaves open; the properties ask for keys without ties. The file system of the file tools has
  files, directories and links, no FIFOs or sockets. A write of a download that fails is complete or
  absent, though \<open>tokio\<close> may still have one in flight. A download runs to its end before the next one
  of the same model; what two at a time may do is a lemma on the handle. The shutdown of an MCP client
  is one step, and so is the start of a local server for the handle.
\<close>

end
